(* ===== verification/Prelude.thy ===== *)
theory Prelude
  imports Main "HOL-Library.Word"
begin

text \<open>
  Shared vocabulary of the development: the machine integer types of the pool server, the faults a
  C++ operation can run into, the result type of operations that can fault, checked access to
  vectors and iterator ranges, and the generic facts on lists, options and words that the component
  theories use.
\<close>

unbundle bit_operations_syntax

section \<open>Machine integers and byte vectors\<close>

type_synonym u8 = "8 word"
type_synonym u16 = "16 word"
type_synonym u32 = "32 word"
type_synonym u64 = "64 word"
type_synonym bytes = "u8 list"

named_theorems byte_simps \<open>unfolding of the byte level encoders and decoders\<close>
named_theorems res_simps \<open>evaluation of computations that may fault\<close>
named_theorems len_simps \<open>lengths of encoded data\<close>

section \<open>Faults and results\<close>

text \<open>
  A \<open>fault\<close> is a place where the C++ program has no defined behaviour (an access outside a vector,
  a null pointer, the end iterator, a cast out of range, signed overflow, division by zero),
  stops (a failed \<open>assert\<close>) or throws.
  An operation that can reach such a place returns \<open>Inl\<close> of the fault; \<open>Inr\<close> is a normal return.
\<close>

datatype fault =
    Out_of_range
  | Null_deref
  | End_deref
  | Assert_failed
  | Bad_cast
  | Missing_key
  | Wrong_type
  | Overflow
  | Div_by_zero
  | Exception_thrown
  | Uninitialised

type_synonym 'a res = "fault + 'a"

definition rbind :: "'a res \<Rightarrow> ('a \<Rightarrow> 'b res) \<Rightarrow> 'b res" where
  "rbind m f = (case m of Inl e \<Rightarrow> Inl e | Inr x \<Rightarrow> f x)"

lemma rbind_Inr [simp, res_simps]: "rbind (Inr x) f = f x"
  by (simp add: rbind_def)

lemma rbind_Inl [simp, res_simps]: "rbind (Inl e) f = Inl e"
  by (simp add: rbind_def)

lemma rbind_eq_Inr: "rbind m f = Inr y \<longleftrightarrow> (\<exists>x. m = Inr x \<and> f x = Inr y)"
  by (cases m) auto

lemma rbind_eq_Inl: "rbind m f = Inl e \<longleftrightarrow> m = Inl e \<or> (\<exists>x. m = Inr x \<and> f x = Inl e)"
  by (cases m) auto

lemma rbind_assoc: "rbind (rbind m f) g = rbind m (\<lambda>x. rbind (f x) g)"
  by (cases m) auto

definition is_ok_res :: "'a res \<Rightarrow> bool" where
  "is_ok_res m = (case m of Inl _ \<Rightarrow> False | Inr _ \<Rightarrow> True)"

lemma is_ok_res_simps [simp]: "is_ok_res (Inr x)" "\<not> is_ok_res (Inl e)"
  by (simp_all add: is_ok_res_def)

lemma is_ok_res_iff: "is_ok_res m \<longleftrightarrow> (\<exists>x. m = Inr x)"
  by (cases m) auto

text \<open>\<open>rfold\<close> runs a faulting step over a list, as a \<open>for\<close> loop over a container does.\<close>

fun rfold :: "('a \<Rightarrow> 's \<Rightarrow> 's res) \<Rightarrow> 'a list \<Rightarrow> 's \<Rightarrow> 's res" where
  "rfold f [] s = Inr s"
| "rfold f (x # xs) s = rbind (f x s) (rfold f xs)"

lemma rfold_append: "rfold f (xs @ ys) s = rbind (rfold f xs s) (rfold f ys)"
proof (induction xs arbitrary: s)
  case Nil
  show ?case by simp
next
  case (Cons x xs)
  show ?case by (cases "f x s") (simp_all add: Cons.IH)
qed

lemma rfold_inv:
  assumes "rfold f xs s = Inr t" and "I s"
    and "\<And>x u v. x \<in> set xs \<Longrightarrow> I u \<Longrightarrow> f x u = Inr v \<Longrightarrow> I v"
  shows "I t"
  using assms
proof (induction xs arbitrary: s)
  case Nil
  then show ?case by simp
next
  case (Cons x xs)
  then obtain u where u: "f x s = Inr u" "rfold f xs u = Inr t"
    by (auto simp: rbind_eq_Inr)
  with Cons.prems have "I u" by auto
  with u Cons.prems(3) show ?case by (intro Cons.IH [of u]) auto
qed

section \<open>Vectors and iterator ranges\<close>

text \<open>
  \<open>vec_at v i\<close> is \<open>v[i]\<close> on a \<open>std::vector\<close>; \<open>vec_range a b v\<close> is the vector built from the
  iterators \<open>v.begin() + a\<close> and \<open>v.begin() + b\<close>. The offsets are integers, so that \<open>end() - 8\<close> on
  a shorter vector is the negative offset it is in the code.
\<close>

definition vec_at :: "'a list \<Rightarrow> nat \<Rightarrow> 'a res" where
  "vec_at v i = (if i < length v then Inr (v ! i) else Inl Out_of_range)"

definition vec_range :: "int \<Rightarrow> int \<Rightarrow> 'a list \<Rightarrow> 'a list res" where
  "vec_range a b v =
     (if 0 \<le> a \<and> a \<le> b \<and> b \<le> int (length v)
      then Inr (take (nat b - nat a) (drop (nat a) v)) else Inl Out_of_range)"

lemma vec_at_ok [res_simps]: "i < length v \<Longrightarrow> vec_at v i = Inr (v ! i)"
  by (simp add: vec_at_def)

lemma vec_range_ok [res_simps]:
  "a \<le> b \<Longrightarrow> b \<le> length v \<Longrightarrow>
   vec_range (int a) (int b) v = Inr (take (b - a) (drop a v))"
  by (simp add: vec_range_def)

lemma vec_range_length:
  "vec_range a b v = Inr w \<Longrightarrow> int (length w) = b - a"
  by (auto simp: vec_range_def split: if_splits)

lemma vec_range_append_mid:
  "vec_range (int (length xs)) (int (length xs + length ys)) (xs @ ys @ zs) = Inr ys"
  by (simp add: vec_range_def nat_add_distrib)

lemma vec_range_midI:
  assumes "v = xs @ ys @ zs" and "a = int (length xs)" and "b = a + int (length ys)"
  shows "vec_range a b v = Inr ys"
  using assms vec_range_append_mid [of xs ys zs] by simp

section \<open>Signed machine integers\<close>

text \<open>
  \<open>int\<close> of C++ is a 32 bit integer whose overflow is undefined: \<open>int32\<close> checks the mathematical
  result of an operation. \<open>quot_trunc\<close> is the division of C++, which truncates towards zero.
\<close>

definition int32 :: "int \<Rightarrow> int res" where
  "int32 x = (if - (2 ^ 31) \<le> x \<and> x < 2 ^ 31 then Inr x else Inl Overflow)"

definition quot_trunc :: "int \<Rightarrow> int \<Rightarrow> int" where
  "quot_trunc a b = sgn a * sgn b * (\<bar>a\<bar> div \<bar>b\<bar>)"

lemma int32_ok: "- (2 ^ 31) \<le> x \<Longrightarrow> x < 2 ^ 31 \<Longrightarrow> int32 x = Inr x"
  by (simp add: int32_def)

lemma int32_eq_Inr: "int32 x = Inr y \<longleftrightarrow> y = x \<and> - (2 ^ 31) \<le> x \<and> x < 2 ^ 31"
  by (auto simp: int32_def)

lemma quot_trunc_nonneg: "0 \<le> a \<Longrightarrow> 0 < b \<Longrightarrow> quot_trunc a b = a div b"
  by (cases "a = 0") (simp_all add: quot_trunc_def)

section \<open>Lists and words\<close>

lemma unat_ucast_up:
  fixes x :: "'a::len word"
  assumes "LENGTH('a) \<le> LENGTH('b::len)"
  shows "unat (ucast x :: 'b word) = unat x"
proof -
  have "unat x < 2 ^ LENGTH('a)" by (rule unsigned_less)
  also have "(2::nat) ^ LENGTH('a) \<le> 2 ^ LENGTH('b)" using assms by simp
  finally show ?thesis by (simp add: unsigned_ucast_eq take_bit_nat_eq_self)
qed

lemma unat_ucast_u32_u64: "unat (ucast (x :: u32) :: u64) < 2 ^ 32"
  using unsigned_less [of x, where 'a = nat] by (simp add: unat_ucast_up)

lemma unat_u32_less: "unat (x :: u32) < 2 ^ 32"
  using unsigned_less [of x, where 'a = nat] by simp

lemma unat_u8_less: "unat (x :: u8) < 256"
  using unsigned_less [of x, where 'a = nat] by simp

lemma bit_u8_less: "bit (b :: u8) n \<Longrightarrow> n < 8"
  by (drule bit_imp_le_length) simp

lemma bit_u32_less: "bit (b :: u32) n \<Longrightarrow> n < 32"
  by (drule bit_imp_le_length) simp

definition byte_of_char :: "char \<Rightarrow> u8" where
  "byte_of_char c = word_of_nat (of_char c)"

definition char_of_byte :: "u8 \<Rightarrow> char" where
  "char_of_byte b = char_of (unat b)"

lemma unat_byte_of_char: "unat (byte_of_char c) = of_char c"
  by (simp add: byte_of_char_def unat_of_nat take_bit_nat_eq_self)

lemma char_of_byte_of_char [simp]: "char_of_byte (byte_of_char c) = c"
  by (simp add: char_of_byte_def unat_byte_of_char)

lemma byte_of_char_of_byte [simp]: "byte_of_char (char_of_byte b) = b"
proof -
  have "unat b < 256" using unsigned_less [of b, where 'a = nat] by simp
  then show ?thesis by (simp add: char_of_byte_def byte_of_char_def)
qed

lemma byte_of_char_inj: "byte_of_char c = byte_of_char d \<longleftrightarrow> c = d"
  by (metis char_of_byte_of_char)

lemma nth_update_map: "length xs = n \<Longrightarrow> i < n \<Longrightarrow> (xs[i := v]) ! i = v"
  by simp

lemma foldl_append_singleton: "foldl (\<lambda>a x. a @ f x) a xs = a @ concat (map f xs)"
  by (induction xs arbitrary: a) auto

end
