(* ===== verification/Std_Map.thy ===== *)
theory Std_Map
  imports Prelude "HOL-Library.List_Lexorder" "HOL-Library.Char_ord"
begin

text \<open>
  \<open>std::map<K, V>\<close> as the pool uses it: a finite map whose iteration order is the order of the keys.
  It is the list of its entries in iteration order, sorted strictly by key. The order on
  \<^typ>\<open>string\<close> is the one of \<open>std::string\<close>: lexicographic on the bytes read as unsigned.
  The locale \<open>ordered_map\<close> states what the clients (the coinbase, the credits, the record
  databases, the maps of a miner connection) rely on; it is interpreted on the functions below.
\<close>

section \<open>Operations\<close>

type_synonym ('k, 'v) omap = "('k \<times> 'v) list"

definition om_inv :: "('k::linorder, 'v) omap \<Rightarrow> bool" where
  "om_inv m = sorted_wrt (<) (map fst m)"

definition om_find :: "('k, 'v) omap \<Rightarrow> 'k \<Rightarrow> 'v option" where
  "om_find m k = map_of m k"

definition om_count :: "('k, 'v) omap \<Rightarrow> 'k \<Rightarrow> bool" where
  "om_count m k = (map_of m k \<noteq> None)"

fun om_set :: "'k::linorder \<Rightarrow> 'v \<Rightarrow> ('k, 'v) omap \<Rightarrow> ('k, 'v) omap" where
  "om_set k v [] = [(k, v)]"
| "om_set k v ((k', v') # m) =
     (if k < k' then (k, v) # (k', v') # m
      else if k = k' then (k, v) # m
      else (k', v') # om_set k v m)"

definition om_erase :: "'k \<Rightarrow> ('k, 'v) omap \<Rightarrow> ('k, 'v) omap" where
  "om_erase k m = filter (\<lambda>(k', _). k' \<noteq> k) m"

definition om_keys :: "('k, 'v) omap \<Rightarrow> 'k list" where
  "om_keys m = map fst m"

text \<open>
  \<open>m[k]\<close> as an expression: the value of \<open>k\<close>, after inserting the default value when there is none.
\<close>

definition om_index :: "'v \<Rightarrow> 'k::linorder \<Rightarrow> ('k, 'v) omap \<Rightarrow> 'v \<times> ('k, 'v) omap" where
  "om_index d k m = (case om_find m k of Some v \<Rightarrow> (v, m) | None \<Rightarrow> (d, om_set k d m))"

section \<open>The interface\<close>

locale ordered_map =
  fixes inv :: "'m \<Rightarrow> bool"
    and empty :: "'m"
    and find :: "'m \<Rightarrow> 'k::linorder \<Rightarrow> 'v option"
    and put :: "'k \<Rightarrow> 'v \<Rightarrow> 'm \<Rightarrow> 'm"
    and erase :: "'k \<Rightarrow> 'm \<Rightarrow> 'm"
    and keys :: "'m \<Rightarrow> 'k list"
  assumes inv_empty: "inv empty"
    and inv_put: "inv m \<Longrightarrow> inv (put k v m)"
    and inv_erase: "inv m \<Longrightarrow> inv (erase k m)"
    and find_empty: "find empty k = None"
    and find_put: "inv m \<Longrightarrow> find (put k v m) k' = (if k' = k then Some v else find m k')"
    and find_erase: "inv m \<Longrightarrow> find (erase k m) k' = (if k' = k then None else find m k')"
    and keys_sorted: "inv m \<Longrightarrow> sorted_wrt (<) (keys m)"
    and keys_find: "inv m \<Longrightarrow> k \<in> set (keys m) \<longleftrightarrow> find m k \<noteq> None"
begin

lemma keys_distinct: "inv m \<Longrightarrow> distinct (keys m)"
  using keys_sorted [of m] by (auto simp: strict_sorted_iff)

lemma set_keys_put: "inv m \<Longrightarrow> set (keys (put k v m)) = insert k (set (keys m))"
  by (auto simp: keys_find inv_put find_put split: if_splits)

lemma set_keys_erase: "inv m \<Longrightarrow> set (keys (erase k m)) = set (keys m) - {k}"
  by (auto simp: keys_find inv_erase find_erase split: if_splits)

lemma keys_put_same:
  assumes "inv m" and "find m k \<noteq> None"
  shows "keys (put k v m) = keys m"
proof -
  have "set (keys (put k v m)) = set (keys m)"
    using assms by (auto simp: set_keys_put keys_find)
  then show ?thesis
    using assms(1) strict_sorted_equal [of "keys (put k v m)" "keys m"]
    by (simp add: keys_sorted inv_put)
qed

lemma length_keys_put:
  "inv m \<Longrightarrow> length (keys (put k v m)) = (if find m k = None then Suc (length (keys m)) else length (keys m))"
  using distinct_card [OF keys_distinct, of "put k v m"] distinct_card [OF keys_distinct, of m]
  by (auto simp: inv_put set_keys_put card_insert_if keys_find)

text \<open>
  A loop that rewrites the entry of every key it visits, as the account and payout loops do, keeps
  the invariant and the keys.
\<close>

lemma inv_fold_put: "inv m \<Longrightarrow> inv (fold (\<lambda>k. put k (f k)) ks m)"
  by (induction ks arbitrary: m) (simp_all add: inv_put)

lemma find_fold_put:
  "inv m \<Longrightarrow> find (fold (\<lambda>k. put k (f k)) ks m) k =
     (if k \<in> set ks then Some (f k) else find m k)"
  by (induction ks arbitrary: m) (auto simp: inv_put find_put)

end

section \<open>The interpretation\<close>

lemma om_find_set [simp]: "map_of (om_set k v m) k' = (if k' = k then Some v else map_of m k')"
  by (induction k v m rule: om_set.induct) auto

lemma om_find_om_set [simp]: "om_find (om_set k v m) k' = (if k' = k then Some v else om_find m k')"
  by (simp add: om_find_def)

lemma om_set_fst: "set (map fst (om_set k v m)) = insert k (set (map fst m))"
  by (induction k v m rule: om_set.induct) auto

lemma om_inv_set [intro, simp]: "om_inv m \<Longrightarrow> om_inv (om_set k v m)"
proof (induction k v m rule: om_set.induct)
  case (1 k v)
  then show ?case by (simp add: om_inv_def)
next
  case (2 k v k' v' m)
  have IH: "om_inv (om_set k v m)" if "\<not> k < k'" "k \<noteq> k'"
    using 2 that by (simp add: om_inv_def)
  have fst_set: "fst ` set (om_set k v m) = insert k (fst ` set m)"
    using om_set_fst [of k v m] by simp
  show ?case
  proof (cases "k < k'")
    case True
    with 2(2) show ?thesis by (force simp: om_inv_def)
  next
    case False
    with 2(2) IH fst_set show ?thesis
      by (cases "k = k'") (auto simp: om_inv_def)
  qed
qed

lemma om_inv_filter: "om_inv m \<Longrightarrow> om_inv (filter P m)"
  by (induction m) (auto simp: om_inv_def)

lemma om_inv_empty [simp]: "om_inv []"
  by (simp add: om_inv_def)

lemma om_inv_distinct: "om_inv m \<Longrightarrow> distinct (map fst m)"
  by (simp add: om_inv_def strict_sorted_iff)

lemma om_find_erase: "map_of (om_erase k m) k' = (if k' = k then None else map_of m k')"
  by (induction m) (auto simp: om_erase_def)

interpretation omap: ordered_map om_inv "[]" om_find om_set om_erase om_keys
proof unfold_locales
  fix m :: "('a, 'b) omap" and k k' v
  show "om_inv ([] :: ('a, 'b) omap)" by simp
  show "om_inv m \<Longrightarrow> om_inv (om_set k v m)" by simp
  show "om_inv m \<Longrightarrow> om_inv (om_erase k m)" by (simp add: om_erase_def om_inv_filter)
  show "om_find ([] :: ('a, 'b) omap) k = None" by (simp add: om_find_def)
  show "om_find (om_set k v m) k' = (if k' = k then Some v else om_find m k')"
    by (simp add: om_find_def)
  show "om_find (om_erase k m) k' = (if k' = k then None else om_find m k')"
    by (simp add: om_find_def om_find_erase)
  show "om_inv m \<Longrightarrow> sorted_wrt (<) (om_keys m)" by (simp add: om_inv_def om_keys_def)
  show "(k \<in> set (om_keys m)) = (om_find m k \<noteq> None)"
    by (simp add: om_keys_def om_find_def map_of_eq_None_iff)
qed

lemma om_index_find: "fst (om_index d k m) = (case om_find m k of Some v \<Rightarrow> v | None \<Rightarrow> d)"
  by (simp add: om_index_def split: option.splits)

lemma om_index_inv: "om_inv m \<Longrightarrow> om_inv (snd (om_index d k m))"
  by (auto simp: om_index_def split: option.splits)

lemma om_as_map_of: "distinct (map fst m) \<Longrightarrow> m = map (\<lambda>k. (k, the (map_of m k))) (map fst m)"
proof (intro nth_equalityI)
  fix i assume "distinct (map fst m)" and i: "i < length m"
  then have "map_of m (fst (m ! i)) = Some (snd (m ! i))" by simp
  with i show "m ! i = map (\<lambda>k. (k, the (map_of m k))) (map fst m) ! i" by (simp add: prod_eq_iff)
qed simp

lemma om_eqI:
  assumes "om_inv m" and "om_inv n" and "\<And>k. om_find m k = om_find n k"
  shows "m = n"
proof -
  have "map_of m = map_of n" using assms(3) by (auto simp: om_find_def)
  moreover from this have "fst ` set m = fst ` set n"
    by (metis dom_map_of_conv_image_fst)
  then have "map fst m = map fst n"
    using assms(1,2) strict_sorted_equal [of "map fst m" "map fst n"] by (simp add: om_inv_def)
  ultimately show ?thesis
    using assms(1,2) by (metis om_as_map_of om_inv_distinct)
qed

section \<open>Rebuilding a map entry by entry\<close>

lemma foldl_om_set_find:
  "distinct (map fst m) \<Longrightarrow>
   om_find (foldl (\<lambda>acc (a, v). om_set a (g v) acc) acc m) k
     = (case map_of m k of Some v \<Rightarrow> Some (g v) | None \<Rightarrow> om_find acc k)"
proof (induction m arbitrary: acc)
  case Nil
  show ?case by simp
next
  case (Cons e m)
  obtain a v where e: "e = (a, v)" by (cases e)
  have "map_of m a = None" using Cons.prems e by (simp add: map_of_eq_None_iff)
  with Cons e show ?case by (cases "k = a") (simp_all split: option.splits)
qed

lemma foldl_om_set_inv:
  "om_inv acc \<Longrightarrow> om_inv (foldl (\<lambda>acc (a, v). om_set a (g v) acc) acc m)"
  by (induction m arbitrary: acc) auto

lemma foldl_om_set_map:
  assumes "om_inv m"
  shows "foldl (\<lambda>acc (a, v). om_set a (g v) acc) [] m = map (\<lambda>(a, v). (a, g v)) m"
proof (rule om_eqI)
  show "om_inv (foldl (\<lambda>acc (a, v). om_set a (g v) acc) [] m)" by (rule foldl_om_set_inv) simp
  have "map fst (map (\<lambda>(a, v). (a, g v)) m) = map fst m" by (simp add: case_prod_unfold comp_def)
  then show "om_inv (map (\<lambda>(a, v). (a, g v)) m)" using assms unfolding om_inv_def by metis
  show "om_find (foldl (\<lambda>acc (a, v). om_set a (g v) acc) [] m) k
      = om_find (map (\<lambda>(a, v). (a, g v)) m) k" for k
    using foldl_om_set_find [OF om_inv_distinct [OF assms], of g "[]" k]
    by (induction m) (auto simp: om_find_def map_of_map split: option.splits)
qed

section \<open>Sums over a map\<close>

text \<open>
  The mathematical total of the values of a map, used to relate the running totals of the code
  (which wrap) with what is stored.
\<close>

definition om_sum :: "('v \<Rightarrow> nat) \<Rightarrow> ('k, 'v) omap \<Rightarrow> nat" where
  "om_sum f m = sum_list (map (f \<circ> snd) m)"

lemma om_sum_Nil [simp]: "om_sum f [] = 0"
  by (simp add: om_sum_def)

lemma om_sum_Cons: "om_sum f (e # m) = f (snd e) + om_sum f m"
  by (simp add: om_sum_def)

lemma om_sum_set:
  "om_inv m \<Longrightarrow>
   om_sum f (om_set k v m) + (case om_find m k of None \<Rightarrow> 0 | Some w \<Rightarrow> f w) = f v + om_sum f m"
proof (induction k v m rule: om_set.induct)
  case (1 k v)
  then show ?case by (simp add: om_sum_def om_find_def)
next
  case (2 k v k' v' m)
  then have inv: "om_inv m" and lt: "\<forall>x\<in>set m. k' < fst x" by (auto simp: om_inv_def)
  have fresh: "map_of m k = None" if "k < k' \<or> k = k'"
    using lt that by (force simp: map_of_eq_None_iff)
  from 2 inv fresh show ?case
    by (auto simp: om_sum_Cons om_find_def)
qed

end
