(* ===== verification/Utils.thy ===== *)
theory Utils
  imports Prelude
begin

text \<open>
  The byte conversions of \<open>src/src/utils.hpp\<close>, used by every packet, by the records on disk and by
  the coinbase transaction. Integers are written most significant byte first; a 64 bit integer is
  written as its low 32 bits followed by its high 32 bits.

  \<open>bytes2uint64\<close> evaluates \<open>bytes2uint(BYTES, nOffset + 4) << 32\<close> on a 32 bit unsigned operand. A
  shift by the width of the operand has no defined result in C++, so its value is an argument
  \<open>shl32\<close> of the model: an x86 shift instruction returns the operand unchanged, a compiler that
  folds the shift may return 0. The theorems hold for every \<open>shl32\<close> unless they say otherwise.
\<close>

section \<open>32 bit integers\<close>

definition uint2bytes :: "u32 \<Rightarrow> bytes" where
  "uint2bytes u =
     [ucast (drop_bit 24 u), ucast (drop_bit 16 u), ucast (drop_bit 8 u), ucast u]"

text \<open>
  The offset is the natural number the callers pass (0, 1, 4, 5, 8, 12 or 16). The shifted bytes are
  added as \<open>int\<close> and converted to \<open>uint32_t\<close>, which is addition modulo \<open>2 ^ 32\<close>.
\<close>

definition bytes2uint :: "bytes \<Rightarrow> nat \<Rightarrow> u32" where
  "bytes2uint B off =
     (if length B < off + 4 then 0
      else push_bit 24 (ucast (B ! off)) + push_bit 16 (ucast (B ! (off + 1)))
           + push_bit 8 (ucast (B ! (off + 2))) + ucast (B ! (off + 3)))"

section \<open>64 bit integers, strings and doubles\<close>

definition uint2bytes64 :: "u64 \<Rightarrow> bytes" where
  "uint2bytes64 u = uint2bytes (ucast u) @ uint2bytes (ucast (drop_bit 32 u))"

definition bytes2uint64 :: "(u32 \<Rightarrow> u32) \<Rightarrow> bytes \<Rightarrow> nat \<Rightarrow> u64" where
  "bytes2uint64 shl32 B off =
     ucast (bytes2uint B off) OR ucast (shl32 (bytes2uint B (off + 4)))"

definition string2bytes :: "string \<Rightarrow> bytes" where
  "string2bytes s = map byte_of_char s"

definition bytes2string :: "bytes \<Rightarrow> nat \<Rightarrow> string res" where
  "bytes2string B off = rbind (vec_range (int off) (int (length B)) B) (\<lambda>v. Inr (map char_of_byte v))"

text \<open>
  A \<open>double\<close> crosses the wire as its 64 bit pattern (the union of \<open>utils.hpp\<close>); the model of these
  two functions carries the pattern.
\<close>

definition double2bytes :: "u64 \<Rightarrow> bytes" where
  "double2bytes pattern = uint2bytes64 pattern"

definition bytes2double :: "(u32 \<Rightarrow> u32) \<Rightarrow> bytes \<Rightarrow> u64" where
  "bytes2double shl32 B = bytes2uint64 shl32 B 0"

section \<open>Lengths and round trips\<close>

lemma length_uint2bytes [simp, len_simps]: "length (uint2bytes u) = 4"
  by (simp add: uint2bytes_def)

lemma length_uint2bytes64 [simp, len_simps]: "length (uint2bytes64 u) = 8"
  by (simp add: uint2bytes64_def)

lemma length_string2bytes [simp, len_simps]: "length (string2bytes s) = length s"
  by (simp add: string2bytes_def)

text \<open>The four shifted bytes occupy disjoint bits, so adding them is the same as joining them.\<close>

lemma add_bytes_eq_or:
  fixes a b c d :: u8
  shows "push_bit 24 (ucast a :: u32) + push_bit 16 (ucast b) + push_bit 8 (ucast c) + ucast d
       = push_bit 24 (ucast a) OR push_bit 16 (ucast b) OR push_bit 8 (ucast c) OR ucast d"
proof -
  let ?a = "push_bit 24 (ucast a :: u32)" and ?b = "push_bit 16 (ucast b :: u32)"
    and ?c = "push_bit 8 (ucast c :: u32)" and ?d = "ucast d :: u32"
  have 1: "?a + ?b = ?a OR ?b"
    by (rule disjunctive_add_eq_or) (auto intro!: bit_word_eqI simp: bit_simps dest!: bit_u8_less)
  have 2: "(?a OR ?b) + ?c = (?a OR ?b) OR ?c"
    by (rule disjunctive_add_eq_or) (auto intro!: bit_word_eqI simp: bit_simps dest!: bit_u8_less)
  have 3: "((?a OR ?b) OR ?c) + ?d = ((?a OR ?b) OR ?c) OR ?d"
    by (rule disjunctive_add_eq_or) (auto intro!: bit_word_eqI simp: bit_simps dest!: bit_u8_less)
  show ?thesis unfolding 1 2 3 by (simp add: or.assoc)
qed

lemma join_split_u32:
  fixes u :: u32
  shows "push_bit 24 (ucast (ucast (drop_bit 24 u) :: u8)) + push_bit 16 (ucast (ucast (drop_bit 16 u) :: u8))
   + push_bit 8 (ucast (ucast (drop_bit 8 u) :: u8)) + ucast (ucast u :: u8) = u"
proof (unfold add_bytes_eq_or, rule bit_word_eqI)
  fix n assume "n < LENGTH(32)"
  then consider "n < 8" | "8 \<le> n" "n < 16" | "16 \<le> n" "n < 24" | "24 \<le> n" "n < 32" by force
  then show "bit (push_bit 24 (ucast (ucast (drop_bit 24 u) :: u8) :: u32) OR
      push_bit 16 (ucast (ucast (drop_bit 16 u) :: u8)) OR
      push_bit 8 (ucast (ucast (drop_bit 8 u) :: u8)) OR ucast (ucast u :: u8)) n = bit u n"
    by cases (auto simp: bit_simps)
qed

lemma join_uint2bytes:
  "push_bit 24 (ucast (uint2bytes x ! 0)) + push_bit 16 (ucast (uint2bytes x ! Suc 0))
   + push_bit 8 (ucast (uint2bytes x ! 2)) + ucast (uint2bytes x ! 3) = x"
  using join_split_u32 [of x] by (simp add: uint2bytes_def)

lemma bytes2uint_at:
  assumes "B = xs @ uint2bytes u @ ys" and "off = length xs"
  shows "bytes2uint B off = u"
  using assms join_split_u32 [of u]
  by (simp add: bytes2uint_def uint2bytes_def nth_append)

lemma bytes2uint_uint2bytes [simp]: "bytes2uint (uint2bytes u) 0 = u"
  by (rule bytes2uint_at [of _ "[]" u "[]"]) simp_all

lemma bytes2uint64_at:
  assumes "B = xs @ uint2bytes64 u @ ys" and "off = length xs"
  shows "bytes2uint64 shl32 B off = ucast (ucast u :: u32) OR ucast (shl32 (ucast (drop_bit 32 u)))"
proof -
  have "bytes2uint B off = ucast u"
    using assms by (intro bytes2uint_at [of _ xs _ "uint2bytes (ucast (drop_bit 32 u)) @ ys"])
      (simp_all add: uint2bytes64_def)
  moreover have "bytes2uint B (off + 4) = ucast (drop_bit 32 u)"
    using assms by (intro bytes2uint_at [of _ "xs @ uint2bytes (ucast u)" _ ys])
      (simp_all add: uint2bytes64_def)
  ultimately show ?thesis by (simp add: bytes2uint64_def)
qed

text \<open>What \<open>bytes2uint64\<close> reads back of a value written by \<open>uint2bytes64\<close>.\<close>

definition read_back64 :: "(u32 \<Rightarrow> u32) \<Rightarrow> u64 \<Rightarrow> u64" where
  "read_back64 shl32 u = ucast (ucast u :: u32) OR ucast (shl32 (ucast (drop_bit 32 u)))"

lemmas bytes2uint64_read_back = bytes2uint64_at [folded read_back64_def]

lemma bytes2uint64_as_ucast:
  "bytes2uint64 shl32 B off = ucast (bytes2uint B off OR shl32 (bytes2uint B (off + 4)))"
  by (simp add: bytes2uint64_def unsigned_or_eq)

lemma bytes2uint64_bound: "unat (bytes2uint64 shl32 B off) < 2 ^ 32"
  by (simp only: bytes2uint64_as_ucast) (metis unat_ucast_u32_u64)

lemma read_back64_bound: "unat (read_back64 shl32 u) < 2 ^ 32"
  by (simp only: read_back64_def unsigned_or_eq [symmetric]) (metis unat_ucast_u32_u64)

lemma read_back64_small:
  assumes "unat u < 2 ^ 32" and "shl32 0 = 0"
  shows "read_back64 shl32 u = u"
proof -
  have "drop_bit 32 u = 0"
    using assms(1) by (simp add: word_eq_iff_unsigned [where 'a = nat] unat_drop_bit_eq, simp add: drop_bit_eq_div)
  moreover have "ucast (ucast u :: u32) = u"
    using assms(1) by (simp add: word_eq_iff_unsigned [where 'a = nat] unsigned_ucast_eq unsigned_take_bit_eq
        take_bit_nat_eq_self)
  ultimately show ?thesis using assms(2) by (simp add: read_back64_def)
qed

lemma bytes2string_string2bytes:
  "off \<le> length B \<Longrightarrow> drop off B = string2bytes s \<Longrightarrow> bytes2string B off = Inr s"
  using length_drop [of off B]
  by (simp add: bytes2string_def vec_range_def string2bytes_def comp_def flip: length_drop)

end
