(* ===== verification/LLD_Database.thy ===== *)
theory LLD_Database
  imports Std_Map Utils
begin

text \<open>
  \<open>LLD::Database<KeyType, RecordType>\<close> of \<open>src/src/LLD/database.h\<close>: the in-memory record store of
  the pool and its file format. The template parameters are arguments: the default record
  \<open>dflt\<close> (\<open>RecordType()\<close>), the key member \<open>cKey\<close>, and the record's serialiser and constructor
  from bytes. Each method holds \<open>DATABASE_MUTEX\<close> for its whole body, so a method is one step.
\<close>

section \<open>The store\<close>

record ('k, 'r) database =
  strFilename :: string
  mapRecords :: "('k, 'r) omap"

definition GetKeys :: "('k, 'r) database \<Rightarrow> 'k list" where
  "GetKeys db = om_keys (mapRecords db)"

definition HasKey :: "'k \<Rightarrow> ('k, 'r) database \<Rightarrow> bool" where
  "HasKey k db = om_count (mapRecords db) k"

definition EraseRecord :: "'k \<Rightarrow> ('k, 'r) database \<Rightarrow> ('k, 'r) database" where
  "EraseRecord k db = db\<lparr>mapRecords := om_erase k (mapRecords db)\<rparr>"

text \<open>
  \<open>GetRecord\<close> returns \<open>mapRecords[cKey]\<close>: for a key that has no record it stores a default record
  under that key and returns it.
\<close>

definition GetRecord :: "'r \<Rightarrow> 'k::linorder \<Rightarrow> ('k, 'r) database \<Rightarrow> 'r \<times> ('k, 'r) database" where
  "GetRecord dflt k db =
     (let (r, m) = om_index dflt k (mapRecords db) in (r, db\<lparr>mapRecords := m\<rparr>))"

definition UpdateRecord :: "('r \<Rightarrow> 'k::linorder) \<Rightarrow> 'r \<Rightarrow> ('k, 'r) database \<Rightarrow> ('k, 'r) database" where
  "UpdateRecord cKey r db = db\<lparr>mapRecords := om_set (cKey r) r (mapRecords db)\<rparr>"

section \<open>The file\<close>

text \<open>A record on disk: its size in four bytes, then its data (\<open>&vData[0]\<close> needs a first byte).\<close>

definition write_record :: "('r \<Rightarrow> bytes) \<Rightarrow> 'r \<Rightarrow> bytes res" where
  "write_record ser r =
     (let vData = ser r; vSize = uint2bytes (of_nat (length vData))
      in rbind (vec_at vData 0) (\<lambda>_. Inr (vSize @ vData)))"

fun write_records :: "('r \<Rightarrow> bytes) \<Rightarrow> ('k, 'r) omap \<Rightarrow> bytes res" where
  "write_records ser [] = Inr []"
| "write_records ser (e # m) =
     rbind (write_record ser (snd e)) (\<lambda>b. rbind (write_records ser m) (\<lambda>bs. Inr (b @ bs)))"

definition WriteToDisk :: "('r \<Rightarrow> bytes) \<Rightarrow> ('k, 'r) database \<Rightarrow> bytes res" where
  "WriteToDisk ser db = write_records ser (mapRecords db)"

text \<open>
  The input stream: what is left to read, and the fail state a short read leaves it in. In the fail
  state \<open>tellg()\<close> is \<open>-1\<close> and reads do nothing.
\<close>

record istream =
  in_rest :: bytes
  in_fail :: bool

definition stream_more :: "istream \<Rightarrow> bool" where
  "stream_more st \<longleftrightarrow> in_fail st \<or> in_rest st \<noteq> []"

definition stream_read :: "nat \<Rightarrow> istream \<Rightarrow> bytes \<times> istream" where
  "stream_read n st =
     (if in_fail st then (replicate n 0, st)
      else if n \<le> length (in_rest st)
      then (take n (in_rest st), st\<lparr>in_rest := drop n (in_rest st)\<rparr>)
      else (in_rest st @ replicate (n - length (in_rest st)) 0, st\<lparr>in_rest := [], in_fail := True\<rparr>))"

definition read_step :: "(bytes \<Rightarrow> 'r res) \<Rightarrow> ('r \<Rightarrow> 'k::linorder) \<Rightarrow> istream \<times> ('k, 'r) omap
    \<Rightarrow> (istream \<times> ('k, 'r) omap) res" where
  "read_step des cKey s =
     (let (vSize, st1) = stream_read 4 (fst s);
          nSize = unat (bytes2uint vSize 0);
          (vData, st2) = stream_read nSize st1
      in rbind (vec_at vData 0) (\<lambda>_.
         rbind (des vData) (\<lambda>r. Inr (st2, om_set (cKey r) r (snd s)))))"

text \<open>The loop \<open>while (fIncoming.tellg() < nLength)\<close>; \<open>None\<close> is a loop that does not end.\<close>

partial_function (option) read_loop ::
  "(bytes \<Rightarrow> 'r res) \<Rightarrow> ('r \<Rightarrow> 'k::linorder) \<Rightarrow> istream \<times> ('k, 'r) omap \<Rightarrow> ('k, 'r) omap res option" where
  "read_loop des cKey s =
     (if stream_more (fst s)
      then (case read_step des cKey s of Inl e \<Rightarrow> Some (Inl e) | Inr s' \<Rightarrow> read_loop des cKey s')
      else Some (Inr (snd s)))"

text \<open>\<open>file\<close> is the content of \<open>strFilename\<close>, \<open>None\<close> when it cannot be opened.\<close>

definition ReadIntoMemory ::
  "(bytes \<Rightarrow> 'r res) \<Rightarrow> ('r \<Rightarrow> 'k::linorder) \<Rightarrow> bytes option \<Rightarrow> ('k, 'r) database \<Rightarrow> ('k, 'r) database res option" where
  "ReadIntoMemory des cKey file db =
     (case file of
        None \<Rightarrow> Some (Inr (db\<lparr>mapRecords := []\<rparr>))
      | Some content \<Rightarrow>
          (case read_loop des cKey (\<lparr>in_rest = content, in_fail = False\<rparr>, []) of
             None \<Rightarrow> None
           | Some (Inl e) \<Rightarrow> Some (Inl e)
           | Some (Inr m) \<Rightarrow> Some (Inr (db\<lparr>mapRecords := m\<rparr>))))"

section \<open>The interface of the store\<close>

text \<open>
  What the account and payout code relies on. \<open>view\<close> is the record stored under a key.
  \<open>get\<close> returns the stored record and, when there is none, the default record, which it stores.
\<close>

locale record_store =
  fixes inv :: "'d \<Rightarrow> bool"
    and view :: "'d \<Rightarrow> 'k::linorder \<Rightarrow> 'r option"
    and keys :: "'d \<Rightarrow> 'k list"
    and get :: "'k \<Rightarrow> 'd \<Rightarrow> 'r \<times> 'd"
    and update :: "'r \<Rightarrow> 'd \<Rightarrow> 'd"
    and key :: "'r \<Rightarrow> 'k"
    and dflt :: 'r
  assumes get_hit: "view d k = Some r \<Longrightarrow> get k d = (r, d)"
    and get_miss: "inv d \<Longrightarrow> view d k = None \<Longrightarrow>
        fst (get k d) = dflt \<and> inv (snd (get k d)) \<and> view (snd (get k d)) = (view d)(k \<mapsto> dflt)"
    and update_inv: "inv d \<Longrightarrow> inv (update r d)"
    and view_update: "inv d \<Longrightarrow> view (update r d) = (view d)(key r \<mapsto> r)"
    and keys_view: "inv d \<Longrightarrow> set (keys d) = dom (view d)"
    and keys_distinct: "inv d \<Longrightarrow> distinct (keys d)"
begin

definition keyed :: "'d \<Rightarrow> bool" where
  "keyed d \<longleftrightarrow> (\<forall>k r. view d k = Some r \<longrightarrow> key r = k)"

text \<open>Reading, changing and writing back the record of an existing key, as the account loops do.\<close>

definition modify :: "('r \<Rightarrow> 'r) \<Rightarrow> 'k \<Rightarrow> 'd \<Rightarrow> 'd" where
  "modify f k d = (let (r, d') = get k d in update (f r) d')"

lemma modify_hit:
  assumes "inv d" and "keyed d" and "view d k = Some r" and "key (f r) = key r"
  shows "inv (modify f k d)" and "keyed (modify f k d)" and "view (modify f k d) = (view d)(k \<mapsto> f r)"
proof -
  have k: "key (f r) = k" using assms(2,3,4) by (simp add: keyed_def)
  have m: "modify f k d = update (f r) d" by (simp add: modify_def get_hit [OF assms(3)])
  show "inv (modify f k d)" using assms(1) by (simp add: m update_inv)
  show v: "view (modify f k d) = (view d)(k \<mapsto> f r)" using assms(1) k by (simp add: m view_update)
  show "keyed (modify f k d)" using assms(2) k by (simp add: keyed_def v)
qed

lemma modify_all:
  assumes "inv d" and "keyed d" and "set ks \<subseteq> dom (view d)" and "distinct ks"
    and "\<And>r. key (f r) = key r"
  shows "inv (fold (modify f) ks d)" and "keyed (fold (modify f) ks d)"
    and "view (fold (modify f) ks d) = (\<lambda>k. if k \<in> set ks then map_option f (view d k) else view d k)"
  using assms(1-4)
proof (induction ks arbitrary: d)
  case Nil
  { case 1 then show ?case by simp }
  { case 2 then show ?case by simp }
  { case 3 then show ?case by simp }
next
  case (Cons k ks)
  have *: "inv (fold (modify f) (k # ks) d) \<and> keyed (fold (modify f) (k # ks) d) \<and>
      view (fold (modify f) (k # ks) d)
        = (\<lambda>j. if j \<in> set (k # ks) then map_option f (view d j) else view d j)"
    if pre: "inv d" "keyed d" "set (k # ks) \<subseteq> dom (view d)" "distinct (k # ks)" for d
  proof -
    from pre obtain r where r: "view d k = Some r" by auto
    note m = modify_hit [of d k r f, OF pre(1,2) r assms(5)]
    have sub: "set ks \<subseteq> dom (view (modify f k d))" using pre(3) m(3) by auto
    have d: "distinct ks" using pre(4) by simp
    from Cons.IH [OF m(1,2) sub d] m(3) pre(4) r show ?thesis by (auto simp: fun_eq_iff)
  qed
  { case 1 from * [OF this] show ?case by (elim conjE) }
  { case 2 from * [OF this] show ?case by (elim conjE) }
  { case 3 from * [OF this] show ?case by (elim conjE) }
qed

text \<open>The same for a loop over the entries of a map, with a change that depends on the entry.\<close>

lemma modify_entries:
  assumes "\<And>v r. key (g v r) = key r"
  shows "inv d \<Longrightarrow> keyed d \<Longrightarrow> fst ` set es \<subseteq> dom (view d) \<Longrightarrow> distinct (map fst es) \<Longrightarrow>
    inv (fold (\<lambda>e. modify (g (snd e)) (fst e)) es d) \<and> keyed (fold (\<lambda>e. modify (g (snd e)) (fst e)) es d)
    \<and> view (fold (\<lambda>e. modify (g (snd e)) (fst e)) es d) =
        (\<lambda>k. case map_of es k of None \<Rightarrow> view d k | Some v \<Rightarrow> map_option (g v) (view d k))"
proof (induction es arbitrary: d)
  case Nil
  then show ?case by simp
next
  case (Cons e es)
  obtain r where r: "view d (fst e) = Some r" using Cons.prems(3) by auto
  note m = modify_hit [of d "fst e" r "g (snd e)", OF Cons.prems(1,2) r assms]
  have sub: "fst ` set es \<subseteq> dom (view (modify (g (snd e)) (fst e) d))" using Cons.prems(3) m(3) by auto
  have dist: "distinct (map fst es)" "fst e \<notin> fst ` set es" using Cons.prems(4) by simp_all
  then have "map_of es (fst e) = None" by (simp add: map_of_eq_None_iff)
  then show ?case
    using Cons.IH [OF m(1,2) sub dist(1)] m(3) r by (cases e) (auto simp: fun_eq_iff split: option.splits)
qed

end

definition db_inv :: "('k::linorder, 'r) database \<Rightarrow> bool" where
  "db_inv db = om_inv (mapRecords db)"

definition db_view :: "('k, 'r) database \<Rightarrow> 'k \<Rightarrow> 'r option" where
  "db_view db = om_find (mapRecords db)"

lemma record_store_database:
  "record_store db_inv db_view GetKeys (GetRecord dflt) (UpdateRecord cKey) cKey dflt"
proof unfold_locales
  fix d :: "('a, 'b) database" and k r
  show "db_view d k = Some r \<Longrightarrow> GetRecord dflt k d = (r, d)"
    by (simp add: db_view_def GetRecord_def om_index_def)
  show "db_inv d \<Longrightarrow> db_view d k = None \<Longrightarrow>
      fst (GetRecord dflt k d) = dflt \<and> db_inv (snd (GetRecord dflt k d)) \<and>
      db_view (snd (GetRecord dflt k d)) = (db_view d)(k \<mapsto> dflt)"
    by (auto simp: db_view_def db_inv_def GetRecord_def om_index_def fun_eq_iff)
  show "db_inv d \<Longrightarrow> db_inv (UpdateRecord cKey r d)"
    by (simp add: db_inv_def UpdateRecord_def)
  show "db_inv d \<Longrightarrow> db_view (UpdateRecord cKey r d) = (db_view d)(cKey r \<mapsto> r)"
    by (auto simp: db_view_def UpdateRecord_def fun_eq_iff)
  show "db_inv d \<Longrightarrow> set (GetKeys d) = dom (db_view d)"
    using omap.keys_find [of "mapRecords d"] by (auto simp: db_inv_def db_view_def GetKeys_def)
  show "db_inv d \<Longrightarrow> distinct (GetKeys d)"
    by (simp add: db_inv_def GetKeys_def omap.keys_distinct)
qed

section \<open>Reading a written file back\<close>

text \<open>
  What the file format needs of a record type: on the records that satisfy \<open>ok\<close>, the constructor
  from bytes applied to the serialised record succeeds and returns \<open>norm\<close> of it, under the same key.
\<close>

locale lld_record =
  fixes ser :: "'r \<Rightarrow> bytes"
    and des :: "bytes \<Rightarrow> 'r res"
    and key :: "'r \<Rightarrow> 'k::linorder"
    and ok :: "'r \<Rightarrow> bool"
    and norm :: "'r \<Rightarrow> 'r"
  assumes des_ser: "ok r \<Longrightarrow> des (ser r) = Inr (norm r)"
    and key_norm: "ok r \<Longrightarrow> key (norm r) = key r"
    and ser_size: "ok r \<Longrightarrow> 0 < length (ser r) \<and> length (ser r) < 2 ^ 32"
begin

definition file_ok :: "('k, 'r) omap \<Rightarrow> bool" where
  "file_ok m \<longleftrightarrow> om_inv m \<and> (\<forall>(k, r) \<in> set m. ok r \<and> key r = k)"

definition file_bytes :: "('k, 'r) omap \<Rightarrow> bytes" where
  "file_bytes m = concat (map (\<lambda>e. uint2bytes (of_nat (length (ser (snd e)))) @ ser (snd e)) m)"

lemma write_records_ok:
  "\<forall>(k, r) \<in> set m. ok r \<Longrightarrow> write_records ser m = Inr (file_bytes m)"
proof (induction m)
  case Nil
  show ?case by (simp add: file_bytes_def)
next
  case (Cons e m)
  then have "0 < length (ser (snd e))" using ser_size by (cases e) auto
  then have "write_record ser (snd e) = Inr (uint2bytes (of_nat (length (ser (snd e)))) @ ser (snd e))"
    by (simp add: write_record_def vec_at_def Let_def)
  with Cons show ?case by (simp add: file_bytes_def)
qed

lemma read_step_record:
  assumes "ok r"
  shows "read_step des key (\<lparr>in_rest = uint2bytes (of_nat (length (ser r))) @ ser r @ rest, in_fail = False\<rparr>, acc)
       = Inr (\<lparr>in_rest = rest, in_fail = False\<rparr>, om_set (key r) (norm r) acc)"
proof -
  have size: "0 < length (ser r)" "length (ser r) < 2 ^ 32" using ser_size [OF assms] by simp_all
  then have n: "unat (of_nat (length (ser r)) :: u32) = length (ser r)"
    by (simp add: unat_of_nat take_bit_nat_eq_self)
  show ?thesis
    using size(1) des_ser [OF assms] key_norm [OF assms]
    by (simp add: read_step_def stream_read_def n vec_at_def Let_def)
qed

lemma read_loop_file:
  "\<forall>(k, r) \<in> set m. ok r \<and> key r = k \<Longrightarrow>
   read_loop des key (\<lparr>in_rest = file_bytes m, in_fail = False\<rparr>, acc)
     = Some (Inr (foldl (\<lambda>acc (k, r). om_set k (norm r) acc) acc m))"
proof (induction m arbitrary: acc)
  case Nil
  show ?case by (simp add: read_loop.simps stream_more_def file_bytes_def)
next
  case (Cons e m)
  obtain k r where e: "e = (k, r)" by (cases e)
  have ok: "ok r" "key r = k" using Cons.prems e by auto
  have fb: "file_bytes (e # m) = uint2bytes (of_nat (length (ser r))) @ ser r @ file_bytes m"
    by (simp add: file_bytes_def e)
  have more: "stream_more \<lparr>in_rest = file_bytes (e # m), in_fail = False\<rparr>"
    by (simp add: stream_more_def fb uint2bytes_def)
  have IH: "read_loop des key (\<lparr>in_rest = file_bytes m, in_fail = False\<rparr>, acc')
      = Some (Inr (foldl (\<lambda>acc (k, r). om_set k (norm r) acc) acc' m))" for acc'
    using Cons by simp
  show ?case
    by (subst read_loop.simps) (simp add: fb [unfolded e] more [unfolded fb] read_step_record [OF ok(1)] IH ok(2) e)
qed

lemma ReadIntoMemory_file:
  assumes "file_ok (mapRecords db)"
  shows "ReadIntoMemory des key (Some (file_bytes (mapRecords db))) db0
       = Some (Inr (db0\<lparr>mapRecords := map (\<lambda>(k, r). (k, norm r)) (mapRecords db)\<rparr>))"
proof -
  have "read_loop des key (\<lparr>in_rest = file_bytes (mapRecords db), in_fail = False\<rparr>, [])
      = Some (Inr (map (\<lambda>(k, r). (k, norm r)) (mapRecords db)))"
    using read_loop_file [of "mapRecords db" "[]"] foldl_om_set_map [of "mapRecords db" norm] assms
    by (simp add: file_ok_def)
  then show ?thesis by (simp add: ReadIntoMemory_def)
qed

lemma WriteToDisk_file:
  "file_ok (mapRecords db) \<Longrightarrow> WriteToDisk ser db = Inr (file_bytes (mapRecords db))"
  using write_records_ok [of "mapRecords db"] by (auto simp: WriteToDisk_def file_ok_def)

end

end
