(* ===== verification/Coinbase.thy ===== *)
theory Coinbase
  imports Std_Map Utils
begin

text \<open>
  \<open>Coinbase\<close>, \<open>Credits\<close> and \<open>Coinbase_mt\<close> of \<open>src/src/coinbase.hpp\<close>: the payout transaction of a
  round and the credits of a block record, with the byte format shared by the wallet protocol and the
  block database. \<open>Coinbase_mt\<close> takes a mutex around each call of the same operation; the model of
  each of its methods is the method it calls. Addresses are at most 255 bytes long on the wire.
\<close>

section \<open>The coinbase transaction\<close>

type_synonym outputs = "(string, u64) omap"

record coinbase =
  mapOutputs :: outputs
  nCurrentValue :: u64
  nMaxValue :: u64
  nPoolFee :: u64

definition Coinbase_default :: coinbase where
  "Coinbase_default = \<lparr>mapOutputs = [], nCurrentValue = 0, nMaxValue = 0, nPoolFee = 0\<rparr>"

definition Coinbase_reward :: "u64 \<Rightarrow> coinbase" where
  "Coinbase_reward nReward = Coinbase_default\<lparr>nMaxValue := nReward\<rparr>"

definition AddOutput :: "string \<Rightarrow> u64 \<Rightarrow> coinbase \<Rightarrow> coinbase" where
  "AddOutput nAddress nValue c =
     (let m = (if \<not> om_count (mapOutputs c) nAddress then om_set nAddress 0 (mapOutputs c)
               else mapOutputs c);
          (old, m') = om_index 0 nAddress m
      in c\<lparr>mapOutputs := om_set nAddress (old + nValue) m',
           nCurrentValue := nCurrentValue c + nValue\<rparr>)"

text \<open>
  \<open>AddTransaction\<close> returns an unsigned value: when the output does not fit it is the wrapped
  difference, never a negative number.
\<close>

definition AddTransaction :: "string \<Rightarrow> u64 \<Rightarrow> coinbase \<Rightarrow> u64 \<times> coinbase" where
  "AddTransaction nAddress nValue c =
     (if nValue + nCurrentValue c > nMaxValue c
      then (nMaxValue c - (nValue + nCurrentValue c), c)
      else let c' = AddOutput nAddress nValue c in (nMaxValue c' - nCurrentValue c', c'))"

definition GetRemainder :: "coinbase \<Rightarrow> u64" where
  "GetRemainder c = nMaxValue c - nCurrentValue c"

definition IsComplete :: "coinbase \<Rightarrow> bool" where
  "IsComplete c \<longleftrightarrow> nCurrentValue c = nMaxValue c"

definition IsEmpty :: "coinbase \<Rightarrow> bool" where
  "IsEmpty c \<longleftrightarrow> nCurrentValue c = 0"

definition Reset :: "u64 \<Rightarrow> coinbase \<Rightarrow> coinbase" where
  "Reset nMax c = c\<lparr>nMaxValue := nMax, nCurrentValue := 0, mapOutputs := []\<rparr>"

text \<open>\<open>Coinbase_mt::find_address\<close> and \<open>get_map_outputs\<close>; the latter is \<open>mapOutputs[nxs_address]\<close>.\<close>

definition find_address :: "coinbase \<Rightarrow> string \<Rightarrow> bool" where
  "find_address c a = (om_find (mapOutputs c) a \<noteq> None)"

definition get_map_outputs :: "string \<Rightarrow> coinbase \<Rightarrow> u64 \<times> coinbase" where
  "get_map_outputs a c = (let (v, m) = om_index 0 a (mapOutputs c) in (v, c\<lparr>mapOutputs := m\<rparr>))"

section \<open>The byte format\<close>

text \<open>One output: a length byte, the address, the value.\<close>

definition ser_entry :: "string \<times> u64 \<Rightarrow> bytes" where
  "ser_entry e =
     [of_nat (length (string2bytes (fst e)))] @ string2bytes (fst e) @ uint2bytes64 (snd e)"

definition Serialize :: "coinbase \<Rightarrow> bytes" where
  "Serialize c =
     [of_nat (length (mapOutputs c))] @ uint2bytes64 (nPoolFee c)
     @ concat (map ser_entry (mapOutputs c))"

text \<open>
  The record loop of \<open>Deserialize\<close>: the number of records left, the iterator into the data, and
  the function applied to each record read.
\<close>

fun des_entries :: "(u32 \<Rightarrow> u32) \<Rightarrow> bytes \<Rightarrow> (string \<Rightarrow> u64 \<Rightarrow> 's \<Rightarrow> 's) \<Rightarrow> nat \<Rightarrow> nat \<Rightarrow> 's \<Rightarrow> 's res" where
  "des_entries shl32 vData f 0 it s = Inr s"
| "des_entries shl32 vData f (Suc n) it s =
     rbind (vec_at vData it) (\<lambda>len.
     let nLength = unat len in
     rbind (vec_range (int (it + 1)) (int (it + 1 + nLength)) vData) (\<lambda>addr.
     rbind (bytes2string addr 0) (\<lambda>strAddress.
     rbind (vec_range (int (it + 1 + nLength)) (int (it + 1 + nLength + 8)) vData) (\<lambda>val.
     let nValue = bytes2uint64 shl32 val 0 in
       des_entries shl32 vData f n (it + (nLength + 9)) (f strAddress nValue s)))))"

definition Deserialize :: "(u32 \<Rightarrow> u32) \<Rightarrow> bytes \<Rightarrow> u64 \<Rightarrow> coinbase \<Rightarrow> coinbase res" where
  "Deserialize shl32 vData nValue c =
     rbind (vec_at vData 0) (\<lambda>size.
     let fee = bytes2uint64 shl32 vData 1;
         c0 = c\<lparr>nMaxValue := nValue, nPoolFee := fee, nCurrentValue := fee\<rparr>
     in des_entries shl32 vData
          (\<lambda>a v c. c\<lparr>mapOutputs := om_set a v (mapOutputs c), nCurrentValue := nCurrentValue c + v\<rparr>)
          (unat size) 9 c0)"

section \<open>Credits\<close>

record credits =
  mapCredits :: outputs

definition Credits_default :: credits where
  "Credits_default = \<lparr>mapCredits = []\<rparr>"

definition AddCredit :: "string \<Rightarrow> u64 \<Rightarrow> credits \<Rightarrow> credits" where
  "AddCredit nAddress nValue c =
     (let m = (if \<not> om_count (mapCredits c) nAddress then om_set nAddress 0 (mapCredits c)
               else mapCredits c);
          (old, m') = om_index 0 nAddress m
      in c\<lparr>mapCredits := om_set nAddress (old + nValue) m'\<rparr>)"

definition Credits_Serialize :: "credits \<Rightarrow> bytes" where
  "Credits_Serialize c = [of_nat (length (mapCredits c))] @ concat (map ser_entry (mapCredits c))"

definition Credits_Deserialize :: "(u32 \<Rightarrow> u32) \<Rightarrow> bytes \<Rightarrow> credits \<Rightarrow> credits res" where
  "Credits_Deserialize shl32 vData c =
     rbind (vec_at vData 0) (\<lambda>size.
       des_entries shl32 vData (\<lambda>a v c. c\<lparr>mapCredits := om_set a v (mapCredits c)\<rparr>)
         (unat size) 1 c)"

section \<open>Adding outputs\<close>

definition opt_val :: "u64 option \<Rightarrow> u64" where
  "opt_val o' = (case o' of None \<Rightarrow> 0 | Some v \<Rightarrow> v)"

lemma add_to_index:
  "(let m1 = (if \<not> om_count m a then om_set a 0 m else m); (old, m') = om_index 0 a m1
    in om_set a (old + v) m') = om_set a (opt_val (om_find m a) + v) m"
  if "om_inv m" for m :: outputs
proof (cases "map_of m a")
  case None
  have "om_set a v (om_set a 0 m) = om_set a v m"
    using that by (intro om_eqI) (simp_all add: om_find_def)
  with None show ?thesis by (simp add: om_count_def om_index_def om_find_def opt_val_def)
next
  case (Some w)
  then show ?thesis by (simp add: om_count_def om_index_def om_find_def opt_val_def)
qed

lemma AddOutput_eq:
  "om_inv (mapOutputs c) \<Longrightarrow> AddOutput a v c =
     c\<lparr>mapOutputs := om_set a (opt_val (om_find (mapOutputs c) a) + v) (mapOutputs c),
       nCurrentValue := nCurrentValue c + v\<rparr>"
  using add_to_index [of "mapOutputs c" a v]
  by (cases "om_count (mapOutputs c) a") (auto simp: AddOutput_def Let_def split: prod.splits)

lemma AddCredit_eq:
  "om_inv (mapCredits c) \<Longrightarrow> AddCredit a v c =
     c\<lparr>mapCredits := om_set a (opt_val (om_find (mapCredits c) a) + v) (mapCredits c)\<rparr>"
  using add_to_index [of "mapCredits c" a v]
  by (cases "om_count (mapCredits c) a") (auto simp: AddCredit_def Let_def split: prod.splits)

text \<open>
  The invariant of a coinbase under construction: the outputs add up to the current value, without
  wrapping, and the current value does not exceed the maximum.
\<close>

definition coinbase_inv :: "coinbase \<Rightarrow> bool" where
  "coinbase_inv c \<longleftrightarrow>
     om_inv (mapOutputs c) \<and> om_sum unat (mapOutputs c) = unat (nCurrentValue c)
     \<and> nCurrentValue c \<le> nMaxValue c"

lemma coinbase_inv_reset: "coinbase_inv (Reset m c)"
  by (simp add: coinbase_inv_def Reset_def)

lemma om_sum_member: "om_find m a = Some v \<Longrightarrow> f v \<le> om_sum f m"
  by (induction m) (auto simp: om_find_def om_sum_def split: if_splits)

lemma AddTransaction_reject:
  "nValue + nCurrentValue c > nMaxValue c \<Longrightarrow>
   AddTransaction a nValue c = (nMaxValue c - (nValue + nCurrentValue c), c)"
  by (simp add: AddTransaction_def)

lemma AddTransaction_accept:
  assumes "coinbase_inv c" and "unat v + unat (nCurrentValue c) \<le> unat (nMaxValue c)"
  shows "AddTransaction a v c =
      (nMaxValue c - (nCurrentValue c + v),
       c\<lparr>mapOutputs := om_set a (opt_val (om_find (mapOutputs c) a) + v) (mapOutputs c),
         nCurrentValue := nCurrentValue c + v\<rparr>)"
    and "coinbase_inv (snd (AddTransaction a v c))"
    and "unat (nCurrentValue (snd (AddTransaction a v c))) = unat (nCurrentValue c) + unat v"
proof -
  have max: "unat (nMaxValue c) < 2 ^ 64"
    using unsigned_less [of "nMaxValue c", where 'a = nat] by simp
  have sum: "unat (nCurrentValue c + v) = unat (nCurrentValue c) + unat v"
    using assms(2) max by (subst unat_add_lem [THEN iffD1]) simp_all
  have not: "\<not> v + nCurrentValue c > nMaxValue c"
    using assms(2) sum by (simp add: word_less_nat_alt add.commute)
  have inv: "om_inv (mapOutputs c)" and s: "om_sum unat (mapOutputs c) = unat (nCurrentValue c)"
    using assms(1) by (simp_all add: coinbase_inv_def)
  show eq: "AddTransaction a v c =
      (nMaxValue c - (nCurrentValue c + v),
       c\<lparr>mapOutputs := om_set a (opt_val (om_find (mapOutputs c) a) + v) (mapOutputs c),
         nCurrentValue := nCurrentValue c + v\<rparr>)"
    using not inv by (simp add: AddTransaction_def AddOutput_eq Let_def)
  then show "unat (nCurrentValue (snd (AddTransaction a v c))) = unat (nCurrentValue c) + unat v"
    using sum by simp
  let ?old = "opt_val (om_find (mapOutputs c) a)"
  have "unat ?old \<le> unat (nCurrentValue c)"
    using s om_sum_member [of "mapOutputs c" a _ unat] by (auto simp: opt_val_def split: option.splits)
  then have "unat (?old + v) = unat ?old + unat v"
    using assms(2) max by (subst unat_add_lem [THEN iffD1]) simp_all
  then have "om_sum unat (om_set a (?old + v) (mapOutputs c)) = unat (nCurrentValue c) + unat v"
    using om_sum_set [OF inv, of unat a "?old + v"] s
    by (auto simp: opt_val_def split: option.splits)
  then show "coinbase_inv (snd (AddTransaction a v c))"
    using eq inv sum not by (simp add: coinbase_inv_def not_less add.commute)
qed

section \<open>The ledger contract\<close>

text \<open>
  What the payout code relies on when it fills a coinbase: additions are accepted or leave the
  transaction alone, and the total stays within the cap, as long as the amounts offered cannot make
  the 64 bit sum wrap.
\<close>

locale capped_ledger =
  fixes inv :: "'s \<Rightarrow> bool"
    and total :: "'s \<Rightarrow> nat"
    and cap :: "'s \<Rightarrow> nat"
    and add :: "'a \<Rightarrow> u64 \<Rightarrow> 's \<Rightarrow> 's"
  assumes total_le: "inv s \<Longrightarrow> total s \<le> cap s"
    and add_fits: "inv s \<Longrightarrow> unat v + total s \<le> cap s \<Longrightarrow>
        inv (add a v s) \<and> total (add a v s) = total s + unat v \<and> cap (add a v s) = cap s"
    and add_too_much: "inv s \<Longrightarrow> cap s < unat v + total s \<Longrightarrow> unat v + total s < 2 ^ 64 \<Longrightarrow> add a v s = s"
begin

lemma add_step:
  assumes "inv s" and "unat v + cap s < 2 ^ 64"
  shows "inv (add a v s) \<and> cap (add a v s) = cap s \<and> total s \<le> total (add a v s)"
proof (cases "unat v + total s \<le> cap s")
  case True
  with add_fits [OF assms(1), of v a] show ?thesis by simp
next
  case False
  with assms total_le [OF assms(1)] have "add a v s = s" by (intro add_too_much) simp_all
  with assms(1) show ?thesis by simp
qed

lemma add_all:
  assumes "inv s" and "\<forall>(a, v) \<in> set ps. unat v + cap s < 2 ^ 64"
  shows "inv (fold (\<lambda>(a, v). add a v) ps s) \<and> cap (fold (\<lambda>(a, v). add a v) ps s) = cap s
       \<and> total s \<le> total (fold (\<lambda>(a, v). add a v) ps s)"
  using assms
proof (induction ps arbitrary: s)
  case Nil
  then show ?case by simp
next
  case (Cons p ps)
  obtain a v where p: "p = (a, v)" by (cases p)
  have step: "inv (add a v s) \<and> cap (add a v s) = cap s \<and> total s \<le> total (add a v s)"
    using Cons.prems p by (intro add_step) auto
  with Cons.IH [of "add a v s"] Cons.prems p show ?case by force
qed

lemma add_all_within_cap:
  assumes "inv s" and "\<forall>(a, v) \<in> set ps. unat v + cap s < 2 ^ 64"
  shows "total (fold (\<lambda>(a, v). add a v) ps s) \<le> cap s"
  using add_all [OF assms] total_le by force

end

interpretation cb: capped_ledger coinbase_inv "\<lambda>c. unat (nCurrentValue c)" "\<lambda>c. unat (nMaxValue c)"
  "\<lambda>a v c. snd (AddTransaction a v c)"
proof unfold_locales
  fix c a v
  assume inv: "coinbase_inv c"
  then show "unat (nCurrentValue c) \<le> unat (nMaxValue c)"
    by (simp add: coinbase_inv_def word_le_nat_alt)
  show "coinbase_inv (snd (AddTransaction a v c)) \<and>
      unat (nCurrentValue (snd (AddTransaction a v c))) = unat (nCurrentValue c) + unat v \<and>
      unat (nMaxValue (snd (AddTransaction a v c))) = unat (nMaxValue c)"
    if "unat v + unat (nCurrentValue c) \<le> unat (nMaxValue c)"
    using AddTransaction_accept [OF inv that, of a] by simp
  show "snd (AddTransaction a v c) = c"
    if "unat (nMaxValue c) < unat v + unat (nCurrentValue c)" "unat v + unat (nCurrentValue c) < 2 ^ 64"
  proof -
    have "unat (v + nCurrentValue c) = unat v + unat (nCurrentValue c)"
      using that(2) by (subst unat_add_lem [THEN iffD1]) simp_all
    with that(1) show ?thesis by (simp add: AddTransaction_reject word_less_nat_alt)
  qed
qed

section \<open>Reading back what was written\<close>

definition addr_ok :: "outputs \<Rightarrow> bool" where
  "addr_ok m \<longleftrightarrow> list_all (\<lambda>(a, _). length a < 256) m \<and> length m < 256"

lemma unat_of_nat_u8: "n < 256 \<Longrightarrow> unat (of_nat n :: u8) = n"
  by (simp add: unat_of_nat take_bit_nat_eq_self)

lemma length_ser_entry [len_simps]: "length (ser_entry e) = length (fst e) + 9"
  by (simp add: ser_entry_def)

lemma des_entries_concat:
  assumes "list_all (\<lambda>(a, _). length a < 256) m"
  shows "vData = xs @ concat (map ser_entry m) @ ys \<Longrightarrow> it = length xs \<Longrightarrow>
    des_entries shl32 vData f (length m) it s
      = Inr (foldl (\<lambda>s (a, v). f a (read_back64 shl32 v) s) s m)"
  using assms
proof (induction m arbitrary: xs it s)
  case Nil
  then show ?case by simp
next
  case (Cons e m)
  obtain a v where e: "e = (a, v)" by (cases e)
  have len: "length a < 256" using Cons.prems e by simp
  have vD: "vData = xs @ (of_nat (length a) :: u8) # string2bytes a @ uint2bytes64 v
             @ concat (map ser_entry m) @ ys"
    using Cons.prems e ser_entry_def [of "(a, v)"] by simp
  have 1: "vec_at vData it = Inr (of_nat (length a))"
    using Cons.prems(2) by (simp add: vec_at_def vD nth_append)
  have 2: "vec_range (int (it + 1)) (int (it + 1 + length a)) vData = Inr (string2bytes a)"
    by (rule vec_range_midI [of _ "xs @ [of_nat (length a)]"]) (use Cons.prems(2) vD in simp_all)
  have 3: "vec_range (int (it + 1 + length a)) (int (it + 1 + length a + 8)) vData = Inr (uint2bytes64 v)"
    by (rule vec_range_midI [of _ "xs @ (of_nat (length a) # string2bytes a)"])
       (use Cons.prems(2) vD in simp_all)
  have 4: "bytes2uint64 shl32 (uint2bytes64 v) 0 = read_back64 shl32 v"
    by (rule bytes2uint64_read_back [of _ "[]" _ "[]"]) simp_all
  have 5: "des_entries shl32 vData f (length m) (it + (length a + 9)) s'
      = Inr (foldl (\<lambda>s (a, v). f a (read_back64 shl32 v) s) s' m)" for s'
    by (rule Cons.IH [of "xs @ ser_entry e"]) (use Cons.prems e in \<open>simp_all add: len_simps\<close>)
  have 6: "bytes2string (string2bytes a) 0 = Inr a"
    by (simp add: bytes2string_string2bytes)
  show ?case
    by (simp only: list.size(4) add_Suc_right add_0_right plus_1_eq_Suc des_entries.simps 1 rbind_Inr
        Let_def unat_of_nat_u8 [OF len] 2 3 4 5 6) (simp add: e)
qed

definition read_back_outputs :: "(u32 \<Rightarrow> u32) \<Rightarrow> outputs \<Rightarrow> outputs" where
  "read_back_outputs shl32 m = map (\<lambda>(a, v). (a, read_back64 shl32 v)) m"

definition read_back_coinbase :: "(u32 \<Rightarrow> u32) \<Rightarrow> u64 \<Rightarrow> coinbase \<Rightarrow> coinbase" where
  "read_back_coinbase shl32 nValue c =
     \<lparr>mapOutputs = read_back_outputs shl32 (mapOutputs c),
      nCurrentValue = read_back64 shl32 (nPoolFee c)
        + sum_list (map (read_back64 shl32 \<circ> snd) (mapOutputs c)),
      nMaxValue = nValue, nPoolFee = read_back64 shl32 (nPoolFee c)\<rparr>"

lemma foldl_coinbase:
  "foldl (\<lambda>s (a, v). s\<lparr>mapOutputs := om_set a (g v) (mapOutputs s), nCurrentValue := nCurrentValue s + g v\<rparr>) c m
   = c\<lparr>mapOutputs := foldl (\<lambda>acc (a, v). om_set a (g v) acc) (mapOutputs c) m,
       nCurrentValue := nCurrentValue c + sum_list (map (g \<circ> snd) m)\<rparr>"
  by (induction m arbitrary: c) (auto simp: add.assoc)

lemma Deserialize_Serialize:
  assumes "om_inv (mapOutputs c)" and "addr_ok (mapOutputs c)"
  shows "Deserialize shl32 (Serialize c) nValue Coinbase_default = Inr (read_back_coinbase shl32 nValue c)"
proof -
  let ?m = "mapOutputs c"
  have n: "length ?m < 256" and a: "list_all (\<lambda>(a, _). length a < 256) ?m"
    using assms(2) by (simp_all add: addr_ok_def)
  have S: "Serialize c = (of_nat (length ?m) # uint2bytes64 (nPoolFee c)) @ concat (map ser_entry ?m) @ []"
    by (simp add: Serialize_def)
  have fee: "bytes2uint64 shl32 (Serialize c) 1 = read_back64 shl32 (nPoolFee c)"
    by (rule bytes2uint64_read_back [of _ "[of_nat (length ?m)]"]) (simp_all add: Serialize_def)
  have at: "vec_at (Serialize c) 0 = Inr (of_nat (length ?m))"
    by (simp add: vec_at_def Serialize_def)
  note des = des_entries_concat [OF a S, of 9 shl32]
  show ?thesis
    by (simp only: Deserialize_def at rbind_Inr Let_def unat_of_nat_u8 [OF n] fee des
        foldl_coinbase [of "read_back64 shl32"])
       (simp add: des foldl_coinbase Coinbase_default_def read_back_coinbase_def read_back_outputs_def
         foldl_om_set_map [OF assms(1)])
qed

lemma foldl_credits:
  "foldl (\<lambda>s (a, v). s\<lparr>mapCredits := om_set a (g v) (mapCredits s)\<rparr>) c m
   = c\<lparr>mapCredits := foldl (\<lambda>acc (a, v). om_set a (g v) acc) (mapCredits c) m\<rparr>"
  by (induction m arbitrary: c) auto

lemma Credits_Deserialize_Serialize:
  assumes "om_inv (mapCredits c)" and "addr_ok (mapCredits c)"
  shows "Credits_Deserialize shl32 (Credits_Serialize c) Credits_default
    = Inr \<lparr>mapCredits = read_back_outputs shl32 (mapCredits c)\<rparr>"
proof -
  let ?m = "mapCredits c"
  have n: "length ?m < 256" and a: "list_all (\<lambda>(a, _). length a < 256) ?m"
    using assms(2) by (simp_all add: addr_ok_def)
  have S: "Credits_Serialize c = [of_nat (length ?m)] @ concat (map ser_entry ?m) @ []"
    by (simp add: Credits_Serialize_def)
  have at: "vec_at (Credits_Serialize c) 0 = Inr (of_nat (length ?m))"
    by (simp add: vec_at_def Credits_Serialize_def)
  note des = des_entries_concat [OF a S, of "Suc 0" shl32]
  show ?thesis
    by (simp only: Credits_Deserialize_def at rbind_Inr unat_of_nat_u8 [OF n])
       (simp add: des foldl_credits Credits_default_def read_back_outputs_def
         foldl_om_set_map [OF assms(1)])
qed

lemma read_back_outputs_id:
  assumes "list_all (\<lambda>(_, v). unat v < 2 ^ 32) m" and "shl32 0 = 0"
  shows "read_back_outputs shl32 m = m"
  using assms by (induction m) (auto simp: read_back_outputs_def read_back64_small)

lemma length_entries: "length (concat (map ser_entry m)) = (\<Sum>e\<leftarrow>m. length (fst e) + 9)"
  by (induction m) (simp_all add: len_simps)

lemma length_entries_bound:
  "addr_ok m \<Longrightarrow> length (concat (map ser_entry m)) \<le> 264 * length m"
proof -
  have "list_all (\<lambda>(a, _). length a < 256) m \<Longrightarrow> length (concat (map ser_entry m)) \<le> 264 * length m"
    by (induction m) (auto simp: len_simps)
  then show "addr_ok m \<Longrightarrow> length (concat (map ser_entry m)) \<le> 264 * length m"
    by (simp add: addr_ok_def)
qed

end
