(* ===== verification/Uint1024.thy ===== *)
theory Uint1024
  imports Utils
begin

text \<open>
  The fixed width unsigned integers of \<open>src/src/hash/uint1024.h\<close>: \<open>base_uint<BITS>\<close> keeps an array
  \<open>pn\<close> of \<open>WIDTH = BITS / 32\<close> words of 32 bits, least significant first. A value of the model carries
  its array; the width is its length, 8, 16, 18 or 32 for \<open>uint256\<close>, \<open>uint512\<close>, \<open>uint576\<close> and
  \<open>uint1024\<close>. \<open>uval\<close> reads the array as a natural number, and every operation is related to
  arithmetic on that number: addition, subtraction and the increments wrap at \<open>2 ^ BITS\<close>, the
  shifts multiply and divide by powers of two, the comparisons are those of the numbers.
\<close>

section \<open>Representation\<close>

datatype base_uint = BaseUint (pn: "u32 list")

fun words_val :: "u32 list \<Rightarrow> nat" where
  "words_val [] = 0"
| "words_val (x # xs) = unat x + 2 ^ 32 * words_val xs"

definition uval :: "base_uint \<Rightarrow> nat" where
  "uval a = words_val (pn a)"

abbreviation width :: "base_uint \<Rightarrow> nat" where
  "width a \<equiv> length (pn a)"

definition uint_zero :: "nat \<Rightarrow> base_uint" where
  "uint_zero w = BaseUint (replicate w 0)"

section \<open>Bitwise operations and assignment\<close>

definition bu_is_zero :: "base_uint \<Rightarrow> bool" where
  "bu_is_zero a = list_all (\<lambda>x. x = 0) (pn a)"

definition bu_compl :: "base_uint \<Rightarrow> base_uint" where
  "bu_compl a = BaseUint (map NOT (pn a))"

definition bu_assign64 :: "nat \<Rightarrow> u64 \<Rightarrow> base_uint" where
  "bu_assign64 w b = BaseUint (ucast b # ucast (drop_bit 32 b) # replicate (w - 2) 0)"

definition bu_xor :: "base_uint \<Rightarrow> base_uint \<Rightarrow> base_uint" where
  "bu_xor a b = BaseUint (map2 (XOR) (pn a) (pn b))"

definition bu_and :: "base_uint \<Rightarrow> base_uint \<Rightarrow> base_uint" where
  "bu_and a b = BaseUint (map2 (AND) (pn a) (pn b))"

definition bu_or :: "base_uint \<Rightarrow> base_uint \<Rightarrow> base_uint" where
  "bu_or a b = BaseUint (map2 (OR) (pn a) (pn b))"

definition bu_xor64 :: "base_uint \<Rightarrow> u64 \<Rightarrow> base_uint" where
  "bu_xor64 a b =
     BaseUint ((pn a)[0 := pn a ! 0 XOR ucast b, 1 := pn a ! 1 XOR ucast (drop_bit 32 b)])"

definition bu_or64 :: "base_uint \<Rightarrow> u64 \<Rightarrow> base_uint" where
  "bu_or64 a b =
     BaseUint ((pn a)[0 := pn a ! 0 OR ucast b, 1 := pn a ! 1 OR ucast (drop_bit 32 b)])"

section \<open>Shifts\<close>

text \<open>One iteration of the loop of \<open>operator<<=\<close>, on the array \<open>p\<close> being filled.\<close>

definition shl_step :: "u32 list \<Rightarrow> nat \<Rightarrow> nat \<Rightarrow> nat \<Rightarrow> u32 list \<Rightarrow> u32 list" where
  "shl_step a k s i p =
     (let p1 = (if i + k + 1 < length a \<and> s \<noteq> 0
                then p[i + k + 1 := p ! (i + k + 1) OR drop_bit (32 - s) (a ! i)] else p)
      in if i + k < length a then p1[i + k := p1 ! (i + k) OR push_bit s (a ! i)] else p1)"

definition bu_shl :: "base_uint \<Rightarrow> u32 \<Rightarrow> base_uint" where
  "bu_shl a shift =
     (let k = unat shift div 32; s = unat shift mod 32; w = width a
      in BaseUint (fold (shl_step (pn a) k s) [0..<w] (replicate w 0)))"

definition shr_step :: "u32 list \<Rightarrow> nat \<Rightarrow> nat \<Rightarrow> nat \<Rightarrow> u32 list \<Rightarrow> u32 list" where
  "shr_step a k s i p =
     (let p1 = (if k + 1 \<le> i \<and> s \<noteq> 0
                then p[i - k - 1 := p ! (i - k - 1) OR push_bit (32 - s) (a ! i)] else p)
      in if k \<le> i then p1[i - k := p1 ! (i - k) OR drop_bit s (a ! i)] else p1)"

definition bu_shr :: "base_uint \<Rightarrow> u32 \<Rightarrow> base_uint" where
  "bu_shr a shift =
     (let k = unat shift div 32; s = unat shift mod 32; w = width a
      in BaseUint (fold (shr_step (pn a) k s) [0..<w] (replicate w 0)))"

section \<open>Arithmetic\<close>

fun add_words :: "u64 \<Rightarrow> u32 list \<Rightarrow> u32 list \<Rightarrow> u32 list" where
  "add_words carry (x # xs) (y # ys) =
     (let n = carry + ucast x + ucast y
      in ucast (n AND 0xffffffff) # add_words (drop_bit 32 n) xs ys)"
| "add_words carry xs ys = []"

definition bu_add :: "base_uint \<Rightarrow> base_uint \<Rightarrow> base_uint" where
  "bu_add a b = BaseUint (add_words 0 (pn a) (pn b))"

fun inc_words :: "u32 list \<Rightarrow> u32 list" where
  "inc_words [] = []"
| "inc_words (x # xs) = (if x + 1 = 0 then (x + 1) # inc_words xs else (x + 1) # xs)"

definition bu_preinc :: "base_uint \<Rightarrow> base_uint" where
  "bu_preinc a = BaseUint (inc_words (pn a))"

definition bu_neg :: "base_uint \<Rightarrow> base_uint" where
  "bu_neg a = bu_preinc (bu_compl a)"

definition bu_sub :: "base_uint \<Rightarrow> base_uint \<Rightarrow> base_uint" where
  "bu_sub a b = bu_add a (bu_neg b)"

definition bu_add64 :: "base_uint \<Rightarrow> u64 \<Rightarrow> base_uint" where
  "bu_add64 a b = bu_add a (bu_assign64 (width a) b)"

definition bu_sub64 :: "base_uint \<Rightarrow> u64 \<Rightarrow> base_uint" where
  "bu_sub64 a b = bu_add a (bu_neg (bu_assign64 (width a) b))"

text \<open>The postfix operators return the old value together with the updated object.\<close>

definition bu_postinc :: "base_uint \<Rightarrow> base_uint \<times> base_uint" where
  "bu_postinc a = (a, bu_preinc a)"

fun dec_words :: "u32 list \<Rightarrow> u32 list" where
  "dec_words [] = []"
| "dec_words (x # xs) = (if x - 1 = - 1 then (x - 1) # dec_words xs else (x - 1) # xs)"

definition bu_predec :: "base_uint \<Rightarrow> base_uint" where
  "bu_predec a = BaseUint (dec_words (pn a))"

definition bu_postdec :: "base_uint \<Rightarrow> base_uint \<times> base_uint" where
  "bu_postdec a = (a, bu_predec a)"

section \<open>Comparisons\<close>

text \<open>
  The four ordering operators run from the most significant word down; the loops are given the
  reversed arrays.
\<close>

fun lt_words :: "u32 list \<Rightarrow> u32 list \<Rightarrow> bool" where
  "lt_words (x # xs) (y # ys) = (if x < y then True else if x > y then False else lt_words xs ys)"
| "lt_words xs ys = False"

fun le_words :: "u32 list \<Rightarrow> u32 list \<Rightarrow> bool" where
  "le_words (x # xs) (y # ys) = (if x < y then True else if x > y then False else le_words xs ys)"
| "le_words xs ys = True"

fun gt_words :: "u32 list \<Rightarrow> u32 list \<Rightarrow> bool" where
  "gt_words (x # xs) (y # ys) = (if x > y then True else if x < y then False else gt_words xs ys)"
| "gt_words xs ys = False"

fun ge_words :: "u32 list \<Rightarrow> u32 list \<Rightarrow> bool" where
  "ge_words (x # xs) (y # ys) = (if x > y then True else if x < y then False else ge_words xs ys)"
| "ge_words xs ys = True"

definition bu_lt :: "base_uint \<Rightarrow> base_uint \<Rightarrow> bool" where
  "bu_lt a b = lt_words (rev (pn a)) (rev (pn b))"

definition bu_le :: "base_uint \<Rightarrow> base_uint \<Rightarrow> bool" where
  "bu_le a b = le_words (rev (pn a)) (rev (pn b))"

definition bu_gt :: "base_uint \<Rightarrow> base_uint \<Rightarrow> bool" where
  "bu_gt a b = gt_words (rev (pn a)) (rev (pn b))"

definition bu_ge :: "base_uint \<Rightarrow> base_uint \<Rightarrow> bool" where
  "bu_ge a b = ge_words (rev (pn a)) (rev (pn b))"

definition bu_eq :: "base_uint \<Rightarrow> base_uint \<Rightarrow> bool" where
  "bu_eq a b = list_all2 (=) (pn a) (pn b)"

definition bu_eq64 :: "base_uint \<Rightarrow> u64 \<Rightarrow> bool" where
  "bu_eq64 a b =
     (if pn a ! 0 \<noteq> ucast b then False
      else if pn a ! 1 \<noteq> ucast (drop_bit 32 b) then False
      else list_all (\<lambda>x. x = 0) (drop 2 (pn a)))"

section \<open>Bytes\<close>

definition GetBytes :: "base_uint \<Rightarrow> bytes" where
  "GetBytes a = concat (map uint2bytes (pn a))"

text \<open>\<open>SetBytes\<close> reads \<open>4 * WIDTH\<close> bytes and faults on a shorter vector; extra bytes are ignored.\<close>

fun set_words :: "nat \<Rightarrow> bytes \<Rightarrow> nat \<Rightarrow> u32 list res" where
  "set_words 0 D i = Inr []"
| "set_words (Suc n) D i =
     rbind (vec_range (int (i * 4)) (int (i * 4 + 4)) D) (\<lambda>B.
     rbind (set_words n D (Suc i)) (\<lambda>ws.
       Inr ((push_bit 24 (ucast (B ! 0)) + push_bit 16 (ucast (B ! 1))
             + push_bit 8 (ucast (B ! 2)) + ucast (B ! 3)) # ws)))"

definition SetBytes :: "nat \<Rightarrow> bytes \<Rightarrow> base_uint res" where
  "SetBytes w D = rbind (set_words w D 0) (\<lambda>ws. Inr (BaseUint ws))"

definition Get64 :: "base_uint \<Rightarrow> nat \<Rightarrow> u64 res" where
  "Get64 a n =
     rbind (vec_at (pn a) (2 * n)) (\<lambda>lo.
     rbind (vec_at (pn a) (2 * n + 1)) (\<lambda>hi. Inr (ucast lo OR push_bit 32 (ucast hi))))"

section \<open>The number a word array denotes\<close>

lemma words_val_bound: "words_val ws < 2 ^ (32 * length ws)"
proof (induction ws)
  case Nil
  show ?case by simp
next
  case (Cons x xs)
  have "unat x < 2 ^ 32" by (rule unat_u32_less)
  moreover have "2 ^ 32 * (words_val xs + 1) \<le> (2::nat) ^ 32 * 2 ^ (32 * length xs)"
    using Cons.IH by (intro mult_le_mono2) simp
  ultimately show ?case by (simp add: power_add)
qed

lemma words_val_append:
  "words_val (xs @ ys) = words_val xs + 2 ^ (32 * length xs) * words_val ys"
  by (induction xs) (simp_all add: power_add algebra_simps)

lemma words_val_replicate0 [simp]: "words_val (replicate n 0) = 0"
  by (induction n) simp_all

lemma word_add_shift_bit:
  "bit (unat (x::u32) + 2 ^ 32 * v) n = (if n < 32 then bit x n else bit v (n - 32))"
proof -
  have "unat x AND push_bit 32 v = 0"
    by (rule bit_eqI) (auto simp: bit_simps dest!: bit_u32_less)
  then have "unat x + push_bit 32 v = unat x OR push_bit 32 v"
    by (rule disjunctive_add_eq_or)
  moreover have "push_bit 32 v = 2 ^ 32 * v" by (simp add: push_bit_eq_mult)
  ultimately have "unat x + 2 ^ 32 * v = unat x OR push_bit 32 v" by simp
  then show ?thesis by (auto simp: bit_simps dest!: bit_u32_less)
qed

lemma bit_words_val:
  "bit (words_val ws) n \<longleftrightarrow> n div 32 < length ws \<and> bit (ws ! (n div 32)) (n mod 32)"
proof (induction ws arbitrary: n)
  case Nil
  show ?case by simp
next
  case (Cons x xs)
  show ?case
  proof (cases "n < 32")
    case True
    then show ?thesis by (simp only: words_val.simps(2) word_add_shift_bit) simp
  next
    case False
    then have "n div 32 = Suc ((n - 32) div 32)" and "n mod 32 = (n - 32) mod 32"
      by (simp_all add: le_div_geq le_mod_geq)
    with False show ?thesis
      by (simp only: words_val.simps(2) word_add_shift_bit Cons.IH) simp
  qed
qed

lemma words_val_inj:
  "length xs = length ys \<Longrightarrow> words_val xs = words_val ys \<longleftrightarrow> xs = ys"
proof (induction xs ys rule: list_induct2)
  case Nil
  show ?case by simp
next
  case (Cons x xs y ys)
  have lt: "unat x < 2 ^ 32" "unat y < 2 ^ 32"
    by (rule unat_u32_less)+
  have "unat x + 2 ^ 32 * words_val xs = unat y + 2 ^ 32 * words_val ys \<longleftrightarrow>
        unat x = unat y \<and> words_val xs = words_val ys" (is "?l = ?r \<longleftrightarrow> _")
  proof
    assume eq: "?l = ?r"
    then have "?l mod 2 ^ 32 = ?r mod 2 ^ 32" and "?l div 2 ^ 32 = ?r div 2 ^ 32" by simp_all
    then show "unat x = unat y \<and> words_val xs = words_val ys" using lt by simp
  qed simp
  then show ?case using Cons.IH by (simp add: word_unat_eq_iff)
qed

lemma uval_bound: "uval a < 2 ^ (32 * width a)"
  by (simp add: uval_def words_val_bound)

lemma uval_eq_iff: "width a = width b \<Longrightarrow> uval a = uval b \<longleftrightarrow> a = b"
  by (cases a; cases b) (simp add: uval_def words_val_inj)

lemma mod_mult_step: "(l::nat) < m \<Longrightarrow> (l + m * q) mod (m * k) = l + m * (q mod k)"
  by (simp add: mod_mult2_eq)

section \<open>Addition, increments and subtraction wrap at the width\<close>

lemma length_add_words: "length (add_words c xs ys) = min (length xs) (length ys)"
  by (induction c xs ys rule: add_words.induct) (simp_all add: Let_def)

lemma unat_add3_u64:
  assumes "unat (c::u64) \<le> 1"
  shows "unat (c + ucast (x::u32) + ucast (y::u32)) = unat c + unat x + unat y"
proof -
  have b: "unat x < 2 ^ 32" "unat y < 2 ^ 32"
    by (rule unat_u32_less)+
  have u: "unat (ucast x :: u64) = unat x" "unat (ucast y :: u64) = unat y"
    by (simp_all add: unat_ucast_up)
  have "unat (c + ucast x) = unat c + unat x"
    using assms b u by (subst unat_add_lem [THEN iffD1]) simp_all
  then show ?thesis
    using assms b u by (subst unat_add_lem [THEN iffD1]) simp_all
qed

lemma unat_low32: "unat (ucast ((n::u64) AND 0xffffffff) :: u32) = unat n mod 2 ^ 32"
proof -
  have "n AND 0xffffffff = take_bit 32 n"
    by (simp add: take_bit_eq_mask mask_eq_exp_minus_1)
  then have "unat (ucast (n AND 0xffffffff) :: u32) = take_bit 32 (unat n)"
    by (simp only: unsigned_ucast_eq unsigned_take_bit_eq) simp
  then show ?thesis by (simp only: take_bit_eq_mod)
qed

lemma unat_high32: "unat (drop_bit 32 (n::u64)) = unat n div 2 ^ 32"
  by (rule trans [OF unat_drop_bit_eq drop_bit_eq_div])

lemma unat_low_u32: "unat (ucast (n::u64) :: u32) = unat n mod 2 ^ 32"
  by (simp only: unsigned_ucast_eq take_bit_eq_mod) simp

lemma unat_high_u32: "unat (ucast (drop_bit 32 (n::u64)) :: u32) = unat n div 2 ^ 32"
  using unsigned_less [of n, where 'a = nat] by (simp only: unat_low_u32 unat_high32) simp

lemma words_val_add:
  "length xs = length ys \<Longrightarrow> unat c \<le> 1 \<Longrightarrow>
   words_val (add_words c xs ys) = (unat c + words_val xs + words_val ys) mod 2 ^ (32 * length xs)"
proof (induction xs ys arbitrary: c rule: list_induct2)
  case Nil
  show ?case by simp
next
  case (Cons x xs y ys)
  define n where "n = c + ucast x + ucast y"
  have n: "unat n = unat c + unat x + unat y"
    unfolding n_def by (rule unat_add3_u64) (rule Cons.prems)
  have b: "unat x < 2 ^ 32" "unat y < 2 ^ 32"
    by (rule unat_u32_less)+
  have carry: "unat (drop_bit 32 n) \<le> 1"
    using b Cons.prems n by (simp only: unat_high32) simp
  have "words_val (add_words c (x # xs) (y # ys))
      = unat n mod 2 ^ 32 + 2 ^ 32 * ((unat n div 2 ^ 32 + words_val xs + words_val ys) mod 2 ^ (32 * length xs))"
    by (simp only: add_words.simps Let_def n_def [symmetric] words_val.simps unat_low32
        Cons.IH [OF carry] unat_high32)
  also have "\<dots> = (unat n mod 2 ^ 32 + 2 ^ 32 * (unat n div 2 ^ 32 + words_val xs + words_val ys))
                 mod (2 ^ 32 * 2 ^ (32 * length xs))"
    by (rule mod_mult_step [symmetric]) simp
  also have "unat n mod 2 ^ 32 + 2 ^ 32 * (unat n div 2 ^ 32 + words_val xs + words_val ys)
           = unat c + words_val (x # xs) + words_val (y # ys)"
  proof -
    have "unat n mod 2 ^ 32 + 2 ^ 32 * (unat n div 2 ^ 32) = unat c + unat x + unat y"
      by (simp only: mod_mult_div_eq n)
    then show ?thesis by (simp add: algebra_simps)
  qed
  finally show ?case by (simp add: power_add)
qed

lemma uval_bu_add:
  "width a = width b \<Longrightarrow> uval (bu_add a b) = (uval a + uval b) mod 2 ^ (32 * width a)"
  by (simp add: uval_def bu_add_def words_val_add)

lemma width_bu_add [simp]: "width (bu_add a b) = min (width a) (width b)"
  by (simp add: bu_add_def length_add_words)

lemma length_inc_words [simp]: "length (inc_words ws) = length ws"
  by (induction ws) simp_all

lemma length_dec_words [simp]: "length (dec_words ws) = length ws"
  by (induction ws) simp_all

lemma words_val_inc: "words_val (inc_words ws) = (words_val ws + 1) mod 2 ^ (32 * length ws)"
proof (induction ws)
  case Nil
  show ?case by simp
next
  case (Cons x xs)
  have u: "unat (x + 1) = (unat x + 1) mod 2 ^ 32" by (simp add: unat_word_ariths)
  have lt: "unat x < 2 ^ 32" by (rule unat_u32_less)
  show ?case
  proof (cases "x + 1 = 0")
    case True
    with u have "(unat x + 1) mod 2 ^ 32 = 0" by simp
    with lt have x: "unat x + 1 = 2 ^ 32" by (metis Suc_eq_plus1 Suc_leI le_neq_implies_less mod_less nat.distinct(1))
    have "(0 + 2 ^ 32 * (words_val xs + 1)) mod (2 ^ 32 * 2 ^ (32 * length xs))
        = 0 + 2 ^ 32 * ((words_val xs + 1) mod 2 ^ (32 * length xs))"
      by (rule mod_mult_step) simp
    moreover have "words_val (x # xs) + 1 = 2 ^ 32 * (words_val xs + 1)"
      using x by (simp add: algebra_simps)
    ultimately show ?thesis using True Cons.IH by (simp add: power_add)
  next
    case False
    with u lt have x: "unat (x + 1) = unat x + 1"
      by (metis Suc_eq_plus1 Suc_leI le_neq_implies_less mod_less mod_self unat_eq_zero)
    then have "words_val ((x + 1) # xs) = words_val (x # xs) + 1" by simp
    moreover have "words_val ((x + 1) # xs) < 2 ^ (32 * length (x # xs))"
      using words_val_bound [of "(x + 1) # xs"] by simp
    ultimately show ?thesis using False by simp
  qed
qed

lemma words_val_dec:
  "words_val (dec_words ws) = (words_val ws + 2 ^ (32 * length ws) - 1) mod 2 ^ (32 * length ws)"
proof -
  have "inc_words (dec_words ws) = ws"
    by (induction ws) (auto simp: add_eq_0_iff)
  then have "words_val ws = (words_val (dec_words ws) + 1) mod 2 ^ (32 * length ws)"
    using words_val_inc [of "dec_words ws"] by simp
  moreover have "words_val (dec_words ws) < 2 ^ (32 * length ws)"
    using words_val_bound [of "dec_words ws"] by simp
  ultimately show ?thesis
    by (cases "words_val (dec_words ws) + 1 = 2 ^ (32 * length ws)") auto
qed

lemma unat_minus_one_u32: "unat (- 1 :: u32) = 2 ^ 32 - 1"
  by (simp add: unsigned_minus_1_eq_mask mask_eq_exp_minus_1)

lemma words_val_compl: "words_val (map NOT ws) + words_val ws + 1 = 2 ^ (32 * length ws)"
proof (induction ws)
  case Nil
  show ?case by simp
next
  case (Cons x xs)
  have "unat (NOT x) = unat (- 1 :: u32) - unat x"
    using unat_sub [of x "- 1"]
    by (simp add: not_eq_complement word_order.extremum minus_diff_commute)
  then have "unat (NOT x) + unat x + 1 = 2 ^ 32"
    using unat_u32_less [of x] by (simp add: unat_minus_one_u32)
  moreover have "2 ^ 32 * (words_val (map NOT xs) + words_val xs + 1) = (2::nat) ^ 32 * 2 ^ (32 * length xs)"
    by (simp only: Cons.IH)
  ultimately show ?case by (simp add: power_add algebra_simps)
qed

lemma uval_bu_neg:
  "0 < width a \<Longrightarrow> uval (bu_neg a) = (2 ^ (32 * width a) - uval a) mod 2 ^ (32 * width a)"
proof -
  have "words_val (map NOT (pn a)) + 1 = 2 ^ (32 * width a) - words_val (pn a)"
    using words_val_compl [of "pn a"] by simp
  then show ?thesis
    by (simp add: bu_neg_def bu_preinc_def bu_compl_def uval_def words_val_inc)
qed

lemma width_bu_neg [simp]: "width (bu_neg a) = width a"
  by (simp add: bu_neg_def bu_preinc_def bu_compl_def)

lemma uval_bu_sub:
  assumes "width a = width b"
  shows "uval (bu_sub a b) = (uval a + (2 ^ (32 * width a) - uval b)) mod 2 ^ (32 * width a)"
proof (cases "width a = 0")
  case True
  then show ?thesis using assms by (simp add: bu_sub_def uval_bu_add)
next
  case False
  with assms show ?thesis
    by (simp add: bu_sub_def uval_bu_add uval_bu_neg mod_add_right_eq)
qed

lemma width_bu_assign64 [simp]: "2 \<le> w \<Longrightarrow> width (bu_assign64 w b) = w"
  by (simp add: bu_assign64_def)

lemma uval_bu_assign64: "uval (bu_assign64 w b) = unat b"
proof -
  have "uval (bu_assign64 w b) = unat b mod 2 ^ 32 + 2 ^ 32 * (unat b div 2 ^ 32)"
    by (simp only: uval_def bu_assign64_def base_uint.sel words_val.simps unat_high_u32
        words_val_replicate0 mult_0_right add_0_right) (simp only: unat_low_u32)
  then show ?thesis by (simp only: mod_mult_div_eq)
qed

lemma uval_bu_add64:
  "2 \<le> width a \<Longrightarrow> uval (bu_add64 a b) = (uval a + unat b) mod 2 ^ (32 * width a)"
  by (simp add: bu_add64_def uval_bu_add uval_bu_assign64)

section \<open>The order\<close>

lemma digit_less_iff:
  fixes a b m x y :: nat
  assumes "a < m" "b < m"
  shows "a + m * x < b + m * y \<longleftrightarrow> x < y \<or> x = y \<and> a < b"
proof -
  have "a + m * x < b + m * y" if "x < y"
  proof -
    have "m * Suc x \<le> m * y" using that by (intro mult_le_mono2) simp
    with assms show ?thesis by simp
  qed
  moreover have "b + m * y < a + m * x" if "y < x"
  proof -
    have "m * Suc y \<le> m * x" using that by (intro mult_le_mono2) simp
    with assms show ?thesis by simp
  qed
  ultimately show ?thesis by (cases x y rule: linorder_cases) auto
qed

lemma lt_words_iff:
  "length xs = length ys \<Longrightarrow> lt_words xs ys \<longleftrightarrow> words_val (rev xs) < words_val (rev ys)"
proof (induction xs ys rule: list_induct2)
  case Nil
  show ?case by simp
next
  case (Cons x xs y ys)
  have "words_val (rev xs) < 2 ^ (32 * length xs)" "words_val (rev ys) < 2 ^ (32 * length xs)"
    using words_val_bound [of "rev xs"] words_val_bound [of "rev ys"] Cons.hyps by simp_all
  from digit_less_iff [OF this, of "unat x" "unat y"] Cons show ?case
    by (auto simp: words_val_append word_less_nat_alt word_unat_eq_iff)
qed

lemma words_dual:
  "length xs = length ys \<Longrightarrow> gt_words xs ys = lt_words ys xs"
  "length xs = length ys \<Longrightarrow> le_words xs ys = (\<not> lt_words ys xs)"
  "length xs = length ys \<Longrightarrow> ge_words xs ys = (\<not> lt_words xs ys)"
  by (induction xs ys rule: list_induct2) auto

lemma bu_order:
  assumes "width a = width b"
  shows "bu_lt a b \<longleftrightarrow> uval a < uval b" and "bu_le a b \<longleftrightarrow> uval a \<le> uval b"
    and "bu_gt a b \<longleftrightarrow> uval a > uval b" and "bu_ge a b \<longleftrightarrow> uval a \<ge> uval b"
  using assms
  by (simp_all add: bu_lt_def bu_le_def bu_gt_def bu_ge_def uval_def words_dual lt_words_iff
      linorder_not_less)

lemma bu_eq_iff: "bu_eq a b \<longleftrightarrow> a = b"
  by (cases a; cases b) (simp add: bu_eq_def list.rel_eq)

text \<open>
  The containers keyed by \<open>uint1024\<close> order their elements by \<open>operator<\<close>. The type has the linear
  order that agrees with it on numbers of one width.
\<close>

instantiation base_uint :: linorder
begin

definition less_eq_base_uint :: "base_uint \<Rightarrow> base_uint \<Rightarrow> bool" where
  "less_eq_base_uint a b \<longleftrightarrow> width a < width b \<or> width a = width b \<and> uval a \<le> uval b"

definition less_base_uint :: "base_uint \<Rightarrow> base_uint \<Rightarrow> bool" where
  "less_base_uint a b \<longleftrightarrow> width a < width b \<or> width a = width b \<and> uval a < uval b"

instance
proof
  fix a b c :: base_uint
  show "a < b \<longleftrightarrow> a \<le> b \<and> \<not> b \<le> a"
    unfolding less_eq_base_uint_def less_base_uint_def by linarith
  show "a \<le> a" by (simp add: less_eq_base_uint_def)
  show "a \<le> b \<Longrightarrow> b \<le> c \<Longrightarrow> a \<le> c"
    unfolding less_eq_base_uint_def by linarith
  show "a \<le> b \<Longrightarrow> b \<le> a \<Longrightarrow> a = b"
    unfolding less_eq_base_uint_def using uval_eq_iff [of a b] by linarith
  show "a \<le> b \<or> b \<le> a"
    unfolding less_eq_base_uint_def by linarith
qed

end

lemma bu_lt_less: "width a = width b \<Longrightarrow> bu_lt a b \<longleftrightarrow> a < b"
  by (simp add: bu_order less_base_uint_def)

section \<open>Shifts\<close>

definition shl_words :: "u32 list \<Rightarrow> nat \<Rightarrow> nat \<Rightarrow> nat \<Rightarrow> nat \<Rightarrow> u32" where
  "shl_words a k s m j =
     (if k \<le> j \<and> j - k < m then push_bit s (a ! (j - k)) else 0) OR
     (if k + 1 \<le> j \<and> j - k - 1 < m \<and> s \<noteq> 0 then drop_bit (32 - s) (a ! (j - k - 1)) else 0)"

lemma length_shl_step [simp]: "length (shl_step a k s i p) = length p"
  by (simp add: shl_step_def Let_def)

lemma length_shr_step [simp]: "length (shr_step a k s i p) = length p"
  by (simp add: shr_step_def Let_def)

lemma length_shl_fold [simp]: "length (fold (shl_step a k s) is p) = length p"
  by (induction "is" arbitrary: p) simp_all

lemma length_shr_fold [simp]: "length (fold (shr_step a k s) is p) = length p"
  by (induction "is" arbitrary: p) simp_all

lemma shl_fold_nth:
  "m \<le> length a \<Longrightarrow> j < length a \<Longrightarrow>
   fold (shl_step a k s) [0..<m] (replicate (length a) 0) ! j = shl_words a k s m j"
proof (induction m)
  case 0
  then show ?case by (simp add: shl_words_def)
next
  case (Suc m)
  define p where "p = fold (shl_step a k s) [0..<m] (replicate (length a) 0)"
  have len: "length p = length a" by (simp add: p_def)
  have IH: "p ! j = shl_words a k s m j" using Suc by (simp add: p_def)
  consider "j = m + k" | "j = m + k + 1" | "j \<noteq> m + k" "j \<noteq> m + k + 1" by blast
  then have "shl_step a k s m p ! j = shl_words a k s (Suc m) j"
    using IH len Suc.prems by cases (auto simp: shl_step_def Let_def shl_words_def or.commute)
  then show ?case by (simp add: p_def)
qed

definition shr_words :: "u32 list \<Rightarrow> nat \<Rightarrow> nat \<Rightarrow> nat \<Rightarrow> nat \<Rightarrow> u32" where
  "shr_words a k s m j =
     (if j + k < m then drop_bit s (a ! (j + k)) else 0) OR
     (if j + k + 1 < m \<and> s \<noteq> 0 then push_bit (32 - s) (a ! (j + k + 1)) else 0)"

lemma shr_fold_nth:
  "m \<le> length a \<Longrightarrow> j < length a \<Longrightarrow>
   fold (shr_step a k s) [0..<m] (replicate (length a) 0) ! j = shr_words a k s m j"
proof (induction m)
  case 0
  then show ?case by (simp add: shr_words_def)
next
  case (Suc m)
  define p where "p = fold (shr_step a k s) [0..<m] (replicate (length a) 0)"
  have len: "length p = length a" by (simp add: p_def)
  have IH: "p ! j = shr_words a k s m j" using Suc by (simp add: p_def)
  consider "m = j + k" | "m = j + k + 1" | "m \<noteq> j + k" "m \<noteq> j + k + 1" by blast
  then have "shr_step a k s m p ! j = shr_words a k s (Suc m) j"
    using IH len Suc.prems by cases (auto simp: shr_step_def Let_def shr_words_def or.commute)
  then show ?case by (simp add: p_def)
qed

lemma digit32: "n = 32 * q + r \<Longrightarrow> r < 32 \<Longrightarrow> n div 32 = q \<and> n mod 32 = (r::nat)"
  by simp

text \<open>On the number, the word loops are a multiplication and a division by a power of two.\<close>

lemma uval_bu_shr: "uval (bu_shr a shift) = uval a div 2 ^ unat shift"
proof -
  define k s w where "k = unat shift div 32" and "s = unat shift mod 32" and "w = width a"
  have sh: "unat shift = 32 * k + s" by (simp add: k_def s_def)
  have s32: "s < 32" by (simp add: s_def)
  define r where "r = fold (shr_step (pn a) k s) [0..<w] (replicate w 0)"
  have len: "length r = w" by (simp add: r_def)
  have nth: "r ! j = shr_words (pn a) k s w j" if "j < w" for j
    using shr_fold_nth [of w "pn a" j k s] that by (simp add: r_def w_def)
  have "words_val r = drop_bit (unat shift) (words_val (pn a))"
  proof (rule bit_eqI)
    fix n :: nat
    define q t where "q = n div 32" and "t = n mod 32"
    have n: "n = 32 * q + t" and t32: "t < 32" by (simp_all add: q_def t_def)
    have "bit (words_val r) n \<longleftrightarrow> q < w \<and> bit (shr_words (pn a) k s w q) t"
      by (auto simp: bit_words_val len nth q_def t_def)
    also have "\<dots> \<longleftrightarrow> (if s + t < 32 then q + k < w \<and> bit (pn a ! (q + k)) (s + t)
                      else q + k + 1 < w \<and> bit (pn a ! (q + k + 1)) (s + t - 32))"
      using s32 t32 by (auto simp: shr_words_def bit_simps add.commute [of t s] dest: bit_u32_less)
    also have "\<dots> \<longleftrightarrow> bit (words_val (pn a)) (unat shift + n)"
    proof (cases "s + t < 32")
      case True
      have "unat shift + n = 32 * (q + k) + (s + t)" using sh n by simp
      from digit32 [OF this True] show ?thesis using True by (simp add: bit_words_val w_def)
    next
      case False
      have "unat shift + n = 32 * (q + k + 1) + (s + t - 32)" using sh n False by simp
      moreover have "s + t - 32 < 32" using s32 t32 by simp
      ultimately show ?thesis using False digit32 [of "unat shift + n" "q + k + 1" "s + t - 32"]
        by (simp add: bit_words_val w_def)
    qed
    finally show "bit (words_val r) n = bit (drop_bit (unat shift) (words_val (pn a))) n"
      by (simp add: bit_drop_bit_eq)
  qed
  then show ?thesis
    by (simp add: bu_shr_def Let_def uval_def r_def k_def s_def w_def drop_bit_eq_div)
qed

lemma uval_bu_shl: "uval (bu_shl a shift) = (uval a * 2 ^ unat shift) mod 2 ^ (32 * width a)"
proof -
  define k s w where "k = unat shift div 32" and "s = unat shift mod 32" and "w = width a"
  have sh: "unat shift = 32 * k + s" by (simp add: k_def s_def)
  have s32: "s < 32" by (simp add: s_def)
  define r where "r = fold (shl_step (pn a) k s) [0..<w] (replicate w 0)"
  have len: "length r = w" by (simp add: r_def)
  have nth: "r ! j = shl_words (pn a) k s w j" if "j < w" for j
    using shl_fold_nth [of w "pn a" j k s] that by (simp add: r_def w_def)
  have "words_val r = take_bit (32 * w) (push_bit (unat shift) (words_val (pn a)))"
  proof (rule bit_eqI)
    fix n :: nat
    define q t where "q = n div 32" and "t = n mod 32"
    have n: "n = 32 * q + t" and t32: "t < 32" by (simp_all add: q_def t_def)
    have qw: "q < w \<longleftrightarrow> n < 32 * w" using n t32 by auto
    have "bit (words_val r) n \<longleftrightarrow> q < w \<and> bit (shl_words (pn a) k s w q) t"
      by (auto simp: bit_words_val len nth q_def t_def)
    also have "\<dots> \<longleftrightarrow> q < w \<and> (if s \<le> t then k \<le> q \<and> bit (pn a ! (q - k)) (t - s)
                      else k + 1 \<le> q \<and> bit (pn a ! (q - k - 1)) (32 - s + t))"
      using s32 t32 by (auto simp: shl_words_def bit_simps dest: bit_u32_less)
    also have "\<dots> \<longleftrightarrow> q < w \<and> unat shift \<le> n \<and> bit (words_val (pn a)) (n - unat shift)"
    proof (cases "s \<le> t")
      case True
      have le: "unat shift \<le> n \<longleftrightarrow> k \<le> q" using sh n True t32 s32 by auto
      have "n - unat shift = 32 * (q - k) + (t - s)" if "k \<le> q"
        using sh n True that by (simp add: algebra_simps)
      then have "(n - unat shift) div 32 = q - k \<and> (n - unat shift) mod 32 = t - s" if "k \<le> q"
        using that t32 by simp
      then show ?thesis using True le by (auto simp: bit_words_val w_def)
    next
      case False
      have le: "unat shift \<le> n \<longleftrightarrow> k + 1 \<le> q" using sh n False t32 s32 by auto
      have "n - unat shift = 32 * (q - k - 1) + (32 - s + t)" if "k + 1 \<le> q"
        using sh n False that s32 by (simp add: algebra_simps)
      moreover have "32 - s + t < 32" using False s32 by simp
      ultimately have "(n - unat shift) div 32 = q - k - 1 \<and> (n - unat shift) mod 32 = 32 - s + t"
        if "k + 1 \<le> q" using that by simp
      then show ?thesis using False le by (auto simp: bit_words_val w_def)
    qed
    finally show "bit (words_val r) n =
        bit (take_bit (32 * w) (push_bit (unat shift) (words_val (pn a)))) n"
      by (simp add: bit_take_bit_iff bit_push_bit_iff qw)
  qed
  then show ?thesis
    by (simp add: bu_shl_def Let_def uval_def r_def k_def s_def w_def push_bit_eq_mult take_bit_eq_mod)
qed

section \<open>Bytes\<close>

lemma length_GetBytes [simp, len_simps]: "length (GetBytes a) = 4 * width a"
proof -
  have "length (concat (map uint2bytes ws)) = 4 * length ws" for ws
    by (induction ws) simp_all
  then show ?thesis by (simp add: GetBytes_def)
qed

lemma set_words_concat:
  "length xs = 4 * i \<Longrightarrow>
   set_words (length ws) (xs @ concat (map uint2bytes ws) @ ys) i = Inr ws"
proof (induction ws arbitrary: xs i)
  case Nil
  then show ?case by simp
next
  case (Cons x ws)
  have "vec_range (int (i * 4)) (int (i * 4 + 4)) (xs @ concat (map uint2bytes (x # ws)) @ ys)
      = Inr (uint2bytes x)"
    using Cons.prems by (intro vec_range_midI [where xs = xs]) simp_all
  moreover have "set_words (length ws) ((xs @ uint2bytes x) @ concat (map uint2bytes ws) @ ys) (Suc i)
      = Inr ws"
    using Cons.prems by (intro Cons.IH) simp
  ultimately show ?case by (simp add: join_uint2bytes)
qed

lemma SetBytes_GetBytes: "SetBytes (width a) (GetBytes a @ ys) = Inr a"
  using set_words_concat [of "[]" 0 "pn a" ys] by (simp add: SetBytes_def GetBytes_def)

lemma SetBytes_width: "SetBytes w D = Inr a \<Longrightarrow> width a = w"
proof -
  have "set_words n D i = Inr ws \<Longrightarrow> length ws = n" for n i ws
    by (induction n D i arbitrary: ws rule: set_words.induct) (auto simp: rbind_eq_Inr)
  then show "SetBytes w D = Inr a \<Longrightarrow> width a = w"
    by (auto simp: SetBytes_def rbind_eq_Inr)
qed

lemma SetBytes_long: "SetBytes w D = Inr a \<Longrightarrow> 4 * w \<le> length D"
proof -
  have "set_words n D i = Inr ws \<Longrightarrow> n = 0 \<or> 4 * (i + n) \<le> length D" for n i ws
  proof (induction n D i arbitrary: ws rule: set_words.induct)
    case (2 n D i)
    from "2.prems" obtain B vs where B: "vec_range (int (i * 4)) (int (i * 4 + 4)) D = Inr B"
      and vs: "set_words n D (Suc i) = Inr vs"
      by (auto simp: rbind_eq_Inr)
    from B have "i * 4 + 4 \<le> length D" by (auto simp: vec_range_def split: if_splits)
    with "2.IH" [OF vs] show ?case by auto
  qed simp
  then show "SetBytes w D = Inr a \<Longrightarrow> 4 * w \<le> length D"
    by (fastforce simp: SetBytes_def rbind_eq_Inr)
qed

lemma SetBytes_short: "SetBytes w D = Inl e \<Longrightarrow> length D < 4 * w"
proof -
  have "set_words n D i = Inl e \<Longrightarrow> length D < 4 * (i + n)" for n i
  proof (induction n D i rule: set_words.induct)
    case (2 n D i)
    then show ?case
      by (cases "i * 4 + 4 \<le> length D") (auto simp: vec_range_def rbind_eq_Inl split: if_splits)
  qed simp
  then show "SetBytes w D = Inl e \<Longrightarrow> length D < 4 * w"
    by (fastforce simp: SetBytes_def rbind_eq_Inl)
qed

end
