(* ===== verification/LLD_Record.thy ===== *)
theory LLD_Record
  imports LLD_Database Coinbase Uint1024
begin

text \<open>
  The two record types of \<open>src/src/LLD/record.h\<close>: \<open>Account\<close>, keyed by the miner's address, and
  \<open>Block\<close>, keyed by the block hash. The interpretations at the end give the account and the block
  database the store interface and the file round trip of \<open>LLD_Database\<close>.
\<close>

section \<open>Accounts\<close>

record account =
  acc_cKey :: string
  nAccountBalance :: u64
  nRoundShares :: u64
  nBlocksFound :: u32

definition Account_key :: "string \<Rightarrow> account" where
  "Account_key strKey =
     \<lparr>acc_cKey = strKey, nAccountBalance = 0, nRoundShares = 0, nBlocksFound = 0\<rparr>"

definition Account_default :: account where
  "Account_default = Account_key ''''"

definition Account_Serialize :: "account \<Rightarrow> bytes" where
  "Account_Serialize a =
     uint2bytes64 (nAccountBalance a) @ uint2bytes64 (nRoundShares a) @ uint2bytes (nBlocksFound a)
     @ string2bytes (acc_cKey a)"

definition Account_Deserialize :: "(u32 \<Rightarrow> u32) \<Rightarrow> bytes \<Rightarrow> account res" where
  "Account_Deserialize shl32 vInputData =
     rbind (bytes2string vInputData 20) (\<lambda>k.
       Inr \<lparr>acc_cKey = k, nAccountBalance = bytes2uint64 shl32 vInputData 0,
            nRoundShares = bytes2uint64 shl32 vInputData 8, nBlocksFound = bytes2uint vInputData 16\<rparr>)"

section \<open>Blocks\<close>

record block_record =
  blk_cKey :: base_uint
  nCoinbaseValue :: u64
  cCoinbase :: coinbase
  cCredits :: credits
  nRound :: u32

definition Block_key :: "base_uint \<Rightarrow> block_record" where
  "Block_key nKey =
     \<lparr>blk_cKey = nKey, nCoinbaseValue = 0, cCoinbase = Coinbase_default, cCredits = Credits_default,
      nRound = 0\<rparr>"

definition Block_default :: block_record where
  "Block_default = Block_key (bu_assign64 32 0)"

definition Block_Serialize :: "block_record \<Rightarrow> bytes" where
  "Block_Serialize b =
     uint2bytes64 (nCoinbaseValue b) @ uint2bytes (of_nat (length (Serialize (cCoinbase b))))
     @ Serialize (cCoinbase b) @ Credits_Serialize (cCredits b) @ uint2bytes (nRound b)
     @ GetBytes (blk_cKey b)"

definition Block_Deserialize :: "(u32 \<Rightarrow> u32) \<Rightarrow> bytes \<Rightarrow> block_record res" where
  "Block_Deserialize shl32 vInputData =
     (let n = int (length vInputData);
          value = bytes2uint64 shl32 vInputData 0;
          nBytes = unat (bytes2uint vInputData 8)
      in rbind (vec_range 12 (int (nBytes + 12)) vInputData) (\<lambda>vCoinbase.
         rbind (Deserialize shl32 vCoinbase value Coinbase_default) (\<lambda>cb.
         rbind (vec_range (int (nBytes + 12)) (n - 132) vInputData) (\<lambda>vCredits.
         rbind (Credits_Deserialize shl32 vCredits Credits_default) (\<lambda>cr.
         rbind (vec_range (n - 132) (n - 128) vInputData) (\<lambda>vRound.
         rbind (vec_range (n - 128) n vInputData) (\<lambda>vKey.
         rbind (SetBytes 32 vKey) (\<lambda>k.
           Inr \<lparr>blk_cKey = k, nCoinbaseValue = value, cCoinbase = cb, cCredits = cr,
                nRound = bytes2uint vRound 0\<rparr>))))))))"

type_synonym account_db = "(string, account) database"
type_synonym block_db = "(base_uint, block_record) database"

section \<open>Round trips\<close>

definition account_norm :: "(u32 \<Rightarrow> u32) \<Rightarrow> account \<Rightarrow> account" where
  "account_norm shl32 a =
     a\<lparr>nAccountBalance := read_back64 shl32 (nAccountBalance a),
       nRoundShares := read_back64 shl32 (nRoundShares a)\<rparr>"

definition account_ok :: "account \<Rightarrow> bool" where
  "account_ok a \<longleftrightarrow> length (acc_cKey a) < 2 ^ 31"

lemma Account_Deserialize_Serialize:
  "Account_Deserialize shl32 (Account_Serialize a) = Inr (account_norm shl32 a)"
proof -
  let ?d = "Account_Serialize a"
  have 1: "bytes2uint64 shl32 ?d 0 = read_back64 shl32 (nAccountBalance a)"
    by (rule bytes2uint64_read_back [of _ "[]"]) (simp_all add: Account_Serialize_def)
  have 2: "bytes2uint64 shl32 ?d 8 = read_back64 shl32 (nRoundShares a)"
    by (rule bytes2uint64_read_back [of _ "uint2bytes64 (nAccountBalance a)"])
       (simp_all add: Account_Serialize_def)
  have 3: "bytes2uint ?d 16 = nBlocksFound a"
    by (rule bytes2uint_at [of _ "uint2bytes64 (nAccountBalance a) @ uint2bytes64 (nRoundShares a)"])
       (simp_all add: Account_Serialize_def)
  have 4: "bytes2string ?d 20 = Inr (acc_cKey a)"
    by (rule bytes2string_string2bytes) (simp_all add: Account_Serialize_def)
  show ?thesis by (simp add: Account_Deserialize_def 1 2 3 4 account_norm_def)
qed

lemma Account_Deserialize_short: "length d < 20 \<Longrightarrow> Account_Deserialize shl32 d = Inl Out_of_range"
  by (simp add: Account_Deserialize_def bytes2string_def vec_range_def)

definition block_ok :: "block_record \<Rightarrow> bool" where
  "block_ok b \<longleftrightarrow>
     width (blk_cKey b) = 32
     \<and> om_inv (mapOutputs (cCoinbase b)) \<and> addr_ok (mapOutputs (cCoinbase b))
     \<and> om_inv (mapCredits (cCredits b)) \<and> addr_ok (mapCredits (cCredits b))"

definition block_norm :: "(u32 \<Rightarrow> u32) \<Rightarrow> block_record \<Rightarrow> block_record" where
  "block_norm shl32 b =
     (let value = read_back64 shl32 (nCoinbaseValue b) in
      b\<lparr>nCoinbaseValue := value, cCoinbase := read_back_coinbase shl32 value (cCoinbase b),
        cCredits := \<lparr>mapCredits = read_back_outputs shl32 (mapCredits (cCredits b))\<rparr>\<rparr>)"

lemma length_Serialize_bound: "addr_ok (mapOutputs c) \<Longrightarrow> length (Serialize c) < 2 ^ 17"
  using length_entries_bound [of "mapOutputs c"] by (simp add: Serialize_def addr_ok_def)

lemma length_Credits_Serialize_bound: "addr_ok (mapCredits c) \<Longrightarrow> length (Credits_Serialize c) < 2 ^ 17"
  using length_entries_bound [of "mapCredits c"] by (simp add: Credits_Serialize_def addr_ok_def)

lemma Block_Deserialize_Serialize:
  assumes "block_ok b"
  shows "Block_Deserialize shl32 (Block_Serialize b) = Inr (block_norm shl32 b)"
proof -
  let ?d = "Block_Serialize b" and ?cb = "Serialize (cCoinbase b)" and ?cr = "Credits_Serialize (cCredits b)"
    and ?v = "uint2bytes64 (nCoinbaseValue b)" and ?r = "uint2bytes (nRound b)" and ?k = "GetBytes (blk_cKey b)"
  let ?l = "uint2bytes (of_nat (length ?cb))"
  note ok = assms [unfolded block_ok_def]
  have len: "length ?cb < 2 ^ 32" using length_Serialize_bound [of "cCoinbase b"] ok by simp
  have d: "?d = ?v @ ?l @ ?cb @ ?cr @ ?r @ ?k" by (simp add: Block_Serialize_def)
  have L: "length ?d = 144 + length ?cb + length ?cr" using ok by (simp add: d)
  have 1: "bytes2uint64 shl32 ?d 0 = read_back64 shl32 (nCoinbaseValue b)"
    by (rule bytes2uint64_read_back [of _ "[]"]) (simp_all add: d)
  have 2: "unat (bytes2uint ?d 8) = length ?cb"
    using len by (subst bytes2uint_at [of _ "?v" "of_nat (length ?cb)"])
      (simp_all add: d unat_of_nat take_bit_nat_eq_self)
  have 3: "vec_range 12 (int (length ?cb + 12)) ?d = Inr ?cb"
    by (rule vec_range_midI [of _ "?v @ ?l"]) (simp_all add: d)
  have 4: "vec_range (int (length ?cb + 12)) (int (length ?d) - 132) ?d = Inr ?cr"
    by (rule vec_range_midI [of _ "?v @ ?l @ ?cb"]) (use L in \<open>simp_all add: d\<close>)
  have 5: "vec_range (int (length ?d) - 132) (int (length ?d) - 128) ?d = Inr ?r"
    by (rule vec_range_midI [of _ "?v @ ?l @ ?cb @ ?cr"]) (use L in \<open>simp_all add: d\<close>)
  have 6: "vec_range (int (length ?d) - 128) (int (length ?d)) ?d = Inr ?k"
    by (rule vec_range_midI [of _ "?v @ ?l @ ?cb @ ?cr @ ?r" _ "[]"]) (use L ok in \<open>simp_all add: d\<close>)
  have 7: "SetBytes 32 ?k = Inr (blk_cKey b)"
    using SetBytes_GetBytes [of "blk_cKey b" "[]"] ok by simp
  show ?thesis
    using ok
    by (simp only: Block_Deserialize_def Let_def 1 2 3 4 5 6 7 rbind_Inr Deserialize_Serialize
        Credits_Deserialize_Serialize bytes2uint_uint2bytes) (simp add: block_norm_def Let_def)
qed

section \<open>Interpretations\<close>

interpretation adb: record_store db_inv db_view GetKeys "GetRecord Account_default"
  "UpdateRecord acc_cKey" acc_cKey Account_default
  by (rule record_store_database)

interpretation bdb: record_store db_inv db_view GetKeys "GetRecord Block_default"
  "UpdateRecord blk_cKey" blk_cKey Block_default
  by (rule record_store_database)

interpretation arec: lld_record Account_Serialize "Account_Deserialize shl32" acc_cKey account_ok
  "account_norm shl32" for shl32
proof unfold_locales
  fix r assume ok: "account_ok r"
  show "Account_Deserialize shl32 (Account_Serialize r) = Inr (account_norm shl32 r)"
    by (rule Account_Deserialize_Serialize)
  show "acc_cKey (account_norm shl32 r) = acc_cKey r" by (simp add: account_norm_def)
  show "0 < length (Account_Serialize r) \<and> length (Account_Serialize r) < 2 ^ 32"
    using ok by (simp add: Account_Serialize_def account_ok_def)
qed

interpretation brec: lld_record Block_Serialize "Block_Deserialize shl32" blk_cKey block_ok
  "block_norm shl32" for shl32
proof unfold_locales
  fix r assume ok: "block_ok r"
  show "Block_Deserialize shl32 (Block_Serialize r) = Inr (block_norm shl32 r)"
    using ok by (rule Block_Deserialize_Serialize)
  show "blk_cKey (block_norm shl32 r) = blk_cKey r" by (simp add: block_norm_def Let_def)
  show "0 < length (Block_Serialize r) \<and> length (Block_Serialize r) < 2 ^ 32"
    using ok length_Serialize_bound [of "cCoinbase r"] length_Credits_Serialize_bound [of "cCredits r"]
    by (simp add: Block_Serialize_def block_ok_def)
qed

end
