(* ===== verification/LLP_Block.thy ===== *)
theory LLP_Block
  imports Uint1024
begin

text \<open>
  \<open>LLP::CBlock\<close> of \<open>src/src/LLP/block.h\<close>: the block header a miner works on. \<open>GetHash\<close> hashes the
  memory from \<open>BEGIN(nVersion)\<close> to \<open>END(nBits)\<close>: the members are 32 bit words without padding
  between them, stored least significant byte first, 208 bytes in all. The hash function \<open>SK1024\<close> is
  an argument of the definitions that use it.
\<close>

record cblock =
  nVersion :: u32
  hashPrevBlock :: base_uint
  hashMerkleRoot :: base_uint
  nChannel :: u32
  nHeight :: u32
  nBits :: u32
  nNonce :: u64

definition cblock_default :: cblock where
  "cblock_default =
     \<lparr>nVersion = 0, hashPrevBlock = bu_assign64 32 0, hashMerkleRoot = bu_assign64 16 0,
      nChannel = 0, nHeight = 0, nBits = 0, nNonce = 0\<rparr>"

definition cblock_wf :: "cblock \<Rightarrow> bool" where
  "cblock_wf b \<longleftrightarrow> width (hashPrevBlock b) = 32 \<and> width (hashMerkleRoot b) = 16"

text \<open>The bytes of a 32 bit word in memory, least significant first.\<close>

definition mem32 :: "u32 \<Rightarrow> bytes" where
  "mem32 u = rev (uint2bytes u)"

definition header_memory :: "cblock \<Rightarrow> bytes" where
  "header_memory b =
     mem32 (nVersion b) @ concat (map mem32 (pn (hashPrevBlock b)))
     @ concat (map mem32 (pn (hashMerkleRoot b)))
     @ mem32 (nChannel b) @ mem32 (nHeight b) @ mem32 (nBits b)"

definition GetHash :: "(bytes \<Rightarrow> base_uint) \<Rightarrow> cblock \<Rightarrow> base_uint" where
  "GetHash SK1024 b = SK1024 (header_memory b)"

definition GetPrime :: "(bytes \<Rightarrow> base_uint) \<Rightarrow> cblock \<Rightarrow> base_uint" where
  "GetPrime SK1024 b = bu_add64 (GetHash SK1024 b) (nNonce b)"

lemma cblock_wf_default: "cblock_wf cblock_default"
  by (simp add: cblock_wf_def cblock_default_def)

lemma length_mem32 [simp]: "length (mem32 u) = 4"
  by (simp add: mem32_def)

lemma length_concat_mem32: "length (concat (map mem32 ws)) = 4 * length ws"
  by (induction ws) simp_all

lemma length_header_memory: "cblock_wf b \<Longrightarrow> length (header_memory b) = 208"
  by (simp add: header_memory_def cblock_wf_def length_concat_mem32)

lemma mem32_inj: "mem32 u = mem32 v \<longleftrightarrow> u = v"
  by (metis bytes2uint_uint2bytes mem32_def rev_is_rev_conv)

lemma concat_mem32_inj:
  "length us = length vs \<Longrightarrow> concat (map mem32 us) = concat (map mem32 vs) \<longleftrightarrow> us = vs"
  by (induction us vs rule: list_induct2) (auto simp: mem32_inj append_eq_append_conv)

text \<open>
  Two well formed headers with the same hashed memory agree in every member except the nonce, which
  is not part of the hash.
\<close>

lemma header_memory_eq_iff:
  assumes "cblock_wf a" and "cblock_wf b"
  shows "header_memory a = header_memory b \<longleftrightarrow> a = b\<lparr>nNonce := nNonce a\<rparr>"
proof -
  have len: "length (concat (map mem32 (pn (hashPrevBlock a)))) = length (concat (map mem32 (pn (hashPrevBlock b))))"
    "length (concat (map mem32 (pn (hashMerkleRoot a)))) = length (concat (map mem32 (pn (hashMerkleRoot b))))"
    "width (hashPrevBlock a) = width (hashPrevBlock b)" "width (hashMerkleRoot a) = width (hashMerkleRoot b)"
    using assms by (simp_all add: cblock_wf_def length_concat_mem32)
  have "header_memory a = header_memory b \<longleftrightarrow>
        nVersion a = nVersion b \<and> hashPrevBlock a = hashPrevBlock b \<and> hashMerkleRoot a = hashMerkleRoot b
        \<and> nChannel a = nChannel b \<and> nHeight a = nHeight b \<and> nBits a = nBits b"
    using len by (auto simp: header_memory_def append_eq_append_conv mem32_inj concat_mem32_inj
        base_uint.expand)
  then show ?thesis by (cases a; cases b) simp
qed

end
