(* ===== verification/Banned_Users.thy ===== *)
theory Banned_Users
  imports Prelude
begin

text \<open>
  \<open>Banned_persister_file\<close> and \<open>Banned_users\<close> of \<open>src/src/banned_users.hpp\<close>. A
  \<open>std::unordered_set\<close> is a set together with an iteration order the standard leaves open: the
  order is the argument \<open>iter\<close> of \<open>save\<close>. A file is its content, \<open>None\<close> when it does not exist.
  The mutexes make each operation atomic; the operations below are the atomic steps.
\<close>

section \<open>The persister\<close>

type_synonym banned_set = "string set"

definition newline :: char where
  "newline = CHR 0x0A"

definition persister_save ::
  "(banned_set \<Rightarrow> string list) \<Rightarrow> banned_set \<Rightarrow> string option \<Rightarrow> string option" where
  "persister_save iter banned_list file =
     (if banned_list \<noteq> {}
      then Some (concat (map (\<lambda>banned_entry. banned_entry @ [newline]) (iter banned_list)))
      else file)"

text \<open>The lines \<open>std::getline\<close> yields: a last line without a newline counts if it is not empty.\<close>

fun getlines :: "string \<Rightarrow> string \<Rightarrow> string list" where
  "getlines line [] = (if line = [] then [] else [line])"
| "getlines line (c # cs) = (if c = newline then line # getlines [] cs else getlines (line @ [c]) cs)"

text \<open>
  \<open>load\<close> takes the list by value. The model returns the callee's copy of the list at the end of the
  call; the callers keep their own list.
\<close>

definition persister_load :: "string option \<Rightarrow> banned_set \<Rightarrow> banned_set" where
  "persister_load file banned_list =
     (if banned_list = {}
      then (case file of None \<Rightarrow> banned_list
            | Some content \<Rightarrow> foldl (\<lambda>s line. insert line s) banned_list (getlines [] content))
      else banned_list)"

section \<open>The lists of the server\<close>

record banned_users =
  m_banned_accounts :: banned_set
  m_banned_ip_addresses :: banned_set

definition Banned_users_new :: banned_users where
  "Banned_users_new = \<lparr>m_banned_accounts = {}, m_banned_ip_addresses = {}\<rparr>"

text \<open>The value of each \<open>load\<close> argument after the call is discarded with the parameter it was passed in.\<close>

definition load_banned_users :: "string option \<Rightarrow> string option \<Rightarrow> banned_users \<Rightarrow> banned_users" where
  "load_banned_users accounts_file ip_file b =
     (let _ = persister_load accounts_file (m_banned_accounts b);
          _ = persister_load ip_file (m_banned_ip_addresses b)
      in b)"

definition save_banned_users ::
  "(banned_set \<Rightarrow> string list) \<Rightarrow> banned_users \<Rightarrow> string option \<times> string option \<Rightarrow> string option \<times> string option" where
  "save_banned_users iter b files =
     (persister_save iter (m_banned_accounts b) (fst files),
      persister_save iter (m_banned_ip_addresses b) (snd files))"

definition add_banned_account :: "string \<Rightarrow> banned_users \<Rightarrow> banned_users" where
  "add_banned_account account b = b\<lparr>m_banned_accounts := insert account (m_banned_accounts b)\<rparr>"

definition add_banned_ip_address :: "string \<Rightarrow> banned_users \<Rightarrow> banned_users" where
  "add_banned_ip_address ip_address b =
     b\<lparr>m_banned_ip_addresses := insert ip_address (m_banned_ip_addresses b)\<rparr>"

definition is_ip_address_banned :: "banned_users \<Rightarrow> string \<Rightarrow> bool" where
  "is_ip_address_banned b ip_address \<longleftrightarrow> ip_address \<in> m_banned_ip_addresses b"

definition is_account_banned :: "banned_users \<Rightarrow> string \<Rightarrow> bool" where
  "is_account_banned b account \<longleftrightarrow> account \<in> m_banned_accounts b"

section \<open>The contract of a ban list\<close>

text \<open>
  Both lists promise the same to the connections: a ban takes effect at once, stays, and does not
  touch the other list.
\<close>

locale ban_list =
  fixes banned :: "'s \<Rightarrow> string \<Rightarrow> bool"
    and ban :: "string \<Rightarrow> 's \<Rightarrow> 's"
    and other :: "'s \<Rightarrow> string \<Rightarrow> bool"
  assumes banned_ban: "banned (ban a s) b \<longleftrightarrow> b = a \<or> banned s b"
    and other_ban: "other (ban a s) = other s"
begin

lemma banned_fold: "banned (fold ban as s) b \<longleftrightarrow> b \<in> set as \<or> banned s b"
  by (induction as arbitrary: s) (auto simp: banned_ban)

lemma other_fold: "other (fold ban as s) = other s"
  by (induction as arbitrary: s) (simp_all add: other_ban)

lemma ban_stays: "banned s b \<Longrightarrow> banned (ban a s) b"
  by (simp add: banned_ban)

end

interpretation accounts: ban_list is_account_banned add_banned_account is_ip_address_banned
  by unfold_locales (auto simp: is_account_banned_def add_banned_account_def is_ip_address_banned_def)

interpretation addresses: ban_list is_ip_address_banned add_banned_ip_address is_account_banned
  by unfold_locales (auto simp: is_account_banned_def add_banned_ip_address_def is_ip_address_banned_def)

section \<open>The file format\<close>

definition iter_ok :: "(banned_set \<Rightarrow> string list) \<Rightarrow> banned_set \<Rightarrow> bool" where
  "iter_ok iter s \<longleftrightarrow> set (iter s) = s"

lemma getlines_append:
  "newline \<notin> set l \<Longrightarrow> getlines acc (l @ newline # cs) = (acc @ l) # getlines [] cs"
  by (induction l arbitrary: acc) (auto simp: newline_def)

lemma getlines_concat:
  "\<forall>l \<in> set ls. newline \<notin> set l \<Longrightarrow> getlines [] (concat (map (\<lambda>l. l @ [newline]) ls)) = ls"
  by (induction ls) (simp_all add: getlines_append)

lemma foldl_insert: "foldl (\<lambda>s x. insert x s) s xs = s \<union> set xs"
  by (induction xs arbitrary: s) auto

lemma persister_load_save:
  assumes "iter_ok iter s" and "\<forall>l \<in> s. newline \<notin> set l" and "s \<noteq> {}"
  shows "persister_load (persister_save iter s file) {} = s"
  using assms by (simp add: persister_load_def persister_save_def iter_ok_def getlines_concat foldl_insert)

end
