(* ===== verification/Config.thy ===== *)
theory Config
  imports Prelude
begin

text \<open>
  \<open>Config\<close> of \<open>src/src/config.hpp\<close> and \<open>config.cpp\<close>. The JSON parser is a third party library and an
  argument of the model: \<open>json_api\<close> has one field for each operation of it that \<open>read_config\<close> uses,
  each of which may throw (\<open>Inl\<close>). The output on the console is not modelled.
\<close>

section \<open>The settings\<close>

record config =
  m_wallet_ip :: string
  m_port :: u16
  m_pool_port :: u16
  m_connection_threads :: u32
  cfg_use_ddos :: bool
  m_r_score :: int
  m_c_score :: int
  cfg_min_share :: u32
  m_pool_fee :: u32
  m_logfile :: string
  m_database_type :: string
  m_database_file :: string
  m_maintenance_timer_seconds :: u32
  m_persistance_timer_seconds :: u32
  m_block_timer_milliseconds :: u32
  m_orphan_check_timer_seconds :: u32
  m_request_timer_seconds :: u32
  strStatsDBServerIP :: string
  nStatsDBServerPort :: int
  strStatsDBUsername :: string
  strStatsDBPassword :: string
  nSaveConnectionStatsFrequency :: int
  nSaveConnectionStatsSeriesFrequency :: int

definition Config_default :: config where
  "Config_default =
     \<lparr>m_wallet_ip = ''127.0.0.1'', m_port = 9323, m_pool_port = 9549, m_connection_threads = 20,
      cfg_use_ddos = True, m_r_score = 20, m_c_score = 2, cfg_min_share = 40000000, m_pool_fee = 1,
      m_logfile = '''', m_database_type = ''sqlite'', m_database_file = '''',
      m_maintenance_timer_seconds = 60, m_persistance_timer_seconds = 10,
      m_block_timer_milliseconds = 50, m_orphan_check_timer_seconds = 20, m_request_timer_seconds = 2,
      strStatsDBServerIP = ''127.0.0.1'', nStatsDBServerPort = 3306, strStatsDBUsername = ''mysql'',
      strStatsDBPassword = ''mysql'', nSaveConnectionStatsFrequency = 10,
      nSaveConnectionStatsSeriesFrequency = 300\<rparr>"

section \<open>Reading the file\<close>

text \<open>
  \<open>js_at\<close> throws for a missing key; \<open>js_index\<close> is \<open>operator[]\<close>, which inserts a null for one; the
  conversions throw on a value of another type.
\<close>

record 'j json_api =
  js_parse :: "string \<Rightarrow> 'j res"
  js_at :: "'j \<Rightarrow> string \<Rightarrow> 'j res"
  js_has :: "'j \<Rightarrow> string \<Rightarrow> bool"
  js_index :: "'j \<Rightarrow> string \<Rightarrow> 'j res"
  js_string :: "'j \<Rightarrow> string res"
  js_bool :: "'j \<Rightarrow> bool res"
  js_int :: "'j \<Rightarrow> int res"
  js_u16 :: "'j \<Rightarrow> u16 res"
  js_u32 :: "'j \<Rightarrow> u32 res"

text \<open>\<open>j.at(key).get_to(member)\<close>, with the conversion and the member as arguments.\<close>

definition get_to :: "'j json_api \<Rightarrow> 'j \<Rightarrow> ('j \<Rightarrow> 'a res) \<Rightarrow> string \<Rightarrow> ('a \<Rightarrow> config \<Rightarrow> config) \<Rightarrow> config \<Rightarrow> config res" where
  "get_to api j conv key upd c =
     rbind (js_at api j key) (\<lambda>v. rbind (conv v) (\<lambda>x. Inr (upd x c)))"

definition get_advanced :: "'j json_api \<Rightarrow> 'j \<Rightarrow> string \<Rightarrow> (u32 \<Rightarrow> config \<Rightarrow> config) \<Rightarrow> config \<Rightarrow> config res" where
  "get_advanced api j key upd c =
     rbind (js_index api j ''advanced_config'') (\<lambda>a.
     rbind (js_index api a key) (\<lambda>v. rbind (js_u32 api v) (\<lambda>x. Inr (upd x c))))"

definition read_fields :: "'j json_api \<Rightarrow> 'j \<Rightarrow> (config \<Rightarrow> config res) list" where
  "read_fields api j =
    [get_to api j (js_string api) ''wallet_ip'' (\<lambda>x c. c\<lparr>m_wallet_ip := x\<rparr>),
     get_to api j (js_u16 api) ''port'' (\<lambda>x c. c\<lparr>m_port := x\<rparr>),
     get_to api j (js_u16 api) ''pool_port'' (\<lambda>x c. c\<lparr>m_pool_port := x\<rparr>),
     get_to api j (js_u32 api) ''connection_threads'' (\<lambda>x c. c\<lparr>m_connection_threads := x\<rparr>),
     get_to api j (js_bool api) ''enable_ddos'' (\<lambda>x c. c\<lparr>cfg_use_ddos := x\<rparr>),
     get_to api j (js_int api) ''ddos_rscore'' (\<lambda>x c. c\<lparr>m_r_score := x\<rparr>),
     get_to api j (js_int api) ''ddos_cscore'' (\<lambda>x c. c\<lparr>m_c_score := x\<rparr>),
     get_to api j (js_u32 api) ''min_share'' (\<lambda>x c. c\<lparr>cfg_min_share := x\<rparr>),
     get_to api j (js_u32 api) ''pool_fee'' (\<lambda>x c. c\<lparr>m_pool_fee := x\<rparr>),
     get_to api j (js_string api) ''logfile'' (\<lambda>x c. c\<lparr>m_logfile := x\<rparr>),
     get_to api j (js_string api) ''database_type'' (\<lambda>x c. c\<lparr>m_database_type := x\<rparr>),
     get_to api j (js_string api) ''database_file'' (\<lambda>x c. c\<lparr>m_database_file := x\<rparr>),
     get_to api j (js_string api) ''stats_db_server_ip'' (\<lambda>x c. c\<lparr>strStatsDBServerIP := x\<rparr>),
     get_to api j (js_int api) ''stats_db_server_port'' (\<lambda>x c. c\<lparr>nStatsDBServerPort := x\<rparr>),
     get_to api j (js_string api) ''stats_db_username'' (\<lambda>x c. c\<lparr>strStatsDBUsername := x\<rparr>),
     get_to api j (js_string api) ''stats_db_password'' (\<lambda>x c. c\<lparr>strStatsDBPassword := x\<rparr>),
     get_to api j (js_int api) ''connection_stats_frequency'' (\<lambda>x c. c\<lparr>nSaveConnectionStatsFrequency := x\<rparr>),
     get_to api j (js_int api) ''connection_stats_series_frequency''
       (\<lambda>x c. c\<lparr>nSaveConnectionStatsSeriesFrequency := x\<rparr>)]"

definition read_advanced :: "'j json_api \<Rightarrow> 'j \<Rightarrow> (config \<Rightarrow> config res) list" where
  "read_advanced api j =
    [get_advanced api j ''maintenance_timer'' (\<lambda>x c. c\<lparr>m_maintenance_timer_seconds := x\<rparr>),
     get_advanced api j ''persistance_timer'' (\<lambda>x c. c\<lparr>m_persistance_timer_seconds := x\<rparr>),
     get_advanced api j ''block_timer_milliseconds'' (\<lambda>x c. c\<lparr>m_block_timer_milliseconds := x\<rparr>),
     get_advanced api j ''orphan_check_timer'' (\<lambda>x c. c\<lparr>m_orphan_check_timer_seconds := x\<rparr>),
     get_advanced api j ''request_timer'' (\<lambda>x c. c\<lparr>m_request_timer_seconds := x\<rparr>)]"

text \<open>
  \<open>read_config\<close>: \<open>file\<close> is the content of \<open>pool.conf\<close>, \<open>None\<close> when it cannot be opened. The
  statements run in the order of the source and stop at the first one that throws.
\<close>

definition read_config :: "'j json_api \<Rightarrow> string option \<Rightarrow> config \<Rightarrow> (bool \<times> config) res" where
  "read_config api file c =
     (case file of
        None \<Rightarrow> Inr (False, c)
      | Some content \<Rightarrow>
          rbind (js_parse api content) (\<lambda>j.
          rbind (rfold (\<lambda>f. f) (read_fields api j) c) (\<lambda>c.
          rbind (if js_has api j ''advanced_config'' then rfold (\<lambda>f. f) (read_advanced api j) c else Inr c) (\<lambda>c.
            Inr (True, c)))))"

section \<open>What a read keeps\<close>

lemma get_to_Inr:
  "get_to api j conv key upd c = Inr c' \<Longrightarrow> \<exists>v x. js_at api j key = Inr v \<and> conv v = Inr x \<and> c' = upd x c"
  by (auto simp: get_to_def rbind_eq_Inr)

text \<open>Every mandatory key is looked up: a configuration that lacks one is refused by an exception.\<close>

definition mandatory_keys :: "string list" where
  "mandatory_keys =
     [''wallet_ip'', ''port'', ''pool_port'', ''connection_threads'', ''enable_ddos'', ''ddos_rscore'',
      ''ddos_cscore'', ''min_share'', ''pool_fee'', ''logfile'', ''database_type'', ''database_file'',
      ''stats_db_server_ip'', ''stats_db_server_port'', ''stats_db_username'', ''stats_db_password'',
      ''connection_stats_frequency'', ''connection_stats_series_frequency'']"

lemma rfold_Inr_all:
  "rfold (\<lambda>f. f) fs c = Inr c' \<Longrightarrow> f \<in> set fs \<Longrightarrow> \<exists>u v. f u = Inr v"
  by (induction fs arbitrary: c) (auto simp: rbind_eq_Inr)

lemma read_fields_mandatory:
  assumes "rfold (\<lambda>f. f) (read_fields api j) c = Inr c'" and "k \<in> set mandatory_keys"
  shows "\<exists>v. js_at api j k = Inr v"
proof -
  have "\<exists>f \<in> set (read_fields api j). \<forall>u w. f u = Inr w \<longrightarrow> (\<exists>v. js_at api j k = Inr v)"
    using assms(2) unfolding mandatory_keys_def read_fields_def
    by (auto simp: get_to_def rbind_eq_Inr)
  then show ?thesis using rfold_Inr_all [OF assms(1)] by blast
qed

text \<open>Every setting with a key of its own is the converted value of that key.\<close>

definition settings_of :: "'j json_api \<Rightarrow> 'j \<Rightarrow> config \<Rightarrow> bool" where
  "settings_of api j c \<longleftrightarrow>
     rbind (js_at api j ''wallet_ip'') (js_string api) = Inr (m_wallet_ip c)
     \<and> rbind (js_at api j ''port'') (js_u16 api) = Inr (m_port c)
     \<and> rbind (js_at api j ''pool_port'') (js_u16 api) = Inr (m_pool_port c)
     \<and> rbind (js_at api j ''connection_threads'') (js_u32 api) = Inr (m_connection_threads c)
     \<and> rbind (js_at api j ''enable_ddos'') (js_bool api) = Inr (cfg_use_ddos c)
     \<and> rbind (js_at api j ''ddos_rscore'') (js_int api) = Inr (m_r_score c)
     \<and> rbind (js_at api j ''ddos_cscore'') (js_int api) = Inr (m_c_score c)
     \<and> rbind (js_at api j ''min_share'') (js_u32 api) = Inr (cfg_min_share c)
     \<and> rbind (js_at api j ''pool_fee'') (js_u32 api) = Inr (m_pool_fee c)
     \<and> rbind (js_at api j ''logfile'') (js_string api) = Inr (m_logfile c)
     \<and> rbind (js_at api j ''database_type'') (js_string api) = Inr (m_database_type c)
     \<and> rbind (js_at api j ''database_file'') (js_string api) = Inr (m_database_file c)
     \<and> rbind (js_at api j ''stats_db_server_ip'') (js_string api) = Inr (strStatsDBServerIP c)
     \<and> rbind (js_at api j ''stats_db_server_port'') (js_int api) = Inr (nStatsDBServerPort c)
     \<and> rbind (js_at api j ''stats_db_username'') (js_string api) = Inr (strStatsDBUsername c)
     \<and> rbind (js_at api j ''stats_db_password'') (js_string api) = Inr (strStatsDBPassword c)
     \<and> rbind (js_at api j ''connection_stats_frequency'') (js_int api) = Inr (nSaveConnectionStatsFrequency c)
     \<and> rbind (js_at api j ''connection_stats_series_frequency'') (js_int api) = Inr (nSaveConnectionStatsSeriesFrequency c)"

text \<open>The five timers, and where they come from when there is an advanced section.\<close>

definition config_timers :: "config \<Rightarrow> u32 list" where
  "config_timers c = [m_maintenance_timer_seconds c, m_persistance_timer_seconds c, m_block_timer_milliseconds c,
     m_orphan_check_timer_seconds c, m_request_timer_seconds c]"

definition advanced_timer :: "'j json_api \<Rightarrow> 'j \<Rightarrow> string \<Rightarrow> u32 res" where
  "advanced_timer api j key =
     rbind (js_index api j ''advanced_config'') (\<lambda>a. rbind (js_index api a key) (js_u32 api))"

definition timer_keys :: "string list" where
  "timer_keys = [''maintenance_timer'', ''persistance_timer'', ''block_timer_milliseconds'', ''orphan_check_timer'',
     ''request_timer'']"

lemma read_advanced_settings:
  assumes "rfold (\<lambda>f. f) (read_advanced api j) c = Inr c'"
  shows "settings_of api j c' = settings_of api j c"
    and "map (advanced_timer api j) timer_keys = map Inr (config_timers c')"
proof -
  show "settings_of api j c' = settings_of api j c"
    using assms by (auto simp: read_advanced_def get_advanced_def rbind_eq_Inr settings_of_def)
  from assms show "map (advanced_timer api j) timer_keys = map Inr (config_timers c')"
    by (auto simp: read_advanced_def get_advanced_def rbind_eq_Inr advanced_timer_def timer_keys_def config_timers_def)
qed

lemma read_fields_settings:
  assumes "rfold (\<lambda>f. f) (read_fields api j) c = Inr c'"
  shows "settings_of api j c'" and "config_timers c' = config_timers c"
  using assms by (auto simp: read_fields_def get_to_def rbind_eq_Inr settings_of_def config_timers_def)

end
