(* ===== verification/Data_Registry.thy ===== *)
theory Data_Registry
  imports LLD_Record LLP_Block Banned_Users Config "HOL-Library.Multiset"
begin

text \<open>
  \<open>Data_registry\<close> of \<open>src/src/data_registry.hpp\<close> and \<open>data_registry.cpp\<close>: the state that all
  connections share. The files of the working directory that it reads and writes are fields of the
  state. Timers are events: \<open>persistance_handler\<close> is what the timer runs.
\<close>

section \<open>State\<close>

record data_registry =
  m_block_db :: block_db
  m_account_db :: account_db
  m_banned_users :: "banned_users option"
  m_best_height :: u32
  m_current_round :: u32
  m_config :: config
  m_min_share :: u32
  m_use_ddos :: bool
  m_coinbase :: coinbase
  m_submit_block :: cblock
  blk_dat :: "bytes option"
  acct_dat :: "bytes option"
  ban_files :: "string option \<times> string option"

definition Database_new ::
  "(bytes \<Rightarrow> 'r res) \<Rightarrow> ('r \<Rightarrow> 'k::linorder) \<Rightarrow> bytes option \<Rightarrow> string \<Rightarrow> ('k, 'r) database res option" where
  "Database_new des cKey file fileout =
     ReadIntoMemory des cKey file \<lparr>strFilename = fileout, mapRecords = []\<rparr>"

text \<open>The constructor reads both databases; \<open>None\<close> when a read does not return.\<close>

definition Data_registry_new ::
  "(u32 \<Rightarrow> u32) \<Rightarrow> config \<Rightarrow> bytes option \<Rightarrow> bytes option \<Rightarrow> string option \<times> string option
   \<Rightarrow> data_registry res option" where
  "Data_registry_new shl32 cfg blk acct bans =
     Option.bind (Database_new (Block_Deserialize shl32) blk_cKey blk ''blk.dat'') (\<lambda>rb.
     case rb of Inl e \<Rightarrow> Some (Inl e) | Inr bdb \<Rightarrow>
     Option.bind (Database_new (Account_Deserialize shl32) acc_cKey acct ''acct.dat'') (\<lambda>ra.
     case ra of Inl e \<Rightarrow> Some (Inl e) | Inr adb \<Rightarrow>
       Some (Inr \<lparr>m_block_db = bdb, m_account_db = adb, m_banned_users = None, m_best_height = 0,
                  m_current_round = 1, m_config = cfg, m_min_share = cfg_min_share cfg,
                  m_use_ddos = cfg_use_ddos cfg, m_coinbase = Coinbase_default,
                  m_submit_block = cblock_default, blk_dat = blk, acct_dat = acct, ban_files = bans\<rparr>)))"

text \<open>\<open>init\<close>, without the database connection and the start of the timer.\<close>

definition Data_registry_init :: "data_registry \<Rightarrow> data_registry" where
  "Data_registry_init reg =
     reg\<lparr>m_banned_users := Some (load_banned_users (fst (ban_files reg)) (snd (ban_files reg)) Banned_users_new)\<rparr>"

text \<open>The destructor saves the ban lists.\<close>

definition Data_registry_destroy :: "(banned_set \<Rightarrow> string list) \<Rightarrow> data_registry \<Rightarrow> data_registry res" where
  "Data_registry_destroy iter reg =
     (case m_banned_users reg of
        None \<Rightarrow> Inl Null_deref
      | Some b \<Rightarrow> Inr (reg\<lparr>ban_files := save_banned_users iter b (ban_files reg)\<rparr>))"

definition write_block_db :: "data_registry \<Rightarrow> data_registry res" where
  "write_block_db reg =
     rbind (WriteToDisk Block_Serialize (m_block_db reg)) (\<lambda>bs. Inr (reg\<lparr>blk_dat := Some bs\<rparr>))"

definition write_account_db :: "data_registry \<Rightarrow> data_registry res" where
  "write_account_db reg =
     rbind (WriteToDisk Account_Serialize (m_account_db reg)) (\<lambda>bs. Inr (reg\<lparr>acct_dat := Some bs\<rparr>))"

definition persistance_handler :: "bool \<Rightarrow> data_registry \<Rightarrow> data_registry res" where
  "persistance_handler canceled reg =
     (if canceled then Inr reg else rbind (write_block_db reg) write_account_db)"

definition set_submit_block :: "cblock \<Rightarrow> data_registry \<Rightarrow> data_registry" where
  "set_submit_block block reg = reg\<lparr>m_submit_block := block\<rparr>"

section \<open>Sorted accounts\<close>

text \<open>
  \<open>std::sort\<close> is the argument \<open>srt\<close>: given a comparison that is a strict weak order it returns the
  elements in an order the comparison does not contradict; the order of equivalent elements is not
  fixed. The comparison of \<open>get_sorted_accounts\<close> looks the two keys up with \<open>GetRecord\<close>; they come
  from \<open>GetKeys\<close>, so the lookups change nothing.
\<close>

type_synonym sorter = "(string \<Rightarrow> string \<Rightarrow> bool) \<Rightarrow> string list \<Rightarrow> string list"

definition std_sort_ok :: "sorter \<Rightarrow> bool" where
  "std_sort_ok srt \<longleftrightarrow>
     (\<forall>lt xs. (\<forall>a. \<not> lt a a) \<and> (\<forall>a b c. lt a b \<longrightarrow> lt b c \<longrightarrow> lt a c)
        \<and> (\<forall>a b c. \<not> lt a b \<longrightarrow> \<not> lt b c \<longrightarrow> \<not> lt a c)
        \<longrightarrow> mset (srt lt xs) = mset xs \<and> sorted_wrt (\<lambda>a b. \<not> lt b a) (srt lt xs))"

definition balance_of :: "account_db \<Rightarrow> string \<Rightarrow> u64" where
  "balance_of db k = nAccountBalance (fst (GetRecord Account_default k db))"

definition get_sorted_accounts :: "sorter \<Rightarrow> data_registry \<Rightarrow> string list" where
  "get_sorted_accounts srt reg =
     srt (\<lambda>firstElem secondElem. balance_of (m_account_db reg) firstElem > balance_of (m_account_db reg) secondElem)
       (GetKeys (m_account_db reg))"

lemma key_order:
  fixes f :: "'a \<Rightarrow> 'b::linorder"
  shows "(\<forall>a. \<not> f a < f a) \<and> (\<forall>a b c. f b < f a \<longrightarrow> f c < f b \<longrightarrow> f c < f a)
    \<and> (\<forall>a b c. \<not> f b < f a \<longrightarrow> \<not> f c < f b \<longrightarrow> \<not> f c < f a)"
  by (intro conjI allI impI; (simp add: not_less; fail | erule (1) less_trans [rotated] | simp only: not_less; erule (1) order_trans))

lemma get_sorted_accounts_ok:
  assumes "std_sort_ok srt"
  shows "mset (get_sorted_accounts srt reg) = mset (GetKeys (m_account_db reg))"
    and "sorted_wrt (\<lambda>a b. balance_of (m_account_db reg) b \<le> balance_of (m_account_db reg) a)
           (get_sorted_accounts srt reg)"
proof -
  let ?lt = "\<lambda>a b. balance_of (m_account_db reg) a > balance_of (m_account_db reg) b"
  have "mset (srt ?lt (GetKeys (m_account_db reg))) = mset (GetKeys (m_account_db reg)) \<and>
      sorted_wrt (\<lambda>a b. \<not> ?lt b a) (srt ?lt (GetKeys (m_account_db reg)))"
    using assms [unfolded std_sort_ok_def, THEN spec, THEN spec, THEN mp, OF key_order] .
  then show "mset (get_sorted_accounts srt reg) = mset (GetKeys (m_account_db reg))"
    and "sorted_wrt (\<lambda>a b. balance_of (m_account_db reg) b \<le> balance_of (m_account_db reg) a)
           (get_sorted_accounts srt reg)"
    by (simp_all add: get_sorted_accounts_def not_less)
qed

text \<open>An implementation of \<open>std::sort\<close>, for concrete runs.\<close>

fun insert_by :: "('a \<Rightarrow> 'a \<Rightarrow> bool) \<Rightarrow> 'a \<Rightarrow> 'a list \<Rightarrow> 'a list" where
  "insert_by lt x [] = [x]"
| "insert_by lt x (y # ys) = (if lt y x then y # insert_by lt x ys else x # y # ys)"

fun insertion_sort :: "('a \<Rightarrow> 'a \<Rightarrow> bool) \<Rightarrow> 'a list \<Rightarrow> 'a list" where
  "insertion_sort lt [] = []"
| "insertion_sort lt (x # xs) = insert_by lt x (insertion_sort lt xs)"

lemma mset_insert_by [simp]: "mset (insert_by lt x ys) = add_mset x (mset ys)"
  by (induction ys) auto

lemma sorted_insert_by:
  assumes "\<forall>a b. lt a b \<longrightarrow> \<not> lt b a" and "\<forall>a b c. \<not> lt a b \<longrightarrow> \<not> lt b c \<longrightarrow> \<not> lt a c"
  shows "sorted_wrt (\<lambda>a b. \<not> lt b a) ys \<Longrightarrow> sorted_wrt (\<lambda>a b. \<not> lt b a) (insert_by lt x ys)"
proof (induction ys)
  case Nil
  show ?case by simp
next
  case (Cons y ys)
  have set: "set (insert_by lt x ys) = insert x (set ys)"
    using mset_insert_by [of lt x ys] by (metis set_mset_add_mset_insert set_mset_mset)
  have "\<not> lt z x" if "\<not> lt y x" "\<not> lt z y" for z
    using assms(2) that by blast
  moreover have "\<not> lt x y" if "lt y x" using assms(1) that by blast
  ultimately show ?case using Cons by (simp add: set)
qed

lemma mset_insertion_sort: "mset (insertion_sort lt xs) = mset xs"
  by (induction xs) simp_all

lemma sorted_insertion_sort:
  assumes "\<forall>a b. lt a b \<longrightarrow> \<not> lt b a" and "\<forall>a b c. \<not> lt a b \<longrightarrow> \<not> lt b c \<longrightarrow> \<not> lt a c"
  shows "sorted_wrt (\<lambda>a b. \<not> lt b a) (insertion_sort lt xs)"
  by (induction xs) (simp_all add: sorted_insert_by [OF assms])

lemma std_sort_ok_insertion_sort: "std_sort_ok insertion_sort"
  unfolding std_sort_ok_def
proof (intro allI impI)
  fix lt :: "string \<Rightarrow> string \<Rightarrow> bool" and xs
  assume *: "(\<forall>a. \<not> lt a a) \<and> (\<forall>a b c. lt a b \<longrightarrow> lt b c \<longrightarrow> lt a c)
    \<and> (\<forall>a b c. \<not> lt a b \<longrightarrow> \<not> lt b c \<longrightarrow> \<not> lt a c)"
  then have asym: "\<forall>a b. lt a b \<longrightarrow> \<not> lt b a" by blast
  show "mset (insertion_sort lt xs) = mset xs \<and> sorted_wrt (\<lambda>a b. \<not> lt b a) (insertion_sort lt xs)"
    using * by (intro conjI mset_insertion_sort sorted_insertion_sort [OF asym]) blast
qed

section \<open>The shared invariant\<close>

definition registry_inv :: "data_registry \<Rightarrow> bool" where
  "registry_inv reg \<longleftrightarrow>
     db_inv (m_account_db reg) \<and> adb.keyed (m_account_db reg)
     \<and> db_inv (m_block_db reg) \<and> bdb.keyed (m_block_db reg)
     \<and> om_inv (mapOutputs (m_coinbase reg))"

lemma WriteToDisk_accounts: "\<exists>bs. WriteToDisk Account_Serialize (db :: account_db) = Inr bs"
proof -
  have "\<exists>bs. write_records Account_Serialize m = Inr bs" for m :: "(string, account) omap"
  proof (induction m)
    case Nil
    show ?case by simp
  next
    case (Cons e m)
    have "0 < length (Account_Serialize (snd e))" by (simp add: Account_Serialize_def)
    with Cons show ?case by (auto simp: write_record_def vec_at_def Let_def)
  qed
  then show ?thesis unfolding WriteToDisk_def .
qed

lemma WriteToDisk_blocks: "\<exists>bs. WriteToDisk Block_Serialize (db :: block_db) = Inr bs"
proof -
  have "\<exists>bs. write_records Block_Serialize m = Inr bs" for m :: "(base_uint, block_record) omap"
  proof (induction m)
    case Nil
    show ?case by simp
  next
    case (Cons e m)
    have "0 < length (Block_Serialize (snd e))" by (simp add: Block_Serialize_def)
    with Cons show ?case by (auto simp: write_record_def vec_at_def Let_def)
  qed
  then show ?thesis unfolding WriteToDisk_def .
qed

lemma write_account_db_ok: "\<exists>bs. write_account_db reg = Inr (reg\<lparr>acct_dat := Some bs\<rparr>)"
  using WriteToDisk_accounts [of "m_account_db reg"] by (auto simp: write_account_db_def)

lemma write_block_db_ok: "\<exists>bs. write_block_db reg = Inr (reg\<lparr>blk_dat := Some bs\<rparr>)"
  using WriteToDisk_blocks [of "m_block_db reg"] by (auto simp: write_block_db_def)

end
