(* ===== verification/Double.thy ===== *)
theory Double
  imports Complex_Main Prelude "HOL-Library.Log_Nat"
begin

text \<open>
  \<open>double\<close> of C++ as the IEEE 754 binary64 format with rounding to nearest, ties to even: a finite
  value is a rational number, and every operation rounds the exact result (\<open>fl\<close>). The sign of a zero
  is not represented; no operation of the pool divides by a negative zero. Conversions to unsigned
  integers truncate and are undefined (\<open>Bad_cast\<close>) when the truncated value is out of range.
\<close>

section \<open>Rounding\<close>

datatype double = Fin rat | PInf | NInf | NaN

definition round_even :: "rat \<Rightarrow> int" where
  "round_even x =
     (let f = \<lfloor>x\<rfloor>; d = x - of_int f
      in if d < 1 / 2 then f else if 1 / 2 < d then f + 1 else if even f then f else f + 1)"

text \<open>The binary logarithm of a positive rational, rounded down.\<close>

definition ilog2 :: "rat \<Rightarrow> int" where
  "ilog2 x =
     (let (p, q) = quotient_of x; e = bitlen p - bitlen q
      in if 2 powi e \<le> x then e else e - 1)"

text \<open>The weight of the last of the 53 bits of the significand.\<close>

definition ulp_exp :: "rat \<Rightarrow> int" where
  "ulp_exp x = max (ilog2 \<bar>x\<bar> - 52) (- 1074)"

definition fl :: "rat \<Rightarrow> double" where
  "fl x =
     (if x = 0 then Fin 0
      else let e = ulp_exp x; r = of_int (round_even (x / 2 powi e)) * 2 powi e
           in if \<bar>r\<bar> < 2 powi 1024 then Fin r else if 0 < x then PInf else NInf)"

section \<open>Operations\<close>

definition d_of_u64 :: "u64 \<Rightarrow> double" where
  "d_of_u64 w = fl (of_int (uint w))"

definition d_of_u32 :: "u32 \<Rightarrow> double" where
  "d_of_u32 w = fl (of_int (uint w))"

definition d_inf :: "rat \<Rightarrow> double" where
  "d_inf s = (if 0 < s then PInf else if s < 0 then NInf else NaN)"

definition d_sgn :: "double \<Rightarrow> rat" where
  "d_sgn a = (case a of Fin x \<Rightarrow> sgn x | PInf \<Rightarrow> 1 | NInf \<Rightarrow> -1 | NaN \<Rightarrow> 0)"

fun d_neg :: "double \<Rightarrow> double" where
  "d_neg (Fin x) = Fin (- x)"
| "d_neg PInf = NInf"
| "d_neg NInf = PInf"
| "d_neg NaN = NaN"

fun d_add :: "double \<Rightarrow> double \<Rightarrow> double" where
  "d_add (Fin a) (Fin b) = fl (a + b)"
| "d_add (Fin a) b = b"
| "d_add a (Fin b) = a"
| "d_add a b = (if a = b then a else NaN)"

definition d_sub :: "double \<Rightarrow> double \<Rightarrow> double" where
  "d_sub a b = d_add a (d_neg b)"

fun d_mul :: "double \<Rightarrow> double \<Rightarrow> double" where
  "d_mul (Fin a) (Fin b) = fl (a * b)"
| "d_mul a b = (if a = NaN \<or> b = NaN then NaN else d_inf (d_sgn a * d_sgn b))"

fun d_div :: "double \<Rightarrow> double \<Rightarrow> double" where
  "d_div (Fin a) (Fin b) = (if b = 0 then d_inf a else fl (a / b))"
| "d_div (Fin a) NaN = NaN"
| "d_div (Fin a) b = Fin 0"
| "d_div a (Fin b) = (if a = NaN then NaN else if b < 0 then d_neg a else a)"
| "d_div a b = NaN"

fun d_less :: "double \<Rightarrow> double \<Rightarrow> bool" where
  "d_less (Fin a) (Fin b) = (a < b)"
| "d_less (Fin a) b = (b = PInf)"
| "d_less NInf b = (case b of Fin _ \<Rightarrow> True | PInf \<Rightarrow> True | _ \<Rightarrow> False)"
| "d_less a b = False"

definition d_ge :: "double \<Rightarrow> double \<Rightarrow> bool" where
  "d_ge a b \<longleftrightarrow> a \<noteq> NaN \<and> b \<noteq> NaN \<and> (a = b \<or> d_less b a)"

definition trunc_rat :: "rat \<Rightarrow> int" where
  "trunc_rat x = (if 0 \<le> x then \<lfloor>x\<rfloor> else \<lceil>x\<rceil>)"

definition d_to_word :: "double \<Rightarrow> 'a::len word res" where
  "d_to_word a =
     (case a of
        Fin x \<Rightarrow> (if 0 \<le> trunc_rat x \<and> trunc_rat x < 2 ^ LENGTH('a) then Inr (word_of_int (trunc_rat x))
                  else Inl Bad_cast)
      | _ \<Rightarrow> Inl Bad_cast)"

section \<open>The rounding error\<close>

lemma powi_pos [simp]: "(0::rat) < 2 powi e"
  by (simp add: zero_less_power_int)

lemma powi_add1: "(2::rat) powi (e + 1) = 2 * 2 powi e"
  by (simp add: power_int_add)

lemma powi_mono: "a \<le> b \<Longrightarrow> (2::rat) powi a \<le> 2 powi b"
  by (rule power_int_increasing) simp_all

lemma bitlen_rat: "0 < (p::int) \<Longrightarrow> 2 powi (bitlen p - 1) \<le> (of_int p :: rat) \<and> of_int p < (2::rat) powi bitlen p"
proof -
  assume p: "0 < p"
  then have pos: "0 < bitlen p" using bitlen_nonneg [of p] bitlen_eq_zero_iff [of p] by simp
  have b: "2 ^ nat (bitlen p - 1) \<le> p" "p < 2 ^ nat (bitlen p)" using bitlen_bounds [OF p] by auto
  have "(of_int (2 ^ nat (bitlen p - 1)) :: rat) \<le> of_int p" using b(1) by (rule of_int_le_iff [THEN iffD2])
  moreover have "(of_int p :: rat) < of_int (2 ^ nat (bitlen p))" using b(2) by (rule of_int_less_iff [THEN iffD2])
  ultimately show ?thesis using pos by (simp add: power_int_def)
qed

lemma ilog2_bounds:
  assumes "0 < x"
  shows "2 powi ilog2 x \<le> x" and "x < 2 powi (ilog2 x + 1)"
proof -
  obtain p q where pq: "quotient_of x = (p, q)" by (cases "quotient_of x")
  then have q: "0 < q" and x: "x = of_int p / of_int q"
    by (auto simp: quotient_of_denom_pos quotient_of_div)
  with assms have p: "0 < p" by (simp add: zero_less_divide_iff)
  let ?e = "bitlen p - bitlen q"
  note bp = bitlen_rat [OF p] and bq = bitlen_rat [OF q]
  have up: "x < 2 powi (?e + 1)"
  proof -
    have "x < 2 powi bitlen p / 2 powi (bitlen q - 1)"
      using bp bq p q by (simp add: x) (intro frac_less, auto)
    also have "\<dots> = 2 powi (?e + 1)" by (simp add: power_int_diff [symmetric] algebra_simps)
    finally show ?thesis .
  qed
  have low: "2 powi (?e - 1) \<le> x"
  proof -
    have "2 powi (?e - 1) = (2::rat) powi (bitlen p - 1) / 2 powi bitlen q"
      by (simp add: power_int_diff [symmetric] algebra_simps)
    also have "\<dots> \<le> x" using bp bq p q by (simp add: x) (intro frac_le, auto)
    finally show ?thesis .
  qed
  show "2 powi ilog2 x \<le> x" using low by (simp add: ilog2_def pq Let_def)
  show "x < 2 powi (ilog2 x + 1)" using up by (simp add: ilog2_def pq Let_def)
qed

lemma round_even_int: "round_even (of_int n) = n"
  by (simp add: round_even_def)

lemma round_even_mono: "x \<le> y \<Longrightarrow> round_even x \<le> round_even y"
proof (cases "\<lfloor>x\<rfloor> = \<lfloor>y\<rfloor>")
  case True
  assume "x \<le> y"
  with True show ?thesis by (auto simp: round_even_def Let_def)
next
  case False
  assume "x \<le> y"
  then have "\<lfloor>x\<rfloor> \<le> \<lfloor>y\<rfloor>" by (rule floor_mono)
  with False have "\<lfloor>x\<rfloor> + 1 \<le> \<lfloor>y\<rfloor>" by simp
  moreover have "round_even x \<le> \<lfloor>x\<rfloor> + 1" "\<lfloor>y\<rfloor> \<le> round_even y"
    by (auto simp: round_even_def Let_def)
  ultimately show ?thesis by simp
qed

lemma ilog2_mono:
  assumes "0 < x" and "x \<le> y"
  shows "ilog2 x \<le> ilog2 y"
proof (rule ccontr)
  assume "\<not> ?thesis"
  then have "(2::rat) powi (ilog2 y + 1) \<le> 2 powi ilog2 x" by (intro powi_mono) simp
  with ilog2_bounds(2) [of y] ilog2_bounds(1) [of x] assms show False by linarith
qed

text \<open>The rounded value before the overflow check.\<close>

definition fl_val :: "rat \<Rightarrow> rat" where
  "fl_val x = of_int (round_even (x / 2 powi ulp_exp x)) * 2 powi ulp_exp x"

lemma fl_eq: "fl x = (if x = 0 then Fin 0 else if \<bar>fl_val x\<bar> < 2 powi 1024 then Fin (fl_val x)
    else if 0 < x then PInf else NInf)"
  by (simp add: fl_def fl_val_def Let_def)

lemma powi_nat_diff: "e \<le> k \<Longrightarrow> (2::rat) powi k / 2 powi e = of_int (2 ^ nat (k - e))"
proof -
  assume "e \<le> k"
  have "(2::rat) powi k / 2 powi e = 2 powi (k - e)" by (simp add: power_int_diff)
  then show ?thesis using \<open>e \<le> k\<close> by (simp add: power_int_def)
qed

lemma fl_val_le_powi:
  assumes "x \<le> 2 powi k" and "ulp_exp x \<le> k"
  shows "fl_val x \<le> 2 powi k"
proof -
  let ?e = "ulp_exp x"
  have "x / 2 powi ?e \<le> 2 powi k / 2 powi ?e"
    using assms(1) by (rule divide_right_mono) (simp add: less_imp_le)
  then have "round_even (x / 2 powi ?e) \<le> round_even (of_int (2 ^ nat (k - ?e)))"
    unfolding powi_nat_diff [OF assms(2)] by (rule round_even_mono)
  then have "(of_int (round_even (x / 2 powi ?e)) :: rat) \<le> 2 powi k / 2 powi ?e"
    unfolding powi_nat_diff [OF assms(2)] round_even_int by (rule of_int_le_iff [THEN iffD2])
  then show ?thesis by (simp add: fl_val_def pos_le_divide_eq)
qed

lemma fl_val_ge_powi:
  assumes "2 powi k \<le> x" and "ulp_exp x \<le> k"
  shows "2 powi k \<le> fl_val x"
proof -
  let ?e = "ulp_exp x"
  have "2 powi k / 2 powi ?e \<le> x / 2 powi ?e"
    using assms(1) by (rule divide_right_mono) (simp add: less_imp_le)
  then have "round_even (of_int (2 ^ nat (k - ?e))) \<le> round_even (x / 2 powi ?e)"
    unfolding powi_nat_diff [OF assms(2)] by (rule round_even_mono)
  then have "2 powi k / 2 powi ?e \<le> (of_int (round_even (x / 2 powi ?e)) :: rat)"
    unfolding powi_nat_diff [OF assms(2)] round_even_int by (rule of_int_le_iff [THEN iffD2])
  then show ?thesis by (simp add: fl_val_def pos_divide_le_eq)
qed

lemma fl_val_mono:
  assumes "0 < x" and "x \<le> y"
  shows "fl_val x \<le> fl_val y"
proof (cases "ulp_exp x = ulp_exp y")
  case True
  have "round_even (x / 2 powi ulp_exp y) \<le> round_even (y / 2 powi ulp_exp y)"
    using assms(2) by (intro round_even_mono divide_right_mono) (simp_all add: less_imp_le)
  then show ?thesis by (simp add: fl_val_def True mult_right_mono less_imp_le)
next
  case False
  let ?k = "ilog2 y"
  have le: "ilog2 x \<le> ?k" using assms by (rule ilog2_mono)
  then have "ulp_exp x \<le> ulp_exp y" using assms by (simp add: ulp_exp_def)
  with False have y: "ulp_exp y = ?k - 52" and xk: "ulp_exp x < ?k - 52" and lt: "ilog2 x < ?k"
    using le assms by (auto simp: ulp_exp_def max_def split: if_splits)
  have "x \<le> 2 powi ?k"
    using ilog2_bounds(2) [OF assms(1)] powi_mono [of "ilog2 x + 1" ?k] lt by linarith
  then have "fl_val x \<le> 2 powi ?k" using xk by (intro fl_val_le_powi) simp_all
  also have "2 powi ?k \<le> fl_val y"
    using ilog2_bounds(1) [of y] assms y by (intro fl_val_ge_powi) simp_all
  finally show ?thesis .
qed

lemma ilog2_less:
  assumes "0 < x" and "x < 2 powi k"
  shows "ilog2 x < k"
proof (rule ccontr)
  assume "\<not> ?thesis"
  then have "(2::rat) powi k \<le> 2 powi ilog2 x" by (intro powi_mono) simp
  with ilog2_bounds(1) [OF assms(1)] assms(2) show False by linarith
qed

lemma fl_val_exact:
  assumes "x = of_int m * 2 powi e" and "ulp_exp x \<le> e"
  shows "fl_val x = x"
proof -
  have "x / 2 powi ulp_exp x = of_int m * (2 powi e / 2 powi ulp_exp x)" using assms(1) by simp
  also have "\<dots> = of_int (m * 2 ^ nat (e - ulp_exp x))" by (subst powi_nat_diff [OF assms(2)]) simp
  finally show ?thesis by (simp only: fl_val_def round_even_int) (simp add: divide_eq_eq)
qed

lemma fl_val_nat:
  assumes "n < 2 ^ 53"
  shows "fl_val (of_nat n) = of_nat n"
proof (cases "n = 0")
  case True
  then show ?thesis by (simp add: fl_val_def round_even_def)
next
  case False
  have "(of_nat n :: rat) < of_nat (2 ^ 53)" using assms by (rule of_nat_less_iff [THEN iffD2])
  then have "(of_nat n :: rat) < 2 powi 53" by (simp add: power_int_def)
  with False have "ilog2 (of_nat n) < 53" by (intro ilog2_less) simp_all
  then have "ulp_exp (of_nat n) \<le> 0" by (simp add: ulp_exp_def)
  then show ?thesis by (intro fl_val_exact [of _ "int n" 0]) simp_all
qed

lemma fl_nat: "n < 2 ^ 53 \<Longrightarrow> fl (of_nat n) = Fin (of_nat n)"
proof -
  assume n: "n < 2 ^ 53"
  then have "(of_nat n :: rat) < of_nat (2 ^ 53)" by (rule of_nat_less_iff [THEN iffD2])
  also have "\<dots> < 2 powi 1024" by (simp add: power_int_def)
  finally show ?thesis by (simp add: fl_eq fl_val_nat [OF n])
qed

lemma fl_val_pos: "0 < x \<Longrightarrow> 0 \<le> fl_val x"
  using round_even_mono [of 0 "x / 2 powi ulp_exp x"] round_even_int [of 0]
  by (simp add: fl_val_def)

text \<open>Rounding a number between 0 and a small integer stays between them.\<close>

lemma fl_le_nat:
  assumes "0 \<le> x" and "x \<le> of_nat n" and "n < 2 ^ 53"
  obtains r where "fl x = Fin r" and "0 \<le> r" and "r \<le> of_nat n"
proof (cases "x = 0")
  case True
  then show ?thesis using that [of 0] by (simp add: fl_eq)
next
  case False
  with assms(1) have x: "0 < x" by simp
  have le: "fl_val x \<le> of_nat n" using fl_val_mono [OF x assms(2)] fl_val_nat [OF assms(3)] by simp
  have "(of_nat n :: rat) < of_nat (2 ^ 53)" using assms(3) by (rule of_nat_less_iff [THEN iffD2])
  also have "\<dots> < 2 powi 1024" by (simp add: power_int_def)
  finally have "\<bar>fl_val x\<bar> < 2 powi 1024" using le fl_val_pos [OF x] by simp
  then show ?thesis using that [of "fl_val x"] False le fl_val_pos [OF x] by (simp add: fl_eq)
qed

lemma fl_ge_nat:
  assumes "of_nat m \<le> x" and "m < 2 ^ 53" and "fl x = Fin r"
  shows "of_nat m \<le> r"
proof (cases "m = 0")
  case True
  with assms fl_val_pos [of x] show ?thesis by (auto simp: fl_eq split: if_splits)
next
  case False
  then have "of_nat m \<le> fl_val x"
    using fl_val_mono [of "of_nat m" x] assms(1) fl_val_nat [OF assms(2)] by simp
  with False assms show ?thesis by (auto simp: fl_eq split: if_splits)
qed

lemma d_to_word_le:
  assumes "0 \<le> r" and "r \<le> of_nat n" and "n < 2 ^ LENGTH('a::len)"
  shows "\<exists>w. d_to_word (Fin r) = Inr (w :: 'a word) \<and> unat w = nat \<lfloor>r\<rfloor> \<and> unat w \<le> n"
proof -
  have f: "0 \<le> \<lfloor>r\<rfloor>" "\<lfloor>r\<rfloor> \<le> int n" using assms(1,2) by (simp_all add: floor_le_iff)
  moreover have "int n < 2 ^ LENGTH('a)" using assms(3) by (metis of_nat_less_iff of_nat_numeral of_nat_power)
  ultimately have "\<lfloor>r\<rfloor> < 2 ^ LENGTH('a)" by linarith
  then show ?thesis
    using assms(1) f by (simp add: d_to_word_def trunc_rat_def unsigned_of_int take_bit_int_eq_self nat_le_iff)
qed

lemma of_int_uint: "(of_int (uint w) :: rat) = of_nat (unat w)"
  by simp

lemma d_of_u64_small: "unat w < 2 ^ 53 \<Longrightarrow> d_of_u64 w = Fin (of_nat (unat w))"
  by (simp only: d_of_u64_def of_int_uint fl_nat)

lemma d_of_u32_eq: "d_of_u32 w = Fin (of_nat (unat w))"
proof -
  have "unat w < 2 ^ 53" using unat_u32_less [of w] by simp
  then show ?thesis by (simp only: d_of_u32_def of_int_uint fl_nat)
qed

text \<open>Conversions of 64 bit integers, which may round.\<close>

lemma fl_val_zero: "fl_val 0 = 0"
  using fl_val_nat [of 0] by simp

lemma fl_val_nonneg: "0 \<le> x \<Longrightarrow> 0 \<le> fl_val x"
  using fl_val_pos [of x] fl_val_zero by (cases "x = 0") simp_all

lemma fl_val_nat_mono: "j \<le> k \<Longrightarrow> fl_val (of_nat j) \<le> fl_val (of_nat k)"
  by (cases "j = 0") (simp_all add: fl_val_zero fl_val_nonneg fl_val_mono)

lemma fl_val_nat_ge1: "1 \<le> k \<Longrightarrow> 1 \<le> fl_val (of_nat k)"
  using fl_val_nat_mono [of 1 k] fl_val_nat [of 1] by simp

lemma fl_nat64:
  assumes "k < 2 ^ 64"
  shows "fl (of_nat k) = Fin (fl_val (of_nat k))"
proof (cases "k = 0")
  case True
  then show ?thesis by (simp add: fl_eq fl_val_zero)
next
  case False
  have b: "(of_nat k :: rat) < of_nat (2 ^ 64)" using assms by (rule of_nat_less_iff [THEN iffD2])
  have e: "(of_nat (2 ^ 64) :: rat) = 2 powi 64" by (simp add: power_int_def)
  have "ilog2 (of_nat k) < 64" using b False unfolding e by (intro ilog2_less) simp_all
  then have "ulp_exp (of_nat k) \<le> 64" by (simp add: ulp_exp_def)
  then have "fl_val (of_nat k) \<le> 2 powi 64" using b unfolding e by (intro fl_val_le_powi) simp_all
  also have "(2::rat) powi 64 < 2 powi 1024" by (simp add: power_int_def)
  finally show ?thesis using False fl_val_pos [of "of_nat k"] by (simp add: fl_eq)
qed

definition u64_val :: "u64 \<Rightarrow> rat" where
  "u64_val w = fl_val (of_nat (unat w))"

lemma d_of_u64_eq: "d_of_u64 w = Fin (u64_val w)"
proof -
  have "unat w < 2 ^ 64" using unsigned_less [of w, where 'a = nat] by simp
  then show ?thesis by (simp only: d_of_u64_def of_int_uint fl_nat64 u64_val_def)
qed

lemma u64_val_nonneg: "0 \<le> u64_val w"
  unfolding u64_val_def by (intro fl_val_nonneg of_nat_0_le_iff)

lemma u64_val_mono: "w \<le> v \<Longrightarrow> u64_val w \<le> u64_val v"
  unfolding u64_val_def by (intro fl_val_nat_mono) (simp only: word_le_nat_alt)

lemma u64_val_ge1: "w \<noteq> 0 \<Longrightarrow> 1 \<le> u64_val w"
  unfolding u64_val_def by (intro fl_val_nat_ge1) (simp add: Suc_le_eq unat_gt_0)

lemma u64_val_exact: "unat w < 2 ^ 53 \<Longrightarrow> u64_val w = of_nat (unat w)"
  unfolding u64_val_def by (rule fl_val_nat)

text \<open>A fraction, at most 1, of an exactly represented integer \<open>n\<close> truncates to at most \<open>n\<close>.\<close>

lemma fl_le_nat_ex:
  "0 \<le> x \<Longrightarrow> x \<le> of_nat n \<Longrightarrow> n < 2 ^ 53 \<Longrightarrow> \<exists>r. fl x = Fin r \<and> 0 \<le> r \<and> r \<le> of_nat n"
  by (erule (2) fl_le_nat) blast

lemma fraction_to_word:
  assumes "0 \<le> q" and "q \<le> 1" and "n < 2 ^ 53" and "n < 2 ^ LENGTH('a::len)"
  shows "\<exists>w. d_to_word (d_mul (Fin q) (Fin (of_nat n))) = Inr (w :: 'a word) \<and> unat w \<le> n"
proof -
  have "0 \<le> q * of_nat n" using assms(1) by simp
  moreover have "q * of_nat n \<le> of_nat n" using assms(2) by (intro mult_left_le_one_le) (use assms(1) in simp_all)
  ultimately obtain r where r: "fl (q * of_nat n) = Fin r" "0 \<le> r" "r \<le> of_nat n"
    using fl_le_nat_ex assms(3) by blast
  from d_to_word_le [OF r(2,3) assms(4)] show ?thesis by (auto simp: r(1))
qed

end
