(* ===== verification/Payout_Manager.thy ===== *)
theory Payout_Manager
  imports Data_Registry Double
begin

text \<open>
  \<open>Payout_manager\<close> of \<open>src/src/payout_manager.hpp\<close> and \<open>payout_manager.cpp\<close>: what an accepted block
  does to the accounts, and what an orphaned block takes back. The account and block stores are used
  through \<open>GetKeys\<close>, \<open>GetRecord\<close> and \<open>UpdateRecord\<close> as in the source; the interpretations \<open>adb\<close> and
  \<open>bdb\<close> of \<open>record_store\<close> carry the proofs.
\<close>

section \<open>Operations\<close>

definition total_weight :: "data_registry \<Rightarrow> u64" where
  "total_weight reg =
     foldl (\<lambda>weight k. weight + nRoundShares (fst (GetRecord Account_default k (m_account_db reg)))) 0
       (GetKeys (m_account_db reg))"

definition clear_account :: "string \<Rightarrow> account_db \<Rightarrow> account_db" where
  "clear_account k db =
     (let (cAccount, db1) = GetRecord Account_default k db
      in UpdateRecord acc_cKey (cAccount\<lparr>nRoundShares := 0\<rparr>) db1)"

definition clear_shares :: "data_registry \<Rightarrow> data_registry" where
  "clear_shares reg =
     reg\<lparr>m_account_db := fold clear_account (GetKeys (m_account_db reg)) (m_account_db reg)\<rparr>"

text \<open>
  The amounts. \<open>finder_bonus\<close> is \<open>static_cast<uint64_t>(reward * 0.02)\<close>; \<open>weight_credit\<close> is
  \<open>static_cast<uint32_t>(((double)nRoundShares / nTotalWeight) * reward)\<close>.
\<close>

definition reward_after_fee :: "u32 \<Rightarrow> u64 \<Rightarrow> u64" where
  "reward_after_fee fee reward = reward - reward * ucast fee"

definition finder_bonus :: "u64 \<Rightarrow> u64 res" where
  "finder_bonus reward = d_to_word (d_mul (d_of_u64 reward) (fl (2 / 100)))"

definition weight_credit :: "u64 \<Rightarrow> u64 \<Rightarrow> u64 \<Rightarrow> u32 res" where
  "weight_credit shares weight reward =
     d_to_word (d_mul (d_div (d_of_u64 shares) (d_of_u64 weight)) (d_of_u64 reward))"

text \<open>The subtraction of the payout and refund code, which stops at zero.\<close>

definition sub_floor :: "u64 \<Rightarrow> u64 \<Rightarrow> u64" where
  "sub_floor v balance = (if v > balance then 0 else balance - v)"

record payout =
  po_reg :: data_registry
  po_block :: block_record
  nTotalReward :: u64

definition new_block :: "base_uint \<Rightarrow> data_registry \<Rightarrow> block_record" where
  "new_block hash_submit_block reg =
     (Block_key hash_submit_block)\<lparr>cCoinbase := m_coinbase reg,
        nCoinbaseValue := nMaxValue (m_coinbase reg) + nPoolFee (m_coinbase reg),
        nRound := m_current_round reg\<rparr>"

definition add_balance :: "string \<Rightarrow> u64 \<Rightarrow> data_registry \<Rightarrow> data_registry" where
  "add_balance k v reg =
     (let (cAccount, db) = GetRecord Account_default k (m_account_db reg)
      in reg\<lparr>m_account_db :=
           UpdateRecord acc_cKey (cAccount\<lparr>nAccountBalance := nAccountBalance cAccount + v\<rparr>) db\<rparr>)"

text \<open>The block finder bonus: the reward that is left, and the payout state.\<close>

definition pay_bonus :: "string \<Rightarrow> u64 \<Rightarrow> payout \<Rightarrow> (u64 \<times> payout) res" where
  "pay_bonus last_blockfinder reward p =
     (if last_blockfinder \<noteq> ''''
      then rbind (finder_bonus reward) (\<lambda>credit.
        Inr (reward - credit,
             p\<lparr>po_reg := add_balance last_blockfinder credit (po_reg p),
               po_block := (po_block p)\<lparr>cCredits := AddCredit last_blockfinder credit (cCredits (po_block p))\<rparr>\<rparr>))
      else Inr (reward, p))"

text \<open>
  One turn of the account loop: the payout of the last coinbase is taken off the balance, then the
  credit for the shares is added and recorded.
\<close>

definition charge_payout :: "string \<Rightarrow> data_registry \<Rightarrow> account \<times> data_registry" where
  "charge_payout k reg =
     (let (cAccount, db) = GetRecord Account_default k (m_account_db reg);
          reg = reg\<lparr>m_account_db := db\<rparr>
      in if find_address (m_coinbase reg) k
         then let (map_output, cb) = get_map_outputs k (m_coinbase reg);
                  a = cAccount\<lparr>nAccountBalance := sub_floor map_output (nAccountBalance cAccount)\<rparr>
              in (a, reg\<lparr>m_coinbase := cb, m_account_db := UpdateRecord acc_cKey a (m_account_db reg)\<rparr>)
         else (cAccount, reg))"

definition pay_account :: "u64 \<Rightarrow> u64 \<Rightarrow> string \<Rightarrow> payout \<Rightarrow> payout res" where
  "pay_account reward nTotalWeight k p =
     (let (cAccount, reg) = charge_payout k (po_reg p)
      in if nRoundShares cAccount = 0 then Inr (p\<lparr>po_reg := reg\<rparr>)
         else rbind (weight_credit (nRoundShares cAccount) nTotalWeight reward) (\<lambda>c.
           let nCredit = ucast c;
               a = cAccount\<lparr>nAccountBalance := nAccountBalance cAccount + nCredit\<rparr>
           in Inr \<lparr>po_reg = reg\<lparr>m_account_db := UpdateRecord acc_cKey a (m_account_db reg)\<rparr>,
                   po_block = (po_block p)\<lparr>cCredits := AddCredit k nCredit (cCredits (po_block p))\<rparr>,
                   nTotalReward = nTotalReward p + nCredit\<rparr>))"

definition pay_remainder :: "string \<Rightarrow> u64 \<Rightarrow> payout \<Rightarrow> data_registry" where
  "pay_remainder last_blockfinder reward p =
     (if reward > nTotalReward p
      then add_balance last_blockfinder (reward - nTotalReward p) (po_reg p) else po_reg p)"

definition commit_block :: "block_record \<Rightarrow> data_registry \<Rightarrow> data_registry res" where
  "commit_block b reg =
     write_block_db (reg\<lparr>m_block_db := UpdateRecord blk_cKey b (m_block_db reg)\<rparr>)"

definition update_balances :: "u64 \<Rightarrow> base_uint \<Rightarrow> string \<Rightarrow> data_registry \<Rightarrow> data_registry res" where
  "update_balances reward hash_submit_block last_blockfinder reg =
     (let reward = reward_after_fee (m_pool_fee (m_config reg)) reward
      in rbind (pay_bonus last_blockfinder reward
                  \<lparr>po_reg = reg, po_block = new_block hash_submit_block reg, nTotalReward = 0\<rparr>) (\<lambda>(reward, p).
         let nTotalWeight = total_weight (po_reg p);
             vKeys = GetKeys (m_account_db (po_reg p))
         in rbind (rfold (pay_account reward nTotalWeight) vKeys p) (\<lambda>p.
            rbind (commit_block (po_block p) (pay_remainder last_blockfinder reward p)) write_account_db)))"

text \<open>\<open>refund_payouts\<close>: its two loops run over the credits and the outputs of the stored block.\<close>

definition refund_credit :: "string \<times> u64 \<Rightarrow> account_db \<Rightarrow> account_db" where
  "refund_credit e db =
     (let (cAccount, db1) = GetRecord Account_default (fst e) db
      in UpdateRecord acc_cKey
           (cAccount\<lparr>nAccountBalance := sub_floor (snd e) (nAccountBalance cAccount)\<rparr>) db1)"

definition refund_output :: "string \<times> u64 \<Rightarrow> account_db \<Rightarrow> account_db" where
  "refund_output e db =
     (let (cAccount, db1) = GetRecord Account_default (fst e) db
      in UpdateRecord acc_cKey (cAccount\<lparr>nAccountBalance := nAccountBalance cAccount + snd e\<rparr>) db1)"

definition refund_payouts :: "base_uint \<Rightarrow> data_registry \<Rightarrow> data_registry res" where
  "refund_payouts hash_block reg =
     (let (cBlock, bdb) = GetRecord Block_default hash_block (m_block_db reg);
          reg = reg\<lparr>m_block_db := bdb\<rparr>
      in if nCoinbaseValue cBlock = 0 then Inr reg
         else
           let cBlock = cBlock\<lparr>nCoinbaseValue := 0\<rparr>;
               adb1 = fold refund_credit (mapCredits (cCredits cBlock)) (m_account_db reg);
               adb2 = fold refund_output (mapOutputs (cCoinbase cBlock)) adb1
           in commit_block cBlock (reg\<lparr>m_account_db := adb2\<rparr>))"

section \<open>Clearing the shares\<close>

lemma clear_account_modify: "clear_account = adb.modify (\<lambda>a. a\<lparr>nRoundShares := 0\<rparr>)"
  by (simp add: fun_eq_iff clear_account_def adb.modify_def)

lemma GetKeys_dom: "db_inv (m_account_db reg) \<Longrightarrow> set (GetKeys (m_account_db reg)) \<subseteq> dom (db_view (m_account_db reg))"
  by (simp add: adb.keys_view)

lemma clear_shares_ok:
  assumes "db_inv (m_account_db reg)" and "adb.keyed (m_account_db reg)"
  shows "db_inv (m_account_db (clear_shares reg))" and "adb.keyed (m_account_db (clear_shares reg))"
    and "db_view (m_account_db (clear_shares reg)) =
      map_option (\<lambda>a. a\<lparr>nRoundShares := 0\<rparr>) \<circ> db_view (m_account_db reg)"
proof -
  note m = adb.modify_all [of "m_account_db reg" "GetKeys (m_account_db reg)" "\<lambda>a. a\<lparr>nRoundShares := 0\<rparr>",
      OF assms GetKeys_dom [OF assms(1)] adb.keys_distinct [OF assms(1)]]
  show "db_inv (m_account_db (clear_shares reg))" "adb.keyed (m_account_db (clear_shares reg))"
    using m(1,2) by (simp_all add: clear_shares_def clear_account_modify)
  show "db_view (m_account_db (clear_shares reg)) =
      map_option (\<lambda>a. a\<lparr>nRoundShares := 0\<rparr>) \<circ> db_view (m_account_db reg)"
    using m(3) adb.keys_view [OF assms(1)]
    by (auto simp: clear_shares_def clear_account_modify fun_eq_iff domIff)
qed

section \<open>The reference: every account on its own\<close>

text \<open>
  What a round means for the account \<open>a\<close> under the key \<open>k\<close>: the payout of the coinbase \<open>cb\<close> is
  subtracted, the credit for its shares is added.
\<close>

definition paid :: "coinbase \<Rightarrow> string \<Rightarrow> account \<Rightarrow> account" where
  "paid cb k a =
     (case om_find (mapOutputs cb) k of
        None \<Rightarrow> a
      | Some v \<Rightarrow> a\<lparr>nAccountBalance := sub_floor v (nAccountBalance a)\<rparr>)"

definition account_credit :: "u64 \<Rightarrow> u64 \<Rightarrow> account \<Rightarrow> u64 res" where
  "account_credit reward weight a =
     (if nRoundShares a = 0 then Inr 0
      else rbind (weight_credit (nRoundShares a) weight reward) (\<lambda>c. Inr (ucast c)))"

definition credit_word :: "u64 \<Rightarrow> u64 \<Rightarrow> account \<Rightarrow> u64" where
  "credit_word reward weight a = (case account_credit reward weight a of Inl _ \<Rightarrow> 0 | Inr c \<Rightarrow> c)"

definition credited :: "coinbase \<Rightarrow> u64 \<Rightarrow> u64 \<Rightarrow> string \<Rightarrow> account \<Rightarrow> account" where
  "credited cb reward weight k a =
     (paid cb k a)\<lparr>nAccountBalance := nAccountBalance (paid cb k a) + credit_word reward weight a\<rparr>"

lemma paid_simps [simp]:
  "nRoundShares (paid cb k a) = nRoundShares a" "acc_cKey (paid cb k a) = acc_cKey a"
  "nBlocksFound (paid cb k a) = nBlocksFound a"
  by (simp_all add: paid_def split: option.split)

definition with_credit :: "string \<Rightarrow> account \<Rightarrow> u64 \<Rightarrow> block_record \<Rightarrow> block_record" where
  "with_credit k a c b =
     (if nRoundShares a = 0 then b else b\<lparr>cCredits := AddCredit k c (cCredits b)\<rparr>)"

text \<open>The account store of a payout state: valid, and every record under its own key.\<close>

definition store_ok :: "account_db \<Rightarrow> bool" where
  "store_ok d \<longleftrightarrow> db_inv d \<and> adb.keyed d"

lemma store_update:
  assumes "store_ok d" and "db_view d k = Some a" and "acc_cKey b = k"
  shows "store_ok (UpdateRecord acc_cKey b d)"
    and "db_view (UpdateRecord acc_cKey b d) = (db_view d)(k \<mapsto> b)"
  using assms by (auto simp: store_ok_def adb.keyed_def adb.update_inv adb.view_update)

lemma store_key: "store_ok d \<Longrightarrow> db_view d k = Some a \<Longrightarrow> acc_cKey a = k"
  by (simp add: store_ok_def adb.keyed_def)

lemma add_balance_ok:
  assumes "store_ok (m_account_db reg)" and "db_view (m_account_db reg) k = Some a"
  shows "\<exists>d. add_balance k v reg = reg\<lparr>m_account_db := d\<rparr> \<and> store_ok d
     \<and> db_view d = (db_view (m_account_db reg))(k \<mapsto> a\<lparr>nAccountBalance := nAccountBalance a + v\<rparr>)"
proof -
  let ?b = "a\<lparr>nAccountBalance := nAccountBalance a + v\<rparr>"
  have "acc_cKey ?b = k" using store_key [OF assms] by simp
  from store_update [OF assms this] show ?thesis
    by (intro exI [of _ "UpdateRecord acc_cKey ?b (m_account_db reg)"])
       (simp add: add_balance_def adb.get_hit [OF assms(2)])
qed

lemma get_map_outputs_hit: "om_find (mapOutputs c) k = Some v \<Longrightarrow> get_map_outputs k c = (v, c)"
  by (simp add: get_map_outputs_def om_index_def)

lemma pay_account_ok:
  assumes d: "store_ok (m_account_db (po_reg p))" and a: "db_view (m_account_db (po_reg p)) k = Some a"
    and c: "account_credit reward weight a = Inr c"
  shows "\<exists>d'. pay_account reward weight k p =
        Inr \<lparr>po_reg = (po_reg p)\<lparr>m_account_db := d'\<rparr>, po_block = with_credit k a c (po_block p),
             nTotalReward = nTotalReward p + c\<rparr>
      \<and> store_ok d' \<and> db_view d' =
        (db_view (m_account_db (po_reg p)))(k \<mapsto> credited (m_coinbase (po_reg p)) reward weight k a)"
proof -
  let ?reg = "po_reg p" and ?cb = "m_coinbase (po_reg p)"
  let ?a1 = "paid ?cb k a"
  have k1: "acc_cKey ?a1 = k" using store_key [OF d a] by simp
  obtain d1 where d1: "store_ok d1" "db_view d1 = (db_view (m_account_db ?reg))(k \<mapsto> ?a1)"
    and get: "charge_payout k ?reg = (?a1, ?reg\<lparr>m_account_db := d1\<rparr>)"
  proof (cases "om_find (mapOutputs ?cb) k")
    case None
    have "db_view (m_account_db ?reg) = (db_view (m_account_db ?reg))(k \<mapsto> a)"
      using a by (auto simp: fun_eq_iff)
    with None show ?thesis
      using that [of "m_account_db ?reg"] d
      by (simp add: find_address_def adb.get_hit [OF a] paid_def charge_payout_def)
  next
    case (Some v)
    then show ?thesis
      using that [of "UpdateRecord acc_cKey ?a1 (m_account_db ?reg)"] store_update [OF d a k1]
      by (simp add: find_address_def adb.get_hit [OF a] paid_def get_map_outputs_hit charge_payout_def Let_def)
  qed
  have view1: "db_view d1 k = Some ?a1" using d1(2) by simp
  show ?thesis
  proof (cases "nRoundShares a = 0")
    case True
    then have "credited ?cb reward weight k a = ?a1" "c = 0"
      using c by (simp_all add: credited_def credit_word_def account_credit_def)
    then show ?thesis
      using d1 True by (intro exI [of _ d1]) (simp add: pay_account_def with_credit_def get)
  next
    case False
    then obtain w where w: "weight_credit (nRoundShares a) weight reward = Inr w" "c = ucast w"
      using c by (auto simp: account_credit_def rbind_eq_Inr)
    let ?a2 = "?a1\<lparr>nAccountBalance := nAccountBalance ?a1 + c\<rparr>"
    have a2: "credited ?cb reward weight k a = ?a2"
      using c by (simp add: credited_def credit_word_def)
    have k2: "acc_cKey ?a2 = k" using k1 by simp
    note u = store_update [OF d1(1) view1 k2]
    have "db_view (UpdateRecord acc_cKey ?a2 d1) = (db_view (m_account_db ?reg))(k \<mapsto> ?a2)"
      unfolding u(2) d1(2) by simp
    then show ?thesis
      using False w u(1) a2
      by (intro exI [of _ "UpdateRecord acc_cKey ?a2 d1"])
         (simp add: pay_account_def with_credit_def get Let_def)
  qed
qed

lemma pay_all_ok:
  assumes "store_ok (m_account_db (po_reg p))" and "distinct ks"
    and "\<forall>k \<in> set ks. \<exists>a. db_view (m_account_db (po_reg p)) k = Some a \<and> is_ok_res (account_credit reward weight a)"
  shows "\<exists>d b. rfold (pay_account reward weight) ks p =
        Inr \<lparr>po_reg = (po_reg p)\<lparr>m_account_db := d\<rparr>, po_block = (po_block p)\<lparr>cCredits := b\<rparr>,
             nTotalReward = nTotalReward p
               + sum_list (map (\<lambda>k. credit_word reward weight (the (db_view (m_account_db (po_reg p)) k))) ks)\<rparr>
      \<and> store_ok d
      \<and> db_view d = (\<lambda>k. if k \<in> set ks
            then map_option (credited (m_coinbase (po_reg p)) reward weight k) (db_view (m_account_db (po_reg p)) k)
            else db_view (m_account_db (po_reg p)) k)
      \<and> b = foldl (\<lambda>b k. let a = the (db_view (m_account_db (po_reg p)) k)
             in if nRoundShares a = 0 then b else AddCredit k (credit_word reward weight a) b)
           (cCredits (po_block p)) ks"
  using assms
proof (induction ks arbitrary: p)
  case Nil
  show ?case using Nil.prems(1) by (intro exI conjI) (auto simp: fun_eq_iff)
next
  case (Cons k ks)
  let ?v = "db_view (m_account_db (po_reg p))" and ?cb = "m_coinbase (po_reg p)"
  obtain a c where a: "?v k = Some a" and c: "account_credit reward weight a = Inr c"
    using Cons.prems(3) by (auto simp: is_ok_res_iff)
  have cw: "credit_word reward weight a = c" by (simp add: credit_word_def c)
  from pay_account_ok [OF Cons.prems(1) a c] obtain d where
    step: "pay_account reward weight k p =
        Inr \<lparr>po_reg = (po_reg p)\<lparr>m_account_db := d\<rparr>, po_block = with_credit k a c (po_block p),
             nTotalReward = nTotalReward p + c\<rparr>"
    and d: "store_ok d" "db_view d = ?v(k \<mapsto> credited ?cb reward weight k a)" by blast
  let ?p = "\<lparr>po_reg = (po_reg p)\<lparr>m_account_db := d\<rparr>, po_block = with_credit k a c (po_block p),
             nTotalReward = nTotalReward p + c\<rparr>"
  have same: "db_view d j = ?v j" if "j \<in> set ks" for j
    using that Cons.prems(2) by (auto simp: d(2))
  have pre: "store_ok (m_account_db (po_reg ?p))" "distinct ks"
    "\<forall>j \<in> set ks. \<exists>a. db_view (m_account_db (po_reg ?p)) j = Some a \<and> is_ok_res (account_credit reward weight a)"
    using d(1) Cons.prems(2,3) same by auto
  from Cons.IH [OF pre] obtain d' b where
    loop: "rfold (pay_account reward weight) ks ?p =
        Inr \<lparr>po_reg = (po_reg ?p)\<lparr>m_account_db := d'\<rparr>, po_block = (po_block ?p)\<lparr>cCredits := b\<rparr>,
             nTotalReward = nTotalReward ?p
               + sum_list (map (\<lambda>k. credit_word reward weight (the (db_view (m_account_db (po_reg ?p)) k))) ks)\<rparr>"
    and d': "store_ok d'" "db_view d' = (\<lambda>k. if k \<in> set ks
            then map_option (credited (m_coinbase (po_reg ?p)) reward weight k) (db_view (m_account_db (po_reg ?p)) k)
            else db_view (m_account_db (po_reg ?p)) k)"
    and b: "b = foldl (\<lambda>b k. let a = the (db_view (m_account_db (po_reg ?p)) k)
             in if nRoundShares a = 0 then b else AddCredit k (credit_word reward weight a) b)
           (cCredits (po_block ?p)) ks" by blast
  have s: "map (\<lambda>k. credit_word reward weight (the (db_view d k))) ks
      = map (\<lambda>k. credit_word reward weight (the (?v k))) ks" using same by (intro map_cong) auto
  have view: "db_view d' = (\<lambda>j. if j \<in> set (k # ks) then map_option (credited ?cb reward weight j) (?v j) else ?v j)"
    using d'(2) d(2) a Cons.prems(2) by (auto simp: fun_eq_iff)
  have b': "b = foldl (\<lambda>b k. let a = the (?v k)
             in if nRoundShares a = 0 then b else AddCredit k (credit_word reward weight a) b)
           (cCredits (po_block p)) (k # ks)"
    unfolding b using same a cw
    by (auto simp: with_credit_def Let_def intro!: foldl_cong)
  show ?case
    using step loop s view b' d'(1) a cw
    by (intro exI [of _ d'] exI [of _ b]) (auto simp: with_credit_def add.assoc)
qed

section \<open>The whole update\<close>

lemma GetKeys_eqI:
  fixes d e :: account_db
  assumes "db_inv d" and "db_inv e" and "dom (db_view d) = dom (db_view e)"
  shows "GetKeys d = GetKeys e"
proof -
  have "set (GetKeys d) = set (GetKeys e)" using assms by (simp add: adb.keys_view)
  then show ?thesis
    using strict_sorted_equal [of "GetKeys d" "GetKeys e"] omap.keys_sorted [of "mapRecords d"]
      omap.keys_sorted [of "mapRecords e"] assms(1,2)
    by (simp add: GetKeys_def db_inv_def)
qed

definition account_of :: "data_registry \<Rightarrow> string \<Rightarrow> account" where
  "account_of reg k = the (db_view (m_account_db reg) k)"

lemma total_weight_eq:
  assumes "db_inv (m_account_db reg)"
  shows "total_weight reg = sum_list (map (\<lambda>k. nRoundShares (account_of reg k)) (GetKeys (m_account_db reg)))"
proof -
  have hit: "nRoundShares (fst (GetRecord Account_default k (m_account_db reg))) = nRoundShares (account_of reg k)"
    if "k \<in> set (GetKeys (m_account_db reg))" for k
    using that adb.keys_view [OF assms] by (auto simp: account_of_def adb.get_hit)
  have "foldl (\<lambda>w k. w + nRoundShares (fst (GetRecord Account_default k (m_account_db reg)))) w ks
      = w + sum_list (map (\<lambda>k. nRoundShares (account_of reg k)) ks)"
    if "set ks \<subseteq> set (GetKeys (m_account_db reg))" for w ks
    using that by (induction ks arbitrary: w) (simp_all add: hit add.assoc)
  from this [of "GetKeys (m_account_db reg)" 0] show ?thesis by (simp add: total_weight_def)
qed

text \<open>
  The amounts of a round for the block finder \<open>f\<close>: the bonus, what is shared, what the shares are
  credited in all, and the rest.
\<close>

definition shared_reward :: "u64 \<Rightarrow> u64 \<Rightarrow> u64" where
  "shared_reward r1 bonus = r1 - bonus"

definition sum_credits :: "data_registry \<Rightarrow> u64 \<Rightarrow> u64" where
  "sum_credits reg r2 =
     sum_list (map (\<lambda>k. credit_word r2 (total_weight reg) (account_of reg k)) (GetKeys (m_account_db reg)))"

definition round_rest :: "data_registry \<Rightarrow> u64 \<Rightarrow> u64" where
  "round_rest reg r2 = (if r2 > sum_credits reg r2 then r2 - sum_credits reg r2 else 0)"

definition add_to :: "u64 \<Rightarrow> account \<Rightarrow> account" where
  "add_to v a = a\<lparr>nAccountBalance := nAccountBalance a + v\<rparr>"

definition round_account :: "data_registry \<Rightarrow> string \<Rightarrow> u64 \<Rightarrow> u64 \<Rightarrow> string \<Rightarrow> account \<Rightarrow> account" where
  "round_account reg f bonus r2 k a =
     (if k = f
      then add_to (round_rest reg r2)
             (credited (m_coinbase reg) r2 (total_weight reg) k (add_to bonus a))
      else credited (m_coinbase reg) r2 (total_weight reg) k a)"

definition round_credits :: "data_registry \<Rightarrow> string \<Rightarrow> u64 \<Rightarrow> u64 \<Rightarrow> credits" where
  "round_credits reg f bonus r2 =
     foldl (\<lambda>b k. let a = account_of reg k
         in if nRoundShares a = 0 then b else AddCredit k (credit_word r2 (total_weight reg) a) b)
       (AddCredit f bonus Credits_default) (GetKeys (m_account_db reg))"

lemma add_to_simps [simp]:
  "nRoundShares (add_to v a) = nRoundShares a" "acc_cKey (add_to v a) = acc_cKey a"
  "add_to 0 a = a" "nAccountBalance (add_to v a) = nAccountBalance a + v"
  by (simp_all add: add_to_def)

lemma account_credit_add_to [simp]:
  "account_credit r w (add_to v a) = account_credit r w a" "credit_word r w (add_to v a) = credit_word r w a"
  by (simp_all add: account_credit_def credit_word_def)

lemma round_account_other:
  "k \<noteq> f \<Longrightarrow> round_account reg f bonus r2 k = credited (m_coinbase reg) r2 (total_weight reg) k"
  by (simp add: round_account_def fun_eq_iff)

lemma update_balances_run:
  assumes d: "store_ok (m_account_db reg)" and f: "f \<noteq> ''''" "db_view (m_account_db reg) f = Some af"
    and bonus: "finder_bonus (reward_after_fee (m_pool_fee (m_config reg)) reward) = Inr bonus"
    and r2: "r2 = shared_reward (reward_after_fee (m_pool_fee (m_config reg)) reward) bonus"
    and ok: "\<forall>k a. db_view (m_account_db reg) k = Some a \<longrightarrow> is_ok_res (account_credit r2 (total_weight reg) a)"
  shows "\<exists>d' blk acct. update_balances reward h f reg =
        Inr (reg\<lparr>m_account_db := d',
                m_block_db := UpdateRecord blk_cKey
                  ((new_block h reg)\<lparr>cCredits := round_credits reg f bonus r2\<rparr>) (m_block_db reg),
                blk_dat := Some blk, acct_dat := Some acct\<rparr>)
      \<and> store_ok d'
      \<and> db_view d' = (\<lambda>k. map_option (round_account reg f bonus r2 k) (db_view (m_account_db reg) k))"
proof -
  let ?db = "m_account_db reg" and ?w = "total_weight reg"
  obtain d1 where d1: "add_balance f bonus reg = reg\<lparr>m_account_db := d1\<rparr>" "store_ok d1"
    "db_view d1 = (db_view ?db)(f \<mapsto> add_to bonus af)"
    using add_balance_ok [OF d f(2)] by (auto simp: add_to_def)
  let ?reg1 = "reg\<lparr>m_account_db := d1\<rparr>"
  have dom: "dom (db_view d1) = dom (db_view ?db)" using d1(3) f(2) by auto
  have keys: "GetKeys d1 = GetKeys ?db"
    using d1(2) d dom by (intro GetKeys_eqI) (simp_all add: store_ok_def)
  have acc1: "account_of ?reg1 k = (if k = f then add_to bonus af else account_of reg k)" for k
    by (simp add: account_of_def d1(3))
  have accf: "account_of reg f = af" by (simp add: account_of_def f(2))
  have shares: "nRoundShares (account_of ?reg1 k) = nRoundShares (account_of reg k)" for k
    by (simp add: acc1 accf)
  have w1: "total_weight ?reg1 = ?w"
    using d d1(2) by (simp add: total_weight_eq store_ok_def keys shares)
  have cw: "credit_word r2 ?w (account_of ?reg1 k) = credit_word r2 ?w (account_of reg k)" for k
    by (simp add: acc1 accf)
  let ?b1 = "(new_block h reg)\<lparr>cCredits := AddCredit f bonus (cCredits (new_block h reg))\<rparr>"
  let ?p1 = "\<lparr>po_reg = ?reg1, po_block = ?b1, nTotalReward = 0\<rparr>"
  have bonus_run: "pay_bonus f (reward_after_fee (m_pool_fee (m_config reg)) reward)
      \<lparr>po_reg = reg, po_block = new_block h reg, nTotalReward = 0\<rparr> = Inr (r2, ?p1)"
    using f(1) bonus d1(1) r2 by (simp add: pay_bonus_def shared_reward_def)
  have inv: "db_inv ?db" "db_inv d1" using d d1(2) by (simp_all add: store_ok_def)
  have pre: "\<forall>k \<in> set (GetKeys ?db). \<exists>a. db_view (m_account_db (po_reg ?p1)) k = Some a
      \<and> is_ok_res (account_credit r2 ?w a)"
    using adb.keys_view [OF inv(1)] ok f(2) d1(3) by (auto simp: dom_def)
  have d1': "store_ok (m_account_db (po_reg ?p1))" using d1(2) by simp
  have "\<exists>d2 b. rfold (pay_account r2 ?w) (GetKeys ?db) ?p1 =
        Inr \<lparr>po_reg = reg\<lparr>m_account_db := d2\<rparr>, po_block = ?b1\<lparr>cCredits := b\<rparr>,
             nTotalReward = sum_list (map (\<lambda>k. credit_word r2 ?w (account_of ?reg1 k)) (GetKeys ?db))\<rparr>
      \<and> store_ok d2 \<and> db_view d2 = (\<lambda>k. if k \<in> set (GetKeys ?db)
            then map_option (credited (m_coinbase reg) r2 ?w k) (db_view d1 k) else db_view d1 k)
      \<and> b = foldl (\<lambda>b k. let a = account_of ?reg1 k
             in if nRoundShares a = 0 then b else AddCredit k (credit_word r2 ?w a) b)
           (AddCredit f bonus (cCredits (new_block h reg))) (GetKeys ?db)"
    using pay_all_ok [OF d1' adb.keys_distinct [OF inv(1)] pre]
    by (simp add: account_of_def cong: if_cong)
  then obtain d2 b where
    loop: "rfold (pay_account r2 ?w) (GetKeys ?db) ?p1 =
        Inr \<lparr>po_reg = reg\<lparr>m_account_db := d2\<rparr>, po_block = ?b1\<lparr>cCredits := b\<rparr>,
             nTotalReward = sum_list (map (\<lambda>k. credit_word r2 ?w (account_of ?reg1 k)) (GetKeys ?db))\<rparr>"
    and d2: "store_ok d2" "db_view d2 = (\<lambda>k. if k \<in> set (GetKeys ?db)
            then map_option (credited (m_coinbase reg) r2 ?w k) (db_view d1 k) else db_view d1 k)"
    and b: "b = foldl (\<lambda>b k. let a = account_of ?reg1 k
             in if nRoundShares a = 0 then b else AddCredit k (credit_word r2 ?w a) b)
           (AddCredit f bonus (cCredits (new_block h reg))) (GetKeys ?db)"
    by (elim exE conjE) (rule that)
  have total: "sum_list (map (\<lambda>k. credit_word r2 ?w (account_of ?reg1 k)) (GetKeys ?db)) = sum_credits reg r2"
    by (simp add: sum_credits_def cw)
  have credits: "b = round_credits reg f bonus r2"
    unfolding b round_credits_def Let_def shares cw by (simp add: new_block_def Block_key_def)
  have notin: "k \<notin> set (GetKeys ?db) \<longleftrightarrow> db_view ?db k = None" for k
    using adb.keys_view [OF inv(1)] by (auto simp: dom_def)
  have view2: "db_view d2 k = map_option (\<lambda>a. credited (m_coinbase reg) r2 ?w k (if k = f then add_to bonus a else a))
      (db_view ?db k)" for k
    using d2(2) d1(3) f(2) notin [of k] by auto
  let ?p2 = "\<lparr>po_reg = reg\<lparr>m_account_db := d2\<rparr>, po_block = ?b1\<lparr>cCredits := b\<rparr>, nTotalReward = sum_credits reg r2\<rparr>"
  have rest: "\<exists>d'. pay_remainder f r2 ?p2 = reg\<lparr>m_account_db := d'\<rparr> \<and> store_ok d'
      \<and> db_view d' = (\<lambda>k. map_option (round_account reg f bonus r2 k) (db_view ?db k))"
  proof (cases "r2 > sum_credits reg r2")
    case True
    have vf: "db_view (m_account_db (po_reg ?p2)) f = Some (credited (m_coinbase reg) r2 ?w f (add_to bonus af))"
      using view2 [of f] f(2) by simp
    have s2: "store_ok (m_account_db (po_reg ?p2))" using d2(1) by simp
    from add_balance_ok [OF s2 vf, of "r2 - sum_credits reg r2"] obtain d' where
      "add_balance f (r2 - sum_credits reg r2) (po_reg ?p2) = reg\<lparr>m_account_db := d'\<rparr>" "store_ok d'"
      "db_view d' = (db_view d2)(f \<mapsto> add_to (round_rest reg r2) (credited (m_coinbase reg) r2 ?w f (add_to bonus af)))"
      using True by (auto simp: add_to_def round_rest_def)
    moreover from this(3) have "db_view d' = (\<lambda>k. map_option (round_account reg f bonus r2 k) (db_view ?db k))"
      using f(2) by (auto simp: round_account_other view2 fun_eq_iff) (simp add: round_account_def)
    ultimately show ?thesis using True by (intro exI [of _ d']) (simp add: pay_remainder_def)
  next
    case False
    have "db_view d2 k = map_option (round_account reg f bonus r2 k) (db_view ?db k)" for k
      using False by (cases "k = f") (simp_all add: round_account_other view2, simp add: f(2) round_account_def round_rest_def)
    then have "db_view d2 = (\<lambda>k. map_option (round_account reg f bonus r2 k) (db_view ?db k))" by (rule ext)
    with False d2(1) show ?thesis
      by (intro exI [of _ d2]) (simp add: pay_remainder_def)
  qed
  then obtain d' where d': "pay_remainder f r2 ?p2 = reg\<lparr>m_account_db := d'\<rparr>" "store_ok d'"
    "db_view d' = (\<lambda>k. map_option (round_account reg f bonus r2 k) (db_view ?db k))" by blast
  let ?blk = "(new_block h reg)\<lparr>cCredits := round_credits reg f bonus r2\<rparr>"
  let ?reg2 = "reg\<lparr>m_account_db := d', m_block_db := UpdateRecord blk_cKey ?blk (m_block_db reg)\<rparr>"
  obtain bs where bs: "write_block_db ?reg2 = Inr (?reg2\<lparr>blk_dat := Some bs\<rparr>)"
    using write_block_db_ok by blast
  obtain as where as: "write_account_db (?reg2\<lparr>blk_dat := Some bs\<rparr>)
      = Inr (?reg2\<lparr>blk_dat := Some bs, acct_dat := Some as\<rparr>)"
    using write_account_db_ok by blast
  have "update_balances reward h f reg = Inr (?reg2\<lparr>blk_dat := Some bs, acct_dat := Some as\<rparr>)"
    using bonus_run loop d'(1) bs as
    by (simp add: update_balances_def Let_def w1 keys total credits commit_block_def)
  with d'(2,3) show ?thesis by blast
qed

section \<open>The amounts are in range\<close>

lemma fl_two_percent: "\<exists>q. fl (2 / 100) = Fin q \<and> 0 \<le> q \<and> q \<le> 1"
  using fl_le_nat_ex [of "2 / 100" 1] by simp

lemma finder_bonus_ok:
  assumes "unat reward < 2 ^ 53"
  shows "\<exists>b. finder_bonus reward = Inr b \<and> b \<le> reward"
proof -
  obtain q where q: "fl (2 / 100) = Fin q" "0 \<le> q" "q \<le> 1" using fl_two_percent by blast
  have "unat reward < 2 ^ LENGTH(64)" using assms by simp
  from fraction_to_word [OF q(2,3) assms this] obtain b :: u64 where
    b: "d_to_word (d_mul (Fin q) (Fin (of_nat (unat reward)))) = Inr b" "unat b \<le> unat reward" by blast
  have "d_mul (Fin (of_nat (unat reward))) (Fin q) = d_mul (Fin q) (Fin (of_nat (unat reward)))"
    by (simp only: d_mul.simps mult.commute)
  with b show ?thesis
    by (simp only: finder_bonus_def d_of_u64_eq u64_val_exact [OF assms] q(1) word_le_nat_alt) blast
qed

lemma weight_credit_ok:
  assumes "shares \<le> weight" and "weight \<noteq> 0" and "unat reward < 2 ^ 32"
  shows "\<exists>c. weight_credit shares weight reward = Inr c \<and> unat c \<le> unat reward"
proof -
  have w: "1 \<le> u64_val weight" using assms(2) by (rule u64_val_ge1)
  have s: "0 \<le> u64_val shares" "u64_val shares \<le> u64_val weight"
    using u64_val_nonneg u64_val_mono [OF assms(1)] by simp_all
  have "u64_val shares / u64_val weight \<le> of_nat 1" using s w by (simp add: divide_le_eq)
  moreover have "0 \<le> u64_val shares / u64_val weight" using s w by simp
  ultimately obtain q where q: "fl (u64_val shares / u64_val weight) = Fin q" "0 \<le> q" "q \<le> of_nat 1"
    using fl_le_nat_ex [of "u64_val shares / u64_val weight" 1] by auto
  have r: "unat reward < 2 ^ 53" "unat reward < 2 ^ LENGTH(32)" using assms(3) by simp_all
  have "q \<le> 1" using q(3) by simp
  from fraction_to_word [OF q(2) this r] obtain c :: u32 where
    c: "d_to_word (d_mul (Fin q) (Fin (of_nat (unat reward)))) = Inr c" "unat c \<le> unat reward" by blast
  have "d_div (Fin (u64_val shares)) (Fin (u64_val weight)) = Fin q" using w q(1) by simp
  with c show ?thesis by (simp only: weight_credit_def d_of_u64_eq u64_val_exact [OF r(1)]) blast
qed

lemma weight_credit_zero:
  "shares \<le> weight \<Longrightarrow> weight \<noteq> 0 \<Longrightarrow> weight_credit shares weight 0 = Inr 0"
  using weight_credit_ok [of shares weight 0] by (auto simp: unat_eq_zero)

text \<open>The weights of a round do not wrap when they add up to less than \<open>2 ^ 64\<close>.\<close>

definition weights_fit :: "data_registry \<Rightarrow> bool" where
  "weights_fit reg \<longleftrightarrow>
     sum_list (map (\<lambda>k. unat (nRoundShares (account_of reg k))) (GetKeys (m_account_db reg))) < 2 ^ 64"

lemma unat_sum_list:
  "sum_list (map (\<lambda>x. unat (f x)) xs) < 2 ^ 64 \<Longrightarrow>
   unat (sum_list (map f xs) :: u64) = sum_list (map (\<lambda>x. unat (f x)) xs)"
proof (induction xs)
  case Nil
  show ?case by simp
next
  case (Cons x xs)
  then show ?case by (simp add: unat_word_ariths)
qed

lemma shares_le_total_weight:
  assumes "db_inv (m_account_db reg)" and "weights_fit reg" and "db_view (m_account_db reg) k = Some a"
  shows "nRoundShares a \<le> total_weight reg"
proof -
  let ?ks = "GetKeys (m_account_db reg)"
  have k: "k \<in> set ?ks" using adb.keys_view [OF assms(1)] assms(3) by auto
  have "unat (nRoundShares (account_of reg k)) \<le> sum_list (map (\<lambda>k. unat (nRoundShares (account_of reg k))) ?ks)"
    using k by (intro member_le_sum_list) auto
  also have "\<dots> = unat (total_weight reg)"
    using unat_sum_list [of "\<lambda>k. nRoundShares (account_of reg k)" ?ks] assms(2)
    by (simp add: total_weight_eq [OF assms(1)] weights_fit_def)
  finally show ?thesis using assms(3) by (simp add: account_of_def word_le_nat_alt)
qed

lemma account_credit_ok:
  assumes "db_inv (m_account_db reg)" and "weights_fit reg" and "db_view (m_account_db reg) k = Some a"
    and "unat r2 < 2 ^ 32"
  shows "\<exists>c. account_credit r2 (total_weight reg) a = Inr c \<and> c \<le> r2"
proof (cases "nRoundShares a = 0")
  case True
  then show ?thesis by (simp add: account_credit_def)
next
  case False
  have le: "nRoundShares a \<le> total_weight reg" by (rule shares_le_total_weight [OF assms(1-3)])
  with False have "total_weight reg \<noteq> 0" by (auto simp: word_le_nat_alt unat_eq_zero)
  from weight_credit_ok [OF le this assms(4)] obtain c where
    "weight_credit (nRoundShares a) (total_weight reg) r2 = Inr c" "unat c \<le> unat r2" by blast
  with False show ?thesis by (auto simp: account_credit_def word_le_nat_alt unat_ucast_up)
qed

end
