(* ===== verification/Payout_Rounds.thy ===== *)
theory Payout_Rounds
  imports Payout_Manager
begin

text \<open>
  What the operations of \<open>Payout_Manager\<close> do to a whole round: the accounts after an accepted block,
  the conservation of the reward, and the refund of an orphaned block.
\<close>

section \<open>Rounds that can be paid\<close>

text \<open>
  The round is paid without a fault when the block finder has an account, the shares add up in 64
  bits, and the reward after the fee is below \<open>2 ^ 32\<close>, the range of the 32 bit credit.
\<close>

definition round_ok :: "data_registry \<Rightarrow> string \<Rightarrow> u64 \<Rightarrow> bool" where
  "round_ok reg f reward \<longleftrightarrow>
     store_ok (m_account_db reg) \<and> f \<noteq> '''' \<and> db_view (m_account_db reg) f \<noteq> None
     \<and> weights_fit reg \<and> unat (reward_after_fee (m_pool_fee (m_config reg)) reward) < 2 ^ 32"

definition round_bonus :: "data_registry \<Rightarrow> u64 \<Rightarrow> u64" where
  "round_bonus reg reward =
     (case finder_bonus (reward_after_fee (m_pool_fee (m_config reg)) reward) of Inl _ \<Rightarrow> 0 | Inr b \<Rightarrow> b)"

definition round_shared :: "data_registry \<Rightarrow> u64 \<Rightarrow> u64" where
  "round_shared reg reward =
     shared_reward (reward_after_fee (m_pool_fee (m_config reg)) reward) (round_bonus reg reward)"

lemma round_amounts:
  assumes "round_ok reg f reward"
  shows "finder_bonus (reward_after_fee (m_pool_fee (m_config reg)) reward) = Inr (round_bonus reg reward)"
    and "unat (round_bonus reg reward) + unat (round_shared reg reward) =
      unat (reward_after_fee (m_pool_fee (m_config reg)) reward)"
    and "unat (round_shared reg reward) < 2 ^ 32"
proof -
  let ?r = "reward_after_fee (m_pool_fee (m_config reg)) reward"
  have r: "unat ?r < 2 ^ 32" using assms by (simp add: round_ok_def)
  then have "unat ?r < 2 ^ 53" by simp
  from finder_bonus_ok [OF this] obtain b where b: "finder_bonus ?r = Inr b" "b \<le> ?r" by blast
  then show "finder_bonus ?r = Inr (round_bonus reg reward)" by (simp add: round_bonus_def)
  have "unat (?r - b) = unat ?r - unat b" using b(2) by (rule unat_sub)
  moreover have "unat b \<le> unat ?r" using b(2) by (simp add: word_le_nat_alt)
  ultimately show "unat (round_bonus reg reward) + unat (round_shared reg reward) = unat ?r"
    by (simp add: round_shared_def shared_reward_def round_bonus_def b(1))
  then show "unat (round_shared reg reward) < 2 ^ 32" using r by linarith
qed

lemma round_credits_ok:
  assumes "round_ok reg f reward" and "db_view (m_account_db reg) k = Some a"
  shows "\<exists>c. account_credit (round_shared reg reward) (total_weight reg) a = Inr c \<and> c \<le> round_shared reg reward"
  using assms round_amounts(3) [OF assms(1)]
  by (intro account_credit_ok [of reg k]) (simp_all add: round_ok_def store_ok_def)

lemma round_run:
  assumes "round_ok reg f reward"
  shows "\<exists>d' blk acct. update_balances reward h f reg =
        Inr (reg\<lparr>m_account_db := d',
                m_block_db := UpdateRecord blk_cKey
                  ((new_block h reg)\<lparr>cCredits := round_credits reg f (round_bonus reg reward) (round_shared reg reward)\<rparr>)
                  (m_block_db reg),
                blk_dat := Some blk, acct_dat := Some acct\<rparr>)
      \<and> store_ok d'
      \<and> db_view d' = (\<lambda>k. map_option (round_account reg f (round_bonus reg reward) (round_shared reg reward) k)
            (db_view (m_account_db reg) k))"
proof -
  obtain af where af: "db_view (m_account_db reg) f = Some af" using assms by (auto simp: round_ok_def)
  have "store_ok (m_account_db reg)" "f \<noteq> ''''" using assms by (simp_all add: round_ok_def)
  moreover have "\<forall>k a. db_view (m_account_db reg) k = Some a \<longrightarrow>
      is_ok_res (account_credit (round_shared reg reward) (total_weight reg) a)"
    using round_credits_ok [OF assms] by (fastforce simp: is_ok_res_iff)
  ultimately show ?thesis
    using af round_amounts(1) [OF assms] by (intro update_balances_run) (simp_all add: round_shared_def)
qed

section \<open>The credits of the block record\<close>

lemma AddCredit_find:
  "om_inv (mapCredits c) \<Longrightarrow> om_inv (mapCredits (AddCredit a v c)) \<and>
   om_find (mapCredits (AddCredit a v c)) k =
     (if k = a then Some (opt_val (om_find (mapCredits c) a) + v) else om_find (mapCredits c) k)"
  by (simp add: AddCredit_eq)

lemma foldl_AddCredit:
  "distinct ks \<Longrightarrow> om_inv (mapCredits b) \<Longrightarrow>
   om_inv (mapCredits (foldl (\<lambda>b k. let a = g k in if nRoundShares a = 0 then b else AddCredit k (c a) b) b ks)) \<and>
   om_find (mapCredits (foldl (\<lambda>b k. let a = g k in if nRoundShares a = 0 then b else AddCredit k (c a) b) b ks)) k =
     (if k \<in> set ks \<and> nRoundShares (g k) \<noteq> 0 then Some (opt_val (om_find (mapCredits b) k) + c (g k))
      else om_find (mapCredits b) k)"
proof (induction ks arbitrary: b)
  case Nil
  then show ?case by simp
next
  case (Cons j ks)
  let ?b = "let a = g j in if nRoundShares a = 0 then b else AddCredit j (c a) b"
  have inv: "om_inv (mapCredits ?b)" using Cons.prems(2) by (simp add: Let_def AddCredit_find)
  have find: "om_find (mapCredits ?b) k = (if k = j \<and> nRoundShares (g j) \<noteq> 0
      then Some (opt_val (om_find (mapCredits b) j) + c (g j)) else om_find (mapCredits b) k)"
    using Cons.prems(2) by (simp add: Let_def AddCredit_find)
  from Cons.IH [OF _ inv] Cons.prems(1) find show ?case by (auto simp: opt_val_def)
qed

lemma round_credits_find:
  assumes "store_ok (m_account_db reg)" and "db_view (m_account_db reg) k = Some a"
  shows "om_inv (mapCredits (round_credits reg f bonus r2))"
    and "om_find (mapCredits (round_credits reg f bonus r2)) k =
      (if k = f then Some (bonus + credit_word r2 (total_weight reg) a)
       else if nRoundShares a \<noteq> 0 then Some (credit_word r2 (total_weight reg) a) else None)"
proof -
  have inv: "db_inv (m_account_db reg)" using assms(1) by (simp add: store_ok_def)
  have k: "k \<in> set (GetKeys (m_account_db reg))" using adb.keys_view [OF inv] assms(2) by auto
  have e: "om_inv (mapCredits Credits_default)" by (simp add: Credits_default_def)
  have b: "om_inv (mapCredits (AddCredit f bonus Credits_default))"
    "om_find (mapCredits (AddCredit f bonus Credits_default)) k = (if k = f then Some bonus else None)"
    using AddCredit_find [OF e] by (simp_all add: Credits_default_def om_find_def opt_val_def)
  have ak: "account_of reg k = a" using assms(2) by (simp add: account_of_def)
  have zero: "credit_word r2 (total_weight reg) a = 0" if "nRoundShares a = 0"
    using that by (simp add: credit_word_def account_credit_def)
  note fc = foldl_AddCredit [OF adb.keys_distinct [OF inv] b(1), of "account_of reg" "credit_word r2 (total_weight reg)" k]
  show "om_inv (mapCredits (round_credits reg f bonus r2))" using fc by (simp add: round_credits_def)
  show "om_find (mapCredits (round_credits reg f bonus r2)) k =
      (if k = f then Some (bonus + credit_word r2 (total_weight reg) a)
       else if nRoundShares a \<noteq> 0 then Some (credit_word r2 (total_weight reg) a) else None)"
    using fc k b(2) zero ak by (cases "k = f") (simp_all add: round_credits_def opt_val_def)
qed

section \<open>Conservation of the reward\<close>

definition sum_balances :: "account_db \<Rightarrow> u64" where
  "sum_balances db = sum_list (map (\<lambda>k. nAccountBalance (the (db_view db k))) (GetKeys db))"

text \<open>What the last coinbase takes off the balance of \<open>a\<close>.\<close>

definition taken :: "coinbase \<Rightarrow> string \<Rightarrow> account \<Rightarrow> u64" where
  "taken cb k a = nAccountBalance a - nAccountBalance (paid cb k a)"

definition round_taken :: "data_registry \<Rightarrow> string \<Rightarrow> u64 \<Rightarrow> u64" where
  "round_taken reg f bonus =
     sum_list (map (\<lambda>k. taken (m_coinbase reg) k (if k = f then add_to bonus (account_of reg k) else account_of reg k))
       (GetKeys (m_account_db reg)))"

lemma sum_list_single:
  "distinct ks \<Longrightarrow> f \<in> set ks \<Longrightarrow> sum_list (map (\<lambda>k. if k = f then (v :: u64) else 0) ks) = v"
proof (induction ks)
  case (Cons j ks)
  have zero: "sum_list (map (\<lambda>k. if k = f then (v :: u64) else 0) js) = 0" if "f \<notin> set js" for js
    using that by (induction js) auto
  from Cons show ?case by (cases "j = f") (auto simp: zero)
qed simp

lemma round_account_balance:
  "nAccountBalance (round_account reg f bonus r2 k a) + taken (m_coinbase reg) k (if k = f then add_to bonus a else a) =
     nAccountBalance a + credit_word r2 (total_weight reg) a
     + (if k = f then bonus else 0) + (if k = f then round_rest reg r2 else 0)"
  by (simp add: round_account_def credited_def taken_def)

lemma sum_round:
  assumes "store_ok (m_account_db reg)" and "db_view (m_account_db reg) f \<noteq> None"
    and "db_view d' = (\<lambda>k. map_option (round_account reg f bonus r2 k) (db_view (m_account_db reg) k))"
    and "store_ok d'"
  shows "sum_balances d' + round_taken reg f bonus =
    sum_balances (m_account_db reg) + bonus + sum_credits reg r2 + round_rest reg r2"
proof -
  let ?ks = "GetKeys (m_account_db reg)"
  have inv: "db_inv (m_account_db reg)" "db_inv d'" using assms(1,4) by (simp_all add: store_ok_def)
  have "dom (db_view d') = dom (db_view (m_account_db reg))" by (auto simp: assms(3))
  then have keys: "GetKeys d' = ?ks" using inv by (intro GetKeys_eqI)
  have f: "f \<in> set ?ks" using adb.keys_view [OF inv(1)] assms(2) by auto
  have acc: "the (db_view d' k) = round_account reg f bonus r2 k (account_of reg k)" if "k \<in> set ?ks" for k
    using that adb.keys_view [OF inv(1)] by (auto simp: assms(3) account_of_def)
  have "sum_balances d' + round_taken reg f bonus =
      sum_list (map (\<lambda>k. nAccountBalance (round_account reg f bonus r2 k (account_of reg k))
        + taken (m_coinbase reg) k (if k = f then add_to bonus (account_of reg k) else account_of reg k)) ?ks)"
    using acc by (simp add: sum_balances_def round_taken_def keys sum_list_addf cong: map_cong)
  also have "\<dots> = sum_list (map (\<lambda>k. nAccountBalance (account_of reg k)
        + credit_word r2 (total_weight reg) (account_of reg k)
        + (if k = f then bonus else 0) + (if k = f then round_rest reg r2 else 0)) ?ks)"
    by (simp only: round_account_balance)
  also have "\<dots> = sum_balances (m_account_db reg) + sum_credits reg r2 + bonus + round_rest reg r2"
    using sum_list_single [OF adb.keys_distinct [OF inv(1)] f]
    by (simp add: sum_list_addf sum_balances_def account_of_def sum_credits_def)
  finally show ?thesis by (simp add: algebra_simps)
qed

section \<open>Refunds\<close>

definition refunded :: "block_record \<Rightarrow> string \<Rightarrow> account \<Rightarrow> account" where
  "refunded b k a =
     (let a1 = (case om_find (mapCredits (cCredits b)) k of
                  None \<Rightarrow> a | Some v \<Rightarrow> a\<lparr>nAccountBalance := sub_floor v (nAccountBalance a)\<rparr>)
      in case om_find (mapOutputs (cCoinbase b)) k of
           None \<Rightarrow> a1 | Some v \<Rightarrow> a1\<lparr>nAccountBalance := nAccountBalance a1 + v\<rparr>)"

lemma refund_credit_modify:
  "refund_credit = (\<lambda>e. adb.modify (\<lambda>a. a\<lparr>nAccountBalance := sub_floor (snd e) (nAccountBalance a)\<rparr>) (fst e))"
  by (simp add: fun_eq_iff refund_credit_def adb.modify_def)

lemma refund_output_modify:
  "refund_output = (\<lambda>e. adb.modify (\<lambda>a. a\<lparr>nAccountBalance := nAccountBalance a + snd e\<rparr>) (fst e))"
  by (simp add: fun_eq_iff refund_output_def adb.modify_def)

lemma om_dom: "fst ` set m = dom (om_find m)"
  by (simp add: om_find_def [abs_def] dom_map_of_conv_image_fst)

text \<open>The stored block under \<open>h\<close> can be refunded: it is not flagged yet and pays only known accounts.\<close>

definition refund_ok :: "data_registry \<Rightarrow> base_uint \<Rightarrow> block_record \<Rightarrow> bool" where
  "refund_ok reg h b \<longleftrightarrow>
     store_ok (m_account_db reg) \<and> db_inv (m_block_db reg) \<and> db_view (m_block_db reg) h = Some b
     \<and> nCoinbaseValue b \<noteq> 0
     \<and> om_inv (mapCredits (cCredits b)) \<and> om_inv (mapOutputs (cCoinbase b))
     \<and> dom (om_find (mapCredits (cCredits b))) \<subseteq> dom (db_view (m_account_db reg))
     \<and> dom (om_find (mapOutputs (cCoinbase b))) \<subseteq> dom (db_view (m_account_db reg))"

lemma refund_run:
  assumes "refund_ok reg h b"
  shows "\<exists>d' bs. refund_payouts h reg =
        Inr (reg\<lparr>m_account_db := d', m_block_db := UpdateRecord blk_cKey (b\<lparr>nCoinbaseValue := 0\<rparr>) (m_block_db reg),
                blk_dat := Some bs\<rparr>)
      \<and> store_ok d' \<and> db_view d' = (\<lambda>k. map_option (refunded b k) (db_view (m_account_db reg) k))"
proof -
  note ok = assms [unfolded refund_ok_def store_ok_def]
  let ?d1 = "fold refund_credit (mapCredits (cCredits b)) (m_account_db reg)"
  let ?d2 = "fold refund_output (mapOutputs (cCoinbase b)) ?d1"
  have e1: "db_inv ?d1 \<and> adb.keyed ?d1 \<and> db_view ?d1 =
      (\<lambda>k. case map_of (mapCredits (cCredits b)) k of None \<Rightarrow> db_view (m_account_db reg) k
        | Some v \<Rightarrow> map_option (\<lambda>a. a\<lparr>nAccountBalance := sub_floor v (nAccountBalance a)\<rparr>) (db_view (m_account_db reg) k))"
    unfolding refund_credit_modify
    using ok om_inv_distinct [of "mapCredits (cCredits b)"]
    by (intro adb.modify_entries [of "\<lambda>v a. a\<lparr>nAccountBalance := sub_floor v (nAccountBalance a)\<rparr>"])
       (simp_all add: om_dom)
  then have dom1: "dom (db_view ?d1) = dom (db_view (m_account_db reg))"
    by (auto simp: dom_def split: option.splits)
  have sub: "fst ` set (mapOutputs (cCoinbase b)) \<subseteq> dom (db_view ?d1)"
    unfolding om_dom dom1 using ok by (elim conjE)
  have i1: "db_inv ?d1" "adb.keyed ?d1" using e1 by blast+
  have dist: "distinct (map fst (mapOutputs (cCoinbase b)))" using ok by (intro om_inv_distinct) simp
  have e2: "db_inv ?d2 \<and> adb.keyed ?d2 \<and> db_view ?d2 =
      (\<lambda>k. case map_of (mapOutputs (cCoinbase b)) k of None \<Rightarrow> db_view ?d1 k
        | Some v \<Rightarrow> map_option (\<lambda>a. a\<lparr>nAccountBalance := nAccountBalance a + v\<rparr>) (db_view ?d1 k))"
    unfolding refund_output_modify
    by (rule adb.modify_entries [OF _ i1 sub dist]) simp
  have view: "db_view ?d2 k = map_option (refunded b k) (db_view (m_account_db reg) k)" for k
    using e1 e2 by (cases "db_view (m_account_db reg) k") (auto simp: refunded_def om_find_def Let_def split: option.splits)
  have get: "GetRecord Block_default h (m_block_db reg) = (b, m_block_db reg)"
    using ok by (intro bdb.get_hit) simp
  let ?reg = "reg\<lparr>m_account_db := ?d2, m_block_db := UpdateRecord blk_cKey (b\<lparr>nCoinbaseValue := 0\<rparr>) (m_block_db reg)\<rparr>"
  obtain bs where "write_block_db ?reg = Inr (?reg\<lparr>blk_dat := Some bs\<rparr>)" using write_block_db_ok by blast
  then have "refund_payouts h reg = Inr (?reg\<lparr>blk_dat := Some bs\<rparr>)"
    using ok by (simp add: refund_payouts_def get commit_block_def Let_def)
  with e2 view show ?thesis by (auto simp: store_ok_def intro!: exI [of _ ?d2])
qed

lemma refund_flagged:
  assumes "db_view (m_block_db reg) h = Some b" and "nCoinbaseValue b = 0"
  shows "refund_payouts h reg = Inr reg"
  using assms by (simp add: refund_payouts_def bdb.get_hit [OF assms(1)])

section \<open>A refund takes a round back\<close>

lemma sub_floor_add: "unat x + unat c < 2 ^ 64 \<Longrightarrow> sub_floor c (x + c) = x"
proof -
  assume "unat x + unat c < 2 ^ 64"
  then have "unat (x + c) = unat x + unat c" by (subst unat_add_lem [THEN iffD1]) simp_all
  then show ?thesis by (simp add: sub_floor_def word_less_nat_alt)
qed

lemma sub_floor_le: "v \<le> x \<Longrightarrow> sub_floor v x = x - v"
  by (auto simp: sub_floor_def)

definition out_val :: "coinbase \<Rightarrow> string \<Rightarrow> u64" where
  "out_val cb k = opt_val (om_find (mapOutputs cb) k)"

lemma paid_balance:
  "out_val cb k \<le> nAccountBalance a \<Longrightarrow> paid cb k a = a\<lparr>nAccountBalance := nAccountBalance a - out_val cb k\<rparr>"
  by (simp add: paid_def out_val_def opt_val_def sub_floor_le split: option.splits)

text \<open>The bounds under which no subtraction of the round or its refund is cut off at zero.\<close>

definition small_account :: "coinbase \<Rightarrow> string \<Rightarrow> account \<Rightarrow> bool" where
  "small_account cb k a \<longleftrightarrow> out_val cb k \<le> nAccountBalance a \<and> unat (nAccountBalance a) < 2 ^ 63"

lemma unat_plus_small: "unat (x :: u64) < 2 ^ 63 \<Longrightarrow> unat y < 2 ^ 63 \<Longrightarrow> unat (x + y) = unat x + unat y"
  by (subst unat_add_lem [THEN iffD1]) simp_all

lemma round_account_add:
  assumes "small_account (m_coinbase reg) k a" and "unat bonus < 2 ^ 32"
  shows "round_account reg f bonus r2 k a =
    a\<lparr>nAccountBalance :=
        (nAccountBalance a - out_val (m_coinbase reg) k + (if k = f then round_rest reg r2 else 0))
        + ((if k = f then bonus else 0) + credit_word r2 (total_weight reg) a)\<rparr>"
proof -
  let ?v = "out_val (m_coinbase reg) k"
  have v: "?v \<le> nAccountBalance a" "unat (nAccountBalance a) < 2 ^ 63"
    using assms(1) by (simp_all add: small_account_def)
  have "unat (nAccountBalance a + bonus) = unat (nAccountBalance a) + unat bonus"
    using v(2) assms(2) by (intro unat_plus_small) simp_all
  then have "?v \<le> nAccountBalance (add_to bonus a)" using v(1) by (simp add: word_le_nat_alt)
  then have p: "paid (m_coinbase reg) k (add_to bonus a)
      = a\<lparr>nAccountBalance := nAccountBalance a + bonus - ?v\<rparr>"
    by (simp only: paid_balance) (simp add: add_to_def)
  show ?thesis
  proof (cases "k = f")
    case True
    have shuffle: "nAccountBalance a + bonus - ?v + credit_word r2 (total_weight reg) a + round_rest reg r2 =
        (nAccountBalance a - ?v + round_rest reg r2) + (bonus + credit_word r2 (total_weight reg) a)"
      by (simp only: diff_conv_add_uminus ac_simps)
    have "round_account reg f bonus r2 k a = add_to (round_rest reg r2)
        ((paid (m_coinbase reg) k (add_to bonus a))\<lparr>nAccountBalance :=
           nAccountBalance (paid (m_coinbase reg) k (add_to bonus a)) + credit_word r2 (total_weight reg) a\<rparr>)"
      using True by (simp add: round_account_def credited_def)
    also have "\<dots> = a\<lparr>nAccountBalance := nAccountBalance a + bonus - ?v + credit_word r2 (total_weight reg) a
        + round_rest reg r2\<rparr>"
      unfolding p by (simp add: add_to_def)
    finally show ?thesis unfolding shuffle using True by simp
  next
    case False
    then show ?thesis by (simp add: round_account_def credited_def paid_balance [OF v(1)])
  qed
qed

lemma refunded_round_account:
  assumes small: "small_account (m_coinbase reg) k a" and bonus: "unat bonus < 2 ^ 32"
    and r2: "unat r2 < 2 ^ 32" and cw: "credit_word r2 (total_weight reg) a \<le> r2"
    and cred: "om_find (mapCredits (cCredits b)) k =
      (if k = f then Some (bonus + credit_word r2 (total_weight reg) a)
       else if nRoundShares a \<noteq> 0 then Some (credit_word r2 (total_weight reg) a) else None)"
    and out: "cCoinbase b = m_coinbase reg"
  shows "refunded b k (round_account reg f bonus r2 k a) = (if k = f then add_to (round_rest reg r2) a else a)"
proof -
  let ?v = "out_val (m_coinbase reg) k" and ?c = "credit_word r2 (total_weight reg) a"
  let ?x = "nAccountBalance a - ?v + (if k = f then round_rest reg r2 else 0)"
  let ?d = "(if k = f then bonus else 0) + ?c"
  have c: "unat ?c < 2 ^ 32" using cw r2 by (simp add: word_le_nat_alt)
  have "unat (nAccountBalance a - ?v) < 2 ^ 63"
    using small unat_sub [of ?v "nAccountBalance a"] by (auto simp: small_account_def)
  moreover have "unat (round_rest reg r2) < 2 ^ 32"
    using r2 unat_sub [of "sum_credits reg r2" r2] by (auto simp: round_rest_def dest: less_imp_le)
  ultimately have x: "unat ?x < 2 ^ 63 + 2 ^ 32" by (auto simp: unat_plus_small)
  have d: "unat ?d < 2 ^ 33" using c bonus by (auto simp: unat_plus_small)
  have undo: "sub_floor ?d (?x + ?d) = ?x" using x d by (intro sub_floor_add) simp
  have zero: "?d = 0" if "k \<noteq> f" "nRoundShares a = 0"
    using that by (simp add: credit_word_def account_credit_def)
  have a1: "(case om_find (mapCredits (cCredits b)) k of None \<Rightarrow> round_account reg f bonus r2 k a
       | Some v \<Rightarrow> (round_account reg f bonus r2 k a)\<lparr>nAccountBalance :=
            sub_floor v (nAccountBalance (round_account reg f bonus r2 k a))\<rparr>) = a\<lparr>nAccountBalance := ?x\<rparr>"
    unfolding round_account_add [OF small bonus] using undo zero cred
    by (cases "k = f"; cases "nRoundShares a = 0") simp_all
  have "refunded b k (round_account reg f bonus r2 k a) = a\<lparr>nAccountBalance := ?x + ?v\<rparr>"
    unfolding refunded_def a1 Let_def out
    by (simp add: out_val_def opt_val_def split: option.split)
  then show ?thesis by (simp add: add_to_def)
qed

lemma round_credits_dom:
  assumes "store_ok (m_account_db reg)" and "db_view (m_account_db reg) f \<noteq> None"
  shows "dom (om_find (mapCredits (round_credits reg f bonus r2))) \<subseteq> dom (db_view (m_account_db reg))"
proof
  fix k assume k: "k \<in> dom (om_find (mapCredits (round_credits reg f bonus r2)))"
  have inv: "db_inv (m_account_db reg)" using assms(1) by (simp add: store_ok_def)
  have e: "om_inv (mapCredits Credits_default)" by (simp add: Credits_default_def)
  have b: "om_inv (mapCredits (AddCredit f bonus Credits_default))"
    "om_find (mapCredits (AddCredit f bonus Credits_default)) k = (if k = f then Some bonus else None)"
    using AddCredit_find [OF e] by (simp_all add: Credits_default_def om_find_def opt_val_def)
  from k have "k \<in> set (GetKeys (m_account_db reg)) \<or> k = f"
    using foldl_AddCredit [OF adb.keys_distinct [OF inv] b(1), of "account_of reg" "credit_word r2 (total_weight reg)" k] b(2)
    by (auto simp: round_credits_def split: if_splits)
  then show "k \<in> dom (db_view (m_account_db reg))" using adb.keys_view [OF inv] assms(2) by auto
qed

section \<open>The properties of a round\<close>

text \<open>
  C1: paying a round succeeds and changes every account as if it stood alone: the payout of the last
  coinbase is taken off its balance (stopping at zero) and the credit for its shares is added; the
  block finder gets the bonus before and the rest of the reward after that. No account appears or
  disappears.
\<close>

theorem update_balances_accounts:
  assumes "round_ok reg f reward"
  shows "\<exists>reg'. update_balances reward h f reg = Inr reg'
    \<and> db_inv (m_account_db reg')
    \<and> (\<forall>k. db_view (m_account_db reg') k =
          map_option (round_account reg f (round_bonus reg reward) (round_shared reg reward) k)
            (db_view (m_account_db reg) k))"
  using round_run [OF assms, of h] by (auto simp: store_ok_def)

text \<open>
  C2: paying a round conserves the reward: the new balances and what the last coinbase took off the
  old ones add up to the old balances and the reward after the fee, as long as the rounded credits of
  the shares do not exceed the part of the reward that is shared. Nothing is lost to rounding, because
  the rest goes to the block finder.
\<close>

theorem update_balances_conserves:
  assumes "round_ok reg f reward"
    and "sum_credits reg (round_shared reg reward) \<le> round_shared reg reward"
  shows "\<exists>reg'. update_balances reward h f reg = Inr reg'
    \<and> sum_balances (m_account_db reg') + round_taken reg f (round_bonus reg reward) =
        sum_balances (m_account_db reg) + reward_after_fee (m_pool_fee (m_config reg)) reward"
proof -
  let ?b = "round_bonus reg reward" and ?r = "round_shared reg reward"
  obtain reg' where run: "update_balances reward h f reg = Inr reg'" "store_ok (m_account_db reg')"
    "db_view (m_account_db reg') = (\<lambda>k. map_option (round_account reg f ?b ?r k) (db_view (m_account_db reg) k))"
    using round_run [OF assms(1), of h] by fastforce
  have "sum_credits reg ?r + round_rest reg ?r = ?r"
    using assms(2) by (auto simp: round_rest_def not_less)
  moreover have "?b + ?r = reward_after_fee (m_pool_fee (m_config reg)) reward"
    by (simp add: round_shared_def shared_reward_def)
  moreover have "sum_balances (m_account_db reg') + round_taken reg f ?b =
      sum_balances (m_account_db reg) + ?b + sum_credits reg ?r + round_rest reg ?r"
    using assms(1) run(2,3) by (intro sum_round) (simp_all add: round_ok_def)
  ultimately have "sum_balances (m_account_db reg') + round_taken reg f ?b =
      sum_balances (m_account_db reg) + reward_after_fee (m_pool_fee (m_config reg)) reward"
    by (metis add.assoc)
  with run(1) show ?thesis by blast
qed

text \<open>
  C3: the refund of an orphaned block takes the round back. If the block was accepted on accounts whose
  balances cover the payouts of the coinbase, then paying the round and refunding the block leaves
  every balance as it was, except that the block finder keeps the rest of the reward, which the block
  record does not list among its credits.
\<close>

theorem refund_undoes_update:
  assumes ok: "round_ok reg f reward"
    and blocks: "db_inv (m_block_db reg)"
    and cb: "om_inv (mapOutputs (m_coinbase reg))" "nMaxValue (m_coinbase reg) + nPoolFee (m_coinbase reg) \<noteq> 0"
      "dom (om_find (mapOutputs (m_coinbase reg))) \<subseteq> dom (db_view (m_account_db reg))"
    and small: "\<forall>k a. db_view (m_account_db reg) k = Some a \<longrightarrow> small_account (m_coinbase reg) k a"
  shows "\<exists>reg1 reg2. update_balances reward h f reg = Inr reg1 \<and> refund_payouts h reg1 = Inr reg2
    \<and> (\<forall>k. db_view (m_account_db reg2) k =
          map_option (\<lambda>a. if k = f then add_to (round_rest reg (round_shared reg reward)) a else a)
            (db_view (m_account_db reg) k))"
proof -
  let ?b = "round_bonus reg reward" and ?r = "round_shared reg reward"
  let ?blk = "(new_block h reg)\<lparr>cCredits := round_credits reg f ?b ?r\<rparr>"
  obtain reg1 where run: "update_balances reward h f reg = Inr reg1" "store_ok (m_account_db reg1)"
    "db_view (m_account_db reg1) = (\<lambda>k. map_option (round_account reg f ?b ?r k) (db_view (m_account_db reg) k))"
    "m_block_db reg1 = UpdateRecord blk_cKey ?blk (m_block_db reg)"
    using round_run [OF ok, of h] by fastforce
  have store: "store_ok (m_account_db reg)" and f: "db_view (m_account_db reg) f \<noteq> None"
    using ok by (simp_all add: round_ok_def)
  obtain af where af: "db_view (m_account_db reg) f = Some af" using f by blast
  have dom1: "dom (db_view (m_account_db reg1)) = dom (db_view (m_account_db reg))" by (auto simp: run(3))
  have cred_dom: "dom (om_find (mapCredits (round_credits reg f ?b ?r))) \<subseteq> dom (db_view (m_account_db reg))"
    by (rule round_credits_dom [OF store f])
  have "blk_cKey ?blk = h" "nCoinbaseValue ?blk \<noteq> 0" "cCoinbase ?blk = m_coinbase reg"
    using cb(2) by (simp_all add: new_block_def Block_key_def)
  moreover from this have "db_view (m_block_db reg1) h = Some ?blk" "db_inv (m_block_db reg1)"
    using blocks by (simp_all add: run(4) bdb.view_update bdb.update_inv)
  ultimately have "refund_ok reg1 h ?blk"
    using run(2) cb cred_dom round_credits_find(1) [OF store af] by (simp add: refund_ok_def dom1)
  from refund_run [OF this] obtain reg2 where reg2: "refund_payouts h reg1 = Inr reg2"
    "db_view (m_account_db reg2) = (\<lambda>k. map_option (refunded ?blk k) (db_view (m_account_db reg1) k))" by fastforce
  have r: "unat ?r < 2 ^ 32" "unat ?b < 2 ^ 32"
    using round_amounts(2,3) [OF ok] ok by (simp_all add: round_ok_def)
  have "refunded ?blk k (round_account reg f ?b ?r k a) = (if k = f then add_to (round_rest reg ?r) a else a)"
    if a: "db_view (m_account_db reg) k = Some a" for k a
  proof (rule refunded_round_account [OF _ r(2,1)])
    show "small_account (m_coinbase reg) k a" using small a by blast
    show "credit_word ?r (total_weight reg) a \<le> ?r"
      using round_credits_ok [OF ok a] by (auto simp: credit_word_def)
    show "om_find (mapCredits (cCredits ?blk)) k = (if k = f then Some (?b + credit_word ?r (total_weight reg) a)
        else if nRoundShares a \<noteq> 0 then Some (credit_word ?r (total_weight reg) a) else None)"
      using round_credits_find(2) [OF store a] by simp
    show "cCoinbase ?blk = m_coinbase reg" by (simp add: new_block_def)
  qed
  then have "db_view (m_account_db reg2) k =
      map_option (\<lambda>a. if k = f then add_to (round_rest reg ?r) a else a) (db_view (m_account_db reg) k)" for k
    by (cases "db_view (m_account_db reg) k") (simp_all add: reg2(2) run(3))
  with run(1) reg2(1) show ?thesis by blast
qed

text \<open>
  C30: a block is refunded at most once: the first refund of a block succeeds and flags the block, and
  every further refund of it returns without changing anything.
\<close>

theorem refund_only_once:
  assumes "refund_ok reg h b" and "bdb.keyed (m_block_db reg)"
  shows "\<exists>reg'. refund_payouts h reg = Inr reg' \<and> refund_payouts h reg' = Inr reg'
    \<and> (\<forall>k. db_view (m_account_db reg') k = map_option (refunded b k) (db_view (m_account_db reg) k))"
proof -
  have b: "blk_cKey b = h" "db_inv (m_block_db reg)"
    using assms by (simp_all add: refund_ok_def bdb.keyed_def)
  obtain reg' where reg': "refund_payouts h reg = Inr reg'"
    "m_block_db reg' = UpdateRecord blk_cKey (b\<lparr>nCoinbaseValue := 0\<rparr>) (m_block_db reg)"
    "db_view (m_account_db reg') = (\<lambda>k. map_option (refunded b k) (db_view (m_account_db reg) k))"
    using refund_run [OF assms(1)] by fastforce
  have "db_view (m_block_db reg') h = Some (b\<lparr>nCoinbaseValue := 0\<rparr>)"
    using b by (simp add: reg'(2) bdb.view_update)
  then have "refund_payouts h reg' = Inr reg'" by (rule refund_flagged) simp
  with reg' show ?thesis by simp
qed

text \<open>
  With the fee setting 1, the documented default of one percent, the fee is the whole reward: a
  paid round only takes the payouts of the last coinbase off the balances and credits nobody.
\<close>

theorem full_fee_credits_nobody:
  assumes "round_ok reg f reward" and "m_pool_fee (m_config reg) = 1"
  shows "\<exists>reg'. update_balances reward h f reg = Inr reg'
    \<and> (\<forall>k. db_view (m_account_db reg') k = map_option (paid (m_coinbase reg) k) (db_view (m_account_db reg) k))"
proof -
  have "reward_after_fee (m_pool_fee (m_config reg)) reward = 0" by (simp add: reward_after_fee_def assms(2))
  then have "unat (round_bonus reg reward) + unat (round_shared reg reward) = 0"
    using round_amounts(2) [OF assms(1)] by simp
  then have zero: "round_bonus reg reward = 0" "round_shared reg reward = 0"
    by (simp_all add: unat_eq_zero)
  obtain reg' where run: "update_balances reward h f reg = Inr reg'"
    "db_view (m_account_db reg') = (\<lambda>k. map_option (round_account reg f 0 0 k) (db_view (m_account_db reg) k))"
    using round_run [OF assms(1), of h] zero by fastforce
  have "round_account reg f 0 0 k a = paid (m_coinbase reg) k a" if "db_view (m_account_db reg) k = Some a" for k a
  proof -
    have "credit_word 0 (total_weight reg) a = 0"
      using round_credits_ok [OF assms(1) that] zero(2) by (auto simp: credit_word_def word_le_nat_alt unat_eq_zero)
    then show ?thesis by (simp add: round_account_def credited_def round_rest_def)
  qed
  then have "db_view (m_account_db reg') k = map_option (paid (m_coinbase reg) k) (db_view (m_account_db reg) k)" for k
    by (cases "db_view (m_account_db reg) k") (simp_all add: run(2))
  with run(1) show ?thesis by blast
qed

text \<open>
  Clearing the shares starts the next round with no weight: every account keeps its key and balance,
  and the total weight is zero.
\<close>

theorem clear_shares_starts_round:
  assumes "db_inv (m_account_db reg)" and "adb.keyed (m_account_db reg)"
  shows "total_weight (clear_shares reg) = 0
    \<and> GetKeys (m_account_db (clear_shares reg)) = GetKeys (m_account_db reg)
    \<and> (\<forall>k. db_view (m_account_db (clear_shares reg)) k =
          map_option (\<lambda>a. a\<lparr>nRoundShares := 0\<rparr>) (db_view (m_account_db reg) k))"
proof -
  note c = clear_shares_ok [OF assms]
  have keys: "GetKeys (m_account_db (clear_shares reg)) = GetKeys (m_account_db reg)"
    using assms(1) c by (intro GetKeys_eqI) (auto simp: dom_def)
  have "nRoundShares (account_of (clear_shares reg) k) = 0" if "k \<in> set (GetKeys (m_account_db reg))" for k
    using that adb.keys_view [OF assms(1)] c(3) by (auto simp: account_of_def)
  then have "total_weight (clear_shares reg) = 0"
    by (simp add: total_weight_eq [OF c(1)] keys cong: map_cong)
  with keys c(3) show ?thesis by simp
qed

section \<open>A concrete round\<close>

definition example_account :: "string \<Rightarrow> u64 \<Rightarrow> u64 \<Rightarrow> account" where
  "example_account k balance shares =
     \<lparr>acc_cKey = k, nAccountBalance = balance, nRoundShares = shares, nBlocksFound = 0\<rparr>"

definition example_accounts :: account_db where
  "example_accounts = \<lparr>strFilename = ''acct.dat'',
     mapRecords = [(''alice'', example_account ''alice'' 100 3), (''bob'', example_account ''bob'' 50 1)]\<rparr>"

definition example_registry :: "u32 \<Rightarrow> data_registry" where
  "example_registry fee =
     \<lparr>m_block_db = \<lparr>strFilename = ''blk.dat'', mapRecords = []\<rparr>, m_account_db = example_accounts,
      m_banned_users = None, m_best_height = 7, m_current_round = 2,
      m_config = Config_default\<lparr>m_pool_fee := fee\<rparr>, m_min_share = 40000000, m_use_ddos = True,
      m_coinbase = \<lparr>mapOutputs = [(''alice'', 40)], nCurrentValue = 40, nMaxValue = 40, nPoolFee = 0\<rparr>,
      m_submit_block = cblock_default, blk_dat = None, acct_dat = None, ban_files = (None, None)\<rparr>"

lemma example_store: "store_ok example_accounts"
  by (simp add: store_ok_def db_inv_def adb.keyed_def example_accounts_def om_inv_def db_view_def om_find_def
      example_account_def)

lemma example_view:
  "db_view example_accounts k =
     (if k = ''alice'' then Some (example_account ''alice'' 100 3)
      else if k = ''bob'' then Some (example_account ''bob'' 50 1) else None)"
  by (simp add: example_accounts_def db_view_def om_find_def)

lemma example_keys: "GetKeys example_accounts = [''alice'', ''bob'']"
  by (simp add: example_accounts_def GetKeys_def om_keys_def)

lemma example_simps [simp]:
  "m_account_db (example_registry fee) = example_accounts" "m_pool_fee (m_config (example_registry fee)) = fee"
  by (simp_all add: example_registry_def)

lemma example_round_ok: "fee = 0 \<or> fee = 1 \<Longrightarrow> round_ok (example_registry fee) ''bob'' 1000"
  by (auto simp: round_ok_def example_store example_view weights_fit_def example_keys account_of_def
      example_account_def reward_after_fee_def)

text \<open>The amounts of the example: a bonus of 20, credits of 735 and 245 of the 980 shared.\<close>

lemma example_amounts:
  "round_shared (example_registry 0) 1000 = 980" "sum_credits (example_registry 0) 980 = 980"
proof -
  have two: "fl (1 / 50) = Fin (5764607523034235 / 288230376151711744)" by code_simp
  have "fl (720575940379279375 / 36028797018963968) = Fin 20" by code_simp
  then have bonus: "finder_bonus 1000 = Inr 20"
    by (simp add: finder_bonus_def d_of_u64_eq u64_val_exact two d_to_word_def trunc_rat_def)
  then show shared: "round_shared (example_registry 0) 1000 = 980"
    by (simp add: round_shared_def shared_reward_def round_bonus_def reward_after_fee_def)
  have f1: "fl (3 / 4) = Fin (3 / 4)" by code_simp
  have f2: "fl (1 / 4) = Fin (1 / 4)" by code_simp
  have f3: "fl 735 = Fin 735" "fl 245 = Fin 245" using fl_nat [of 735] fl_nat [of 245] by simp_all
  have "weight_credit 3 4 980 = Inr 735" "weight_credit 1 4 980 = Inr 245"
    using f1 f2 f3 by (simp_all add: weight_credit_def d_of_u64_eq u64_val_exact d_to_word_def trunc_rat_def)
  moreover have "total_weight (example_registry 0) = 4"
    using example_store by (simp add: total_weight_eq store_ok_def example_keys account_of_def example_view example_account_def)
  ultimately show "sum_credits (example_registry 0) 980 = 980"
    by (simp add: sum_credits_def example_keys account_of_def example_view example_account_def credit_word_def
        account_credit_def)
qed

lemma update_balances_accounts_witness:
  "\<exists>reg'. update_balances 1000 (bu_assign64 32 5) ''bob'' (example_registry 0) = Inr reg'
    \<and> db_view (m_account_db reg') ''carol'' = None"
  using update_balances_accounts [OF example_round_ok [of 0], of "bu_assign64 32 5"] by (auto simp: example_view)

lemma update_balances_conserves_witness:
  "\<exists>reg'. update_balances 1000 (bu_assign64 32 5) ''bob'' (example_registry 0) = Inr reg'
    \<and> sum_balances (m_account_db reg')
        + round_taken (example_registry 0) ''bob'' (round_bonus (example_registry 0) 1000) = 1150"
proof -
  have "sum_balances example_accounts + reward_after_fee 0 1000 = 1150"
    by (simp add: sum_balances_def example_keys example_view example_account_def reward_after_fee_def)
  then show ?thesis
    using update_balances_conserves [OF example_round_ok [of 0], of "bu_assign64 32 5"]
    by (simp add: example_amounts)
qed

lemma refund_undoes_update_witness:
  "\<exists>reg1 reg2. update_balances 1000 (bu_assign64 32 5) ''bob'' (example_registry 0) = Inr reg1
    \<and> refund_payouts (bu_assign64 32 5) reg1 = Inr reg2
    \<and> db_view (m_account_db reg2) ''alice'' = Some (example_account ''alice'' 100 3)"
proof -
  have "\<exists>reg1 reg2. update_balances 1000 (bu_assign64 32 5) ''bob'' (example_registry 0) = Inr reg1
    \<and> refund_payouts (bu_assign64 32 5) reg1 = Inr reg2
    \<and> (\<forall>k. db_view (m_account_db reg2) k =
          map_option (\<lambda>a. if k = ''bob'' then add_to (round_rest (example_registry 0)
              (round_shared (example_registry 0) 1000)) a else a) (db_view (m_account_db (example_registry 0)) k))"
    by (rule refund_undoes_update [OF example_round_ok [of 0]])
       (auto simp: example_registry_def example_view db_inv_def om_inv_def om_find_def small_account_def
          out_val_def opt_val_def example_account_def split: if_splits)
  then show ?thesis by (auto simp: example_view)
qed

definition example_block :: block_record where
  "example_block =
     \<lparr>blk_cKey = bu_assign64 32 5, nCoinbaseValue = 40,
      cCoinbase = \<lparr>mapOutputs = [(''alice'', 40)], nCurrentValue = 40, nMaxValue = 40, nPoolFee = 0\<rparr>,
      cCredits = \<lparr>mapCredits = [(''alice'', 30), (''bob'', 10)]\<rparr>, nRound = 2\<rparr>"

definition example_refund :: data_registry where
  "example_refund =
     (example_registry 0)\<lparr>m_block_db := \<lparr>strFilename = ''blk.dat'', mapRecords = [(bu_assign64 32 5, example_block)]\<rparr>\<rparr>"

lemma refund_only_once_witness:
  "\<exists>reg'. refund_payouts (bu_assign64 32 5) example_refund = Inr reg'
    \<and> refund_payouts (bu_assign64 32 5) reg' = Inr reg'
    \<and> db_view (m_account_db reg') ''alice'' = Some (example_account ''alice'' 110 3)"
proof -
  have "refund_ok example_refund (bu_assign64 32 5) example_block"
    by (simp add: refund_ok_def example_refund_def example_store db_inv_def om_inv_def db_view_def om_find_def)
       (auto simp: example_block_def om_find_def example_accounts_def db_view_def split: if_splits)
  moreover have "bdb.keyed (m_block_db example_refund)"
    by (simp add: bdb.keyed_def example_refund_def db_view_def om_find_def example_block_def)
  ultimately show ?thesis
    using refund_only_once [of example_refund "bu_assign64 32 5" example_block]
    by (auto simp: example_refund_def example_view example_account_def refunded_def example_block_def om_find_def sub_floor_def)
qed

lemma full_fee_credits_nobody_witness:
  "\<exists>reg'. update_balances 1000 (bu_assign64 32 5) ''bob'' (example_registry 1) = Inr reg'
    \<and> db_view (m_account_db reg') ''bob'' = Some (example_account ''bob'' 50 1)"
  using full_fee_credits_nobody [OF example_round_ok [of 1], of "bu_assign64 32 5"]
  by (auto simp: example_view paid_def example_registry_def om_find_def)

lemma clear_shares_starts_round_witness:
  "total_weight (clear_shares (example_registry 0)) = 0
    \<and> db_view (m_account_db (clear_shares (example_registry 0))) ''bob'' = Some (example_account ''bob'' 50 0)"
  using clear_shares_starts_round [of "example_registry 0"] example_store
  by (simp add: store_ok_def example_view example_account_def)

end
