(* ===== verification/Store_Properties.thy ===== *)
theory Store_Properties
  imports Payout_Rounds
begin

text \<open>
  What the databases promise: the files written by \<open>WriteToDisk\<close> are read back by the constructor of
  the store, a lookup returns the last update, and the accounts are offered to the coinbase in the
  order of their balances.
\<close>

section \<open>The database files\<close>

text \<open>
  C33: what a restart does to the account database. A store whose accounts are kept under their own keys is
  written to \<open>acct.dat\<close> and read back with the same keys, in the same order, and the same numbers of blocks
  found; the balance and the shares of an account come back as what \<open>bytes2uint64\<close> makes of them, which is
  always below \<open>2 ^ 32\<close>. So, on a platform where the shift of 0 is 0, the records come back unchanged exactly
  when every balance and every number of shares is below \<open>2 ^ 32\<close>; a larger one loses its high half.
\<close>

theorem account_file_roundtrip:
  assumes "om_inv (mapRecords db)" and "\<forall>(k, a) \<in> set (mapRecords db). acc_cKey a = k \<and> account_ok a"
    and "m = map (\<lambda>(k, a). (k, a\<lparr>nAccountBalance := read_back64 shl32 (nAccountBalance a),
        nRoundShares := read_back64 shl32 (nRoundShares a)\<rparr>)) (mapRecords db)"
  shows "(\<exists>file. WriteToDisk Account_Serialize db = Inr file
      \<and> ReadIntoMemory (Account_Deserialize shl32) acc_cKey (Some file) db0 = Some (Inr (db0\<lparr>mapRecords := m\<rparr>)))
    \<and> (\<forall>(k, a) \<in> set m. unat (nAccountBalance a) < 2 ^ 32 \<and> unat (nRoundShares a) < 2 ^ 32)
    \<and> (shl32 0 = 0 \<longrightarrow> (m = mapRecords db \<longleftrightarrow>
        (\<forall>(k, a) \<in> set (mapRecords db). unat (nAccountBalance a) < 2 ^ 32 \<and> unat (nRoundShares a) < 2 ^ 32)))"
proof (intro conjI impI)
  have fok: "arec.file_ok (mapRecords db)" using assms(1,2) by (auto simp: arec.file_ok_def)
  have m: "m = map (\<lambda>(k, a). (k, account_norm shl32 a)) (mapRecords db)" by (simp add: assms(3) account_norm_def)
  show "\<exists>file. WriteToDisk Account_Serialize db = Inr file
      \<and> ReadIntoMemory (Account_Deserialize shl32) acc_cKey (Some file) db0 = Some (Inr (db0\<lparr>mapRecords := m\<rparr>))"
    using arec.WriteToDisk_file [OF fok] arec.ReadIntoMemory_file [OF fok, of shl32 db0] by (simp add: m)
  show small: "\<forall>(k, a) \<in> set m. unat (nAccountBalance a) < 2 ^ 32 \<and> unat (nRoundShares a) < 2 ^ 32"
    using read_back64_bound by (auto simp: assms(3))
  assume "shl32 0 = 0"
  then have "m = mapRecords db"
    if "\<forall>(k, a) \<in> set (mapRecords db). unat (nAccountBalance a) < 2 ^ 32 \<and> unat (nRoundShares a) < 2 ^ 32"
    using that unfolding m by (intro map_idI) (auto simp: account_norm_def read_back64_small)
  with small show "m = mapRecords db \<longleftrightarrow>
      (\<forall>(k, a) \<in> set (mapRecords db). unat (nAccountBalance a) < 2 ^ 32 \<and> unat (nRoundShares a) < 2 ^ 32)" by auto
qed

definition stored_account :: account where
  "stored_account = \<lparr>acc_cKey = ''2Sa'', nAccountBalance = 500, nRoundShares = 3, nBlocksFound = 1\<rparr>"

text \<open>A small account comes back as it was; a balance of \<open>2 ^ 32 + 7\<close> does not.\<close>

lemma account_file_roundtrip_witness:
  "(\<exists>file. WriteToDisk Account_Serialize \<lparr>strFilename = '''', mapRecords = [(''2Sa'', stored_account)]\<rparr> = Inr file
    \<and> ReadIntoMemory (Account_Deserialize id) acc_cKey (Some file) \<lparr>strFilename = ''x'', mapRecords = []\<rparr>
      = Some (Inr \<lparr>strFilename = ''x'', mapRecords = [(''2Sa'', stored_account)]\<rparr>))
   \<and> read_back64 id 0x100000007 \<noteq> 0x100000007"
proof -
  let ?db = "\<lparr>strFilename = '''', mapRecords = [(''2Sa'', stored_account)]\<rparr>"
    and ?big = "\<lparr>strFilename = '''', mapRecords = [(''2Sa'', stored_account\<lparr>nAccountBalance := 0x100000007\<rparr>)]\<rparr>"
  have "om_inv (mapRecords ?db)" "\<forall>(k, a) \<in> set (mapRecords ?db). acc_cKey a = k \<and> account_ok a"
    by (simp_all add: om_inv_def stored_account_def account_ok_def)
  from account_file_roundtrip [OF this refl, of id "\<lparr>strFilename = ''x'', mapRecords = []\<rparr>"]
  have small: "\<exists>file. WriteToDisk Account_Serialize ?db = Inr file
      \<and> ReadIntoMemory (Account_Deserialize id) acc_cKey (Some file) \<lparr>strFilename = ''x'', mapRecords = []\<rparr>
        = Some (Inr \<lparr>strFilename = ''x'', mapRecords = [(''2Sa'', stored_account)]\<rparr>)"
    by (simp add: stored_account_def read_back64_small)
  have "om_inv (mapRecords ?big)" "\<forall>(k, a) \<in> set (mapRecords ?big). acc_cKey a = k \<and> account_ok a"
    by (simp_all add: om_inv_def stored_account_def account_ok_def)
  from account_file_roundtrip [OF this refl, of id] have "read_back64 id 0x100000007 \<noteq> 0x100000007"
    by (auto simp: stored_account_def)
  with small show ?thesis by blast
qed

text \<open>
  The block database survives a restart up to the coinbase of each block, whose maximum and current
  value are recomputed on reading: the key, the round, the value of the block and its credits are those
  that were written.
\<close>

theorem block_file_roundtrip:
  assumes "om_inv (mapRecords db)"
    and "\<forall>(k, b) \<in> set (mapRecords db). blk_cKey b = k \<and> block_ok b"
  shows "\<exists>file. WriteToDisk Block_Serialize db = Inr file
    \<and> ReadIntoMemory (Block_Deserialize shl32) blk_cKey (Some file) db0 = Some (Inr (db0\<lparr>mapRecords :=
        map (\<lambda>(k, b). (k, b\<lparr>nCoinbaseValue := read_back64 shl32 (nCoinbaseValue b),
            cCoinbase := read_back_coinbase shl32 (read_back64 shl32 (nCoinbaseValue b)) (cCoinbase b),
            cCredits := \<lparr>mapCredits = read_back_outputs shl32 (mapCredits (cCredits b))\<rparr>\<rparr>)) (mapRecords db)\<rparr>))"
proof -
  have fok: "brec.file_ok (mapRecords db)" using assms by (auto simp: brec.file_ok_def)
  from brec.WriteToDisk_file [OF fok] brec.ReadIntoMemory_file [OF fok, of shl32 db0]
  show ?thesis by (simp add: block_norm_def Let_def)
qed

lemma block_file_roundtrip_witness:
  "\<exists>file. WriteToDisk Block_Serialize \<lparr>strFilename = '''', mapRecords = [(bu_assign64 32 0, Block_default)]\<rparr> = Inr file
    \<and> is_ok_res (the (ReadIntoMemory (Block_Deserialize id) blk_cKey (Some file) \<lparr>strFilename = ''x'', mapRecords = []\<rparr>))"
  using block_file_roundtrip [of "\<lparr>strFilename = '''', mapRecords = [(bu_assign64 32 0, Block_default)]\<rparr>" id
      "\<lparr>strFilename = ''x'', mapRecords = []\<rparr>"]
  by (auto simp: om_inv_def Block_default_def Block_key_def block_ok_def addr_ok_def Coinbase_default_def Credits_default_def)

section \<open>The store\<close>

text \<open>
  A lookup returns the record of the last update of its key and does not change the store; the
  lookup of a key without a record is not free of effects: it returns the default account and stores it
  under that key.
\<close>

theorem account_lookup_after_update:
  assumes "db_inv db"
  shows "GetRecord Account_default k (UpdateRecord acc_cKey a db) =
    (if k = acc_cKey a then (a, UpdateRecord acc_cKey a db)
     else (fst (GetRecord Account_default k db), UpdateRecord acc_cKey a (snd (GetRecord Account_default k db))))
   \<and> (\<not> HasKey k db \<longrightarrow> fst (GetRecord Account_default k db) = Account_default \<and> HasKey k (snd (GetRecord Account_default k db)))"
proof -
  have eq: "om_set x u (om_set y w (mapRecords db)) = om_set y w (om_set x u (mapRecords db))" if "x \<noteq> y" for x y u w
    using assms that by (intro om_eqI) (simp_all add: db_inv_def)
  have has: "HasKey k db \<longleftrightarrow> om_find (mapRecords db) k \<noteq> None" for db :: account_db
    by (cases db) (auto simp: HasKey_def om_count_def om_find_def)
  show ?thesis
    using assms
    by (auto simp: GetRecord_def om_index_def UpdateRecord_def has db_inv_def eq split: option.splits)
qed

lemma account_lookup_after_update_witness:
  "GetRecord Account_default ''2Sa'' (UpdateRecord acc_cKey stored_account \<lparr>strFilename = '''', mapRecords = []\<rparr>)
     = (stored_account, UpdateRecord acc_cKey stored_account \<lparr>strFilename = '''', mapRecords = []\<rparr>)"
  using account_lookup_after_update [of "\<lparr>strFilename = '''', mapRecords = []\<rparr>" "''2Sa''" stored_account]
  by (simp add: db_inv_def om_inv_def stored_account_def)

text \<open>
  The accounts offered to the coinbase are all the accounts of the database, each once, in the
  order of their balances, the largest first, for every sorting function that sorts.
\<close>

theorem accounts_sorted_by_balance:
  assumes "std_sort_ok srt" and "db_inv (m_account_db reg)"
  shows "mset (get_sorted_accounts srt reg) = mset_set (dom (db_view (m_account_db reg)))
    \<and> sorted_wrt (\<ge>) (map (balance_of (m_account_db reg)) (get_sorted_accounts srt reg))"
proof -
  have "mset (GetKeys (m_account_db reg)) = mset_set (dom (db_view (m_account_db reg)))"
    using adb.keys_view [OF assms(2)] adb.keys_distinct [OF assms(2)] by (metis mset_set_set)
  then show ?thesis
    using get_sorted_accounts_ok [OF assms(1), of reg] by (simp add: sorted_wrt_map not_less)
qed

lemma accounts_sorted_by_balance_witness:
  "mset (get_sorted_accounts insertion_sort (example_registry 0)) = mset_set {''alice'', ''bob''}
   \<and> sorted_wrt (\<ge>) (map (balance_of example_accounts) (get_sorted_accounts insertion_sort (example_registry 0)))"
proof -
  have "dom (db_view example_accounts) = {''alice'', ''bob''}" by (auto simp: example_view dom_def)
  then show ?thesis
    using accounts_sorted_by_balance [OF std_sort_ok_insertion_sort, of "example_registry 0"] example_store
    by (simp add: store_ok_def)
qed

end
