(* ===== verification/Packet.thy ===== *)
theory Packet
  imports LLP_Block
begin

text \<open>
  \<open>nexuspool::Packet\<close> of \<open>src/src/packet.hpp\<close>: the frames exchanged with miners, and the frames the
  pool sends to the wallet. A frame is one header byte; headers below 128 are data packets, whose
  header is followed by a four byte length, most significant byte first, and the data.
\<close>

section \<open>Headers\<close>

abbreviation BLOCK_DATA :: u8 where "BLOCK_DATA \<equiv> 0"
abbreviation SUBMIT_SHARE :: u8 where "SUBMIT_SHARE \<equiv> 1"
abbreviation BLOCK_HEIGHT :: u8 where "BLOCK_HEIGHT \<equiv> 2"
abbreviation ACCOUNT_BALANCE :: u8 where "ACCOUNT_BALANCE \<equiv> 3"
abbreviation PENDING_PAYOUT :: u8 where "PENDING_PAYOUT \<equiv> 4"
abbreviation SUBMIT_PPS :: u8 where "SUBMIT_PPS \<equiv> 5"
abbreviation LOGIN :: u8 where "LOGIN \<equiv> 8"
abbreviation GET_BLOCK :: u8 where "GET_BLOCK \<equiv> 129"
abbreviation NEW_BLOCK :: u8 where "NEW_BLOCK \<equiv> 130"
abbreviation GET_BALANCE :: u8 where "GET_BALANCE \<equiv> 131"
abbreviation GET_PAYOUT :: u8 where "GET_PAYOUT \<equiv> 132"
abbreviation LOGIN_SKMINER_SUCCESS :: u8 where "LOGIN_SKMINER_SUCCESS \<equiv> 134"
abbreviation LOGIN_SKMINER_FAIL :: u8 where "LOGIN_SKMINER_FAIL \<equiv> 135"
abbreviation ACCEPT :: u8 where "ACCEPT \<equiv> 200"
abbreviation REJECT :: u8 where "REJECT \<equiv> 201"
abbreviation BLOCK :: u8 where "BLOCK \<equiv> 202"
abbreviation STALE :: u8 where "STALE \<equiv> 203"
abbreviation PING :: u8 where "PING \<equiv> 253"
abbreviation CLOSE :: u8 where "CLOSE \<equiv> 254"

section \<open>Packets\<close>

text \<open>\<open>m_data\<close> is a shared pointer: \<open>None\<close> is the null pointer.\<close>

record packet =
  m_header :: u8
  m_length :: u32
  m_data :: "bytes option"

definition packet_default :: packet where
  "packet_default = \<lparr>m_header = 255, m_length = 0, m_data = None\<rparr>"

text \<open>The length and the data of a received frame of more than one byte.\<close>

definition read_frame :: "bytes \<Rightarrow> (u32 \<times> bytes) res" where
  "read_frame buffer =
     rbind (vec_at buffer 1) (\<lambda>b1.
     rbind (vec_at buffer 2) (\<lambda>b2.
     rbind (vec_at buffer 3) (\<lambda>b3.
     rbind (vec_at buffer 4) (\<lambda>b4.
     rbind (vec_range 5 (int (length buffer)) buffer) (\<lambda>d.
       Inr (push_bit 24 (ucast b1) + push_bit 16 (ucast b2) + push_bit 8 (ucast b3) + ucast b4, d))))))"

definition packet_of_buffer :: "bytes \<Rightarrow> packet res" where
  "packet_of_buffer buffer =
     (let h = (if buffer = [] then 255 else hd buffer)
      in if length buffer > 1
         then rbind (read_frame buffer) (\<lambda>(len, d). Inr \<lparr>m_header = h, m_length = len, m_data = Some d\<rparr>)
         else Inr \<lparr>m_header = h, m_length = 0, m_data = None\<rparr>)"

definition is_valid :: "packet \<Rightarrow> bool" where
  "is_valid p \<longleftrightarrow>
     (m_header p = 0 \<and> m_length p = 0) \<or> (m_header p < 128 \<and> m_length p > 0)
     \<or> (m_header p \<ge> 128 \<and> m_header p < 255 \<and> m_length p = 0)"

definition get_bytes :: "packet \<Rightarrow> bytes res" where
  "get_bytes p =
     (if m_header p < 128
      then (case m_data p of None \<Rightarrow> Inl Null_deref
            | Some d \<Rightarrow> Inr ([m_header p] @ uint2bytes (m_length p) @ d))
      else Inr [m_header p])"

definition get_packet :: "u8 \<Rightarrow> packet" where
  "get_packet header = packet_default\<lparr>m_header := header\<rparr>"

definition get_height :: "u32 \<Rightarrow> packet" where
  "get_height height =
     packet_default\<lparr>m_header := NEW_BLOCK, m_length := 4, m_data := Some (uint2bytes height)\<rparr>"

definition serialize_block :: "(bytes \<Rightarrow> base_uint) \<Rightarrow> cblock \<Rightarrow> u32 \<Rightarrow> bytes" where
  "serialize_block SK1024 block min_share =
     GetBytes (GetHash SK1024 block) @ uint2bytes min_share @ uint2bytes (nBits block)
     @ uint2bytes (nHeight block)"

section \<open>Framing\<close>

lemma read_frame_ok:
  "5 \<le> length buffer \<Longrightarrow>
   read_frame buffer = Inr (bytes2uint (take 4 (drop 1 buffer)) 0, drop 5 buffer)"
  by (simp add: read_frame_def vec_at_def vec_range_def bytes2uint_def numeral_eq_Suc)

lemma read_frame_short: "length buffer < 5 \<Longrightarrow> read_frame buffer = Inl Out_of_range"
  by (auto simp: read_frame_def vec_at_def rbind_def)

lemma packet_of_buffer_faults_iff:
  "is_ok_res (packet_of_buffer buffer) \<longleftrightarrow> length buffer \<notin> {2, 3, 4}"
proof (cases "5 \<le> length buffer")
  case True
  then show ?thesis by (auto simp: packet_of_buffer_def read_frame_ok Let_def)
next
  case False
  then show ?thesis by (auto simp: packet_of_buffer_def read_frame_short Let_def)
qed

text \<open>A packet as the pool builds it: a data packet carries data, a request or response does not.\<close>

definition packet_wf :: "packet \<Rightarrow> bool" where
  "packet_wf p \<longleftrightarrow>
     (if m_header p < 128
      then (\<exists>d. m_data p = Some d \<and> length d < 2 ^ 32 \<and> m_length p = of_nat (length d))
      else m_data p = None \<and> m_length p = 0)"

lemma packet_roundtrip:
  assumes "packet_wf p"
  shows "rbind (get_bytes p) packet_of_buffer = Inr p"
proof (cases "m_header p < 128")
  case True
  then obtain d where d: "m_data p = Some d" using assms by (auto simp: packet_wf_def)
  have "packet_of_buffer (m_header p # uint2bytes (m_length p) @ d) = Inr p"
    using d by (simp add: packet_of_buffer_def read_frame_ok)
  then show ?thesis using True d by (simp add: get_bytes_def)
next
  case False
  then show ?thesis using assms by (simp add: packet_wf_def get_bytes_def packet_of_buffer_def)
qed

lemma get_bytes_get_packet: "header \<ge> 128 \<Longrightarrow> get_bytes (get_packet header) = Inr [header]"
  by (simp add: get_bytes_def get_packet_def packet_default_def)

lemma get_bytes_get_height: "get_bytes (get_height h) = Inr [NEW_BLOCK]"
  by (simp add: get_bytes_def get_height_def packet_default_def)

lemma length_serialize_block:
  "length (serialize_block SK1024 b m) = 4 * width (GetHash SK1024 b) + 12"
  by (simp add: serialize_block_def)

end
