(* ===== verification/Daemon_Packet.thy ===== *)
theory Daemon_Packet
  imports Packet
begin

text \<open>
  \<open>nexuspool::Daemon_packet\<close> of \<open>src/src/daemon_packet.hpp\<close> and \<open>daemon_packet.cpp\<close>: the frames of
  the wallet protocol. Received frames are \<open>Daemon_packet\<close>s, which have the members of \<open>Packet\<close>
  and are modelled by the same record; the packets sent to the wallet are built by the functions
  below and framed by \<open>Packet::get_bytes\<close>. The block deserialisation of
  \<open>Daemon_connection::deserialize_block\<close> is here too.
\<close>

abbreviation D_BLOCK_DATA :: u8 where "D_BLOCK_DATA \<equiv> 0"
abbreviation D_SUBMIT_BLOCK :: u8 where "D_SUBMIT_BLOCK \<equiv> 1"
abbreviation D_BLOCK_HEIGHT :: u8 where "D_BLOCK_HEIGHT \<equiv> 2"
abbreviation D_SET_CHANNEL :: u8 where "D_SET_CHANNEL \<equiv> 3"
abbreviation D_BLOCK_REWARD :: u8 where "D_BLOCK_REWARD \<equiv> 4"
abbreviation D_SET_COINBASE :: u8 where "D_SET_COINBASE \<equiv> 5"
abbreviation D_GOOD_BLOCK :: u8 where "D_GOOD_BLOCK \<equiv> 6"
abbreviation D_ORPHAN_BLOCK :: u8 where "D_ORPHAN_BLOCK \<equiv> 7"
abbreviation D_CHECK_BLOCK :: u8 where "D_CHECK_BLOCK \<equiv> 64"
abbreviation D_GET_BLOCK :: u8 where "D_GET_BLOCK \<equiv> 129"
abbreviation D_GET_HEIGHT :: u8 where "D_GET_HEIGHT \<equiv> 130"
abbreviation D_GET_REWARD :: u8 where "D_GET_REWARD \<equiv> 131"
abbreviation D_CLEAR_MAP :: u8 where "D_CLEAR_MAP \<equiv> 132"
abbreviation D_GET_ROUND :: u8 where "D_GET_ROUND \<equiv> 133"
abbreviation D_GOOD :: u8 where "D_GOOD \<equiv> 200"
abbreviation D_FAIL :: u8 where "D_FAIL \<equiv> 201"
abbreviation D_COINBASE_SET :: u8 where "D_COINBASE_SET \<equiv> 202"
abbreviation D_COINBASE_FAIL :: u8 where "D_COINBASE_FAIL \<equiv> 203"
abbreviation D_NEW_ROUND :: u8 where "D_NEW_ROUND \<equiv> 204"
abbreviation D_OLD_ROUND :: u8 where "D_OLD_ROUND \<equiv> 205"
abbreviation D_PING :: u8 where "D_PING \<equiv> 253"

text \<open>The constructor from a received buffer reads the header byte without testing for an empty buffer.\<close>

definition daemon_packet_of_buffer :: "bytes \<Rightarrow> packet res" where
  "daemon_packet_of_buffer buffer =
     rbind (vec_at buffer 0) (\<lambda>h.
       if length buffer > 1
       then rbind (read_frame buffer) (\<lambda>(len, d). Inr \<lparr>m_header = h, m_length = len, m_data = Some d\<rparr>)
       else Inr \<lparr>m_header = h, m_length = 0, m_data = None\<rparr>)"

definition daemon_is_valid :: "packet \<Rightarrow> bool" where
  "daemon_is_valid p \<longleftrightarrow>
     (m_header p < 128 \<and> m_length p > 0)
     \<or> (m_header p \<ge> 128 \<and> m_header p < 255 \<and> m_length p = 0)"

definition daemon_get_block :: packet where
  "daemon_get_block = packet_default\<lparr>m_header := D_GET_BLOCK\<rparr>"

definition daemon_get_height :: packet where
  "daemon_get_height = packet_default\<lparr>m_header := D_GET_HEIGHT\<rparr>"

definition daemon_get_reward :: packet where
  "daemon_get_reward = packet_default\<lparr>m_header := D_GET_REWARD\<rparr>"

definition daemon_get_round :: packet where
  "daemon_get_round = packet_default\<lparr>m_header := D_GET_ROUND\<rparr>"

definition daemon_clear_maps :: packet where
  "daemon_clear_maps = packet_default\<lparr>m_header := D_CLEAR_MAP\<rparr>"

definition daemon_ping :: packet where
  "daemon_ping = packet_default\<lparr>m_header := D_PING\<rparr>"

definition set_channel :: "u32 \<Rightarrow> packet" where
  "set_channel channel =
     packet_default\<lparr>m_header := D_SET_CHANNEL, m_length := 4, m_data := Some (uint2bytes channel)\<rparr>"

definition set_coinbase :: "bytes \<Rightarrow> packet" where
  "set_coinbase coinbase =
     packet_default\<lparr>m_header := D_SET_COINBASE, m_data := Some coinbase, m_length := of_nat (length coinbase)\<rparr>"

definition check_block :: "base_uint \<Rightarrow> packet" where
  "check_block hash_block =
     packet_default\<lparr>m_header := D_CHECK_BLOCK, m_data := Some (GetBytes hash_block),
                    m_length := of_nat (length (GetBytes hash_block))\<rparr>"

definition submit_block :: "base_uint \<Rightarrow> u64 \<Rightarrow> packet" where
  "submit_block hash_merkle_root nonce =
     packet_default\<lparr>m_header := D_SUBMIT_BLOCK, m_length := 72,
                    m_data := Some (GetBytes hash_merkle_root @ uint2bytes64 nonce)\<rparr>"

definition deserialize_block :: "(u32 \<Rightarrow> u32) \<Rightarrow> bytes \<Rightarrow> cblock res" where
  "deserialize_block shl32 data =
     (let n = int (length data) in
      rbind (vec_range 0 4 data) (\<lambda>version.
      rbind (vec_range 4 132 data) (\<lambda>prev. rbind (SetBytes 32 prev) (\<lambda>hprev.
      rbind (vec_range 132 (n - 20) data) (\<lambda>merkle. rbind (SetBytes 16 merkle) (\<lambda>hmerkle.
      rbind (vec_range (n - 20) (n - 16) data) (\<lambda>channel.
      rbind (vec_range (n - 16) (n - 12) data) (\<lambda>height.
      rbind (vec_range (n - 12) (n - 8) data) (\<lambda>bits.
      rbind (vec_range (n - 8) n data) (\<lambda>nonce.
        Inr \<lparr>nVersion = bytes2uint version 0, hashPrevBlock = hprev, hashMerkleRoot = hmerkle,
             nChannel = bytes2uint channel 0, nHeight = bytes2uint height 0,
             nBits = bytes2uint bits 0, nNonce = bytes2uint64 shl32 nonce 0\<rparr>))))))))))"

section \<open>Facts\<close>

text \<open>The block frame of the wallet protocol: what \<open>deserialize_block\<close> takes apart.\<close>

definition block_frame :: "cblock \<Rightarrow> bytes" where
  "block_frame b =
     uint2bytes (nVersion b) @ GetBytes (hashPrevBlock b) @ GetBytes (hashMerkleRoot b)
     @ uint2bytes (nChannel b) @ uint2bytes (nHeight b) @ uint2bytes (nBits b) @ uint2bytes64 (nNonce b)"

lemma length_block_frame: "cblock_wf b \<Longrightarrow> length (block_frame b) = 216"
  by (simp add: block_frame_def cblock_wf_def)

lemma deserialize_block_frame:
  assumes "cblock_wf b"
  shows "deserialize_block shl32 (block_frame b) = Inr (b\<lparr>nNonce := read_back64 shl32 (nNonce b)\<rparr>)"
proof -
  note wf = assms [unfolded cblock_wf_def]
  let ?v = "uint2bytes (nVersion b)" and ?p = "GetBytes (hashPrevBlock b)"
    and ?m = "GetBytes (hashMerkleRoot b)" and ?c = "uint2bytes (nChannel b)"
    and ?h = "uint2bytes (nHeight b)" and ?b = "uint2bytes (nBits b)" and ?n = "uint2bytes64 (nNonce b)"
  have L: "length (block_frame b) = 216" by (rule length_block_frame [OF assms])
  have 1: "vec_range 0 4 (block_frame b) = Inr ?v"
    by (rule vec_range_midI [of _ "[]"]) (simp_all add: block_frame_def)
  have 2: "vec_range 4 132 (block_frame b) = Inr ?p"
    by (rule vec_range_midI [of _ "?v"]) (use wf in \<open>simp_all add: block_frame_def\<close>)
  have 3: "vec_range 132 196 (block_frame b) = Inr ?m"
    by (rule vec_range_midI [of _ "?v @ ?p"]) (use wf in \<open>simp_all add: block_frame_def\<close>)
  have 4: "vec_range 196 200 (block_frame b) = Inr ?c"
    by (rule vec_range_midI [of _ "?v @ ?p @ ?m"]) (use wf in \<open>simp_all add: block_frame_def\<close>)
  have 5: "vec_range 200 204 (block_frame b) = Inr ?h"
    by (rule vec_range_midI [of _ "?v @ ?p @ ?m @ ?c"]) (use wf in \<open>simp_all add: block_frame_def\<close>)
  have 6: "vec_range 204 208 (block_frame b) = Inr ?b"
    by (rule vec_range_midI [of _ "?v @ ?p @ ?m @ ?c @ ?h"]) (use wf in \<open>simp_all add: block_frame_def\<close>)
  have 7: "vec_range 208 216 (block_frame b) = Inr ?n"
    by (rule vec_range_midI [of _ "?v @ ?p @ ?m @ ?c @ ?h @ ?b" _ "[]"])
       (use wf in \<open>simp_all add: block_frame_def\<close>)
  have sp: "SetBytes 32 ?p = Inr (hashPrevBlock b)" and sm: "SetBytes 16 ?m = Inr (hashMerkleRoot b)"
    using SetBytes_GetBytes [of "hashPrevBlock b" "[]"] SetBytes_GetBytes [of "hashMerkleRoot b" "[]"] wf
    by simp_all
  have n: "bytes2uint64 shl32 ?n 0 = read_back64 shl32 (nNonce b)"
    by (rule bytes2uint64_read_back [of _ "[]" _ "[]"]) simp_all
  show ?thesis by (simp add: deserialize_block_def Let_def L 1 2 3 4 5 6 7 sp sm n)
qed

lemma deserialize_block_short:
  "length data < 216 \<Longrightarrow> \<not> is_ok_res (deserialize_block shl32 data)"
proof
  assume len: "length data < 216" and "is_ok_res (deserialize_block shl32 data)"
  then obtain merkle h where m: "vec_range 132 (int (length data) - 20) data = Inr merkle"
    and h: "SetBytes 16 merkle = Inr h"
    by (auto simp: deserialize_block_def Let_def is_ok_res_iff rbind_eq_Inr)
  from m have "int (length merkle) = int (length data) - 152"
    by (auto dest: vec_range_length)
  with len have "length merkle < 64" by linarith
  with h show False by (auto dest: SetBytes_long)
qed

lemma daemon_packet_roundtrip:
  assumes "packet_wf p"
  shows "rbind (get_bytes p) daemon_packet_of_buffer = Inr p"
proof -
  have "buffer \<noteq> [] \<Longrightarrow> daemon_packet_of_buffer buffer = packet_of_buffer buffer" for buffer
    by (auto simp: daemon_packet_of_buffer_def packet_of_buffer_def vec_at_def hd_conv_nth)
  moreover have "get_bytes p = Inr b \<Longrightarrow> b \<noteq> []" for b
    by (auto simp: get_bytes_def split: if_splits option.splits)
  ultimately show ?thesis
    using packet_roundtrip [OF assms] by (auto simp: rbind_eq_Inr)
qed

end
