(* ===== verification/Wire_Properties.thy ===== *)
theory Wire_Properties
  imports Daemon_Packet LLD_Record
begin

text \<open>
  What the byte formats promise: packets, blocks, the coinbase transaction and the two database files
  are read back as they were written, up to the high half of 64 bit values.
\<close>

section \<open>Packets\<close>



text \<open>
  The constructor from a received buffer reads outside the buffer exactly for buffers of two, three
  or four bytes; the constructor of the wallet protocol also for the empty buffer.
\<close>

lemma daemon_packet_same: "buffer \<noteq> [] \<Longrightarrow> daemon_packet_of_buffer buffer = packet_of_buffer buffer"
  by (auto simp: daemon_packet_of_buffer_def packet_of_buffer_def vec_at_def hd_conv_nth)

theorem short_frames_fault:
  "(is_ok_res (packet_of_buffer buffer) \<longleftrightarrow> length buffer \<notin> {2, 3, 4})
    \<and> (is_ok_res (daemon_packet_of_buffer buffer) \<longleftrightarrow> length buffer \<notin> {0, 2, 3, 4})"
proof
  show "is_ok_res (packet_of_buffer buffer) \<longleftrightarrow> length buffer \<notin> {2, 3, 4}"
    by (rule packet_of_buffer_faults_iff)
  show "is_ok_res (daemon_packet_of_buffer buffer) \<longleftrightarrow> length buffer \<notin> {0, 2, 3, 4}"
  proof (cases "buffer = []")
    case True
    then show ?thesis by (simp add: daemon_packet_of_buffer_def vec_at_def)
  next
    case False
    then show ?thesis using packet_of_buffer_faults_iff [of buffer] by (simp add: daemon_packet_same)
  qed
qed

text \<open>
  C35: A receipt is taken for one packet, whatever bytes the network put into it. When more bytes follow a
  frame in the same receipt, a data packet swallows them; a request becomes a packet whose length is read from
  them, or a read outside the buffer when they are fewer than four, as for two requests that arrive together.
  When a data frame arrives in parts, its first part is a packet with the length of the whole and part of the
  data, or a read outside the buffer. The constructor of the wallet protocol does the same.
\<close>

theorem receipt_is_one_packet:
  assumes "packet_wf p" and "get_bytes p = Inr f" and "rest \<noteq> []"
  shows "packet_of_buffer (f @ rest) =
      (if m_header p < 128 then Inr (p\<lparr>m_data := Some (the (m_data p) @ rest)\<rparr>)
       else if length rest < 4 then Inl Out_of_range
       else Inr (p\<lparr>m_length := bytes2uint (take 4 rest) 0, m_data := Some (drop 4 rest)\<rparr>))
    \<and> (1 < k \<and> k < length f \<longrightarrow> packet_of_buffer (take k f) =
      (if k < 5 then Inl Out_of_range else Inr (p\<lparr>m_data := Some (take (k - 5) (the (m_data p)))\<rparr>)))
    \<and> daemon_packet_of_buffer (f @ rest) = packet_of_buffer (f @ rest)
    \<and> (0 < k \<longrightarrow> daemon_packet_of_buffer (take k f) = packet_of_buffer (take k f))"
proof -
  have f: "f \<noteq> []" using assms(2) by (auto simp: get_bytes_def split: if_splits option.splits)
  have same: "daemon_packet_of_buffer (f @ rest) = packet_of_buffer (f @ rest)"
    "0 < k \<longrightarrow> daemon_packet_of_buffer (take k f) = packet_of_buffer (take k f)"
    using f by (auto intro: daemon_packet_same)
  show ?thesis
  proof (cases "m_header p < 128")
    case True
    then obtain d where d: "m_data p = Some d" "f = m_header p # uint2bytes (m_length p) @ d"
      using assms by (auto simp: packet_wf_def get_bytes_def)
    have "packet_of_buffer (take k f) = (if k < 5 then Inl Out_of_range
        else Inr (p\<lparr>m_data := Some (take (k - 5) (the (m_data p)))\<rparr>))" if "1 < k" "k < length f"
    proof -
      have h: "take k f \<noteq> []" "hd (take k f) = m_header p" using f that d(2) by (cases k; simp)+
      have "take 4 (drop 1 (take k f)) = uint2bytes (m_length p)" "drop 5 (take k f) = take (k - 5) d" if "5 \<le> k"
        using d(2) that by (simp_all add: take_Cons' drop_Cons' take_drop)
      then show ?thesis
        using that h d(1) by (simp add: packet_of_buffer_def read_frame_ok read_frame_short Let_def)
    qed
    moreover have "packet_of_buffer (f @ rest) = Inr (p\<lparr>m_data := Some (d @ rest)\<rparr>)"
      by (simp add: d(2) packet_of_buffer_def read_frame_ok)
    ultimately show ?thesis using same True d(1) by simp
  next
    case False
    then have "f = [m_header p]" using assms(1,2) by (simp add: get_bytes_def)
    then show ?thesis using same False assms(3)
      by (simp add: packet_of_buffer_def read_frame_ok read_frame_short Let_def)
  qed
qed

lemma receipt_is_one_packet_witness:
  "packet_of_buffer [GET_BLOCK, GET_BLOCK] = Inl Out_of_range"
  using receipt_is_one_packet [of "get_packet GET_BLOCK" "[GET_BLOCK]" "[GET_BLOCK]"]
  by (simp add: packet_wf_def get_bytes_get_packet) (simp add: get_packet_def packet_default_def)

text \<open>
  The new block notification loses its content. The packet carries the height as four data bytes,
  but its header is not a data header, so only the header byte is sent.
\<close>

theorem new_block_sends_no_height:
  "m_data (get_height h) = Some (uint2bytes h) \<and> get_bytes (get_height h) = Inr [NEW_BLOCK]"
  using get_bytes_get_height [of h] by (simp add: get_height_def packet_default_def)

section \<open>Blocks\<close>

text \<open>
  A block frame of the wallet is taken apart into the block it was built from, except for the high
  half of the nonce; every frame shorter than 216 bytes is a fault.
\<close>

theorem block_frame_roundtrip:
  "(cblock_wf b \<longrightarrow> deserialize_block shl32 (block_frame b) = Inr (b\<lparr>nNonce := read_back64 shl32 (nNonce b)\<rparr>))
   \<and> (length data < 216 \<longrightarrow> \<not> is_ok_res (deserialize_block shl32 data))"
  using deserialize_block_frame deserialize_block_short by blast

lemma block_frame_roundtrip_witness:
  "deserialize_block id (block_frame cblock_default) = Inr cblock_default \<and> \<not> is_ok_res (deserialize_block id [1, 2])"
proof -
  have "read_back64 id 0 = 0" by (simp add: read_back64_small)
  then show ?thesis
    using block_frame_roundtrip [of cblock_default id "[1, 2]"] cblock_wf_default
    by (simp add: cblock_default_def)
qed

text \<open>
  The hashed memory of a block header determines every member except the nonce, so that two work
  units that the pool could mix up have the same proof hash only if the hash function collides.
\<close>

theorem block_hash_binds_header:
  assumes "cblock_wf a" and "cblock_wf b" and "GetHash SK1024 a = GetHash SK1024 b"
  shows "a = b\<lparr>nNonce := nNonce a\<rparr> \<or> (header_memory a \<noteq> header_memory b \<and> SK1024 (header_memory a) = SK1024 (header_memory b))"
  using header_memory_eq_iff [OF assms(1,2)] assms(3) by (auto simp: GetHash_def)

lemma block_hash_binds_header_witness:
  "cblock_default\<lparr>nNonce := 5\<rparr> = cblock_default\<lparr>nNonce := 5\<rparr>
   \<or> header_memory (cblock_default\<lparr>nNonce := 5\<rparr>) \<noteq> header_memory cblock_default
     \<and> bu_assign64 32 (of_nat (length (header_memory (cblock_default\<lparr>nNonce := 5\<rparr>))))
       = bu_assign64 32 (of_nat (length (header_memory cblock_default)))"
  using block_hash_binds_header [of "cblock_default\<lparr>nNonce := 5\<rparr>" cblock_default
      "\<lambda>m. bu_assign64 32 (of_nat (length m))"] cblock_wf_default
  by (simp add: cblock_wf_def GetHash_def header_memory_def)

section \<open>64 bit values\<close>

text \<open>
  A 64 bit value that crosses the wire or a file loses its high half: what is read is below
  \<open>2 ^ 32\<close> whatever was written, and a value below \<open>2 ^ 32\<close> is read back exactly when the shift by
  32 leaves zero alone.
\<close>

theorem wire_u64_truncates:
  "unat (bytes2uint64 shl32 (uint2bytes64 u) 0) < 2 ^ 32
   \<and> (unat u < 2 ^ 32 \<and> shl32 0 = 0 \<longrightarrow> bytes2uint64 shl32 (uint2bytes64 u) 0 = u)"
proof -
  have "bytes2uint64 shl32 (uint2bytes64 u) 0 = read_back64 shl32 u"
    by (rule bytes2uint64_read_back [of _ "[]" _ "[]"]) simp_all
  then show ?thesis by (simp only: read_back64_bound) (simp add: read_back64_small)
qed

lemma wire_u64_truncates_witness: "bytes2uint64 id (uint2bytes64 77) 0 = 77"
  using wire_u64_truncates [of id 77] by simp

section \<open>The coinbase transaction\<close>

text \<open>
  The coinbase transaction sent to the wallet and kept in a block record is read back with its
  outputs, its fee and its maximum, as long as it has at most 255 outputs with addresses of at most
  255 bytes. The current value of what is read is the fee and the outputs together.
\<close>

theorem coinbase_roundtrip:
  assumes "om_inv (mapOutputs c)" and "addr_ok (mapOutputs c)"
  shows "Deserialize shl32 (Serialize c) nValue Coinbase_default = Inr
    \<lparr>mapOutputs = map (\<lambda>(a, v). (a, read_back64 shl32 v)) (mapOutputs c),
     nCurrentValue = read_back64 shl32 (nPoolFee c) + (\<Sum>(a, v)\<leftarrow>mapOutputs c. read_back64 shl32 v),
     nMaxValue = nValue, nPoolFee = read_back64 shl32 (nPoolFee c)\<rparr>"
  using Deserialize_Serialize [OF assms, of shl32 nValue]
  by (simp add: read_back_coinbase_def read_back_outputs_def comp_def split_def)

definition example_outputs :: coinbase where
  "example_outputs =
     \<lparr>mapOutputs = [(''2Sa'', 500), (''2Sb'', 20)], nCurrentValue = 520, nMaxValue = 600, nPoolFee = 6\<rparr>"

lemma coinbase_roundtrip_witness:
  "Deserialize id (Serialize example_outputs) 600 Coinbase_default
     = Inr (example_outputs\<lparr>nCurrentValue := 526\<rparr>)"
proof -
  have r: "read_back64 id 500 = 500" "read_back64 id 20 = 20" "read_back64 id 6 = 6"
    by (simp_all add: read_back64_small)
  have "om_inv (mapOutputs example_outputs)" "addr_ok (mapOutputs example_outputs)"
    by (simp_all add: example_outputs_def om_inv_def addr_ok_def)
  from coinbase_roundtrip [OF this, of id 600] show ?thesis by (simp add: example_outputs_def r)
qed

text \<open>The credits of a block record are read back with the addresses they are written under.\<close>

theorem credits_roundtrip:
  assumes "om_inv (mapCredits c)" and "addr_ok (mapCredits c)"
    and "list_all (\<lambda>(_, v). unat v < 2 ^ 32) (mapCredits c)" and "shl32 0 = 0"
  shows "Credits_Deserialize shl32 (Credits_Serialize c) Credits_default = Inr c"
  using Credits_Deserialize_Serialize [OF assms(1,2), of shl32] read_back_outputs_id [of "mapCredits c" shl32] assms(3,4) by simp

lemma credits_roundtrip_witness:
  "Credits_Deserialize id (Credits_Serialize \<lparr>mapCredits = mapOutputs example_outputs\<rparr>) Credits_default
     = Inr \<lparr>mapCredits = mapOutputs example_outputs\<rparr>"
  by (rule credits_roundtrip) (simp_all add: example_outputs_def om_inv_def addr_ok_def)

end
