(* ===== verification/LLP_Ddos.thy ===== *)
theory LLP_Ddos
  imports Prelude
begin

text \<open>
  \<open>Timer\<close> of \<open>src/src/LLP/timer.hpp\<close> and \<open>DDOS_Score\<close>, \<open>DDOS_Filter\<close> of \<open>src/src/LLP/ddos.hpp\<close>.
  The clock is an argument: \<open>now\<close> is the value of \<open>high_resolution_clock::now()\<close> in nanoseconds.
  A default constructed \<open>time_point\<close> is the epoch of the clock.
\<close>

section \<open>Timer\<close>

record timer =
  start_time :: int
  end_time :: int
  fStopped :: bool

definition Timer_new :: timer where
  "Timer_new = \<lparr>start_time = 0, end_time = 0, fStopped = False\<rparr>"

definition Timer_Start :: "int \<Rightarrow> timer \<Rightarrow> timer" where
  "Timer_Start now t = t\<lparr>start_time := now, fStopped := False\<rparr>"

definition Timer_Reset :: "int \<Rightarrow> timer \<Rightarrow> timer" where
  "Timer_Reset now t = Timer_Start now t"

definition Timer_Stop :: "int \<Rightarrow> timer \<Rightarrow> timer" where
  "Timer_Stop now t = t\<lparr>end_time := now, fStopped := True\<rparr>"

text \<open>\<open>duration_cast\<close> to a unit of \<open>unit\<close> nanoseconds, then the conversion of the count to \<open>uint64_t\<close>.\<close>

definition duration_count :: "int \<Rightarrow> int \<Rightarrow> u64" where
  "duration_count unit d = word_of_int (quot_trunc d unit)"

definition Elapsed :: "int \<Rightarrow> timer \<Rightarrow> u64" where
  "Elapsed now t =
     (if fStopped t then duration_count (10 ^ 9) (end_time t - start_time t)
      else duration_count (10 ^ 9) (now - start_time t))"

definition ElapsedMilliseconds :: "int \<Rightarrow> timer \<Rightarrow> u64" where
  "ElapsedMilliseconds now t =
     (if fStopped t then duration_count (10 ^ 6) (end_time t - start_time t)
      else duration_count (10 ^ 6) (now - start_time t))"

definition ElapsedMicroseconds :: "int \<Rightarrow> timer \<Rightarrow> u64" where
  "ElapsedMicroseconds now t =
     (if fStopped t then duration_count (10 ^ 3) (end_time t - start_time t)
      else duration_count (10 ^ 3) (now - start_time t))"

section \<open>Scores\<close>

record ddos_score =
  SCORE :: "(bool \<times> int) list"
  score_TIMER :: timer
  nIterator :: nat

definition Score_Reset :: "int \<Rightarrow> ddos_score \<Rightarrow> ddos_score" where
  "Score_Reset now s =
     s\<lparr>SCORE := map (\<lambda>(_, n). (False, n)) (SCORE s), score_TIMER := Timer_Reset now (score_TIMER s),
       nIterator := 0\<rparr>"

definition DDOS_Score_new :: "int \<Rightarrow> int \<Rightarrow> ddos_score" where
  "DDOS_Score_new nTimespan now =
     \<lparr>SCORE = replicate (nat nTimespan) (True, 0), score_TIMER = Timer_Start now Timer_new, nIterator = 0\<rparr>"

definition Flush :: "int \<Rightarrow> ddos_score \<Rightarrow> ddos_score" where
  "Flush now s =
     (let s' = Score_Reset now s in s'\<lparr>SCORE := map (\<lambda>(b, _). (b, 0)) (SCORE s')\<rparr>)"

definition Score :: "ddos_score \<Rightarrow> int res" where
  "Score s =
     rbind (rfold (\<lambda>(_, n) acc. int32 (acc + n)) (SCORE s) 0) (\<lambda>nMovingAverage.
       if length (SCORE s) = 0 then Inl Div_by_zero
       else Inr (quot_trunc nMovingAverage (int (length (SCORE s)))))"

text \<open>The loop of \<open>operator+=\<close>: the slots from \<open>i\<close> on, \<open>n\<close> of them.\<close>

fun flag_seconds :: "nat \<Rightarrow> nat \<Rightarrow> (bool \<times> int) list \<Rightarrow> (bool \<times> int) list res" where
  "flag_seconds i 0 v = Inr v"
| "flag_seconds i (Suc n) v =
     rbind (vec_at v i) (\<lambda>e.
       flag_seconds (Suc i) n (if \<not> fst e then v[i := (True, 0)] else v))"

definition Score_add :: "int \<Rightarrow> int \<Rightarrow> ddos_score \<Rightarrow> ddos_score res" where
  "Score_add now nScore s =
     (let nTime = unat (Elapsed now (score_TIMER s));
          size = length (SCORE s)
      in rbind (if nTime \<ge> size
                then (if size = 0 then Inl Div_by_zero else Inr (nTime mod size, Score_Reset now s))
                else Inr (nTime, s)) (\<lambda>(nTime, s).
         rbind (flag_seconds (nIterator s) (Suc nTime - nIterator s) (SCORE s)) (\<lambda>v.
         rbind (vec_at v nTime) (\<lambda>e.
         rbind (int32 (snd e + nScore)) (\<lambda>x.
           Inr (s\<lparr>SCORE := v[nTime := (fst e, x)], nIterator := nTime\<rparr>))))))"

section \<open>Filters\<close>

record ddos_filter =
  filter_TIMER :: timer
  BANTIME :: u32
  TOTALBANS :: u32
  rSCORE :: ddos_score
  cSCORE :: ddos_score
  IPADDRESS :: string

definition DDOS_Filter_new :: "u32 \<Rightarrow> string \<Rightarrow> int \<Rightarrow> ddos_filter" where
  "DDOS_Filter_new nTimespan strIPAddress now =
     \<lparr>filter_TIMER = Timer_new, BANTIME = 0, TOTALBANS = 0,
      rSCORE = DDOS_Score_new (sint nTimespan) now, cSCORE = DDOS_Score_new (sint nTimespan) now,
      IPADDRESS = strIPAddress\<rparr>"

definition Banned :: "int \<Rightarrow> ddos_filter \<Rightarrow> bool" where
  "Banned now f \<longleftrightarrow> Elapsed now (filter_TIMER f) < ucast (BANTIME f)"

text \<open>\<open>Ban\<close>, without its log line. The products are 32 bit unsigned.\<close>

definition Ban :: "int \<Rightarrow> ddos_filter \<Rightarrow> ddos_filter res" where
  "Ban now f =
     (if Banned now f then Inr f
      else
        let f1 = f\<lparr>filter_TIMER := Timer_Start now (filter_TIMER f), TOTALBANS := TOTALBANS f + 1\<rparr>
        in rbind (Score (rSCORE f1)) (\<lambda>r.
           rbind (int32 (r + 1)) (\<lambda>r1.
           rbind (Score (cSCORE f1)) (\<lambda>c.
           rbind (int32 (c + 1)) (\<lambda>c1.
             Inr (f1\<lparr>BANTIME := max (TOTALBANS f1 * word_of_int r1 * word_of_int c1) (TOTALBANS f1 * 1200),
                     cSCORE := Flush now (cSCORE f1), rSCORE := Flush now (rSCORE f1)\<rparr>))))))"

section \<open>The moving window\<close>

text \<open>
  The invariant of a score: there is a slot for every second of the window, the iterator is inside
  it, and every second up to the iterator is flagged as belonging to the current pass (after a reset
  the iterator is 0 and no second is flagged yet).
\<close>

definition score_inv :: "ddos_score \<Rightarrow> bool" where
  "score_inv s \<longleftrightarrow>
     nIterator s < length (SCORE s) \<and> (\<forall>i \<le> nIterator s. fst (SCORE s ! i) \<or> nIterator s = 0)"

definition score_sum :: "ddos_score \<Rightarrow> int" where
  "score_sum s = sum_list (map snd (SCORE s))"

definition score_nonneg :: "ddos_score \<Rightarrow> bool" where
  "score_nonneg s \<longleftrightarrow> list_all (\<lambda>e. 0 \<le> snd e) (SCORE s)"

lemma score_inv_new: "0 < n \<Longrightarrow> score_inv (DDOS_Score_new n now)"
  by (simp add: score_inv_def DDOS_Score_new_def)

lemma Score_Reset_simps [simp]:
  "length (SCORE (Score_Reset now s)) = length (SCORE s)"
  "nIterator (Score_Reset now s) = 0"
  "map snd (SCORE (Score_Reset now s)) = map snd (SCORE s)"
  by (auto simp: Score_Reset_def split_def)

lemma score_inv_Flush: "score_inv s \<Longrightarrow> score_inv (Flush now s)"
  by (auto simp: score_inv_def Flush_def Let_def split_def)

lemma flag_seconds_ok:
  "i + n \<le> length v \<Longrightarrow>
   \<exists>w. flag_seconds i n v = Inr w \<and> length w = length v
     \<and> (\<forall>j < length v. w ! j = (if i \<le> j \<and> j < i + n \<and> \<not> fst (v ! j) then (True, 0) else v ! j))"
proof (induction n arbitrary: i v)
  case 0
  show ?case by (auto intro: exI [of _ v])
next
  case (Suc n)
  let ?v = "if \<not> fst (v ! i) then v[i := (True, 0)] else v"
  have "Suc i + n \<le> length ?v" using Suc.prems by simp
  from Suc.IH [OF this] obtain w where w: "flag_seconds (Suc i) n ?v = Inr w" "length w = length v"
    "\<forall>j < length v. w ! j = (if Suc i \<le> j \<and> j < Suc i + n \<and> \<not> fst (?v ! j) then (True, 0) else ?v ! j)"
    by auto
  have "w ! j = (if i \<le> j \<and> j < i + Suc n \<and> \<not> fst (v ! j) then (True, 0) else v ! j)"
    if "j < length v" for j
    using w(3) that by (cases "j = i") (auto simp: nth_list_update)
  with w(1,2) Suc.prems show ?case by (auto simp: vec_at_ok)
qed

text \<open>The window in use for an addition at \<open>now\<close>: the second, and the score after a lap is started.\<close>

definition score_slot :: "int \<Rightarrow> ddos_score \<Rightarrow> nat \<times> ddos_score" where
  "score_slot now s =
     (let t = unat (Elapsed now (score_TIMER s))
      in if length (SCORE s) \<le> t then (t mod length (SCORE s), Score_Reset now s) else (t, s))"

lemma score_slot_inv:
  assumes "score_inv s" and "score_slot now s = (t, s')"
  shows "t < length (SCORE s)" and "score_inv s'" and "length (SCORE s') = length (SCORE s)"
    and "map snd (SCORE s') = map snd (SCORE s)"
proof -
  have "0 < length (SCORE s)" using assms(1) by (auto simp: score_inv_def)
  then show "t < length (SCORE s)"
    using assms(2) by (auto simp: score_slot_def Let_def split: if_splits)
  have "score_inv (Score_Reset now s)"
    using \<open>0 < length (SCORE s)\<close> by (simp add: score_inv_def)
  then show "score_inv s'"
    using assms by (auto simp: score_slot_def Let_def split: if_splits)
  show "length (SCORE s') = length (SCORE s)" "map snd (SCORE s') = map snd (SCORE s)"
    using assms(2) by (auto simp: score_slot_def Let_def split: if_splits)
qed

lemma Score_add_eq:
  "0 < length (SCORE s) \<Longrightarrow> Score_add now n s =
     (case score_slot now s of (t, s') \<Rightarrow>
        rbind (flag_seconds (nIterator s') (Suc t - nIterator s') (SCORE s')) (\<lambda>v.
        rbind (vec_at v t) (\<lambda>e.
        rbind (int32 (snd e + n)) (\<lambda>x.
          Inr (s'\<lparr>SCORE := v[t := (fst e, x)], nIterator := t\<rparr>)))))"
  by (simp add: Score_add_def score_slot_def Let_def)

text \<open>
  Adding a score reaches only slots of the window, counts in the slot of the current second, which
  holds either the count of this pass or zero, and keeps the invariant; the only fault is an
  overflow of that slot.
\<close>

lemma Score_add_ok:
  assumes inv: "score_inv s" and slot: "score_slot now s = (t, s')"
    and fits: "- (2 ^ 31) \<le> (if fst (SCORE s' ! t) then snd (SCORE s' ! t) else 0) + n"
      "(if fst (SCORE s' ! t) then snd (SCORE s' ! t) else 0) + n < 2 ^ 31"
  shows "\<exists>u. Score_add now n s = Inr u \<and> score_inv u \<and> length (SCORE u) = length (SCORE s)
     \<and> nIterator u = t \<and> fst (SCORE u ! t)
     \<and> snd (SCORE u ! t) = (if fst (SCORE s' ! t) then snd (SCORE s' ! t) else 0) + n"
proof -
  note s' = score_slot_inv [OF inv slot]
  have it: "nIterator s' < length (SCORE s')" using s'(2) by (simp add: score_inv_def)
  have flagged: "fst (SCORE s' ! j)" if "j \<le> nIterator s'" "nIterator s' \<noteq> 0" for j
    using s'(2) that by (auto simp: score_inv_def)
  let ?i = "nIterator s'"
  have "?i + (Suc t - ?i) \<le> length (SCORE s')" using it s'(1,3) by linarith
  from flag_seconds_ok [OF this] obtain v where v: "flag_seconds ?i (Suc t - ?i) (SCORE s') = Inr v"
    "length v = length (SCORE s')"
    "\<forall>j < length (SCORE s'). v ! j = (if ?i \<le> j \<and> j < ?i + (Suc t - ?i) \<and> \<not> fst (SCORE s' ! j) then (True, 0) else SCORE s' ! j)"
    by blast
  have all: "fst (v ! j)" if "j \<le> t" for j
  proof (cases "?i \<le> j")
    case True
    with that v(3) s'(1,3) show ?thesis by auto
  next
    case False
    with v(3) that s'(1,3) flagged [of j] show ?thesis by auto
  qed
  have vt: "v ! t = (True, if fst (SCORE s' ! t) then snd (SCORE s' ! t) else 0)"
  proof (cases "?i \<le> t")
    case True
    with v(3) s'(1,3) show ?thesis by (auto simp: prod_eq_iff)
  next
    case False
    with v(3) s'(1,3) flagged [of t] show ?thesis by (auto simp: prod_eq_iff)
  qed
  have fit: "int32 (snd (v ! t) + n) = Inr (snd (v ! t) + n)"
    using fits vt flagged [of t] by (intro int32_ok) (auto split: if_splits)
  let ?u = "s'\<lparr>SCORE := v[t := (fst (v ! t), snd (v ! t) + n)], nIterator := t\<rparr>"
  have tl: "t < length v" using s'(1,3) v(2) by simp
  have "Score_add now n s = Inr ?u"
    using s'(1) slot v(1) tl fit by (subst Score_add_eq) (auto simp: vec_at_ok)
  moreover have "score_inv ?u"
    using all tl by (auto simp: score_inv_def nth_list_update)
  ultimately show ?thesis using vt tl v(2) s'(3) by (intro exI [of _ ?u]) simp
qed

section \<open>Bans\<close>

lemma Elapsed_restart:
  assumes "now \<le> t" and "t - now < 2 ^ 63"
  shows "unat (Elapsed t (Timer_Start now tm)) = nat ((t - now) div 10 ^ 9)"
proof -
  have "(t - now) div 10 ^ 9 \<le> t - now" using assms(1) zdiv_mono2 [of "t - now" 1 "10 ^ 9"] by simp
  then have "(t - now) div 10 ^ 9 < 2 ^ 64" using assms(2) by simp
  moreover have "0 \<le> (t - now) div 10 ^ 9" using assms(1) by (simp add: pos_imp_zdiv_nonneg_iff)
  ultimately show ?thesis
    using assms(1)
    by (simp add: Elapsed_def Timer_Start_def duration_count_def quot_trunc_nonneg unsigned_of_int
        take_bit_int_eq_self)
qed

text \<open>A ban never shortens to less than 1200 seconds per ban so far.\<close>

lemma Ban_Inr:
  assumes "Ban now f = Inr g" and "\<not> Banned now f"
  shows "TOTALBANS g = TOTALBANS f + 1" and "BANTIME g \<ge> (TOTALBANS f + 1) * 1200"
    and "filter_TIMER g = Timer_Start now (filter_TIMER f)"
    and "rSCORE g = Flush now (rSCORE f)" and "cSCORE g = Flush now (cSCORE f)"
    and "IPADDRESS g = IPADDRESS f"
  using assms by (auto simp: Ban_def Let_def rbind_eq_Inr)

lemma Ban_again: "Banned now f \<Longrightarrow> Ban now f = Inr f"
  by (simp add: Ban_def)

lemma Ban_Banned:
  assumes "Ban now f = Inr g" and "\<not> Banned now f"
    and "now \<le> t" and "(t - now) div 10 ^ 9 < 1200 * (int (unat (TOTALBANS f)) + 1)"
    and "1200 * (int (unat (TOTALBANS f)) + 1) < 2 ^ 32"
  shows "Banned t g"
proof -
  let ?n = "unat (TOTALBANS f) + 1"
  have "int (?n * 1200) < int (2 ^ 32)" using assms(5) by simp
  then have n: "?n * 1200 < 2 ^ 32" by (simp only: of_nat_less_iff)
  then have "unat (TOTALBANS f + 1) = ?n"
    by (subst unat_add_lem [THEN iffD1]) simp_all
  then have "unat ((TOTALBANS f + 1) * 1200) = ?n * 1200"
    using n by (subst unat_mult_lem [THEN iffD1]) simp_all
  then have b: "?n * 1200 \<le> unat (BANTIME g)"
    using Ban_Inr(2) [OF assms(1,2)] by (simp add: word_le_nat_alt)
  have "t - now < 2 ^ 63" using assms(4,5) by simp
  then have "unat (Elapsed t (filter_TIMER g)) = nat ((t - now) div 10 ^ 9)"
    using Ban_Inr(3) [OF assms(1,2)] Elapsed_restart [OF assms(3)] by simp
  moreover have "nat ((t - now) div 10 ^ 9) < ?n * 1200"
    using assms(3,4) by (subst nat_less_iff) (simp_all add: pos_imp_zdiv_nonneg_iff algebra_simps)
  ultimately show ?thesis using b by (simp add: Banned_def word_less_nat_alt unat_ucast_up)
qed

end
