(* ===== verification/Guard_Properties.thy ===== *)
theory Guard_Properties
  imports LLP_Ddos Banned_Users Config Coinbase
begin

text \<open>
  What the limits of the server promise: the score window of the flood filter and its bans, the ban
  lists and their files, the mandatory settings, and the cap of the coinbase transaction.
\<close>

section \<open>The flood filter\<close>

text \<open>
  C38: adding to a score never leaves its window of seconds. It counts in the slot of the current second,
  on top of what was counted there in this pass of the window, and keeps the invariant of the window;
  this holds at every reading of the clock, also after a gap longer than the window.
\<close>

theorem score_add_in_window:
  assumes "score_inv s" and "score_slot now s = (t, s')"
    and "\<bar>(if fst (SCORE s' ! t) then snd (SCORE s' ! t) else 0) + n\<bar> < 2 ^ 31"
  shows "\<exists>u. Score_add now n s = Inr u \<and> score_inv u \<and> length (SCORE u) = length (SCORE s)
     \<and> t < length (SCORE s) \<and> nIterator u = t
     \<and> SCORE u ! t = (True, (if fst (SCORE s' ! t) then snd (SCORE s' ! t) else 0) + n)"
proof -
  have fits: "- (2 ^ 31) \<le> (if fst (SCORE s' ! t) then snd (SCORE s' ! t) else 0) + n"
    "(if fst (SCORE s' ! t) then snd (SCORE s' ! t) else 0) + n < 2 ^ 31"
    using assms(3) by linarith+
  from Score_add_ok [OF assms(1,2) this] score_slot_inv(1) [OF assms(1,2)] show ?thesis
    by (auto simp: prod_eq_iff)
qed

lemma score_add_in_window_witness:
  "\<exists>u. Score_add (31 * 10 ^ 9) 10 (DDOS_Score_new 30 0) = Inr u \<and> SCORE u ! 1 = (True, 10)"
proof -
  have "score_slot (31 * 10 ^ 9) (DDOS_Score_new 30 0) = (1, Score_Reset (31 * 10 ^ 9) (DDOS_Score_new 30 0))"
    by (simp add: score_slot_def DDOS_Score_new_def Timer_Start_def Timer_new_def Elapsed_def duration_count_def
        quot_trunc_nonneg Let_def)
  from score_add_in_window [OF score_inv_new this, of 10] show ?thesis
    by (auto simp: Score_Reset_def DDOS_Score_new_def)
qed

text \<open>
  C39: a ban lasts at least twenty minutes for each ban so far, counting the new one, and a connection
  that is banned is not banned a second time: the ban in force is left as it is.
\<close>

theorem ban_lasts:
  assumes "Ban now f = Inr g" and "\<not> Banned now f" and "now \<le> t"
    and "(t - now) div 10 ^ 9 < 1200 * (int (unat (TOTALBANS f)) + 1)"
    and "1200 * (int (unat (TOTALBANS f)) + 1) < 2 ^ 32"
  shows "Banned t g \<and> Ban t g = Inr g \<and> TOTALBANS g = TOTALBANS f + 1"
  using Ban_Banned [OF assms] Ban_again Ban_Inr(1) [OF assms(1,2)] by blast

definition fresh_filter :: ddos_filter where
  "fresh_filter = DDOS_Filter_new 2 ''10.0.0.1'' 0"

lemma fresh_filter_ban:
  "\<exists>g. Ban (5 * 10 ^ 9) fresh_filter = Inr g \<and> \<not> Banned (5 * 10 ^ 9) fresh_filter \<and> TOTALBANS fresh_filter = 0"
  by (simp add: fresh_filter_def Ban_def Banned_def DDOS_Filter_new_def DDOS_Score_new_def Score_def numeral_2_eq_2
      int32_def quot_trunc_def Let_def)

lemma ban_lasts_witness:
  "\<exists>g. Ban (5 * 10 ^ 9) fresh_filter = Inr g \<and> Banned (1204 * 10 ^ 9) g \<and> Ban (1204 * 10 ^ 9) g = Inr g"
  using fresh_filter_ban ban_lasts [of "5 * 10 ^ 9" fresh_filter _ "1204 * 10 ^ 9"] by fastforce

section \<open>The ban lists\<close>

text \<open>
  A ban list that is saved is read back completely, for any order in which the set is iterated, if
  no entry contains a line break.
\<close>

theorem ban_list_file_roundtrip:
  assumes "iter_ok iter s" and "\<forall>l \<in> s. newline \<notin> set l" and "s \<noteq> {}"
  shows "persister_load (persister_save iter s old) {} = s"
  by (rule persister_load_save [OF assms])

lemma ban_list_file_roundtrip_witness:
  "persister_load (persister_save (\<lambda>s. [''10.0.0.1'', ''10.0.0.2'']) {''10.0.0.1'', ''10.0.0.2''} None) {}
     = {''10.0.0.1'', ''10.0.0.2''}"
proof (rule ban_list_file_roundtrip)
  show "iter_ok (\<lambda>s. [''10.0.0.1'', ''10.0.0.2'']) {''10.0.0.1'', ''10.0.0.2''}" by (simp add: iter_ok_def)
qed (simp_all add: newline_def)

text \<open>
  Starting the server forgets every ban. Whatever the files hold, the lists that the server loads at
  its start ban nobody, because the loader fills a copy of the list.
\<close>

theorem loaded_bans_are_lost:
  "\<not> is_account_banned (load_banned_users accounts_file ip_file Banned_users_new) a
   \<and> \<not> is_ip_address_banned (load_banned_users accounts_file ip_file Banned_users_new) a"
  by (simp add: load_banned_users_def Banned_users_new_def is_account_banned_def is_ip_address_banned_def Let_def)

section \<open>Settings\<close>

text \<open>
  C40: a configuration is accepted only if every mandatory setting is present, among them those that the
  README leaves out or calls optional. The settings are then the values of the file, and the five timers are
  those of the advanced section when the file has one, and keep their defaults when it has none.
\<close>

theorem config_mandatory_settings:
  assumes "read_config api (Some content) c = Inr (ok, c')" and "js_parse api content = Inr j"
  shows "ok \<and> (\<forall>k \<in> set mandatory_keys. \<exists>v. js_at api j k = Inr v) \<and> settings_of api j c'
    \<and> (if js_has api j ''advanced_config'' then map (advanced_timer api j) timer_keys = map Inr (config_timers c')
       else config_timers c' = config_timers c)"
proof -
  obtain c1 where c1: "rfold (\<lambda>f. f) (read_fields api j) c = Inr c1"
    and c2: "(if js_has api j ''advanced_config'' then rfold (\<lambda>f. f) (read_advanced api j) c1 else Inr c1) = Inr c'"
    and ok: "ok"
    using assms by (auto simp: read_config_def rbind_eq_Inr)
  show ?thesis
    using ok read_fields_mandatory [OF c1] read_fields_settings [OF c1] c2 read_advanced_settings [of api j c1 c']
    by (auto split: if_splits)
qed

definition example_json :: "nat json_api" where
  "example_json =
     \<lparr>js_parse = (\<lambda>s. Inr (length s)), js_at = (\<lambda>j k. Inr (j + length k)), js_has = (\<lambda>j k. False),
      js_index = (\<lambda>j k. Inr j), js_string = (\<lambda>j. Inr ''x''), js_bool = (\<lambda>j. Inr True), js_int = (\<lambda>j. Inr 3),
      js_u16 = (\<lambda>j. Inr 7), js_u32 = (\<lambda>j. Inr (of_nat j))\<rparr>"

lemma config_mandatory_settings_witness:
  "\<exists>c'. read_config example_json (Some ''abc'') Config_default = Inr (True, c') \<and> m_pool_fee c' = 11"
proof -
  have "\<exists>c'. read_config example_json (Some ''abc'') Config_default = Inr (True, c')"
    by (simp add: read_config_def example_json_def read_fields_def get_to_def)
  then obtain c' where c': "read_config example_json (Some ''abc'') Config_default = Inr (True, c')" ..
  have "js_parse example_json ''abc'' = Inr 3" by (simp add: example_json_def)
  from config_mandatory_settings [OF c' this] have "rbind (js_at example_json 3 ''pool_fee'') (js_u32 example_json) = Inr (m_pool_fee c')"
    by (simp add: settings_of_def)
  with c' show ?thesis by (simp add: example_json_def)
qed

section \<open>The cap of the coinbase\<close>

text \<open>
  C29: however many payouts are offered to a coinbase that was reset to a reward, what it accepts never
  exceeds the reward and equals the sum of its outputs, as long as an offer and the reward together do not
  exceed the 64 bit range.
\<close>

theorem coinbase_within_reward:
  assumes "\<forall>(a, v) \<in> set offers. unat v + unat reward < 2 ^ 64"
  shows "unat (nCurrentValue (fold (\<lambda>(a, v) c. snd (AddTransaction a v c)) offers (Reset reward c0))) \<le> unat reward
    \<and> om_sum unat (mapOutputs (fold (\<lambda>(a, v) c. snd (AddTransaction a v c)) offers (Reset reward c0)))
      = unat (nCurrentValue (fold (\<lambda>(a, v) c. snd (AddTransaction a v c)) offers (Reset reward c0)))"
proof -
  have max: "nMaxValue (Reset reward c0) = reward" by (simp add: Reset_def)
  then have all: "\<forall>(a, v) \<in> set offers. unat v + unat (nMaxValue (Reset reward c0)) < 2 ^ 64"
    using assms by simp
  note inv = coinbase_inv_reset [of reward c0]
  show ?thesis
    using cb.add_all_within_cap [OF inv all] cb.add_all [OF inv all] by (simp add: max coinbase_inv_def)
qed

lemma coinbase_within_reward_witness:
  "unat (nCurrentValue (fold (\<lambda>(a, v) c. snd (AddTransaction a v c)) [(''2Sa'', 60), (''2Sb'', 50), (''2Sc'', 40)]
     (Reset 100 Coinbase_default))) \<le> 100"
  using coinbase_within_reward [of "[(''2Sa'', 60), (''2Sb'', 50), (''2Sc'', 40)]" 100 Coinbase_default] by simp

text \<open>
  A payout that does not fit is refused without a trace of the refusal in the sign of the result. The
  transaction is left as it is, and the returned difference, which the caller tests for being negative, is
  the positive number \<open>2 ^ 64\<close> minus the excess.
\<close>

theorem refused_payout_is_positive:
  assumes "unat (nMaxValue c) < unat v + unat (nCurrentValue c)" and "unat v + unat (nCurrentValue c) < 2 ^ 64"
  shows "snd (AddTransaction a v c) = c
    \<and> unat (fst (AddTransaction a v c)) = 2 ^ 64 - (unat v + unat (nCurrentValue c) - unat (nMaxValue c))
    \<and> 0 < fst (AddTransaction a v c)"
proof -
  let ?x = "v + nCurrentValue c" and ?m = "nMaxValue c"
  have x: "unat ?x = unat v + unat (nCurrentValue c)"
    using assms(2) by (subst unat_add_lem [THEN iffD1]) simp_all
  then have less: "?m < ?x" using assms(1) by (simp add: word_less_nat_alt)
  have n: "\<not> unat ?x \<le> unat ?m" using less by (simp add: word_less_nat_alt)
  have "unat (?m - ?x) = 2 ^ size ?m + unat ?m - unat ?x"
    unfolding unat_sub_if_size word_le_nat_alt if_not_P [OF n] by (simp add: word_size)
  then have r: "unat (?m - ?x) = 2 ^ 64 - (unat v + unat (nCurrentValue c) - unat ?m)"
    unfolding x using assms by (simp add: word_size)
  have "0 < 2 ^ 64 - (unat v + unat (nCurrentValue c) - unat ?m)" using assms by linarith
  then have "0 < ?m - ?x" by (simp only: word_less_nat_alt r) simp
  with r show ?thesis using less by (simp add: AddTransaction_reject)
qed

lemma refused_payout_is_positive_witness:
  "snd (AddTransaction ''2Sa'' 60 (Reset 50 Coinbase_default)) = Reset 50 Coinbase_default
    \<and> unat (fst (AddTransaction ''2Sa'' 60 (Reset 50 Coinbase_default))) = 2 ^ 64 - 10"
  using refused_payout_is_positive [of "Reset 50 Coinbase_default" 60 "''2Sa''"] by (simp add: Reset_def)

end
