(* ===== verification/Prime.thy ===== *)
theory Prime
  imports Double Uint1024
begin

text \<open>
  The prime cluster test of \<open>src/src/prime.hpp\<close>: the sieve, the Fermat test, the difficulty of a
  cluster and its integer encoding. The multiple precision arithmetic is the GMP (MPIR on Windows)
  library, which is an argument of the definitions: the record \<open>gmp\<close> has a field for each
  function the file calls, and \<open>gmp_ok\<close> states their documented behaviour. An \<open>mpz_t\<close> is an integer.
\<close>

section \<open>The sieve\<close>

text \<open>
  The inner loop of \<open>eratos_thenes\<close>, with the 32 bit product of the source; \<open>None\<close> is a loop that
  does not end.
\<close>

partial_function (option) mark_composites :: "nat \<Rightarrow> nat \<Rightarrow> nat \<Rightarrow> bool list \<Rightarrow> bool list option" where
  "mark_composites sieve_size nIndex nComposite TABLE =
     (if nComposite * nIndex mod 2 ^ 32 < sieve_size
      then mark_composites sieve_size nIndex ((nComposite + 1) mod 2 ^ 32)
             (TABLE[nComposite * nIndex mod 2 ^ 32 := True])
      else Some TABLE)"

fun mark_all :: "nat \<Rightarrow> nat list \<Rightarrow> bool list \<Rightarrow> bool list option" where
  "mark_all sieve_size [] TABLE = Some TABLE"
| "mark_all sieve_size (i # is) TABLE =
     Option.bind (mark_composites sieve_size i 2 TABLE) (mark_all sieve_size is)"

definition eratos_thenes :: "u32 \<Rightarrow> u32 list option" where
  "eratos_thenes sieve_size =
     (let n = unat sieve_size in
      map_option (\<lambda>TABLE. map of_nat (filter (\<lambda>i. \<not> TABLE ! i) [2..<n]))
        (mark_all n [2..<n] (replicate n False)))"

section \<open>The arithmetic library\<close>

record gmp =
  mpz_divisible_ui_p :: "int \<Rightarrow> u64 \<Rightarrow> int"
  mpz_sub_ui :: "int \<Rightarrow> u64 \<Rightarrow> int"
  mpz_add_ui :: "int \<Rightarrow> u64 \<Rightarrow> int"
  mpz_powm :: "int \<Rightarrow> int \<Rightarrow> int \<Rightarrow> int res"
  mpz_cmp_ui :: "int \<Rightarrow> u64 \<Rightarrow> int"
  mpz_import :: "u32 list \<Rightarrow> int"
  mpz_export :: "int \<Rightarrow> u32 list"
  mpz_sub :: "int \<Rightarrow> int \<Rightarrow> int"
  mpz_mul_2exp :: "int \<Rightarrow> nat \<Rightarrow> int"
  mpz_tdiv_q :: "int \<Rightarrow> int \<Rightarrow> int res"
  mpz_get_ui :: "int \<Rightarrow> u64"

text \<open>
  The documented behaviour, for least significant word first in \<open>mpz_import\<close> and \<open>mpz_export\<close>
  (order \<open>-1\<close>). \<open>mpz_export\<close> writes no high zero words. Nothing is said of a zero modulus or
  divisor, where the library raises an exception.
\<close>

definition gmp_ok :: "gmp \<Rightarrow> bool" where
  "gmp_ok g \<longleftrightarrow>
     (\<forall>n d. d \<noteq> 0 \<longrightarrow> (mpz_divisible_ui_p g n d \<noteq> 0 \<longleftrightarrow> int (unat d) dvd n))
     \<and> (\<forall>n d. mpz_sub_ui g n d = n - int (unat d))
     \<and> (\<forall>n d. mpz_add_ui g n d = n + int (unat d))
     \<and> (\<forall>b e m. 0 \<le> e \<longrightarrow> 0 < m \<longrightarrow> mpz_powm g b e m = Inr (b ^ nat e mod m))
     \<and> (\<forall>n d. mpz_cmp_ui g n d = 0 \<longleftrightarrow> n = int (unat d))
     \<and> (\<forall>ws. mpz_import g ws = int (words_val ws))
     \<and> (\<forall>n. 0 \<le> n \<longrightarrow> int (words_val (mpz_export g n)) = n
            \<and> (\<forall>k. n < 2 ^ (32 * k) \<longrightarrow> length (mpz_export g n) \<le> k))
     \<and> (\<forall>a b. mpz_sub g a b = a - b)
     \<and> (\<forall>a k. mpz_mul_2exp g a k = a * 2 ^ k)
     \<and> (\<forall>a b. b \<noteq> 0 \<longrightarrow> mpz_tdiv_q g a b = Inr (quot_trunc a b))
     \<and> (\<forall>n. mpz_get_ui g n = word_of_int \<bar>n\<bar>)"

section \<open>Primality\<close>

text \<open>
  The globals of the file. \<open>prime_static\<close> is their value at program start: \<open>zTwo\<close> has static
  storage, so all its members are zero, which is how an \<open>mpz_t\<close> represents 0.
\<close>

record prime_globals =
  zTwo :: int
  PRIME_SIEVE :: "u32 list"

definition prime_static :: prime_globals where
  "prime_static = \<lparr>zTwo = 0, PRIME_SIEVE = []\<rparr>"

definition InitializePrimes :: "prime_globals option" where
  "InitializePrimes = map_option (\<lambda>s. \<lparr>zTwo = 2, PRIME_SIEVE = s\<rparr>) (eratos_thenes 80)"

definition gmp_divisor :: "gmp \<Rightarrow> prime_globals \<Rightarrow> int \<Rightarrow> bool" where
  "gmp_divisor g pg prime = list_all (\<lambda>p. mpz_divisible_ui_p g prime (ucast p) = 0) (PRIME_SIEVE pg)"

definition gmp_fermat :: "gmp \<Rightarrow> prime_globals \<Rightarrow> int \<Rightarrow> bool res" where
  "gmp_fermat g pg prime =
     (let zN = mpz_sub_ui g prime 1
      in rbind (mpz_powm g (zTwo pg) zN prime) (\<lambda>remainder. Inr (mpz_cmp_ui g remainder 1 = 0)))"

definition gmp_prime_test :: "gmp \<Rightarrow> prime_globals \<Rightarrow> int \<Rightarrow> bool res" where
  "gmp_prime_test g pg prime = (if \<not> gmp_divisor g pg prime then Inr False else gmp_fermat g pg prime)"

text \<open>\<open>mpz_export\<close> overwrites the low words of the zero initialised \<open>r\<close>.\<close>

definition fermat_test :: "gmp \<Rightarrow> base_uint \<Rightarrow> base_uint res" where
  "fermat_test g n =
     (let zN = mpz_import g (pn n); zE = mpz_sub_ui g zN 1
      in rbind (mpz_powm g 2 zE zN) (\<lambda>zR.
         let ws = mpz_export g zR
         in if length ws \<le> 32 then Inr (BaseUint (ws @ replicate (32 - length ws) 0)) else Inl Out_of_range))"

definition get_fractional_difficulty :: "gmp \<Rightarrow> base_uint \<Rightarrow> u32 res" where
  "get_fractional_difficulty g composite =
     rbind (fermat_test g composite) (\<lambda>f.
     let zB = mpz_import g (pn f); zC = mpz_import g (pn composite);
         zA = mpz_mul_2exp g (mpz_sub g zC zB) 24
     in rbind (mpz_tdiv_q g zA zC) (\<lambda>zN. Inr (ucast (mpz_get_ui g zN))))"

section \<open>Clusters\<close>

record cluster =
  zPrime :: int
  nClusterSize :: u32
  nPrimeGap :: u32
  nOffset :: u32

definition cluster_step :: "gmp \<Rightarrow> prime_globals \<Rightarrow> cluster \<Rightarrow> cluster res" where
  "cluster_step g pg c =
     (let c1 = c\<lparr>zPrime := mpz_add_ui g (zPrime c) 2, nOffset := nOffset c + 2\<rparr>
      in rbind (gmp_prime_test g pg (zPrime c1)) (\<lambda>ok.
         if \<not> ok then Inr (c1\<lparr>nPrimeGap := nPrimeGap c1 + 2\<rparr>)
         else Inr (c1\<lparr>nClusterSize := nClusterSize c1 + 1, nPrimeGap := 2\<rparr>)))"

partial_function (option) cluster_loop :: "gmp \<Rightarrow> prime_globals \<Rightarrow> cluster \<Rightarrow> cluster res option" where
  "cluster_loop g pg c =
     (if nPrimeGap c \<le> 12
      then (case cluster_step g pg c of Inl e \<Rightarrow> Some (Inl e) | Inr c' \<Rightarrow> cluster_loop g pg c')
      else Some (Inr c))"

text \<open>The decimal part of the difficulty: one million over the fractional difficulty, if at most 1.\<close>

definition fractional_remainder :: "u32 \<Rightarrow> double" where
  "fractional_remainder d =
     (let dFractionalRemainder = d_div (Fin 1000000) (d_of_u32 d)
      in if d_less (Fin 1) dFractionalRemainder \<or> d_less dFractionalRemainder (Fin 0) then Fin 0
         else dFractionalRemainder)"

definition gmp_verification :: "gmp \<Rightarrow> prime_globals \<Rightarrow> base_uint \<Rightarrow> double res option" where
  "gmp_verification g pg prime =
     (let zP = mpz_import g (pn prime)
      in case gmp_prime_test g pg zP of
           Inl e \<Rightarrow> Some (Inl e)
         | Inr False \<Rightarrow> Some (Inr (Fin 0))
         | Inr True \<Rightarrow>
             (case cluster_loop g pg \<lparr>zPrime = zP, nClusterSize = 1, nPrimeGap = 2, nOffset = 0\<rparr> of
                None \<Rightarrow> None
              | Some (Inl e) \<Rightarrow> Some (Inl e)
              | Some (Inr c) \<Rightarrow>
                  Some (rbind (get_fractional_difficulty g
                                 (bu_add64 (bu_add64 prime (ucast (nOffset c))) 2)) (\<lambda>d.
                    Inr (d_add (d_of_u32 (nClusterSize c)) (fractional_remainder d))))))"

text \<open>\<open>bits *= diff\<close> computes in \<open>double\<close> and converts back.\<close>

definition set_bits_diff :: "double \<Rightarrow> u32 res" where
  "set_bits_diff diff = d_to_word (d_mul (Fin 10000000) diff)"

definition get_difficulty :: "u32 \<Rightarrow> double" where
  "get_difficulty bits = d_div (d_of_u32 bits) (Fin 10000000)"

section \<open>The sieve is the sieve of Eratosthenes\<close>

definition is_prime :: "nat \<Rightarrow> bool" where
  "is_prime n \<longleftrightarrow> 2 \<le> n \<and> list_all (\<lambda>d. \<not> d dvd n) [2..<n]"

lemma mark_composites_ok:
  assumes "sieve_size \<le> 2 ^ 31" and "0 < i" and "i < sieve_size"
  shows "c * i < 2 * sieve_size \<Longrightarrow> length tab = sieve_size \<Longrightarrow>
    \<exists>t. mark_composites sieve_size i c tab = Some t \<and> length t = sieve_size
      \<and> (\<forall>j < sieve_size. t ! j \<longleftrightarrow> tab ! j \<or> (\<exists>d \<ge> c. j = d * i))"
proof (induction "sieve_size - c * i" arbitrary: c tab rule: less_induct)
  case less
  have "c * i < 2 ^ 32" using less.prems(1) assms(1) by simp
  then have m: "c * i mod 2 ^ 32 = c * i" by simp
  show ?case
  proof (cases "c * i < sieve_size")
    case False
    then have "\<not> (\<exists>d \<ge> c. j = d * i)" if "j < sieve_size" for j
      using that by (metis le_trans mult_le_mono1 not_less)
    moreover have "mark_composites sieve_size i c tab = Some tab"
      using False by (subst mark_composites.simps) (simp only: m if_False)
    ultimately show ?thesis using less.prems(2) by auto
  next
    case True
    let ?t = "tab[c * i := True]"
    have "c \<le> c * i" using assms(2) by simp
    then have "c < sieve_size" using True by (rule le_less_trans)
    then have "c + 1 < 2 ^ 32" using assms(1) by simp
    then have c1: "(c + 1) mod 2 ^ 32 = c + 1" by simp
    have dec: "sieve_size - (c + 1) * i < sieve_size - c * i" using True assms(2) by simp
    have b: "(c + 1) * i < 2 * sieve_size" using True assms(3) by simp
    have "length ?t = sieve_size" using less.prems(2) by simp
    from less.hyps [OF dec b this] obtain t where t:
      "mark_composites sieve_size i (c + 1) ?t = Some t" "length t = sieve_size"
      "\<forall>j < sieve_size. t ! j \<longleftrightarrow> ?t ! j \<or> (\<exists>d \<ge> c + 1. j = d * i)" by blast
    have "(\<exists>d \<ge> c. j = d * i) \<longleftrightarrow> j = c * i \<or> (\<exists>d \<ge> c + 1. j = d * i)" for j
      by (metis Suc_eq_plus1 not_less_eq_eq le_refl le_SucI le_antisym)
    then have "t ! j \<longleftrightarrow> tab ! j \<or> (\<exists>d \<ge> c. j = d * i)" if "j < sieve_size" for j
      using t(3) that less.prems(2) True by (cases "j = c * i") (auto simp only: nth_list_update_eq nth_list_update_neq)
    moreover have "mark_composites sieve_size i c tab = Some t"
      using True t(1) by (subst mark_composites.simps) (simp only: m c1 if_True)
    ultimately show ?thesis using t(2) by blast
  qed
qed

lemma mark_all_ok:
  assumes "sieve_size \<le> 2 ^ 31"
  shows "\<forall>i \<in> set is. 0 < i \<and> i < sieve_size \<Longrightarrow> length tab = sieve_size \<Longrightarrow>
    \<exists>t. mark_all sieve_size is tab = Some t \<and> length t = sieve_size
      \<and> (\<forall>j < sieve_size. t ! j \<longleftrightarrow> tab ! j \<or> (\<exists>i \<in> set is. \<exists>d \<ge> 2. j = d * i))"
proof (induction "is" arbitrary: tab)
  case Nil
  then show ?case by simp
next
  case (Cons i "is")
  have i: "0 < i" "i < sieve_size" "2 * i < 2 * sieve_size" using Cons.prems(1) by simp_all
  from mark_composites_ok [OF assms i(1,2,3) Cons.prems(2)] obtain t where
    t: "mark_composites sieve_size i 2 tab = Some t" "length t = sieve_size"
      "\<forall>j < sieve_size. t ! j \<longleftrightarrow> tab ! j \<or> (\<exists>d \<ge> 2. j = d * i)" by blast
  have "\<forall>i \<in> set is. 0 < i \<and> i < sieve_size" using Cons.prems(1) by simp
  from Cons.IH [OF this t(2)] obtain u where
    u: "mark_all sieve_size is t = Some u" "length u = sieve_size"
      "\<forall>j < sieve_size. u ! j \<longleftrightarrow> t ! j \<or> (\<exists>i \<in> set is. \<exists>d \<ge> 2. j = d * i)" by blast
  have "u ! j \<longleftrightarrow> tab ! j \<or> (\<exists>i \<in> set (i # is). \<exists>d \<ge> 2. j = d * i)" if "j < sieve_size" for j
    using u(3) t(3) that by auto
  with u(1,2) t(1) show ?case by auto
qed

lemma is_prime_iff_unmarked:
  assumes "2 \<le> j" and "j < n"
  shows "is_prime j \<longleftrightarrow> \<not> (\<exists>i \<in> set [2..<n]. \<exists>d \<ge> 2. j = d * i)"
proof
  assume p: "is_prime j"
  show "\<not> (\<exists>i \<in> set [2..<n]. \<exists>d \<ge> 2. j = d * i)"
  proof
    assume "\<exists>i \<in> set [2..<n]. \<exists>d \<ge> 2. j = d * i"
    then obtain i d where id: "2 \<le> i" "2 \<le> d" "j = d * i" by auto
    then have "i < j" using n_less_m_mult_n [of i d] by simp
    moreover have "i dvd j" using id by simp
    ultimately show False using p id(1) by (auto simp: is_prime_def list_all_iff)
  qed
next
  assume u: "\<not> (\<exists>i \<in> set [2..<n]. \<exists>d \<ge> 2. j = d * i)"
  have "\<not> d dvd j" if "2 \<le> d" "d < j" for d
  proof
    assume "d dvd j"
    then obtain k where k: "j = k * d" by (metis dvdE mult.commute)
    have "k \<noteq> 0" "k \<noteq> 1" using k that by auto
    then have "2 \<le> k" by simp
    moreover have "d \<in> set [2..<n]" using that assms(2) by simp
    ultimately show False using u k by blast
  qed
  with assms(1) show "is_prime j" by (simp add: is_prime_def list_all_iff)
qed

lemma eratos_thenes_primes:
  assumes "unat sieve_size \<le> 2 ^ 31"
  shows "eratos_thenes sieve_size = Some (map of_nat (filter is_prime [2..<unat sieve_size]))"
proof -
  let ?n = "unat sieve_size"
  have "\<forall>i \<in> set [2..<?n]. 0 < i \<and> i < ?n" by auto
  from mark_all_ok [OF assms this, of "replicate ?n False"] obtain t where
    t: "mark_all ?n [2..<?n] (replicate ?n False) = Some t"
      "\<forall>j < ?n. t ! j \<longleftrightarrow> (\<exists>i \<in> set [2..<?n]. \<exists>d \<ge> 2. j = d * i)" by auto
  have "filter (\<lambda>i. \<not> t ! i) [2..<?n] = filter is_prime [2..<?n]"
    using t(2) is_prime_iff_unmarked [of _ ?n] by (intro filter_cong) auto
  with t(1) show ?thesis by (simp add: eratos_thenes_def Let_def)
qed

definition small_primes :: "u32 list" where
  "small_primes = [2, 3, 5, 7, 11, 13, 17, 19, 23, 29, 31, 37, 41, 43, 47, 53, 59, 61, 67, 71, 73, 79]"

lemma InitializePrimes_eq: "InitializePrimes = Some \<lparr>zTwo = 2, PRIME_SIEVE = small_primes\<rparr>"
proof -
  have "filter is_prime [2..<80] =
      [2, 3, 5, 7, 11, 13, 17, 19, 23, 29, 31, 37, 41, 43, 47, 53, 59, 61, 67, 71, 73, 79]"
    by code_simp
  then show ?thesis
    by (simp add: InitializePrimes_def eratos_thenes_primes small_primes_def)
qed

section \<open>The prime test\<close>

lemma le_u32_u64: "LENGTH(32) \<le> LENGTH(64)"
  by simp

definition ptest :: "prime_globals \<Rightarrow> int \<Rightarrow> bool" where
  "ptest pg n \<longleftrightarrow> (\<forall>p \<in> set (PRIME_SIEVE pg). \<not> int (unat p) dvd n) \<and> zTwo pg ^ nat (n - 1) mod n = 1"

lemma gmp_prime_test_eq:
  assumes "gmp_ok g" and "0 \<notin> set (PRIME_SIEVE pg)" and "0 < n"
  shows "gmp_prime_test g pg n = Inr (ptest pg n)"
proof -
  have d: "gmp_divisor g pg n \<longleftrightarrow> (\<forall>p \<in> set (PRIME_SIEVE pg). \<not> int (unat p) dvd n)"
  proof -
    have "mpz_divisible_ui_p g n (ucast p) = 0 \<longleftrightarrow> \<not> int (unat p) dvd n" if "p \<in> set (PRIME_SIEVE pg)" for p
    proof -
      have "p \<noteq> 0" using that assms(2) by metis
      then have "unat (ucast p :: u64) \<noteq> 0" by (simp add: unat_ucast_up unat_eq_zero)
      then have "(ucast p :: u64) \<noteq> 0" by auto
      then have "mpz_divisible_ui_p g n (ucast p) \<noteq> 0 \<longleftrightarrow> int (unat (ucast p :: u64)) dvd n"
        using assms(1) by (auto simp only: gmp_ok_def)
      then show ?thesis unfolding unat_ucast_up [OF le_u32_u64] by blast
    qed
    then show ?thesis by (simp add: gmp_divisor_def list_all_iff)
  qed
  have s: "mpz_sub_ui g n 1 = n - 1" using assms(1) by (simp add: gmp_ok_def)
  have "0 \<le> n - 1" using assms(3) by simp
  then have "mpz_powm g (zTwo pg) (n - 1) n = Inr (zTwo pg ^ nat (n - 1) mod n)"
    using assms(1,3) unfolding gmp_ok_def by blast
  moreover have "mpz_cmp_ui g r 1 = 0 \<longleftrightarrow> r = 1" for r
    using assms(1) by (simp add: gmp_ok_def)
  ultimately have f: "gmp_fermat g pg n = Inr (zTwo pg ^ nat (n - 1) mod n = 1)"
    by (simp add: gmp_fermat_def s Let_def)
  show ?thesis by (auto simp: gmp_prime_test_def ptest_def d f)
qed

text \<open>Before \<open>InitializePrimes\<close> runs, the base of the Fermat test is 0 and no number passes.\<close>

lemma ptest_static: "\<not> ptest prime_static n" if "0 < n"
proof (cases "n = 1")
  case True
  then show ?thesis by (simp add: ptest_def prime_static_def)
next
  case False
  with that have "0 < nat (n - 1)" by simp
  then show ?thesis by (simp add: ptest_def prime_static_def zero_power)
qed

lemma gmp_import: "gmp_ok g \<Longrightarrow> mpz_import g (pn a) = int (uval a)"
  by (simp add: gmp_ok_def uval_def)

lemma gmp_verification_static:
  assumes "gmp_ok g" and "0 < uval prime"
  shows "gmp_verification g prime_static prime = Some (Inr (Fin 0))"
  using assms gmp_prime_test_eq [OF assms(1), of prime_static "int (uval prime)"]
    ptest_static [of "int (uval prime)"]
  by (simp add: gmp_verification_def gmp_import prime_static_def)

section \<open>Every cluster ends\<close>

text \<open>
  A number that passes the test is coprime to 3, 5, 7 and 11, and among the odd numbers there are
  runs of six consecutive ones each divisible by one of these primes, at most 1155 steps apart. The
  odd number \<open>2 i + 1\<close> has index \<open>i\<close>; indices 1212 to 1217 are such a run. \<open>wheel k\<close> is computed from
  index 1217 downwards and gives, for the index \<open>1217 - k\<close> and each number of failures in a row so
  far, how many more tests can succeed before there are six failures in a row (\<open>None\<close>: not decided by
  the indices up to 1217).
\<close>

definition dpf :: "bool \<Rightarrow> int option list \<Rightarrow> int option list" where
  "dpf x v =
     (if x then let h = map_option (\<lambda>m. m + 1) (hd v) in [h, h, h, h, h, h] else tl v @ [Some 0])"

definition none6 :: "int option list" where
  "none6 = [None, None, None, None, None, None]"

definition residues :: "nat \<Rightarrow> nat \<times> nat \<times> nat \<times> nat" where
  "residues i = ((i + 2) mod 3, (i + 3) mod 5, (i + 4) mod 7, (i + 6) mod 11)"

definition candidate :: "nat \<times> nat \<times> nat \<times> nat \<Rightarrow> bool" where
  "candidate r = (case r of (a, b, c, d) \<Rightarrow> a \<noteq> 0 \<and> b \<noteq> 0 \<and> c \<noteq> 0 \<and> d \<noteq> 0)"

fun wheel :: "nat \<Rightarrow> int option list" where
  "wheel 0 = none6"
| "wheel (Suc k) = dpf (candidate (residues (1217 - k))) (wheel k)"

definition small_bound :: "int option list \<Rightarrow> bool" where
  "small_bound v = (case hd v of None \<Rightarrow> False | Some m \<Rightarrow> m \<le> 427)"

definition rdec :: "nat \<Rightarrow> nat \<Rightarrow> nat" where
  "rdec m a = (case a of 0 \<Rightarrow> m | Suc b \<Rightarrow> b)"

definition wstep :: "bool \<Rightarrow> (nat \<times> nat \<times> nat \<times> nat) \<times> int option list \<times> bool
    \<Rightarrow> (nat \<times> nat \<times> nat \<times> nat) \<times> int option list \<times> bool" where
  "wstep chk s =
     (case s of ((a, b, c, d), v, ok) \<Rightarrow>
        let v' = dpf (candidate (a, b, c, d)) v; r' = (rdec 2 a, rdec 4 b, rdec 6 c, rdec 10 d)
        in (r', v', if chk then ok \<and> (candidate r' \<longrightarrow> small_bound v') else ok))"

definition wheel_good :: "nat \<Rightarrow> bool" where
  "wheel_good k \<longleftrightarrow> (candidate (residues (1217 - k)) \<longrightarrow> small_bound (wheel k))"

lemma rdec_mod: "0 < m \<Longrightarrow> rdec (m - 1) (Suc x mod m) = x mod m"
  by (auto simp: rdec_def mod_Suc)

lemma wstep_residues:
  "wstep chk (residues (Suc i), v, ok) =
     (let v' = dpf (candidate (residues (Suc i))) v
      in (residues i, v', if chk then ok \<and> (candidate (residues i) \<longrightarrow> small_bound v') else ok))"
  using rdec_mod [of 3 "i + 2"] rdec_mod [of 5 "i + 3"] rdec_mod [of 7 "i + 4"] rdec_mod [of 11 "i + 6"]
  by (simp add: wstep_def residues_def Let_def)

lemma wstep_wheel1:
  assumes "k < 1217"
  shows "wstep chk (residues (1217 - k), wheel k, ok) =
     (residues (1217 - Suc k), wheel (Suc k), ok \<and> (chk \<longrightarrow> wheel_good (Suc k)))"
proof -
  obtain i where i: "1217 - k = Suc i" "1217 - Suc k = i" using assms by (cases "1217 - k") auto
  show ?thesis unfolding wheel_good_def wheel.simps i by (simp add: wstep_residues Let_def)
qed

lemma wstep_wheel:
  "k + n \<le> 1217 \<Longrightarrow> (wstep chk ^^ n) (residues (1217 - k), wheel k, ok) =
     (residues (1217 - (k + n)), wheel (k + n), ok \<and> (chk \<longrightarrow> (\<forall>j \<in> {k<..k + n}. wheel_good j)))"
proof (induction n)
  case 0
  show ?case by simp
next
  case (Suc n)
  have set: "{k<..k + Suc n} = insert (k + Suc n) {k<..k + n}" by auto
  have IH: "(wstep chk ^^ n) (residues (1217 - k), wheel k, ok) =
     (residues (1217 - (k + n)), wheel (k + n), ok \<and> (chk \<longrightarrow> (\<forall>j \<in> {k<..k + n}. wheel_good j)))"
    using Suc.prems by (intro Suc.IH) simp
  show ?case
    unfolding funpow.simps o_apply IH set
    by (subst wstep_wheel1) (use Suc.prems in \<open>auto simp del: wheel.simps\<close>)
qed

text \<open>\<open>rep\<close> is iteration with the state evaluated at each step.\<close>

fun rep :: "nat \<Rightarrow> ('s \<Rightarrow> 's) \<Rightarrow> 's \<Rightarrow> 's" where
  "rep 0 f s = s"
| "rep (Suc n) f s = rep n f (f s)"

lemma rep_funpow: "rep n f s = (f ^^ n) s"
  by (induction n arbitrary: s) (simp_all add: funpow_swap1)

lemma wheel_check:
  "snd (snd (rep 35 (rep 33 (wstep True)) (rep 5 (wstep False) ((1, 0, 3, 2), none6, True))))"
  by code_simp

lemma wheel_small:
  assumes i: "57 \<le> i" "i < 1212" "candidate (residues i)"
  shows "small_bound (wheel (1217 - i))"
proof -
  have rep2: "rep 35 (rep 33 f) s = (f ^^ 1155) s" for f :: "'s \<Rightarrow> 's" and s
    by (simp add: rep_funpow [abs_def] funpow_mult)
  have "residues 1217 = (1, 0, 3, 2)" by (simp add: residues_def)
  then have lap1: "rep 5 (wstep False) ((1, 0, 3, 2), none6, True) = (residues (1217 - 5), wheel 5, True)"
    using wstep_wheel [of 0 5 False True] by (simp add: rep_funpow del: funpow.simps)
  have "rep 35 (rep 33 (wstep True)) (residues (1217 - 5), wheel 5, True) =
      (residues (1217 - (5 + 1155)), wheel (5 + 1155), \<forall>j \<in> {5<..5 + 1155}. wheel_good j)"
    using wstep_wheel [of 5 1155 True True] unfolding rep2 by simp
  with wheel_check lap1 have "\<forall>j \<in> {5<..5 + 1155}. wheel_good j" by simp
  moreover have "1217 - i \<in> {5<..5 + 1155}" "1217 - (1217 - i) = i" using i(1,2) by auto
  ultimately show ?thesis using i(3) unfolding wheel_good_def by metis
qed

end
