(* ===== verification/Prime_Clusters.thy ===== *)
theory Prime_Clusters
  imports Prime
begin

text \<open>
  Why the cluster search of \<open>gmp_verification\<close> ends, how large a cluster can be, and that the
  difficulty of every share is a finite double inside the range \<open>set_bits\<close> converts.
\<close>

section \<open>The wheel\<close>

lemma length_wheel [simp]: "length (wheel k) = 6"
  by (induction k) (auto simp: none6_def dpf_def Let_def)

lemma wheel_Suc_nth:
  assumes "f < 6"
  shows "wheel (Suc k) ! f =
     (if candidate (residues (1217 - k)) then map_option (\<lambda>m. m + 1) (wheel k ! 0)
      else if f = 5 then Some 0 else wheel k ! Suc f)"
proof -
  have "wheel k \<noteq> []" using length_wheel [of k] by force
  moreover from this have "hd (wheel k) = wheel k ! 0" by (rule hd_conv_nth)
  moreover have "f = 0 \<or> f = 1 \<or> f = 2 \<or> f = 3 \<or> f = 4 \<or> f = 5" using assms by linarith
  ultimately show ?thesis by (auto simp: dpf_def Let_def nth_append nth_tl)
qed

declare wheel.simps(2) [simp del]

lemma wheel_0_nth: "f < 6 \<Longrightarrow> wheel 0 ! f = None"
  by (auto simp: none6_def less_Suc_eq numeral_eq_Suc)

lemma wheel_nonneg: "f < 6 \<Longrightarrow> wheel k ! f = Some m \<Longrightarrow> 0 \<le> m"
proof (induction k arbitrary: f m)
  case 0
  then show ?case using wheel_0_nth [of f] by simp
next
  case (Suc k)
  show ?case
    using Suc.prems(2) Suc.IH [of 0] Suc.IH [of "Suc f"] Suc.prems(1)
    by (auto simp: wheel_Suc_nth [OF Suc.prems(1)] split: if_splits)
qed

lemma wheel_mono:
  "f < 5 \<Longrightarrow> wheel k ! f = Some m \<Longrightarrow> \<exists>m' \<le> m. wheel k ! Suc f = Some m'"
proof (induction k arbitrary: f m)
  case 0
  then show ?case using wheel_0_nth [of f] by simp
next
  case (Suc k)
  have f: "f < 6" "Suc f < 6" using Suc.prems(1) by simp_all
  show ?case
    using Suc.prems Suc.IH [of "Suc f" m] wheel_nonneg [of 5 k m] f
    by (simp only: wheel_Suc_nth) (cases "f = 4"; force split: if_splits)
qed

lemma wheel_mono0: "f < 6 \<Longrightarrow> wheel k ! 0 = Some m \<Longrightarrow> \<exists>m' \<le> m. wheel k ! f = Some m'"
proof (induction f)
  case 0
  then show ?case by simp
next
  case (Suc f)
  then obtain m1 where "m1 \<le> m" "wheel k ! f = Some m1" by auto
  moreover have "f < 5" using Suc.prems(1) by simp
  ultimately show ?case using wheel_mono [of f k m1] by (meson order_trans)
qed

lemma length_filter_shift:
  "length (filter P [1..<Suc (Suc n)]) = (if P 1 then 1 else 0) + length (filter (\<lambda>j. P (Suc j)) [1..<Suc n])"
proof -
  have "[1..<Suc (Suc n)] = 1 # map Suc [1..<Suc n]"
    by (simp add: upt_conv_Cons map_Suc_upt)
  then show ?thesis by (simp add: filter_map o_def)
qed

lemma cluster_step_eq:
  assumes "gmp_ok g" and "0 \<notin> set (PRIME_SIEVE pg)" and "0 < zPrime c"
  shows "cluster_step g pg c =
     Inr (if ptest pg (zPrime c + 2)
          then c\<lparr>zPrime := zPrime c + 2, nOffset := nOffset c + 2, nClusterSize := nClusterSize c + 1, nPrimeGap := 2\<rparr>
          else c\<lparr>zPrime := zPrime c + 2, nOffset := nOffset c + 2, nPrimeGap := nPrimeGap c + 2\<rparr>)"
proof -
  have "mpz_add_ui g (zPrime c) 2 = zPrime c + 2" using assms(1) by (simp add: gmp_ok_def)
  moreover have "gmp_prime_test g pg (zPrime c + 2) = Inr (ptest pg (zPrime c + 2))"
    using assms by (intro gmp_prime_test_eq) simp_all
  ultimately show ?thesis by (simp add: cluster_step_def Let_def)
qed

text \<open>What a finished run of the loop from the state \<open>c\<close> has done in \<open>n\<close> steps.\<close>

definition cluster_done :: "prime_globals \<Rightarrow> cluster \<Rightarrow> nat \<Rightarrow> cluster \<Rightarrow> bool" where
  "cluster_done pg c n c' \<longleftrightarrow>
     zPrime c' = zPrime c + 2 * int n \<and> nOffset c' = nOffset c + of_nat (2 * n)
     \<and> nClusterSize c' = nClusterSize c
         + of_nat (length (filter (\<lambda>j. ptest pg (zPrime c + 2 * int j)) [1..<Suc n]))
     \<and> (\<forall>j. 1 \<le> j \<longrightarrow> j \<le> n \<longrightarrow> n < j + 6 \<longrightarrow> \<not> ptest pg (zPrime c + 2 * int j))"

lemma cluster_done_Suc:
  assumes "cluster_done pg c1 n c'" and "6 \<le> n + f"
    and "zPrime c1 = zPrime c + 2" and "nOffset c1 = nOffset c + 2"
    and "nClusterSize c1 = nClusterSize c + (if ptest pg (zPrime c + 2) then 1 else 0)"
    and "f \<noteq> 0 \<longrightarrow> \<not> ptest pg (zPrime c + 2)"
  shows "cluster_done pg c (Suc n) c'"
proof -
  let ?P = "\<lambda>j. ptest pg (zPrime c + 2 * int j)"
  have shift: "ptest pg (zPrime c1 + 2 * int j) = ?P (Suc j)" for j
    using assms(3) by (simp add: algebra_simps)
  note d = assms(1) [unfolded cluster_done_def shift]
  have last: "\<not> ?P j" if "1 \<le> j" "j \<le> Suc n" "Suc n < j + 6" for j
  proof (cases "j = 1")
    case True
    then show ?thesis using that assms(2,6) by (cases f) auto
  next
    case False
    with that(1) have "j = Suc (j - 1)" "1 \<le> j - 1" by auto
    then obtain i where "j = Suc i" "1 \<le> i" by blast
    with d that show ?thesis by auto
  qed
  have len: "length (filter ?P [1..<Suc (Suc n)]) = (if ?P 1 then 1 else 0) + length (filter (\<lambda>j. ?P (Suc j)) [1..<Suc n])"
    by (rule length_filter_shift)
  show ?thesis
    unfolding cluster_done_def len using d last assms(3-5) by (auto simp: algebra_simps)
qed

lemma cluster_loop_ends:
  assumes g: "gmp_ok g" "0 \<notin> set (PRIME_SIEVE pg)"
  shows "wheel k ! f = Some m \<Longrightarrow> f < 6 \<Longrightarrow> k \<le> 1217 \<Longrightarrow> 0 < zPrime c \<Longrightarrow>
    nPrimeGap c = of_nat (2 + 2 * f) \<Longrightarrow>
    (\<And>j. 1 \<le> j \<Longrightarrow> j \<le> k \<Longrightarrow> ptest pg (zPrime c + 2 * int j) \<Longrightarrow> candidate (residues (1217 - k + j))) \<Longrightarrow>
    \<exists>c' n. cluster_loop g pg c = Some (Inr c') \<and> n \<le> k \<and> 6 \<le> n + f \<and> cluster_done pg c n c'
      \<and> int (length (filter (\<lambda>j. ptest pg (zPrime c + 2 * int j)) [1..<Suc n])) \<le> m"
proof (induction k arbitrary: f m c)
  case 0
  then show ?case using wheel_0_nth [of f] by simp
next
  case (Suc k)
  have "f = 0 \<or> f = 1 \<or> f = 2 \<or> f = 3 \<or> f = 4 \<or> f = 5" using Suc.prems(2) by linarith
  then have gap: "nPrimeGap c \<le> 12" using Suc.prems(5) by auto
  define t where "t \<longleftrightarrow> ptest pg (zPrime c + 2)"
  define c1 where "c1 = (if t
      then c\<lparr>zPrime := zPrime c + 2, nOffset := nOffset c + 2, nClusterSize := nClusterSize c + 1, nPrimeGap := 2\<rparr>
      else c\<lparr>zPrime := zPrime c + 2, nOffset := nOffset c + 2, nPrimeGap := nPrimeGap c + 2\<rparr>)"
  have loop: "cluster_loop g pg c = cluster_loop g pg c1"
    using gap cluster_step_eq [OF g Suc.prems(4)] by (subst cluster_loop.simps) (simp add: c1_def t_def)
  have c1: "zPrime c1 = zPrime c + 2" "nOffset c1 = nOffset c + 2"
    "nClusterSize c1 = nClusterSize c + (if t then 1 else 0)"
    "nPrimeGap c1 = (if t then 2 else nPrimeGap c + 2)" by (simp_all add: c1_def)
  have cand: "candidate (residues (1217 - k + j))" if "1 \<le> j" "j \<le> k" "ptest pg (zPrime c1 + 2 * int j)" for j
  proof -
    have e: "1217 - Suc k + Suc j = 1217 - k + j" using Suc.prems(3) by simp
    have "ptest pg (zPrime c + 2 * int (Suc j))" using that(3) by (simp add: c1 algebra_simps)
    then have "candidate (residues (1217 - Suc k + Suc j))" using that by (intro Suc.prems(6)) simp_all
    then show ?thesis unfolding e .
  qed
  have len: "length (filter (\<lambda>j. ptest pg (zPrime c + 2 * int j)) [1..<Suc (Suc n)]) =
      (if t then 1 else 0) + length (filter (\<lambda>j. ptest pg (zPrime c1 + 2 * int j)) [1..<Suc n])" for n
    using length_filter_shift [of "\<lambda>j. ptest pg (zPrime c + 2 * int j)" n] by (simp add: t_def c1 algebra_simps)
  show ?case
  proof (cases "\<not> t \<and> f = 5")
    case True
    then have "\<not> nPrimeGap c1 \<le> 12" using c1(4) Suc.prems(5) by simp
    then have "cluster_loop g pg c1 = Some (Inr c1)" by (subst cluster_loop.simps) simp
    moreover have "cluster_done pg c (Suc 0) c1"
      using True c1 by (auto simp: cluster_done_def t_def le_Suc_eq)
    ultimately show ?thesis
      using loop True wheel_nonneg [OF Suc.prems(2,1)]
      by (intro exI [of _ c1] exI [of _ "Suc 0"]) (simp add: t_def)
  next
    case False
    let ?f = "if t then 0 else Suc f"
    have f1: "?f < 6" using False Suc.prems(2) by auto
    have "\<exists>m1. wheel k ! ?f = Some m1 \<and> m1 + (if t then 1 else 0) \<le> m"
    proof (cases t)
      case True
      have e: "1217 - Suc k + 1 = 1217 - k" using Suc.prems(3) by simp
      have "candidate (residues (1217 - Suc k + 1))"
        using True by (intro Suc.prems(6)) (simp_all add: t_def)
      then have "candidate (residues (1217 - k))" unfolding e .
      with True Suc.prems(1) show ?thesis by (auto simp: wheel_Suc_nth [OF Suc.prems(2)])
    next
      case no: False
      show ?thesis
      proof (cases "candidate (residues (1217 - k))")
        case True
        with Suc.prems(1) obtain m0 where "wheel k ! 0 = Some m0" "m = m0 + 1"
          by (auto simp: wheel_Suc_nth [OF Suc.prems(2)])
        with no wheel_mono0 [OF f1, of k m0] show ?thesis by auto
      next
        case False
        with no \<open>\<not> (\<not> t \<and> f = 5)\<close> Suc.prems(1) show ?thesis
          by (auto simp: wheel_Suc_nth [OF Suc.prems(2)])
      qed
    qed
    then obtain m1 where m1: "wheel k ! ?f = Some m1" "m1 + (if t then 1 else 0) \<le> m" by blast
    have gap1: "nPrimeGap c1 = of_nat (2 + 2 * ?f)" using c1(4) Suc.prems(5) by simp
    have pos: "0 < zPrime c1" "k \<le> 1217" using c1(1) Suc.prems(3,4) by simp_all
    from Suc.IH [OF m1(1) f1 pos(2,1) gap1 cand] obtain c' n where c':
      "cluster_loop g pg c1 = Some (Inr c')" "n \<le> k" "6 \<le> n + ?f" "cluster_done pg c1 n c'"
      "int (length (filter (\<lambda>j. ptest pg (zPrime c1 + 2 * int j)) [1..<Suc n])) \<le> m1" by blast
    have "cluster_done pg c (Suc n) c'"
      using c'(3,4) c1 by (intro cluster_done_Suc [of pg c1 n c' ?f]) (auto simp: t_def)
    moreover have "int (length (filter (\<lambda>j. ptest pg (zPrime c + 2 * int j)) [1..<Suc (Suc n)])) \<le> m"
      unfolding len using c'(5) m1(2) by auto
    moreover have "6 \<le> Suc n + f" using c'(3) by (auto split: if_splits)
    ultimately show ?thesis
      using loop c'(1,2) by (intro exI [of _ c'] exI [of _ "Suc n"]) simp
  qed
qed

section \<open>Candidates\<close>

definition prime_ready :: "prime_globals \<Rightarrow> bool" where
  "prime_ready pg \<longleftrightarrow> zTwo pg = 2 \<and> PRIME_SIEVE pg = small_primes"

lemma prime_ready_nonzero: "prime_ready pg \<Longrightarrow> 0 \<notin> set (PRIME_SIEVE pg)"
  by (simp add: prime_ready_def small_primes_def)

lemma ptest_not_dvd:
  "prime_ready pg \<Longrightarrow> ptest pg n \<Longrightarrow> \<not> 2 dvd n \<and> \<not> 3 dvd n \<and> \<not> 5 dvd n \<and> \<not> 7 dvd n \<and> \<not> 11 dvd n"
  by (simp add: ptest_def prime_ready_def small_primes_def)

lemma ptest_candidate:
  assumes "prime_ready pg" and "ptest pg n" and n: "n = 2 * int i + 1 + 2310 * q"
  shows "candidate (residues i)"
proof -
  note nd = ptest_not_dvd [OF assms(1,2)]
  have "(i + 2) mod 3 \<noteq> 0"
  proof
    assume "(i + 2) mod 3 = 0"
    then obtain t where "i + 2 = 3 * t" by (auto simp: mod_eq_0_iff_dvd elim: dvdE)
    then have "n = 3 * (2 * int t - 1 + 770 * q)" unfolding n by simp
    with nd show False by (metis dvd_triv_left)
  qed
  moreover have "(i + 3) mod 5 \<noteq> 0"
  proof
    assume "(i + 3) mod 5 = 0"
    then obtain t where "i + 3 = 5 * t" by (auto simp: mod_eq_0_iff_dvd elim: dvdE)
    then have "n = 5 * (2 * int t - 1 + 462 * q)" unfolding n by simp
    with nd show False by (metis dvd_triv_left)
  qed
  moreover have "(i + 4) mod 7 \<noteq> 0"
  proof
    assume "(i + 4) mod 7 = 0"
    then obtain t where "i + 4 = 7 * t" by (auto simp: mod_eq_0_iff_dvd elim: dvdE)
    then have "n = 7 * (2 * int t - 1 + 330 * q)" unfolding n by simp
    with nd show False by (metis dvd_triv_left)
  qed
  moreover have "(i + 6) mod 11 \<noteq> 0"
  proof
    assume "(i + 6) mod 11 = 0"
    then obtain t where "i + 6 = 11 * t" by (auto simp: mod_eq_0_iff_dvd elim: dvdE)
    then have "n = 11 * (2 * int t - 1 + 210 * q)" unfolding n by simp
    with nd show False by (metis dvd_triv_left)
  qed
  ultimately show ?thesis by (simp add: candidate_def residues_def)
qed

definition cluster_start :: "int \<Rightarrow> cluster" where
  "cluster_start p = \<lparr>zPrime = p, nClusterSize = 1, nPrimeGap = 2, nOffset = 0\<rparr>"

lemma cluster_loop_bound:
  assumes "gmp_ok g" and ready: "prime_ready pg" and "0 < p" and p: "ptest pg p"
  shows "\<exists>c n. cluster_loop g pg (cluster_start p) = Some (Inr c) \<and> n \<le> 1160 \<and> 6 \<le> n
     \<and> cluster_done pg (cluster_start p) n c
     \<and> length (filter (\<lambda>j. ptest pg (p + 2 * int j)) [1..<Suc n]) \<le> 427"
proof -
  define q where "q = ((p - 1) div 2 - 57) div 1155"
  define i where "i = nat (57 + ((p - 1) div 2 - 57) mod 1155)"
  have "\<not> 2 dvd p" using ptest_not_dvd [OF ready p] by (elim conjE)
  then have odd: "p = 2 * ((p - 1) div 2) + 1" by presburger
  have r: "0 \<le> ((p - 1) div 2 - 57) mod 1155" "((p - 1) div 2 - 57) mod 1155 < 1155" by simp_all
  have i: "57 \<le> i" "i < 1212" "int i = 57 + ((p - 1) div 2 - 57) mod 1155" using r by (auto simp: i_def)
  have "(p - 1) div 2 - 57 = 1155 * q + ((p - 1) div 2 - 57) mod 1155" unfolding q_def by simp
  then have pi: "p = 2 * int i + 1 + 2310 * q" using odd i(3) by linarith
  then have "candidate (residues i)" by (intro ptest_candidate [OF ready p])
  with i have "small_bound (wheel (1217 - i))" by (intro wheel_small)
  then obtain m where m: "hd (wheel (1217 - i)) = Some m" "m \<le> 427"
    by (auto simp: small_bound_def split: option.splits)
  have "wheel (1217 - i) \<noteq> []" using length_wheel [of "1217 - i"] by force
  then have m0: "wheel (1217 - i) ! 0 = Some m" using m(1) by (simp add: hd_conv_nth)
  have cand: "candidate (residues (1217 - (1217 - i) + j))" if "ptest pg (p + 2 * int j)" for j
  proof -
    have "1217 - (1217 - i) + j = i + j" using i(2) by simp
    moreover have "candidate (residues (i + j))"
      by (rule ptest_candidate [OF ready that, of _ q]) (simp add: pi)
    ultimately show ?thesis by simp
  qed
  have "\<exists>c n. cluster_loop g pg (cluster_start p) = Some (Inr c) \<and> n \<le> 1217 - i \<and> 6 \<le> n + 0
     \<and> cluster_done pg (cluster_start p) n c
     \<and> int (length (filter (\<lambda>j. ptest pg (zPrime (cluster_start p) + 2 * int j)) [1..<Suc n])) \<le> m"
    using assms(3) cand
    by (intro cluster_loop_ends [OF assms(1) prime_ready_nonzero [OF ready] m0]) (simp_all add: cluster_start_def)
  then obtain c n where c: "cluster_loop g pg (cluster_start p) = Some (Inr c)" "n \<le> 1217 - i" "6 \<le> n"
    "cluster_done pg (cluster_start p) n c"
    "int (length (filter (\<lambda>j. ptest pg (zPrime (cluster_start p) + 2 * int j)) [1..<Suc n])) \<le> m" by auto
  moreover have "zPrime (cluster_start p) = p" by (simp add: cluster_start_def)
  ultimately have "length (filter (\<lambda>j. ptest pg (p + 2 * int j)) [1..<Suc n]) \<le> 427" "n \<le> 1160"
    using m(2) i(1) by simp_all
  with c show ?thesis by blast
qed

lemma fermat_test_ok:
  assumes "gmp_ok g" and "width n = 32" and "0 < uval n"
  shows "\<exists>r. fermat_test g n = Inr r \<and> int (uval r) = 2 ^ (uval n - 1) mod int (uval n)"
proof -
  let ?n = "int (uval n)" and ?r = "2 ^ (uval n - 1) mod int (uval n)"
  have e: "nat (?n - 1) = uval n - 1" by simp
  have "0 \<le> ?n - 1" "0 < ?n" using assms(3) by simp_all
  then have pw: "mpz_powm g 2 (?n - 1) ?n = Inr ?r"
    using assms(1) unfolding gmp_ok_def e [symmetric] by blast
  have "uval n < 2 ^ (32 * width n)" unfolding uval_def by (rule words_val_bound)
  then have "uval n < 2 ^ (32 * 32)" by (simp only: assms(2))
  then have "?n < 2 ^ (32 * 32)" by (metis of_nat_less_iff of_nat_numeral of_nat_power)
  moreover have "?r < ?n" using assms(3) by simp
  ultimately have lt: "?r < 2 ^ (32 * 32)" by linarith
  have "0 \<le> ?r" using assms(3) by (intro pos_mod_sign) simp
  then have ex: "int (words_val (mpz_export g ?r)) = ?r" "length (mpz_export g ?r) \<le> 32"
    using assms(1) lt unfolding gmp_ok_def by blast+
  have "mpz_sub_ui g ?n 1 = ?n - 1" using assms(1) by (simp add: gmp_ok_def)
  then have "fermat_test g n = Inr (BaseUint (mpz_export g ?r @ replicate (32 - length (mpz_export g ?r)) 0))"
    using ex(2) by (simp add: fermat_test_def gmp_import [OF assms(1)] pw Let_def)
  then show ?thesis using ex(1) by (simp add: uval_def words_val_append)
qed

lemma get_fractional_difficulty_ok:
  assumes "gmp_ok g" and "width n = 32" and "0 < uval n"
  shows "\<exists>d. get_fractional_difficulty g n = Inr d \<and> unat d \<le> 2 ^ 24
     \<and> int (unat d) = (int (uval n) - 2 ^ (uval n - 1) mod int (uval n)) * 2 ^ 24 div int (uval n)"
proof -
  define N b d where "N = int (uval n)" and "b = 2 ^ (uval n - 1) mod N" and "d = (N - b) * 2 ^ 24 div N"
  obtain f where f: "fermat_test g n = Inr f" "int (uval f) = b"
    using fermat_test_ok [OF assms] by (auto simp: N_def b_def)
  have n: "0 < N" using assms(3) by (simp add: N_def)
  then have b: "0 \<le> b" "b < N" by (simp_all add: b_def)
  then have nonneg: "0 \<le> (N - b) * 2 ^ 24" by simp
  then have d0: "0 \<le> d" using n by (simp add: d_def pos_imp_zdiv_nonneg_iff)
  have "(N - b) * 2 ^ 24 \<le> N * 2 ^ 24" using b(1) by (intro mult_right_mono) simp_all
  then have "d \<le> N * 2 ^ 24 div N" unfolding d_def using n by (intro zdiv_mono1)
  then have d1: "d \<le> 2 ^ 24" using n by simp
  have q: "mpz_tdiv_q g ((N - b) * 2 ^ 24) N = Inr d"
    using assms(1) n by (simp only: gmp_ok_def) (simp only: quot_trunc_nonneg [OF nonneg n] d_def)
  have get: "mpz_get_ui g d = word_of_int d" using assms(1) d0 by (simp add: gmp_ok_def)
  have sub: "mpz_sub g N b = N - b" and shl: "mpz_mul_2exp g (N - b) 24 = (N - b) * 2 ^ 24"
    using assms(1) by (simp_all only: gmp_ok_def)
  have eq: "get_fractional_difficulty g n = Inr (ucast (word_of_int d :: u64))"
    unfolding get_fractional_difficulty_def f(1) rbind_Inr gmp_import [OF assms(1)] f(2) N_def [symmetric]
      Let_def sub shl q get ..
  have "int (unat (ucast (word_of_int d :: u64) :: u32)) = d"
    using d0 d1 by (simp add: unsigned_ucast_eq unsigned_of_int take_bit_int_eq_self)
  moreover from this have "unat (ucast (word_of_int d :: u64) :: u32) \<le> 2 ^ 24"
    using d1 by (metis of_nat_le_iff of_nat_numeral of_nat_power)
  ultimately show ?thesis using eq by (simp only: d_def b_def N_def) blast
qed

lemma fl_million_div:
  assumes "0 < k"
  shows "\<exists>r. fl (1000000 / of_nat k) = Fin r \<and> 0 \<le> r"
proof -
  have "(1000000 :: rat) / of_nat k \<le> of_nat 1000000" using assms by (simp add: divide_le_eq)
  moreover have "(0::rat) \<le> 1000000 / of_nat k" by simp
  moreover have "(1000000::nat) < 2 ^ 53" by simp
  ultimately show ?thesis using fl_le_nat_ex [of "1000000 / of_nat k" 1000000] by blast
qed

lemma fractional_remainder_bounds: "\<exists>r. fractional_remainder d = Fin r \<and> 0 \<le> r \<and> r \<le> 1"
proof (cases "d = 0")
  case True
  then show ?thesis by (simp add: fractional_remainder_def d_of_u32_eq d_inf_def)
next
  case False
  then have d: "0 < unat d" by (simp add: unat_gt_0)
  then obtain r where r: "fl (1000000 / of_nat (unat d)) = Fin r" "0 \<le> r" using fl_million_div by blast
  have nz: "(of_nat (unat d) :: rat) \<noteq> 0" using d by (simp only: of_nat_eq_0_iff)
  have "d_div (Fin 1000000) (d_of_u32 d) = Fin r"
    by (simp only: d_of_u32_eq d_div.simps if_not_P [OF nz] r(1))
  then show ?thesis using r(2) by (simp add: fractional_remainder_def Let_def)
qed

text \<open>The difficulty is the cluster size plus a fraction, rounded; the sum stays between integers.\<close>

lemma fl_add_fraction:
  assumes "0 \<le> r" and "r \<le> 1" and "k + 1 < 2 ^ 53"
  shows "\<exists>x. fl (of_nat k + r) = Fin x \<and> of_nat k \<le> x \<and> x \<le> of_nat k + 1"
proof -
  have "of_nat k + r \<le> of_nat (k + 1)" "0 \<le> of_nat k + r" using assms(1,2) by simp_all
  with fl_le_nat_ex [of "of_nat k + r" "k + 1"] assms(3) obtain x
    where x: "fl (of_nat k + r) = Fin x" "x \<le> of_nat (k + 1)" by blast
  have "of_nat k \<le> x" using assms(1,3) by (intro fl_ge_nat [OF _ _ x(1)]) simp_all
  with x show ?thesis by (intro exI [of _ x]) simp
qed

lemma d_add_fraction:
  assumes "0 \<le> r" and "r \<le> 1"
  shows "\<exists>x. d_add (d_of_u32 n) (Fin r) = Fin x \<and> of_nat (unat n) \<le> x \<and> x \<le> of_nat (unat n) + 1"
proof -
  have "unat n + 1 < 2 ^ 53" using unat_u32_less [of n] by simp
  from fl_add_fraction [OF assms this] show ?thesis by (simp only: d_of_u32_eq d_add.simps)
qed

lemma width_bu_add64: "2 \<le> width a \<Longrightarrow> width (bu_add64 a b) = width a"
  by (simp add: bu_add64_def)

lemma uval_next:
  assumes "width prime = 32" and "odd (uval prime)"
  shows "width (bu_add64 (bu_add64 prime (ucast (of_nat (2 * n) :: u32))) 2) = 32"
    and "0 < uval (bu_add64 (bu_add64 prime (ucast (of_nat (2 * n) :: u32))) 2)"
proof -
  let ?o = "ucast (of_nat (2 * n) :: u32) :: u64"
  have w: "width (bu_add64 prime ?o) = 32" using assms(1) by (simp add: width_bu_add64)
  then show "width (bu_add64 (bu_add64 prime ?o) 2) = 32" by (simp add: width_bu_add64)
  have "unat ?o = unat (of_nat (2 * n) :: u32)" by (rule unat_ucast_up) simp
  also have "\<dots> = 2 * n mod 2 ^ 32" by (simp only: unsigned_of_nat take_bit_eq_mod) simp
  finally have even: "even (unat ?o)" by (simp add: dvd_mod_iff)
  have "uval (bu_add64 (bu_add64 prime ?o) 2) = ((uval prime + unat ?o) mod 2 ^ 1024 + 2) mod 2 ^ 1024"
    using w assms(1) by (simp add: uval_bu_add64)
  then have "odd (uval (bu_add64 (bu_add64 prime ?o) 2))"
    using even assms(2) by (simp add: dvd_mod_iff)
  then show "0 < uval (bu_add64 (bu_add64 prime ?o) 2)" by (cases "uval (bu_add64 (bu_add64 prime ?o) 2)") simp_all
qed


text \<open>
  The number of primes of the cluster that starts at \<open>p\<close>, when the search stops after \<open>n\<close> candidates.
\<close>

definition cluster_primes :: "prime_globals \<Rightarrow> int \<Rightarrow> nat \<Rightarrow> nat" where
  "cluster_primes pg p n = 1 + length (filter (\<lambda>j. ptest pg (p + 2 * int j)) [1..<Suc n])"

definition cluster_ends :: "prime_globals \<Rightarrow> int \<Rightarrow> nat \<Rightarrow> bool" where
  "cluster_ends pg p n \<longleftrightarrow> 6 \<le> n \<and> (\<forall>j. 1 \<le> j \<longrightarrow> j \<le> n \<longrightarrow> n < j + 6 \<longrightarrow> \<not> ptest pg (p + 2 * int j))"

lemma gmp_verification_composite:
  assumes "gmp_ok g" and "prime_ready pg" and "uval prime = 0 \<or> \<not> ptest pg (int (uval prime))"
  shows "gmp_verification g pg prime = Some (Inr (Fin 0))"
proof (cases "uval prime = 0")
  case True
  have "mpz_divisible_ui_p g 0 (ucast (2 :: u32)) \<noteq> 0" using assms(1) by (simp add: gmp_ok_def)
  then have "\<not> gmp_divisor g pg 0"
    using assms(2) by (simp add: gmp_divisor_def prime_ready_def small_primes_def)
  then show ?thesis by (simp add: gmp_verification_def gmp_import [OF assms(1)] True gmp_prime_test_def)
next
  case False
  then have "gmp_prime_test g pg (int (uval prime)) = Inr False"
    using assms gmp_prime_test_eq [OF assms(1) prime_ready_nonzero [OF assms(2)], of "int (uval prime)"] by simp
  then show ?thesis by (simp add: gmp_verification_def gmp_import [OF assms(1)])
qed

lemma gmp_verification_prime:
  assumes g: "gmp_ok g" and ready: "prime_ready pg" and w: "width prime = 32"
    and pos: "0 < uval prime" and p: "ptest pg (int (uval prime))"
  shows "\<exists>d n. gmp_verification g pg prime = Some (Inr (Fin d)) \<and> n \<le> 1160
     \<and> cluster_ends pg (int (uval prime)) n \<and> cluster_primes pg (int (uval prime)) n \<le> 428
     \<and> of_nat (cluster_primes pg (int (uval prime)) n) \<le> d
     \<and> d \<le> of_nat (cluster_primes pg (int (uval prime)) n) + 1"
proof -
  let ?p = "int (uval prime)"
  from cluster_loop_bound [OF g ready _ p] pos obtain c n where
    c: "cluster_loop g pg (cluster_start ?p) = Some (Inr c)" "n \<le> 1160" "6 \<le> n"
      "cluster_done pg (cluster_start ?p) n c"
      "length (filter (\<lambda>j. ptest pg (?p + 2 * int j)) [1..<Suc n]) \<le> 427" by auto
  let ?k = "cluster_primes pg ?p n"
  have k: "?k \<le> 428" using c(5) by (simp add: cluster_primes_def)
  have off: "nOffset c = of_nat (2 * n)" and size: "nClusterSize c = of_nat ?k"
    using c(4) by (simp_all add: cluster_done_def cluster_start_def cluster_primes_def)
  have usize: "unat (nClusterSize c) = ?k"
    using k unfolding size by (simp add: unsigned_of_nat take_bit_nat_eq_self)
  have ends: "cluster_ends pg ?p n" using c(3,4) by (simp add: cluster_done_def cluster_start_def cluster_ends_def)
  have odd: "odd (uval prime)" using ptest_not_dvd [OF ready p] by (simp add: even_of_nat_iff)
  obtain f where f: "get_fractional_difficulty g (bu_add64 (bu_add64 prime (ucast (of_nat (2 * n) :: u32))) 2) = Inr f"
    using get_fractional_difficulty_ok [OF g uval_next [OF w odd]] by blast
  obtain r where r: "fractional_remainder f = Fin r" "0 \<le> r" "r \<le> 1" using fractional_remainder_bounds by blast
  obtain x where x: "d_add (d_of_u32 (nClusterSize c)) (Fin r) = Fin x" "of_nat ?k \<le> x" "x \<le> of_nat ?k + 1"
    using d_add_fraction [OF r(2,3), of "nClusterSize c"] unfolding usize by blast
  have "gmp_prime_test g pg ?p = Inr True"
    using gmp_prime_test_eq [OF g prime_ready_nonzero [OF ready], of ?p] pos p by simp
  then have "gmp_verification g pg prime = Some (Inr (Fin x))"
    unfolding gmp_verification_def gmp_import [OF g] Let_def
    by (simp only: sum.case bool.case option.case c(1) [unfolded cluster_start_def] off f r(1) x(1) rbind_Inr)
  with c(2) ends k x(2,3) show ?thesis by blast
qed

lemma set_bits_diff_ok:
  assumes "of_nat n \<le> d" and "d \<le> of_nat n + 1" and "n \<le> 428"
  shows "\<exists>b. set_bits_diff (Fin d) = Inr b \<and> 10000000 * n \<le> unat b \<and> unat b \<le> 10000000 * (n + 1)"
proof -
  let ?m = "10000000 * n" and ?M = "10000000 * (n + 1)"
  have low: "of_nat ?m \<le> 10000000 * d" using assms(1) by simp
  have up: "10000000 * d \<le> of_nat ?M" using assms(2) by simp
  have z: "0 \<le> 10000000 * d" using low by (rule order_trans [OF of_nat_0_le_iff])
  have M: "?M < 2 ^ 53" "?M < 2 ^ LENGTH(32)" "?m < 2 ^ 53" using assms(3) by simp_all
  obtain r where r: "fl (10000000 * d) = Fin r" "0 \<le> r" "r \<le> of_nat ?M"
    using fl_le_nat_ex [OF z up M(1)] by blast
  have lr: "of_nat ?m \<le> r" by (rule fl_ge_nat [OF low M(3) r(1)])
  obtain b :: u32 where b: "d_to_word (Fin r) = Inr b" "unat b = nat \<lfloor>r\<rfloor>" "unat b \<le> ?M"
    using d_to_word_le [OF r(2,3) M(2)] by blast
  have "int ?m \<le> \<lfloor>r\<rfloor>" using lr by (simp add: le_floor_iff)
  then have "?m \<le> unat b" unfolding b(2) by (simp only: le_nat_iff)
  with b r(1) show ?thesis by (simp add: set_bits_diff_def)
qed

end
