(* ===== verification/Prime_Properties.thy ===== *)
theory Prime_Properties
  imports Prime_Clusters
begin

text \<open>
  What the share check promises: the sieve holds the primes, a verification ends after a bounded search
  with the size of the cluster, the difficulty of every share can be encoded, and nothing passes before
  the sieve is initialised. Also the arithmetic of the 1024 bit integers the check computes with.
\<close>

section \<open>A concrete arithmetic library\<close>

fun digits32 :: "nat \<Rightarrow> u32 list" where
  "digits32 n = (if n = 0 then [] else of_nat (n mod 2 ^ 32) # digits32 (n div 2 ^ 32))"

declare digits32.simps [simp del]

definition gmp_exact :: gmp where
  "gmp_exact =
     \<lparr>mpz_divisible_ui_p = (\<lambda>n d. if int (unat d) dvd n then 1 else 0),
      mpz_sub_ui = (\<lambda>n d. n - int (unat d)), mpz_add_ui = (\<lambda>n d. n + int (unat d)),
      mpz_powm = (\<lambda>b e m. if 0 \<le> e \<and> 0 < m then Inr (b ^ nat e mod m) else Inl Div_by_zero),
      mpz_cmp_ui = (\<lambda>n d. sgn (n - int (unat d))), mpz_import = (\<lambda>ws. int (words_val ws)),
      mpz_export = (\<lambda>n. digits32 (nat n)), mpz_sub = (\<lambda>a b. a - b), mpz_mul_2exp = (\<lambda>a k. a * 2 ^ k),
      mpz_tdiv_q = (\<lambda>a b. if b \<noteq> 0 then Inr (quot_trunc a b) else Inl Div_by_zero),
      mpz_get_ui = (\<lambda>n. word_of_int \<bar>n\<bar>)\<rparr>"

lemma words_val_digits32: "words_val (digits32 n) = n"
proof (induction n rule: less_induct)
  case (less n)
  show ?case
  proof (cases "n = 0")
    case False
    then have "words_val (digits32 (n div 2 ^ 32)) = n div 2 ^ 32" by (intro less.IH) simp
    with False show ?thesis
      by (subst digits32.simps) (simp add: unat_of_nat take_bit_eq_mod)
  qed (simp add: digits32.simps)
qed

lemma length_digits32: "n < 2 ^ (32 * k) \<Longrightarrow> length (digits32 n) \<le> k"
proof (induction k arbitrary: n)
  case 0
  then show ?case by (simp add: digits32.simps)
next
  case (Suc k)
  then have "n div 2 ^ 32 < 2 ^ (32 * k)" by (simp add: less_mult_imp_div_less power_add mult.commute)
  from Suc.IH [OF this] show ?case by (subst digits32.simps) simp
qed

lemma gmp_exact_ok: "gmp_ok gmp_exact"
proof -
  have "length (digits32 (nat n)) \<le> k" if "0 \<le> n" "n < 2 ^ (32 * k)" for n :: int and k
    using that by (intro length_digits32) (simp add: nat_less_iff)
  then show ?thesis by (auto simp: gmp_ok_def gmp_exact_def words_val_digits32 sgn_0_0)
qed

definition ready_globals :: prime_globals where
  "ready_globals = \<lparr>zTwo = 2, PRIME_SIEVE = small_primes\<rparr>"

lemma ready_globals_ready: "prime_ready ready_globals"
  by (simp add: ready_globals_def prime_ready_def)

lemma set_bits_diff_zero: "set_bits_diff (Fin 0) = Inr 0"
proof -
  have "fl 0 = Fin 0" by code_simp
  then show ?thesis by (simp add: set_bits_diff_def d_to_word_def trunc_rat_def)
qed

section \<open>The share check\<close>

text \<open>
  C32: the sieve of Eratosthenes of the share check ends and returns exactly the primes below its size, in
  increasing order, for every size up to \<open>2 ^ 31\<close>.
\<close>

theorem sieve_holds_primes:
  assumes "unat n \<le> 2 ^ 31"
  shows "\<exists>s. eratos_thenes n = Some s \<and> map unat s = filter is_prime [2..<unat n]"
proof -
  have "map unat (map (of_nat :: nat \<Rightarrow> u32) (filter is_prime [2..<unat n])) = filter is_prime [2..<unat n]"
    using assms by (auto intro!: map_idI simp: unat_of_nat take_bit_nat_eq_self)
  then show ?thesis using eratos_thenes_primes [OF assms] by blast
qed

lemma sieve_holds_primes_witness:
  "\<exists>s. eratos_thenes 20 = Some s \<and> map unat s = [2, 3, 5, 7, 11, 13, 17, 19]"
proof -
  have "filter is_prime [2..<20] = [2, 3, 5, 7, 11, 13, 17, 19]" by code_simp
  then show ?thesis using sieve_holds_primes [of 20] by simp
qed

text \<open>
  C4: once the sieve is initialised, the verification of a share ends for every 1024 bit number. Zero and
  the numbers that fail the test have difficulty 0. Otherwise the search stops after at most 1160 odd
  numbers, at the first run of six that fail, the cluster has at most 428 members, and the difficulty lies
  between the size of the cluster and that size plus one.
\<close>

theorem share_verification_ends:
  assumes "gmp_ok g" and "prime_ready pg" and "width prime = 32"
  shows "(uval prime = 0 \<or> \<not> ptest pg (int (uval prime))) \<and> gmp_verification g pg prime = Some (Inr (Fin 0))
    \<or> (\<exists>d n. gmp_verification g pg prime = Some (Inr (Fin d)) \<and> n \<le> 1160
         \<and> ptest pg (int (uval prime)) \<and> cluster_ends pg (int (uval prime)) n
         \<and> cluster_primes pg (int (uval prime)) n \<le> 428
         \<and> of_nat (cluster_primes pg (int (uval prime)) n) \<le> d
         \<and> d \<le> of_nat (cluster_primes pg (int (uval prime)) n) + 1)"
proof (cases "uval prime = 0 \<or> \<not> ptest pg (int (uval prime))")
  case True
  then show ?thesis using gmp_verification_composite [OF assms(1,2) True] by simp
next
  case False
  then show ?thesis using gmp_verification_prime [OF assms] by blast
qed

lemma share_verification_ends_witness:
  "gmp_verification gmp_exact ready_globals (bu_assign64 32 15) = Some (Inr (Fin 0))"
proof -
  have "\<not> ptest ready_globals (int (uval (bu_assign64 32 15)))"
    by (simp add: uval_bu_assign64 ptest_def ready_globals_def small_primes_def)
  then show ?thesis
    using share_verification_ends [OF gmp_exact_ok ready_globals_ready, of "bu_assign64 32 15"] by simp
qed

text \<open>
  C31: the difficulty of every share can be encoded: the conversion of \<open>set_bits\<close> never leaves the range
  of its 32 bit result, which is between ten million times the size of the cluster and ten million more.
\<close>

theorem share_bits_in_range:
  assumes "gmp_ok g" and "prime_ready pg" and "width prime = 32"
  shows "\<exists>d k bits. gmp_verification g pg prime = Some (Inr (Fin d)) \<and> set_bits_diff (Fin d) = Inr bits
    \<and> k \<le> 428 \<and> 10000000 * k \<le> unat bits \<and> unat bits \<le> 10000000 * (k + 1)"
proof (cases "uval prime = 0 \<or> \<not> ptest pg (int (uval prime))")
  case True
  have bits: "set_bits_diff (Fin 0) = Inr 0" by (rule set_bits_diff_zero)
  show ?thesis
    using gmp_verification_composite [OF assms(1,2) True] bits
    by (intro exI [of _ 0] exI [of _ "0 :: nat"] exI [of _ "0 :: u32"]) simp
next
  case False
  then obtain d n where d: "gmp_verification g pg prime = Some (Inr (Fin d))"
    "cluster_primes pg (int (uval prime)) n \<le> 428" "of_nat (cluster_primes pg (int (uval prime)) n) \<le> d"
    "d \<le> of_nat (cluster_primes pg (int (uval prime)) n) + 1"
    using gmp_verification_prime [OF assms] by blast
  from set_bits_diff_ok [OF d(3,4,2)] d(1,2) show ?thesis by blast
qed

lemma share_bits_in_range_witness:
  "\<exists>d bits. gmp_verification gmp_exact ready_globals (bu_assign64 32 15) = Some (Inr (Fin d))
    \<and> set_bits_diff (Fin d) = Inr bits"
  using share_bits_in_range [OF gmp_exact_ok ready_globals_ready, of "bu_assign64 32 15"] by auto

text \<open>
  As the program runs, no share is ever accepted. The globals of the check are never initialised, and
  with their static values every number has difficulty 0, whose encoding is below every minimum share.
\<close>

theorem no_share_before_initialisation:
  assumes "gmp_ok g" and "0 < uval prime" and "0 < min_share"
  shows "\<exists>bits. gmp_verification g prime_static prime = Some (Inr (Fin 0)) \<and> set_bits_diff (Fin 0) = Inr bits
    \<and> bits < min_share"
proof -
  have "set_bits_diff (Fin 0) = Inr 0" by (rule set_bits_diff_zero)
  with gmp_verification_static [OF assms(1,2)] assms(3) show ?thesis by auto
qed

lemma no_share_before_initialisation_witness:
  "gmp_verification gmp_exact prime_static (bu_assign64 32 13) = Some (Inr (Fin 0))"
  using no_share_before_initialisation [OF gmp_exact_ok, of "bu_assign64 32 13" 40000000]
  by (auto simp: uval_bu_assign64)

section \<open>1024 bit integers\<close>

text \<open>
  C36: the operations of \<open>base_uint\<close> are those of the numbers modulo \<open>2 ^ BITS\<close>: addition and
  subtraction wrap, the shifts multiply and divide, and the comparison is that of the numbers.
\<close>

theorem base_uint_arithmetic:
  assumes "width a = width b"
  shows "uval (bu_add a b) = (uval a + uval b) mod 2 ^ (32 * width a)
    \<and> uval (bu_sub a b) = (uval a + (2 ^ (32 * width a) - uval b)) mod 2 ^ (32 * width a)
    \<and> uval (bu_shl a s) = uval a * 2 ^ unat s mod 2 ^ (32 * width a)
    \<and> uval (bu_shr a s) = uval a div 2 ^ unat s
    \<and> (bu_lt a b \<longleftrightarrow> uval a < uval b) \<and> (bu_eq a b \<longleftrightarrow> uval a = uval b)"
  using assms uval_bu_add [of a b] uval_bu_sub [of a b] uval_bu_shl [of a s] uval_bu_shr [of a s]
    bu_order [of a b] bu_eq_iff [of a b] uval_eq_iff [of a b] by simp

lemma base_uint_arithmetic_witness:
  "uval (bu_sub (bu_assign64 8 3) (bu_assign64 8 5)) = 2 ^ 256 - 2"
  using base_uint_arithmetic [of "bu_assign64 8 3" "bu_assign64 8 5" 0] by (simp add: uval_bu_assign64)

text \<open>
  The bytes of an integer determine it: \<open>SetBytes\<close> reads back what \<open>GetBytes\<close> wrote, also from a
  longer vector, and faults exactly on vectors that are too short.
\<close>

theorem base_uint_bytes_roundtrip:
  "SetBytes (width a) (GetBytes a @ rest) = Inr a \<and> (is_ok_res (SetBytes w D) \<longleftrightarrow> 4 * w \<le> length D)"
proof -
  have "4 * w \<le> length D" if "is_ok_res (SetBytes w D)" using that SetBytes_long by (auto simp: is_ok_res_iff)
  moreover have "is_ok_res (SetBytes w D)" if "4 * w \<le> length D"
    using that SetBytes_short [of w D] by (cases "SetBytes w D") auto
  ultimately show ?thesis using SetBytes_GetBytes [of a rest] by blast
qed

end
