(* ===== verification/Network_Types.thy ===== *)
theory Network_Types
  imports Prelude
begin

text \<open>
  The result codes of \<open>src/src/network/types.hpp\<close>: what the network layer tells the handler of a connection
  and returns from its operations.
\<close>

section \<open>Result codes of the network\<close>

datatype result_code =
    result_ok | result_error
  | socket_ok | socket_error
  | connection_ok | connection_error | connection_closed | connection_aborted | connection_declined
  | receive_ok
  | transmit_ok

definition code_value :: "result_code \<Rightarrow> u32" where
  "code_value c =
     (case c of result_ok \<Rightarrow> 0x00 | result_error \<Rightarrow> 0x01
      | socket_ok \<Rightarrow> 0x10 | socket_error \<Rightarrow> 0x11
      | connection_ok \<Rightarrow> 0x20 | connection_error \<Rightarrow> 0x21 | connection_closed \<Rightarrow> 0x22
      | connection_aborted \<Rightarrow> 0x23 | connection_declined \<Rightarrow> 0x24
      | receive_ok \<Rightarrow> 0x30
      | transmit_ok \<Rightarrow> 0x40)"

datatype result_category =
  category_general | category_socket | category_connection | category_receive | category_transmit

definition category_value :: "result_category \<Rightarrow> u32" where
  "category_value c =
     (case c of category_general \<Rightarrow> 0x00 | category_socket \<Rightarrow> 0x10 | category_connection \<Rightarrow> 0x20
      | category_receive \<Rightarrow> 0x30 | category_transmit \<Rightarrow> 0x40)"

definition category :: "result_code \<Rightarrow> u32" where
  "category code = code_value code AND 0xF0"

definition is_ok :: "result_code \<Rightarrow> bool" where
  "is_ok code \<longleftrightarrow> code_value code AND 0x0F = 0"

definition is_error :: "result_code \<Rightarrow> bool" where
  "is_error code \<longleftrightarrow> \<not> is_ok code"

text \<open>The results that end a connection.\<close>

definition ends_connection :: "result_code \<Rightarrow> bool" where
  "ends_connection result \<longleftrightarrow>
     result \<in> {connection_declined, connection_aborted, connection_error, connection_closed}"

lemma code_value_inj: "code_value c = code_value d \<longleftrightarrow> c = d"
  by (cases c; cases d) (simp_all add: code_value_def)

end
