(* ===== verification/Base58.thy ===== *)
theory Base58
  imports LLP_Block
begin

text \<open>
  \<open>src/src/base58.h\<close>: the base 58 coding of addresses, with the checksum, and the check of a Nexus
  address that a login has to pass. The hash \<open>SK256\<close> is an argument. The two conversion loops run over
  their digit vector from its end; the model keeps the vector in that order, least significant digit
  first. The digits are remainders modulo 58 or 256, so they fit the \<open>unsigned char\<close> they are stored in.
\<close>

section \<open>The alphabet\<close>

definition pszBase58 :: string where
  "pszBase58 = ''123456789ABCDEFGHJKLMNPQRSTUVWXYZabcdefghijkmnopqrstuvwxyz''"

definition mapBase58 :: "int list" where
  "mapBase58 =
    [-1,-1,-1,-1,-1,-1,-1,-1, -1,-1,-1,-1,-1,-1,-1,-1,
     -1,-1,-1,-1,-1,-1,-1,-1, -1,-1,-1,-1,-1,-1,-1,-1,
     -1,-1,-1,-1,-1,-1,-1,-1, -1,-1,-1,-1,-1,-1,-1,-1,
     -1, 0, 1, 2, 3, 4, 5, 6,  7, 8,-1,-1,-1,-1,-1,-1,
     -1, 9,10,11,12,13,14,15, 16,-1,17,18,19,20,21,-1,
     22,23,24,25,26,27,28,29, 30,31,32,-1,-1,-1,-1,-1,
     -1,33,34,35,36,37,38,39, 40,41,42,43,-1,44,45,46,
     47,48,49,50,51,52,53,54, 55,56,57,-1,-1,-1,-1,-1,
     -1,-1,-1,-1,-1,-1,-1,-1, -1,-1,-1,-1,-1,-1,-1,-1,
     -1,-1,-1,-1,-1,-1,-1,-1, -1,-1,-1,-1,-1,-1,-1,-1,
     -1,-1,-1,-1,-1,-1,-1,-1, -1,-1,-1,-1,-1,-1,-1,-1,
     -1,-1,-1,-1,-1,-1,-1,-1, -1,-1,-1,-1,-1,-1,-1,-1,
     -1,-1,-1,-1,-1,-1,-1,-1, -1,-1,-1,-1,-1,-1,-1,-1,
     -1,-1,-1,-1,-1,-1,-1,-1, -1,-1,-1,-1,-1,-1,-1,-1,
     -1,-1,-1,-1,-1,-1,-1,-1, -1,-1,-1,-1,-1,-1,-1,-1,
     -1,-1,-1,-1,-1,-1,-1,-1, -1,-1,-1,-1,-1,-1,-1,-1]"

definition IsSpace :: "char \<Rightarrow> bool" where
  "IsSpace c \<longleftrightarrow> c = CHR 0x20 \<or> c = CHR 0x0C \<or> c = CHR 0x0A \<or> c = CHR 0x0D \<or> c = CHR 0x09 \<or> c = CHR 0x0B"

section \<open>The conversion loops\<close>

text \<open>
  "Apply \<open>b = b * m + carry\<close>" in base \<open>base\<close>: the digits from the reverse iterator on, the index \<open>i\<close>
  and the carry. The result is the digits, the final index and the carry.
\<close>

fun mul_add :: "nat \<Rightarrow> nat \<Rightarrow> nat \<Rightarrow> nat \<Rightarrow> nat \<Rightarrow> nat list \<Rightarrow> nat list \<times> nat \<times> nat" where
  "mul_add base m len i carry [] = ([], i, carry)"
| "mul_add base m len i carry (d # ds) =
     (if carry \<noteq> 0 \<or> i < len
      then let c = carry + m * d; (ds', i', carry') = mul_add base m len (Suc i) (c div base) ds
           in (c mod base # ds', i', carry')
      else (d # ds, i, carry))"

text \<open>One turn of the outer loop, with the assertion that follows the inner loop.\<close>

definition put_digit :: "nat \<Rightarrow> nat \<Rightarrow> nat \<Rightarrow> nat list \<times> nat \<Rightarrow> (nat list \<times> nat) res" where
  "put_digit base m carry s =
     (case mul_add base m (snd s) 0 carry (fst s) of
        (b, i, c) \<Rightarrow> if c \<noteq> 0 then Inl Assert_failed else Inr (b, i))"

text \<open>The digits from \<open>begin() + (size - length)\<close> on, without leading zeros.\<close>

definition significant :: "nat list \<times> nat \<Rightarrow> nat list" where
  "significant s = dropWhile (\<lambda>d. d = 0) (rev (take (snd s) (fst s)))"

section \<open>Encoding\<close>

definition EncodeBase58_range :: "bytes \<Rightarrow> string res" where
  "EncodeBase58_range p =
     (let zeroes = length (takeWhile (\<lambda>b. b = 0) p); p = dropWhile (\<lambda>b. b = 0) p
      in rbind (int32 (int (length p * 138 div 100 + 1))) (\<lambda>size.
         rbind (rfold (\<lambda>b. put_digit 58 256 (unat b)) p (replicate (nat size) 0, 0)) (\<lambda>s.
           Inr (replicate zeroes (CHR ''1'') @ map (\<lambda>d. pszBase58 ! d) (significant s)))))"

definition EncodeBase58 :: "bytes \<Rightarrow> string res" where
  "EncodeBase58 vch = rbind (vec_at vch 0) (\<lambda>_. EncodeBase58_range vch)"

section \<open>Decoding\<close>

text \<open>The argument is a C string, up to its terminating zero; \<open>vch\<close> is the output vector.\<close>

fun decode_digits :: "string \<Rightarrow> nat list \<times> nat \<Rightarrow> (string \<times> nat list \<times> nat) option res" where
  "decode_digits [] s = Inr (Some ([], s))"
| "decode_digits (c # cs) s =
     (if IsSpace c then Inr (Some (c # cs, s))
      else let carry = mapBase58 ! (of_char c)
           in if carry = -1 then Inr None
              else rbind (put_digit 256 58 (nat carry) s) (decode_digits cs))"

definition DecodeBase58 :: "string \<Rightarrow> bytes \<Rightarrow> (bool \<times> bytes) res" where
  "DecodeBase58 psz vch =
     (let psz = dropWhile IsSpace psz;
          zeroes = length (takeWhile (\<lambda>c. c = CHR ''1'') psz);
          psz = dropWhile (\<lambda>c. c = CHR ''1'') psz
      in rbind (int32 (int (length psz * 733 div 1000 + 1))) (\<lambda>size.
         rbind (decode_digits psz (replicate (nat size) 0, 0)) (\<lambda>r.
         case r of
           None \<Rightarrow> Inr (False, vch)
         | Some (rest, s) \<Rightarrow>
             if dropWhile IsSpace rest \<noteq> [] then Inr (False, vch)
             else Inr (True, replicate zeroes 0 @ map of_nat (significant s)))))"

definition c_str :: "string \<Rightarrow> string" where
  "c_str s = takeWhile (\<lambda>c. c \<noteq> CHR 0x00) s"

section \<open>The checksum\<close>

text \<open>The memory of a hash: its words, least significant byte first.\<close>

definition hash_memory :: "base_uint \<Rightarrow> bytes" where
  "hash_memory h = concat (map mem32 (pn h))"

definition EncodeBase58Check :: "(bytes \<Rightarrow> base_uint) \<Rightarrow> bytes \<Rightarrow> string res" where
  "EncodeBase58Check SK256 vchIn = EncodeBase58 (vchIn @ take 4 (hash_memory (SK256 vchIn)))"

definition DecodeBase58Check :: "(bytes \<Rightarrow> base_uint) \<Rightarrow> string \<Rightarrow> bytes \<Rightarrow> (bool \<times> bytes) res" where
  "DecodeBase58Check SK256 psz vchRet =
     rbind (DecodeBase58 psz vchRet) (\<lambda>(ok, v).
       if \<not> ok then Inr (False, v)
       else if length v < 4 then Inr (False, [])
       else let data = take (length v - 4) v
            in if take 4 (hash_memory (SK256 data)) \<noteq> drop (length v - 4) v then Inr (False, [])
               else Inr (True, data))"

section \<open>Addresses\<close>

record base58_data =
  b58_version :: u8
  vchData :: bytes

definition Base58Data_default :: base58_data where
  "Base58Data_default = \<lparr>b58_version = 0, vchData = []\<rparr>"

definition SetData :: "u8 \<Rightarrow> bytes \<Rightarrow> base58_data" where
  "SetData nVersionIn pdata = \<lparr>b58_version = nVersionIn, vchData = pdata\<rparr>"

definition SetString :: "(bytes \<Rightarrow> base_uint) \<Rightarrow> string \<Rightarrow> (bool \<times> base58_data) res" where
  "SetString SK256 str =
     rbind (DecodeBase58Check SK256 (c_str str) []) (\<lambda>(_, vchTemp).
       if vchTemp = [] then Inr (False, \<lparr>b58_version = 0, vchData = []\<rparr>)
       else Inr (True, \<lparr>b58_version = hd vchTemp, vchData = tl vchTemp\<rparr>))"

definition Base58Data_ToString :: "(bytes \<Rightarrow> base_uint) \<Rightarrow> base58_data \<Rightarrow> string res" where
  "Base58Data_ToString SK256 d = EncodeBase58Check SK256 ([b58_version d] @ vchData d)"

fun vec_less :: "bytes \<Rightarrow> bytes \<Rightarrow> bool" where
  "vec_less [] ys = (ys \<noteq> [])"
| "vec_less (x # xs) [] = False"
| "vec_less (x # xs) (y # ys) = (x < y \<or> (x = y \<and> vec_less xs ys))"

definition CompareTo :: "base58_data \<Rightarrow> base58_data \<Rightarrow> int" where
  "CompareTo a b =
     (if b58_version a < b58_version b then -1
      else if b58_version a > b58_version b then 1
      else if vec_less (vchData a) (vchData b) then -1
      else if vec_less (vchData b) (vchData a) then 1
      else 0)"

abbreviation PUBKEY_ADDRESS :: u8 where "PUBKEY_ADDRESS \<equiv> 42"
abbreviation SCRIPT_ADDRESS :: u8 where "SCRIPT_ADDRESS \<equiv> 104"

definition SetHash256 :: "base_uint \<Rightarrow> base58_data" where
  "SetHash256 hash256 = SetData PUBKEY_ADDRESS (take 32 (hash_memory hash256))"

definition SetScriptHash256 :: "base_uint \<Rightarrow> base58_data" where
  "SetScriptHash256 hash256 = SetData SCRIPT_ADDRESS (take 32 (hash_memory hash256))"

definition SetPubKey :: "(bytes \<Rightarrow> base_uint) \<Rightarrow> bytes \<Rightarrow> base58_data" where
  "SetPubKey SK256 vchPubKey = SetHash256 (SK256 vchPubKey)"

definition IsValid :: "base58_data \<Rightarrow> bool" where
  "IsValid d \<longleftrightarrow>
     (if b58_version d = PUBKEY_ADDRESS then length (vchData d) = 32
      else if b58_version d = SCRIPT_ADDRESS then length (vchData d) = 32
      else False)"

definition IsScript :: "base58_data \<Rightarrow> bool" where
  "IsScript d \<longleftrightarrow> (if \<not> IsValid d then False else b58_version d = SCRIPT_ADDRESS)"

text \<open>The 32 bytes are copied into the words of the hash, least significant byte first.\<close>

fun mem_words :: "bytes \<Rightarrow> u32 list" where
  "mem_words (a # b # c # d # bs) = bytes2uint [d, c, b, a] 0 # mem_words bs"
| "mem_words _ = []"

definition GetHash256 :: "base58_data \<Rightarrow> base_uint res" where
  "GetHash256 d =
     (if length (vchData d) \<noteq> 32 then Inl Assert_failed else Inr (BaseUint (mem_words (vchData d))))"

text \<open>\<open>NexusAddress(strAddress).IsValid()\<close>, the check of a login.\<close>

definition NexusAddress :: "(bytes \<Rightarrow> base_uint) \<Rightarrow> string \<Rightarrow> base58_data res" where
  "NexusAddress SK256 strAddress = rbind (SetString SK256 strAddress) (\<lambda>(_, d). Inr d)"

definition valid_address :: "(bytes \<Rightarrow> base_uint) \<Rightarrow> string \<Rightarrow> bool res" where
  "valid_address SK256 s = rbind (NexusAddress SK256 s) (\<lambda>d. Inr (IsValid d))"

end
