(* ===== verification/Pool_State.thy ===== *)
theory Pool_State
  imports Network_Types Prime Coinbase Payout_Manager Packet Daemon_Packet LLP_Ddos Base58
begin

text \<open>
  The objects of the running server and how they hold each other: the miner connections
  (\<open>Pool_connection\<close>), the wallet connection (\<open>Daemon_connection\<close>) with its list of
  \<open>Pool_connection_data\<close>, the shared registry, the globals of the share check, and the bytes handed to
  the sockets. A member \<open>m_x\<close> of \<open>Pool_connection\<close> is the field \<open>pc_x\<close>, of \<open>Pool_connection_data\<close>
  \<open>pd_x\<close>, of \<open>Daemon_connection\<close> \<open>dc_x\<close>.

  Shared and weak pointers to a miner connection are numbers: \<open>w_pools\<close> maps the number of a living
  object to it, so \<open>m_connection.lock()\<close> is a lookup. The mutexes protect single operations; an
  operation is one step of the model. The clock is read once for each event, as \<open>now\<close>.
\<close>

section \<open>Code the server only calls\<close>

text \<open>
  \<open>pf_pow\<close> is \<open>std::pow\<close>, \<open>pf_sort\<close> is \<open>std::sort\<close> on strings, \<open>pf_gmp\<close> the big number library,
  \<open>pf_SK256\<close> and \<open>pf_SK1024\<close> the hash functions, \<open>pf_shl32\<close> the shift of \<open>bytes2uint64\<close>.
\<close>

record platform =
  pf_shl32 :: "u32 \<Rightarrow> u32"
  pf_SK256 :: "bytes \<Rightarrow> base_uint"
  pf_SK1024 :: "bytes \<Rightarrow> base_uint"
  pf_gmp :: gmp
  pf_pow :: "double \<Rightarrow> double \<Rightarrow> double"
  pf_sort :: sorter

section \<open>Timers\<close>

text \<open>
  A timer is the waiting period it was started with, in milliseconds, while it waits. \<open>start\<close>
  cancels a wait that is under way, whose handler then runs with \<open>canceled\<close> set.
\<close>

type_synonym chrono_timer = "nat option"

definition timer_start_milliseconds :: "nat \<Rightarrow> chrono_timer" where
  "timer_start_milliseconds expires_in = Some expires_in"

definition timer_start_seconds :: "nat \<Rightarrow> chrono_timer" where
  "timer_start_seconds expires_in = Some (1000 * expires_in)"

definition timer_cancel :: "chrono_timer \<Rightarrow> chrono_timer" where
  "timer_cancel t = None"

section \<open>Miner connections\<close>

record pool_connection =
  pc_connection :: bool
  pc_ddos :: "ddos_filter option"
  pc_primes :: "base_uint set"
  pc_blocks_requested :: "(base_uint, cblock) omap"
  pc_nxsaddress :: string
  pc_logged_in :: bool
  pc_isDDOS :: bool
  pc_min_share :: u32
  pc_connection_closed :: bool
  pc_remote_address :: string
  pc_num_blocks_requested :: u16
  pc_stats_address :: string

section \<open>The wallet connection\<close>

record pool_connection_data =
  pd_connection :: nat
  pd_blocks_requested :: u16
  pd_blocks_waiting :: u16
  pd_submit_block :: "cblock option"

record daemon_connection =
  dc_connection :: bool
  dc_maintenance_timer :: chrono_timer
  dc_block_timer :: chrono_timer
  dc_orphan_check_timer :: chrono_timer
  dc_get_height_timer :: chrono_timer
  dc_pool_connections :: "pool_connection_data list"
  dc_coinbase_pending :: bool
  dc_new_block :: bool
  dc_round_reward :: u64
  dc_last_blockfinder :: string
  dc_hash_submit_block :: base_uint

section \<open>The running server\<close>

datatype peer = Miner nat | Wallet

text \<open>
  \<open>w_registry_expired\<close> and \<open>w_daemon_expired\<close> tell whether the weak pointers to the registry and to the
  wallet connection still lock. \<open>w_server_pools\<close> is the list of shared pointers of the server.
\<close>

record world =
  w_registry :: data_registry
  w_registry_expired :: bool
  w_daemon :: daemon_connection
  w_daemon_expired :: bool
  w_pools :: "nat \<Rightarrow> pool_connection option"
  w_server_pools :: "nat list"
  w_server_timer :: chrono_timer
  w_prime :: prime_globals
  w_out :: "(peer \<times> bytes) list"

named_theorems world_simps \<open>projections of the state after an update\<close>

definition set_pool :: "nat \<Rightarrow> pool_connection \<Rightarrow> world \<Rightarrow> world" where
  "set_pool i p w = w\<lparr>w_pools := (w_pools w)(i \<mapsto> p)\<rparr>"

definition set_daemon :: "daemon_connection \<Rightarrow> world \<Rightarrow> world" where
  "set_daemon d w = w\<lparr>w_daemon := d\<rparr>"

definition set_registry :: "data_registry \<Rightarrow> world \<Rightarrow> world" where
  "set_registry r w = w\<lparr>w_registry := r\<rparr>"

definition put :: "peer \<Rightarrow> bytes \<Rightarrow> world \<Rightarrow> world" where
  "put to bs w = w\<lparr>w_out := w_out w @ [(to, bs)]\<rparr>"

text \<open>The object behind \<open>self\<close>, and an update of it that may fault.\<close>

definition with_pool :: "nat \<Rightarrow> (pool_connection \<Rightarrow> world \<Rightarrow> 'a res) \<Rightarrow> world \<Rightarrow> 'a res" where
  "with_pool i f w = (case w_pools w i of None \<Rightarrow> Inl Null_deref | Some p \<Rightarrow> f p w)"

definition on_pool :: "nat \<Rightarrow> (pool_connection \<Rightarrow> pool_connection res) \<Rightarrow> world \<Rightarrow> world res" where
  "on_pool i f = with_pool i (\<lambda>p w. rbind (f p) (\<lambda>p'. Inr (set_pool i p' w)))"

text \<open>\<open>m_connection->transmit(packet.get_bytes())\<close> of a miner connection and of the wallet connection.\<close>

definition transmit_miner :: "nat \<Rightarrow> packet \<Rightarrow> world \<Rightarrow> world res" where
  "transmit_miner i packet = with_pool i (\<lambda>p w.
     if \<not> pc_connection p then Inl Null_deref
     else rbind (get_bytes packet) (\<lambda>bs. Inr (put (Miner i) bs w)))"

definition transmit_wallet :: "packet \<Rightarrow> world \<Rightarrow> world res" where
  "transmit_wallet packet w =
     (if \<not> dc_connection (w_daemon w) then Inl Null_deref
      else rbind (get_bytes packet) (\<lambda>bs. Inr (put Wallet bs w)))"

section \<open>Facts\<close>

lemma set_simps [simp, world_simps]:
  "w_pools (set_pool i p w) = (w_pools w)(i \<mapsto> p)"
  "w_registry (set_pool i p w) = w_registry w" "w_daemon (set_pool i p w) = w_daemon w"
  "w_registry_expired (set_pool i p w) = w_registry_expired w" "w_daemon_expired (set_pool i p w) = w_daemon_expired w"
  "w_out (set_pool i p w) = w_out w" "w_prime (set_pool i p w) = w_prime w"
  "w_server_pools (set_pool i p w) = w_server_pools w" "w_server_timer (set_pool i p w) = w_server_timer w"
  "w_daemon (set_daemon d w) = d" "w_pools (set_daemon d w) = w_pools w"
  "w_registry (set_daemon d w) = w_registry w"
  "w_registry_expired (set_daemon d w) = w_registry_expired w" "w_daemon_expired (set_daemon d w) = w_daemon_expired w"
  "w_out (set_daemon d w) = w_out w" "w_prime (set_daemon d w) = w_prime w"
  "w_server_pools (set_daemon d w) = w_server_pools w" "w_server_timer (set_daemon d w) = w_server_timer w"
  "w_registry (set_registry r w) = r" "w_pools (set_registry r w) = w_pools w"
  "w_daemon (set_registry r w) = w_daemon w"
  "w_registry_expired (set_registry r w) = w_registry_expired w" "w_daemon_expired (set_registry r w) = w_daemon_expired w"
  "w_out (set_registry r w) = w_out w" "w_prime (set_registry r w) = w_prime w"
  "w_server_pools (set_registry r w) = w_server_pools w" "w_server_timer (set_registry r w) = w_server_timer w"
  by (simp_all add: set_pool_def set_daemon_def set_registry_def)

lemma put_simps [simp, world_simps]:
  "w_out (put q bs w) = w_out w @ [(q, bs)]" "w_pools (put q bs w) = w_pools w"
  "w_registry (put q bs w) = w_registry w" "w_daemon (put q bs w) = w_daemon w"
  "w_registry_expired (put q bs w) = w_registry_expired w" "w_daemon_expired (put q bs w) = w_daemon_expired w"
  "w_prime (put q bs w) = w_prime w"
  "w_server_pools (put q bs w) = w_server_pools w" "w_server_timer (put q bs w) = w_server_timer w"
  by (simp_all add: put_def)

lemma with_pool_Inr:
  "with_pool i f w = Inr v \<longleftrightarrow> (\<exists>p. w_pools w i = Some p \<and> f p w = Inr v)"
  by (auto simp: with_pool_def split: option.splits)

lemma with_pool_Some [simp]: "w_pools w i = Some p \<Longrightarrow> with_pool i f w = f p w"
  by (simp add: with_pool_def)

lemma on_pool_Inr:
  "on_pool i f w = Inr w' \<longleftrightarrow> (\<exists>p p'. w_pools w i = Some p \<and> f p = Inr p' \<and> w' = set_pool i p' w)"
  by (auto simp: on_pool_def with_pool_Inr rbind_eq_Inr)

lemma on_pool_Some [simp]:
  "w_pools w i = Some p \<Longrightarrow> on_pool i f w = rbind (f p) (\<lambda>p'. Inr (set_pool i p' w))"
  by (simp add: on_pool_def)

lemma transmit_miner_Inr:
  "transmit_miner i packet w = Inr w' \<longleftrightarrow>
     (\<exists>p bs. w_pools w i = Some p \<and> pc_connection p \<and> get_bytes packet = Inr bs \<and> w' = put (Miner i) bs w)"
  by (auto simp: transmit_miner_def with_pool_Inr rbind_eq_Inr split: if_splits)

lemma transmit_wallet_Inr:
  "transmit_wallet packet w = Inr w' \<longleftrightarrow>
     dc_connection (w_daemon w) \<and> (\<exists>bs. get_bytes packet = Inr bs \<and> w' = put Wallet bs w)"
  by (auto simp: transmit_wallet_def rbind_eq_Inr)

lemma is_ok_iff: "is_ok c \<longleftrightarrow> c \<in> {result_ok, socket_ok, connection_ok, receive_ok, transmit_ok}"
  by (cases c) (simp_all add: is_ok_def code_value_def)

lemma category_cases: "\<exists>k. category c = category_value k"
proof (cases c)
qed (auto simp: category_def code_value_def category_value_def
       intro: exI [of _ category_general] exI [of _ category_socket] exI [of _ category_connection]
         exI [of _ category_receive] exI [of _ category_transmit])

end
