(* ===== verification/Daemon_Pools.thy ===== *)
theory Daemon_Pools
  imports Pool_State
begin

text \<open>
  The list of miner connections that the wallet connection keeps (\<open>src/src/daemon_connection.cpp\<close>,
  lines 253 to 317): registration, removal of expired connections, and the two calls the miner
  connections make, \<open>request_block\<close> and \<open>submit_block\<close>. Both find their entry by the remote address.
\<close>

section \<open>Operations\<close>

definition Pool_connection_data_new :: "nat \<Rightarrow> u16 \<Rightarrow> u16 \<Rightarrow> pool_connection_data" where
  "Pool_connection_data_new connection blocks_requested blocks_waiting =
     \<lparr>pd_connection = connection, pd_blocks_requested = blocks_requested,
      pd_blocks_waiting = blocks_waiting, pd_submit_block = None\<rparr>"

definition add_pool_connection :: "nat \<Rightarrow> daemon_connection \<Rightarrow> daemon_connection" where
  "add_pool_connection connection d =
     d\<lparr>dc_pool_connections := dc_pool_connections d @ [Pool_connection_data_new connection 0 0]\<rparr>"

text \<open>
  The clean-up loop from the iterator at position \<open>i\<close>: \<open>erase\<close> returns the iterator of the following
  element, which \<open>++iter\<close> then skips. Stepping past the end of the list faults.
\<close>

function cleanup_from :: "(nat \<Rightarrow> bool) \<Rightarrow> nat \<Rightarrow> pool_connection_data list \<Rightarrow> pool_connection_data list res" where
  "cleanup_from expired i v =
     (if i = length v then Inr v
      else if i > length v then Inl End_deref
      else let v' = (if expired (pd_connection (v ! i)) then take i v @ drop (Suc i) v else v)
           in cleanup_from expired (Suc i) v')"
  by pat_completeness auto
termination
  by (relation "measure (\<lambda>(_, i, v). length v - i)") (auto split: if_splits)

definition cleanup_expired_pool_connections :: "world \<Rightarrow> daemon_connection \<Rightarrow> daemon_connection res" where
  "cleanup_expired_pool_connections w d =
     rbind (cleanup_from (\<lambda>i. w_pools w i = None) 0 (dc_pool_connections d)) (\<lambda>v.
       Inr (d\<lparr>dc_pool_connections := v\<rparr>))"

text \<open>The position of the first entry whose connection is alive and has the address.\<close>

definition has_address :: "(nat \<Rightarrow> pool_connection option) \<Rightarrow> string \<Rightarrow> pool_connection_data \<Rightarrow> bool" where
  "has_address pools ip_address e =
     (case pools (pd_connection e) of None \<Rightarrow> False | Some p \<Rightarrow> pc_remote_address p = ip_address)"

fun find_pool :: "(nat \<Rightarrow> pool_connection option) \<Rightarrow> string \<Rightarrow> pool_connection_data list \<Rightarrow> nat option" where
  "find_pool pools ip_address [] = None"
| "find_pool pools ip_address (e # es) =
     (if has_address pools ip_address e then Some 0 else map_option Suc (find_pool pools ip_address es))"

text \<open>When there is none the error is logged and the end iterator is dereferenced.\<close>

definition find_pool_connection :: "world \<Rightarrow> string \<Rightarrow> nat res" where
  "find_pool_connection w ip_address =
     (case find_pool (w_pools w) ip_address (dc_pool_connections (w_daemon w)) of
        None \<Rightarrow> Inl End_deref | Some n \<Rightarrow> Inr n)"

definition set_entry :: "nat \<Rightarrow> pool_connection_data \<Rightarrow> world \<Rightarrow> world" where
  "set_entry n e w =
     set_daemon ((w_daemon w)\<lparr>dc_pool_connections := (dc_pool_connections (w_daemon w))[n := e]\<rparr>) w"

definition request_block :: "u16 \<Rightarrow> string \<Rightarrow> world \<Rightarrow> world res" where
  "request_block blocks_requested ip_address w =
     rbind (find_pool_connection w ip_address) (\<lambda>n.
       Inr (set_entry n ((dc_pool_connections (w_daemon w) ! n)\<lparr>pd_blocks_requested := blocks_requested\<rparr>) w))"

definition daemon_submit_block :: "cblock \<Rightarrow> string \<Rightarrow> world \<Rightarrow> (bool \<times> world) res" where
  "daemon_submit_block block ip_address w =
     rbind (find_pool_connection w ip_address) (\<lambda>n.
       let e = dc_pool_connections (w_daemon w) ! n
       in if pd_submit_block e = None
          then Inr (True, set_entry n (e\<lparr>pd_submit_block := Some block\<rparr>) w)
          else Inr (False, w))"

section \<open>The registered connections\<close>

text \<open>The entry that stands for an address, if there is one.\<close>

definition entry_of :: "world \<Rightarrow> string \<Rightarrow> pool_connection_data option" where
  "entry_of w ip =
     map_option (\<lambda>n. dc_pool_connections (w_daemon w) ! n)
       (find_pool (w_pools w) ip (dc_pool_connections (w_daemon w)))"

lemma find_pool_Some:
  "find_pool pools ip es = Some n \<Longrightarrow>
     n < length es \<and> has_address pools ip (es ! n) \<and> (\<forall>m < n. \<not> has_address pools ip (es ! m))"
proof (induction es arbitrary: n)
  case Nil
  then show ?case by simp
next
  case (Cons e es)
  show ?case
  proof (cases "has_address pools ip e")
    case True
    then show ?thesis using Cons.prems by simp
  next
    case False
    then obtain m where "find_pool pools ip es = Some m" "n = Suc m" using Cons.prems by auto
    with Cons.IH [of m] False show ?thesis by (auto simp: nth_Cons split: nat.splits)
  qed
qed

lemma find_pool_None: "find_pool pools ip es = None \<longleftrightarrow> (\<forall>e \<in> set es. \<not> has_address pools ip e)"
  by (induction es) auto

lemma find_pool_update:
  assumes "pd_connection e = pd_connection (es ! m)"
  shows "find_pool pools ip (es[m := e]) = find_pool pools ip es"
  using assms
proof (induction es arbitrary: m)
  case Nil
  then show ?case by simp
next
  case (Cons x es)
  then show ?case by (cases m) (auto simp: has_address_def)
qed

lemma find_pool_append:
  "find_pool pools ip (es @ fs) =
     (case find_pool pools ip es of Some n \<Rightarrow> Some n
      | None \<Rightarrow> map_option ((+) (length es)) (find_pool pools ip fs))"
  by (induction es; cases "find_pool pools ip fs") (auto split: option.splits)

lemma find_unique:
  assumes "find_pool pools ip es = Some n" and "find_pool pools ip' es = Some m" and "ip \<noteq> ip'"
  shows "n \<noteq> m"
  using find_pool_Some [OF assms(1)] find_pool_Some [OF assms(2)] assms(3)
  by (auto simp: has_address_def split: option.splits)

lemma set_entry_simps [simp, world_simps]:
  "w_pools (set_entry n e w) = w_pools w" "w_registry (set_entry n e w) = w_registry w"
  "dc_pool_connections (w_daemon (set_entry n e w)) = (dc_pool_connections (w_daemon w))[n := e]"
  "dc_connection (w_daemon (set_entry n e w)) = dc_connection (w_daemon w)"
  "w_registry_expired (set_entry n e w) = w_registry_expired w" "w_daemon_expired (set_entry n e w) = w_daemon_expired w"
  "w_out (set_entry n e w) = w_out w" "w_prime (set_entry n e w) = w_prime w"
  "w_server_pools (set_entry n e w) = w_server_pools w" "w_server_timer (set_entry n e w) = w_server_timer w"
  by (simp_all add: set_entry_def)

lemma entry_of_set_entry:
  assumes "find_pool (w_pools w) ip (dc_pool_connections (w_daemon w)) = Some n"
    and "pd_connection e = pd_connection (dc_pool_connections (w_daemon w) ! n)"
  shows "entry_of (set_entry n e w) ip' = (if ip' = ip then Some e else entry_of w ip')"
proof -
  have f: "find_pool (w_pools w) ip' ((dc_pool_connections (w_daemon w))[n := e])
      = find_pool (w_pools w) ip' (dc_pool_connections (w_daemon w))" for ip'
    using assms(2) by (rule find_pool_update)
  have n: "n < length (dc_pool_connections (w_daemon w))" using find_pool_Some [OF assms(1)] by blast
  have "n \<noteq> m" if "find_pool (w_pools w) ip' (dc_pool_connections (w_daemon w)) = Some m" "ip' \<noteq> ip" for m
    using find_unique [OF assms(1) that(1)] that(2) by simp
  then show ?thesis
    using assms(1) n
    by (cases "find_pool (w_pools w) ip' (dc_pool_connections (w_daemon w))") (auto simp: entry_of_def f)
qed

section \<open>The interface of the two calls\<close>

text \<open>
  What a miner connection relies on: \<open>view\<close> is what the list holds for an address, the number of
  requested blocks and the block to submit. The laws say what the calls change, and that they change it
  for their address only.
\<close>

locale block_desk =
  fixes view :: "'w \<Rightarrow> string \<Rightarrow> (u16 \<times> cblock option) option"
    and req :: "u16 \<Rightarrow> string \<Rightarrow> 'w \<Rightarrow> 'w res"
    and sub :: "cblock \<Rightarrow> string \<Rightarrow> 'w \<Rightarrow> (bool \<times> 'w) res"
  assumes req_view: "req n ip w = Inr w' \<Longrightarrow>
      \<exists>m s. view w ip = Some (m, s) \<and> view w' = (view w)(ip \<mapsto> (n, s))"
    and req_ok: "view w ip \<noteq> None \<Longrightarrow> \<exists>w'. req n ip w = Inr w'"
    and sub_view: "sub b ip w = Inr (ok, w') \<Longrightarrow>
      \<exists>m s. view w ip = Some (m, s) \<and> ok = (s = None)
        \<and> view w' = (if s = None then (view w)(ip \<mapsto> (m, Some b)) else view w)"
    and sub_ok: "view w ip \<noteq> None \<Longrightarrow> \<exists>r. sub b ip w = Inr r"
begin

text \<open>A block that is waiting to be submitted is never replaced or lost by another call.\<close>

lemma kept_by_req:
  assumes "view w ip = Some (m, Some b)" and "req n ip' w = Inr w'"
  shows "\<exists>m'. view w' ip = Some (m', Some b)"
  using req_view [OF assms(2)] assms(1) by (auto simp: fun_upd_apply split: if_splits)

lemma kept_by_sub:
  assumes "view w ip = Some (m, Some b)" and "sub c ip' w = Inr (ok, w')"
  shows "view w' ip = Some (m, Some b)"
  using sub_view [OF assms(2)] assms(1) by (auto simp: fun_upd_apply split: if_splits)

lemma sub_outcome:
  assumes "view w ip = Some (m, s)"
  shows "\<exists>w'. sub b ip w = Inr (s = None, w') \<and> view w' = (if s = None then (view w)(ip \<mapsto> (m, Some b)) else view w)"
proof -
  obtain ok w' where r: "sub b ip w = Inr (ok, w')" using sub_ok [of w ip b] assms by auto
  with sub_view [OF r] assms show ?thesis by auto
qed

end

definition desk_view :: "world \<Rightarrow> string \<Rightarrow> (u16 \<times> cblock option) option" where
  "desk_view w ip = map_option (\<lambda>e. (pd_blocks_requested e, pd_submit_block e)) (entry_of w ip)"

lemma find_pool_connection_Inr:
  "find_pool_connection w ip = Inr n \<longleftrightarrow> find_pool (w_pools w) ip (dc_pool_connections (w_daemon w)) = Some n"
  by (simp add: find_pool_connection_def split: option.splits)

lemma entry_of_Some:
  "find_pool (w_pools w) ip (dc_pool_connections (w_daemon w)) = Some n \<Longrightarrow>
   entry_of w ip = Some (dc_pool_connections (w_daemon w) ! n)"
  by (simp add: entry_of_def)

lemma desk_view_set_entry:
  assumes "find_pool (w_pools w) ip (dc_pool_connections (w_daemon w)) = Some n"
    and "pd_connection e = pd_connection (dc_pool_connections (w_daemon w) ! n)"
  shows "desk_view (set_entry n e w) = (desk_view w)(ip \<mapsto> (pd_blocks_requested e, pd_submit_block e))"
  by (rule ext) (simp add: desk_view_def entry_of_set_entry [OF assms])

interpretation desk: block_desk desk_view request_block daemon_submit_block
proof unfold_locales
  fix n ip w w'
  assume "request_block n ip w = Inr w'"
  then obtain k where k: "find_pool (w_pools w) ip (dc_pool_connections (w_daemon w)) = Some k"
    and w': "w' = set_entry k ((dc_pool_connections (w_daemon w) ! k)\<lparr>pd_blocks_requested := n\<rparr>) w"
    by (auto simp: request_block_def rbind_eq_Inr find_pool_connection_Inr)
  show "\<exists>m s. desk_view w ip = Some (m, s) \<and> desk_view w' = (desk_view w)(ip \<mapsto> (n, s))"
    by (simp add: w' desk_view_set_entry [OF k] desk_view_def entry_of_Some [OF k])
next
  fix w ip and n :: u16
  assume "desk_view w ip \<noteq> None"
  then show "\<exists>w'. request_block n ip w = Inr w'"
    by (auto simp: request_block_def desk_view_def entry_of_def find_pool_connection_def)
next
  fix b ip w ok w'
  assume "daemon_submit_block b ip w = Inr (ok, w')"
  then obtain k where k: "find_pool (w_pools w) ip (dc_pool_connections (w_daemon w)) = Some k"
    and w': "(ok, w') = (let e = dc_pool_connections (w_daemon w) ! k
         in if pd_submit_block e = None then (True, set_entry k (e\<lparr>pd_submit_block := Some b\<rparr>) w) else (False, w))"
    by (auto simp: daemon_submit_block_def rbind_eq_Inr find_pool_connection_Inr Let_def split: if_splits)
  show "\<exists>m s. desk_view w ip = Some (m, s) \<and> ok = (s = None)
      \<and> desk_view w' = (if s = None then (desk_view w)(ip \<mapsto> (m, Some b)) else desk_view w)"
    using w' by (auto simp: Let_def desk_view_set_entry [OF k] desk_view_def entry_of_Some [OF k] split: if_splits)
next
  fix w ip b
  assume "desk_view w ip \<noteq> None"
  then show "\<exists>r. daemon_submit_block b ip w = Inr r"
    by (auto simp: daemon_submit_block_def desk_view_def entry_of_def find_pool_connection_def Let_def
        split: if_splits)
qed

text \<open>A connection that registers later does not change what an address stands for.\<close>

lemma entry_of_registered:
  assumes "entry_of w ip = Some e"
  shows "entry_of (set_daemon (add_pool_connection i (w_daemon w)) w) ip = Some e"
proof -
  from assms obtain n where n: "find_pool (w_pools w) ip (dc_pool_connections (w_daemon w)) = Some n"
    and e: "dc_pool_connections (w_daemon w) ! n = e" by (auto simp: entry_of_def)
  have "n < length (dc_pool_connections (w_daemon w))" using find_pool_Some [OF n] by blast
  then show ?thesis using e by (simp add: entry_of_def add_pool_connection_def find_pool_append n nth_append)
qed

section \<open>Removal of expired entries\<close>

declare cleanup_from.simps [simp del]

lemma cleanup_keeps_alive:
  assumes "\<forall>e \<in> set v. \<not> expired (pd_connection e)" and "i \<le> length v"
  shows "cleanup_from expired i v = Inr v"
  using assms
proof (induction "length v - i" arbitrary: i)
  case 0
  then show ?case by (simp add: cleanup_from.simps)
next
  case (Suc n)
  then have "i < length v" by simp
  then show ?case using Suc by (subst cleanup_from.simps) simp
qed

text \<open>An expired entry at the end of the list steps past the end.\<close>

lemma cleanup_last_faults:
  assumes "\<forall>e \<in> set v. \<not> expired (pd_connection e)" and "expired (pd_connection e)"
    and "i \<le> length v"
  shows "cleanup_from expired i (v @ [e]) = Inl End_deref"
  using assms(3)
proof (induction "length v - i" arbitrary: i)
  case 0
  then have "i = length v" by simp
  then show ?case
    using assms(2) by (subst cleanup_from.simps) (simp add: cleanup_from.simps)
next
  case (Suc n)
  then have i: "i < length v" by simp
  then have "\<not> expired (pd_connection ((v @ [e]) ! i))" using assms(1) by (simp add: nth_append)
  then show ?case using Suc i by (subst cleanup_from.simps) simp
qed

end
