(* ===== verification/Pool_Connection.thy ===== *)
theory Pool_Connection
  imports Daemon_Pools
begin

text \<open>
  \<open>Pool_connection\<close> of \<open>src/src/pool_connection.cpp\<close>: the connection of one miner. The handler of the
  network connection gets a result code and, for received data, the bytes; \<open>process_data\<close> is split into
  one function for each kind of packet. Log lines have no effect on the state and are left out; where an
  argument of a log line is evaluated for its effect, the effect is kept.
\<close>

section \<open>Construction\<close>

text \<open>
  \<open>m_min_share\<close> is not initialised when the registry is gone; its value is then the argument \<open>uninit\<close>.
\<close>

definition Pool_connection_new :: "u32 \<Rightarrow> data_registry option \<Rightarrow> pool_connection" where
  "Pool_connection_new uninit registry =
     \<lparr>pc_connection = True, pc_ddos = None, pc_primes = {}, pc_blocks_requested = [], pc_nxsaddress = '''',
      pc_logged_in = False,
      pc_isDDOS = (case registry of None \<Rightarrow> True | Some r \<Rightarrow> m_use_ddos r),
      pc_min_share = (case registry of None \<Rightarrow> uninit | Some r \<Rightarrow> m_min_share r),
      pc_connection_closed = False, pc_remote_address = '''', pc_num_blocks_requested = 0,
      pc_stats_address = ''''\<rparr>"

section \<open>The flood filter of a connection\<close>

text \<open>\<open>m_ddos->rSCORE += n\<close> and \<open>m_ddos->Ban(...)\<close>; the filter does not exist before the connection is up.\<close>

definition add_score :: "int \<Rightarrow> int \<Rightarrow> pool_connection \<Rightarrow> pool_connection res" where
  "add_score now n p =
     (case pc_ddos p of None \<Rightarrow> Inl Null_deref
      | Some f \<Rightarrow> rbind (Score_add now n (rSCORE f)) (\<lambda>s. Inr (p\<lparr>pc_ddos := Some (f\<lparr>rSCORE := s\<rparr>)\<rparr>)))"

definition score_if_ddos :: "int \<Rightarrow> int \<Rightarrow> pool_connection \<Rightarrow> pool_connection res" where
  "score_if_ddos now n p = (if pc_isDDOS p then add_score now n p else Inr p)"

definition ban :: "int \<Rightarrow> pool_connection \<Rightarrow> pool_connection res" where
  "ban now p =
     (case pc_ddos p of None \<Rightarrow> Inl Null_deref
      | Some f \<Rightarrow> rbind (Ban now f) (\<lambda>f'. Inr (p\<lparr>pc_ddos := Some f'\<rparr>)))"

definition ban_when :: "bool \<Rightarrow> int \<Rightarrow> pool_connection \<Rightarrow> pool_connection res" where
  "ban_when b now p = (if b then ban now p else Inr p)"

text \<open>The tests of a received packet, in the order of the code; each one may ban, none rejects.\<close>

definition ddos_invalid_header :: "int \<Rightarrow> packet \<Rightarrow> pool_connection \<Rightarrow> pool_connection res" where
  "ddos_invalid_header now packet p =
     (if \<not> pc_isDDOS p then Inr p
      else rfold (\<lambda>b. ban_when b now)
        [m_length packet > 136,
         m_header packet = SUBMIT_SHARE \<and> m_length packet \<noteq> 136,
         m_header packet = LOGIN \<and> m_length packet > 55,
         m_header packet = SUBMIT_PPS \<and> m_length packet \<noteq> 16,
         m_header packet = BLOCK_DATA,
         m_header packet = ACCOUNT_BALANCE,
         m_header packet = PENDING_PAYOUT,
         m_header packet = ACCEPT,
         m_header packet = REJECT,
         m_header packet = BLOCK,
         m_header packet = STALE] p)"

section \<open>Login\<close>

definition packet_data :: "packet \<Rightarrow> bytes res" where
  "packet_data packet = (case m_data packet of None \<Rightarrow> Inl Null_deref | Some d \<Rightarrow> Inr d)"

text \<open>A new account is stored the first time an address logs in.\<close>

definition ensure_account :: "string \<Rightarrow> data_registry \<Rightarrow> data_registry" where
  "ensure_account a reg =
     (if \<not> HasKey a (m_account_db reg)
      then reg\<lparr>m_account_db := UpdateRecord acc_cKey (Account_key a) (m_account_db reg)\<rparr> else reg)"

text \<open>A banned account: its address is banned too, and the login fails.\<close>

definition login_banned :: "int \<Rightarrow> nat \<Rightarrow> banned_users \<Rightarrow> world \<Rightarrow> world res" where
  "login_banned now i b = with_pool i (\<lambda>p w.
     let b' = (if \<not> is_ip_address_banned b (pc_remote_address p)
               then add_banned_ip_address (pc_remote_address p) b else b);
         w1 = set_registry ((w_registry w)\<lparr>m_banned_users := Some b'\<rparr>) w
     in rbind (on_pool i (\<lambda>p. rbind (ban now p) (\<lambda>p. Inr (p\<lparr>pc_logged_in := False\<rparr>))) w1)
          (transmit_miner i (get_packet LOGIN_SKMINER_FAIL)))"

definition login_address :: "platform \<Rightarrow> int \<Rightarrow> nat \<Rightarrow> string \<Rightarrow> world \<Rightarrow> world res" where
  "login_address pf now i a w =
     rbind (valid_address (pf_SK256 pf) a) (\<lambda>valid.
     rbind (on_pool i (\<lambda>p. Inr (p\<lparr>pc_nxsaddress := a, pc_stats_address := a\<rparr>)) w) (\<lambda>w.
       if \<not> valid
       then rbind (on_pool i (\<lambda>p. if pc_isDDOS p then ban now p else Inr p) w)
              (transmit_miner i (get_packet LOGIN_SKMINER_FAIL))
       else
         let w = set_registry (ensure_account a (w_registry w)) w
         in case m_banned_users (w_registry w) of
              None \<Rightarrow> Inl Null_deref
            | Some b \<Rightarrow>
                if is_account_banned b a then login_banned now i b w
                else rbind (on_pool i (\<lambda>p. Inr (p\<lparr>pc_logged_in := True\<rparr>)) w)
                       (transmit_miner i (get_packet LOGIN_SKMINER_SUCCESS))))"

definition process_login :: "platform \<Rightarrow> int \<Rightarrow> nat \<Rightarrow> packet \<Rightarrow> world \<Rightarrow> world res" where
  "process_login pf now i packet = with_pool i (\<lambda>p w.
     if pc_logged_in p then on_pool i (score_if_ddos now 10) w
     else rbind (packet_data packet) (\<lambda>d.
          rbind (bytes2string d 0) (\<lambda>a. login_address pf now i a w)))"

section \<open>Requests\<close>

definition process_get_block :: "int \<Rightarrow> nat \<Rightarrow> world \<Rightarrow> world res" where
  "process_get_block now i w =
     rbind (on_pool i (\<lambda>p. Inr (p\<lparr>pc_num_blocks_requested := pc_num_blocks_requested p + 1\<rparr>)) w)
       (with_pool i (\<lambda>p w.
          rbind (request_block (pc_num_blocks_requested p) (pc_remote_address p) w)
            (on_pool i (\<lambda>p. if pc_ddos p \<noteq> None then add_score now 1 p else Inr p))))"

definition data_response :: "u8 \<Rightarrow> u64 \<Rightarrow> packet" where
  "data_response header v = (get_packet header)\<lparr>m_length := 8, m_data := Some (uint2bytes64 v)\<rparr>"

definition process_get_balance :: "nat \<Rightarrow> world \<Rightarrow> world res" where
  "process_get_balance i = with_pool i (\<lambda>p w.
     let reg = w_registry w;
         (acc, db) = GetRecord Account_default (pc_nxsaddress p) (m_account_db reg)
     in transmit_miner i (data_response ACCOUNT_BALANCE (nAccountBalance acc))
          (set_registry (reg\<lparr>m_account_db := db\<rparr>) w))"

definition process_get_payout :: "nat \<Rightarrow> world \<Rightarrow> world res" where
  "process_get_payout i = with_pool i (\<lambda>p w.
     let reg = w_registry w;
         (pending_payout, cb) =
           (if find_address (m_coinbase reg) (pc_nxsaddress p)
            then get_map_outputs (pc_nxsaddress p) (m_coinbase reg) else (0, m_coinbase reg))
     in transmit_miner i (data_response PENDING_PAYOUT pending_payout)
          (set_registry (reg\<lparr>m_coinbase := cb\<rparr>) w))"

definition process_ping :: "nat \<Rightarrow> world \<Rightarrow> world res" where
  "process_ping i = transmit_miner i (get_packet PING)"

text \<open>The two rates are decoded and not used; their ranges are still formed.\<close>

definition process_submit_pps :: "nat \<Rightarrow> packet \<Rightarrow> world \<Rightarrow> world res" where
  "process_submit_pps i packet w =
     rbind (packet_data packet) (\<lambda>d.
     rbind (vec_range 0 (int (length d) - 8) d) (\<lambda>_.
     rbind (vec_range 8 (int (length d)) d) (\<lambda>_.
       transmit_miner i (get_packet PING) w)))"

section \<open>Shares\<close>

definition find_hash_in_blocks_requested :: "base_uint \<Rightarrow> pool_connection \<Rightarrow> bool" where
  "find_hash_in_blocks_requested hash_block p \<longleftrightarrow> om_find (pc_blocks_requested p) hash_block \<noteq> None"

definition share_not_found :: "int \<Rightarrow> nat \<Rightarrow> world \<Rightarrow> world res" where
  "share_not_found now i w =
     rbind (transmit_miner i (get_packet REJECT) w) (\<lambda>w.
     rbind (transmit_miner i (get_height (m_best_height (w_registry w))) w)
       (on_pool i (score_if_ddos now 1)))"

definition share_stale :: "int \<Rightarrow> nat \<Rightarrow> world \<Rightarrow> world res" where
  "share_stale now i w =
     rbind (transmit_miner i (get_packet STALE) w) (\<lambda>w.
     rbind (transmit_miner i (get_height (m_best_height (w_registry w))) w)
       (on_pool i (score_if_ddos now 2)))"

definition share_duplicate :: "int \<Rightarrow> nat \<Rightarrow> world \<Rightarrow> world res" where
  "share_duplicate now i w =
     rbind (transmit_miner i (get_packet REJECT) w) (on_pool i (score_if_ddos now 5))"

definition share_below :: "int \<Rightarrow> nat \<Rightarrow> world \<Rightarrow> world res" where
  "share_below now i w =
     rbind (on_pool i (score_if_ddos now 5) w) (transmit_miner i (get_packet REJECT))"

definition share_weight :: "platform \<Rightarrow> double \<Rightarrow> u64 res" where
  "share_weight pf nDifficulty = d_to_word (pf_pow pf (Fin 25) (d_sub nDifficulty (Fin 3)))"

definition credit_share :: "platform \<Rightarrow> string \<Rightarrow> double \<Rightarrow> data_registry \<Rightarrow> data_registry res" where
  "credit_share pf a nDifficulty reg =
     (let (cAccount, db) = GetRecord Account_default a (m_account_db reg)
      in rbind (share_weight pf nDifficulty) (\<lambda>weight.
           Inr (reg\<lparr>m_account_db := UpdateRecord acc_cKey
                      (cAccount\<lparr>nRoundShares := nRoundShares cAccount + weight\<rparr>) db\<rparr>)))"

text \<open>A share above the difficulty of the block is put on the submit stack of the wallet connection.\<close>

definition share_finish :: "nat \<Rightarrow> cblock \<Rightarrow> u64 \<Rightarrow> double \<Rightarrow> world \<Rightarrow> world res" where
  "share_finish i block nonce nDifficulty = with_pool i (\<lambda>p w.
     if d_ge nDifficulty (get_difficulty (nBits block))
     then rbind (daemon_submit_block (block\<lparr>nNonce := nonce\<rparr>) (pc_remote_address p) w) (\<lambda>(ok, w).
            if ok then transmit_miner i (get_packet BLOCK) w else Inr w)
     else transmit_miner i (get_packet ACCEPT) w)"

definition share_accepted :: "platform \<Rightarrow> nat \<Rightarrow> base_uint \<Rightarrow> cblock \<Rightarrow> u64 \<Rightarrow> double \<Rightarrow> world \<Rightarrow> world res" where
  "share_accepted pf i hashPrime block nonce nDifficulty w =
     rbind (on_pool i (\<lambda>p. Inr (p\<lparr>pc_primes := insert hashPrime (pc_primes p)\<rparr>)) w)
       (with_pool i (\<lambda>p w.
          rbind (credit_share pf (pc_nxsaddress p) nDifficulty (w_registry w)) (\<lambda>reg.
            share_finish i block nonce nDifficulty (set_registry reg w))))"

text \<open>The share check may not end, then there is no result.\<close>

definition check_share :: "platform \<Rightarrow> int \<Rightarrow> nat \<Rightarrow> base_uint \<Rightarrow> cblock \<Rightarrow> u64 \<Rightarrow> world \<Rightarrow> world res option" where
  "check_share pf now i hashPrime block nonce w =
     map_option (\<lambda>r.
       rbind r (\<lambda>nDifficulty.
       rbind (set_bits_diff nDifficulty) (\<lambda>bits.
         with_pool i (\<lambda>p w.
           if bits \<ge> pc_min_share p then share_accepted pf i hashPrime block nonce nDifficulty w
           else share_below now i w) w)))
       (gmp_verification (pf_gmp pf) (w_prime w) hashPrime)"

text \<open>The block of a known hash, the height test and the duplicate test.\<close>

definition submit_known :: "platform \<Rightarrow> int \<Rightarrow> nat \<Rightarrow> bytes \<Rightarrow> base_uint \<Rightarrow> cblock \<Rightarrow> world \<Rightarrow> world res option" where
  "submit_known pf now i d hashPrimeOrigin block w =
     (if nHeight block \<noteq> m_best_height (w_registry w) then Some (share_stale now i w)
      else case vec_range (int (length d) - 8) (int (length d)) d of
             Inl e \<Rightarrow> Some (Inl e)
           | Inr nb \<Rightarrow>
               let nonce = bytes2uint64 (pf_shl32 pf) nb 0; hashPrime = bu_add64 hashPrimeOrigin nonce
               in case w_pools w i of None \<Rightarrow> Some (Inl Null_deref)
                  | Some p \<Rightarrow>
                      if hashPrime \<in> pc_primes p then Some (share_duplicate now i w)
                      else check_share pf now i hashPrime block nonce w)"

definition process_submit_share :: "platform \<Rightarrow> int \<Rightarrow> nat \<Rightarrow> packet \<Rightarrow> world \<Rightarrow> world res option" where
  "process_submit_share pf now i packet w =
     (case rbind (packet_data packet) (\<lambda>d.
           rbind (vec_range 0 (int (length d) - 8) d) (\<lambda>hb.
           rbind (SetBytes 32 hb) (\<lambda>hashPrimeOrigin. Inr (d, hashPrimeOrigin)))) of
        Inl e \<Rightarrow> Some (Inl e)
      | Inr (d, hashPrimeOrigin) \<Rightarrow>
          (case w_pools w i of None \<Rightarrow> Some (Inl Null_deref)
           | Some p \<Rightarrow>
               (case om_find (pc_blocks_requested p) hashPrimeOrigin of
                  None \<Rightarrow> Some (share_not_found now i w)
                | Some block \<Rightarrow> submit_known pf now i d hashPrimeOrigin block w)))"

section \<open>The handler of received data\<close>

text \<open>No wallet connection: the miner connection is closed.\<close>

definition close_connection :: "pool_connection \<Rightarrow> pool_connection" where
  "close_connection p = p\<lparr>pc_connection := False, pc_connection_closed := True\<rparr>"

definition process_request :: "platform \<Rightarrow> int \<Rightarrow> nat \<Rightarrow> packet \<Rightarrow> world \<Rightarrow> world res option" where
  "process_request pf now i packet w =
     (if m_header packet = GET_BLOCK then Some (process_get_block now i w)
      else if m_header packet = GET_BALANCE then Some (process_get_balance i w)
      else if m_header packet = GET_PAYOUT then Some (process_get_payout i w)
      else if m_header packet = PING then Some (process_ping i w)
      else if m_header packet = SUBMIT_PPS then Some (process_submit_pps i packet w)
      else if m_header packet = SUBMIT_SHARE then process_submit_share pf now i packet w
      else Some (Inr w))"

definition process_packet :: "platform \<Rightarrow> int \<Rightarrow> nat \<Rightarrow> packet \<Rightarrow> world \<Rightarrow> world res option" where
  "process_packet pf now i packet w =
     (if w_registry_expired w then Some (Inr w)
      else if m_header packet = LOGIN then Some (process_login pf now i packet w)
      else case w_pools w i of
             None \<Rightarrow> Some (Inl Null_deref)
           | Some p \<Rightarrow>
               if \<not> pc_logged_in p then Some (on_pool i (score_if_ddos now 10) w)
               else if w_daemon_expired w then Some (on_pool i (\<lambda>p. Inr (close_connection p)) w)
               else process_request pf now i packet w)"

definition process_data :: "platform \<Rightarrow> int \<Rightarrow> nat \<Rightarrow> bytes \<Rightarrow> world \<Rightarrow> world res option" where
  "process_data pf now i receive_buffer w =
     (case packet_of_buffer receive_buffer of
        Inl e \<Rightarrow> Some (Inl e)
      | Inr packet \<Rightarrow>
          if \<not> is_valid packet then Some (on_pool i (score_if_ddos now 10) w)
          else (case on_pool i (ddos_invalid_header now packet) w of
                  Inl e \<Rightarrow> Some (Inl e)
                | Inr w \<Rightarrow> process_packet pf now i packet w))"

section \<open>The handler of the network connection\<close>

text \<open>When the connection is up the flood filter is made and the wallet connection learns of the miner.\<close>

definition connected :: "int \<Rightarrow> string \<Rightarrow> nat \<Rightarrow> world \<Rightarrow> world res" where
  "connected now address i w =
     rbind (on_pool i (\<lambda>p. if \<not> pc_connection p then Inl Null_deref
              else Inr (p\<lparr>pc_remote_address := address, pc_ddos := Some (DDOS_Filter_new 30 address now)\<rparr>)) w) (\<lambda>w.
       if w_daemon_expired w then on_pool i (\<lambda>p. Inr (close_connection p)) w
       else Inr (set_daemon (add_pool_connection i (w_daemon w)) w))"

definition connection_handler ::
  "platform \<Rightarrow> int \<Rightarrow> nat \<Rightarrow> result_code \<Rightarrow> string \<Rightarrow> bytes \<Rightarrow> world \<Rightarrow> world res option" where
  "connection_handler pf now i result address receive_buffer w =
     (if result = connection_declined \<or> result = connection_aborted \<or> result = connection_error
      then Some (on_pool i (\<lambda>p. Inr (close_connection p)) w)
      else if result = connection_closed then Some (on_pool i (\<lambda>p. Inr (close_connection p)) w)
      else if result = connection_ok then Some (connected now address i w)
      else process_data pf now i receive_buffer w)"

section \<open>Calls of the wallet connection\<close>

definition pool_new_round :: "u32 \<Rightarrow> nat \<Rightarrow> world \<Rightarrow> world res" where
  "pool_new_round new_height i w =
     rbind (on_pool i (\<lambda>p. Inr (p\<lparr>pc_primes := {}, pc_blocks_requested := [], pc_num_blocks_requested := 0\<rparr>)) w)
       (transmit_miner i (get_height new_height))"

definition block_data_packet :: "platform \<Rightarrow> cblock \<Rightarrow> u32 \<Rightarrow> packet" where
  "block_data_packet pf block min_share =
     packet_default\<lparr>m_header := BLOCK_DATA,
       m_data := Some (serialize_block (pf_SK1024 pf) block min_share),
       m_length := of_nat (length (serialize_block (pf_SK1024 pf) block min_share))\<rparr>"

definition add_block :: "platform \<Rightarrow> cblock \<Rightarrow> nat \<Rightarrow> world \<Rightarrow> world res" where
  "add_block pf block i = with_pool i (\<lambda>p w.
     if \<not> pc_connection p then Inr w
     else
       let p' = p\<lparr>pc_num_blocks_requested := pc_num_blocks_requested p - 1,
                  pc_blocks_requested := om_set (GetHash (pf_SK1024 pf) block) block (pc_blocks_requested p)\<rparr>
       in transmit_miner i (block_data_packet pf block (pc_min_share p)) (set_pool i p' w))"

end
