(* ===== verification/Daemon_Connection.thy ===== *)
theory Daemon_Connection
  imports Pool_Connection
begin

text \<open>
  \<open>Daemon_connection\<close> of \<open>src/src/daemon_connection.cpp\<close>: the connection to the wallet. Its timers
  forward the work of the miners to the wallet, its handler processes the wallet's answers. Each branch
  of \<open>process_data\<close> is a function; the common tail of the handler follows every branch except the one
  that returns.
\<close>

section \<open>Construction\<close>

text \<open>
  \<open>m_round_reward\<close> is not initialised; its value before the first reward is the argument \<open>uninit\<close>.
\<close>

definition Daemon_connection_new :: "u64 \<Rightarrow> daemon_connection" where
  "Daemon_connection_new uninit =
     \<lparr>dc_connection = False, dc_maintenance_timer = None, dc_block_timer = None,
      dc_orphan_check_timer = None, dc_get_height_timer = None, dc_pool_connections = [],
      dc_coinbase_pending = False, dc_new_block = False, dc_round_reward = uninit,
      dc_last_blockfinder = '''', dc_hash_submit_block = uint_zero 32\<rparr>"

section \<open>Timers\<close>

definition start_block_timer :: "world \<Rightarrow> world" where
  "start_block_timer w = set_daemon ((w_daemon w)\<lparr>dc_block_timer := timer_start_milliseconds 50\<rparr>) w"

definition start_orphan_check_timer :: "world \<Rightarrow> world" where
  "start_orphan_check_timer w = set_daemon ((w_daemon w)\<lparr>dc_orphan_check_timer := timer_start_seconds 20\<rparr>) w"

definition start_get_height_timer :: "world \<Rightarrow> world" where
  "start_get_height_timer w = set_daemon ((w_daemon w)\<lparr>dc_get_height_timer := timer_start_seconds 2\<rparr>) w"

definition get_height_timer_handler :: "bool \<Rightarrow> world \<Rightarrow> world res" where
  "get_height_timer_handler canceled w =
     (if canceled then Inr w
      else rbind (transmit_wallet daemon_get_height w) (\<lambda>w.
           rbind (transmit_wallet daemon_get_round w) (\<lambda>w.
           rbind (if dc_coinbase_pending (w_daemon w) then transmit_wallet daemon_get_reward w else Inr w) (\<lambda>w.
             Inr (start_get_height_timer w)))))"

definition maintenance_timer_handler :: "bool \<Rightarrow> world \<Rightarrow> world res" where
  "maintenance_timer_handler canceled w =
     (if canceled then Inr w
      else rbind (cleanup_expired_pool_connections w (w_daemon w)) (\<lambda>d.
             Inr (set_daemon (d\<lparr>dc_maintenance_timer := timer_start_seconds 60\<rparr>) w)))"

text \<open>
  The first loop of the block timer: the first living connection with a block to submit. A block of
  another height is dropped; in both cases the slot is emptied.
\<close>

fun first_submit :: "(nat \<Rightarrow> pool_connection option) \<Rightarrow> pool_connection_data list \<Rightarrow> nat option" where
  "first_submit pools [] = None"
| "first_submit pools (e # es) =
     (if pools (pd_connection e) \<noteq> None \<and> pd_submit_block e \<noteq> None then Some 0
      else map_option Suc (first_submit pools es))"

definition submit_to_wallet :: "platform \<Rightarrow> cblock \<Rightarrow> pool_connection \<Rightarrow> world \<Rightarrow> world res" where
  "submit_to_wallet pf block p w =
     (let w = set_daemon ((w_daemon w)\<lparr>dc_hash_submit_block := GetHash (pf_SK1024 pf) block\<rparr>) w
      in if nHeight block = m_best_height (w_registry w)
         then rbind (transmit_wallet (submit_block (hashMerkleRoot block) (nNonce block)) w) (\<lambda>w.
                Inr (set_daemon ((w_daemon w)\<lparr>dc_last_blockfinder := pc_nxsaddress p\<rparr>) w))
         else Inr w)"

definition submit_pending :: "platform \<Rightarrow> world \<Rightarrow> world res" where
  "submit_pending pf w =
     (case first_submit (w_pools w) (dc_pool_connections (w_daemon w)) of
        None \<Rightarrow> Inr w
      | Some n \<Rightarrow>
          let e = dc_pool_connections (w_daemon w) ! n
          in case (pd_submit_block e, w_pools w (pd_connection e)) of
               (Some block, Some p) \<Rightarrow>
                 rbind (submit_to_wallet pf block p w) (\<lambda>w. Inr (set_entry n (e\<lparr>pd_submit_block := None\<rparr>) w))
             | _ \<Rightarrow> Inl Null_deref)"

text \<open>The second loop: one request to the wallet for each block a connection asked for.\<close>

function request_loop :: "nat \<Rightarrow> pool_connection_data \<Rightarrow> world \<Rightarrow> world res" where
  "request_loop n e w =
     (if pd_blocks_requested e > 0
      then let e' = e\<lparr>pd_blocks_requested := pd_blocks_requested e - 1, pd_blocks_waiting := pd_blocks_waiting e + 1\<rparr>
           in rbind (transmit_wallet daemon_get_block (set_entry n e' w)) (request_loop n e')
      else Inr w)"
  by pat_completeness auto
termination
proof (relation "measure (\<lambda>(_, e, _). unat (pd_blocks_requested e))")
  fix n :: nat and e e' :: pool_connection_data and w w' :: world
  assume "pd_blocks_requested e > 0"
    and "e' = e\<lparr>pd_blocks_requested := pd_blocks_requested e - 1, pd_blocks_waiting := pd_blocks_waiting e + 1\<rparr>"
  then show "((n, e', w'), (n, e, w)) \<in> measure (\<lambda>(_, e, _). unat (pd_blocks_requested e))"
    by (simp add: unat_minus_one word_greater_zero_iff unat_gt_0)
qed simp

definition request_pending :: "world \<Rightarrow> world res" where
  "request_pending w =
     rfold (\<lambda>n w. request_loop n (dc_pool_connections (w_daemon w) ! n) w)
       [0..<length (dc_pool_connections (w_daemon w))] w"

definition block_timer_handler :: "platform \<Rightarrow> bool \<Rightarrow> world \<Rightarrow> world res" where
  "block_timer_handler pf canceled w =
     (if canceled then Inr w
      else if w_registry_expired w then Inr w
      else if dc_coinbase_pending (w_daemon w) then Inr (start_block_timer w)
      else rbind (submit_pending pf w) (\<lambda>w. rbind (request_pending w) (\<lambda>w. Inr (start_block_timer w))))"

definition check_orphan :: "base_uint \<Rightarrow> world \<Rightarrow> world res" where
  "check_orphan k w =
     (let reg = w_registry w; (cBlock, db) = GetRecord Block_default k (m_block_db reg);
          w = set_registry (reg\<lparr>m_block_db := db\<rparr>) w
      in if nRound cBlock \<ge> m_current_round reg - 5 \<and> nCoinbaseValue cBlock > 0
         then transmit_wallet (check_block k) w else Inr w)"

definition orphan_check_timer_handler :: "bool \<Rightarrow> world \<Rightarrow> world res" where
  "orphan_check_timer_handler canceled w =
     (if canceled then Inr w
      else if w_registry_expired w then Inr w
      else rbind (rfold check_orphan (GetKeys (m_block_db (w_registry w))) w) (\<lambda>w.
             Inr (start_orphan_check_timer w)))"

section \<open>Rounds\<close>

text \<open>Every living miner connection starts a new round.\<close>

definition new_round :: "world \<Rightarrow> world res" where
  "new_round w =
     rfold (\<lambda>e w. if w_pools w (pd_connection e) = None then Inr w
                   else pool_new_round (m_best_height (w_registry w)) (pd_connection e) w)
       (dc_pool_connections (w_daemon w)) (set_daemon ((w_daemon w)\<lparr>dc_new_block := True\<rparr>) w)"

definition set_pending :: "bool \<Rightarrow> world \<Rightarrow> world" where
  "set_pending b w = set_daemon ((w_daemon w)\<lparr>dc_coinbase_pending := b\<rparr>) w"

section \<open>Answers of the wallet\<close>

definition on_block_height :: "bytes \<Rightarrow> world \<Rightarrow> world" where
  "on_block_height d w =
     (let height = bytes2uint d 0
      in if height > m_best_height (w_registry w)
         then set_pending True (set_registry ((w_registry w)\<lparr>m_best_height := height\<rparr>) w) else w)"

definition on_coinbase_set :: "world \<Rightarrow> world res" where
  "on_coinbase_set w =
     rbind (new_round (set_pending False w)) (\<lambda>w.
     rbind (write_account_db (w_registry w)) (\<lambda>reg. Inr (set_registry reg w)))"

text \<open>
  One account is offered to the coinbase. The result of \<open>add_transaction\<close> is unsigned, so the test
  \<open>nValue < 0\<close> never holds and the loop is not left.
\<close>

definition offer_account :: "string \<Rightarrow> data_registry \<Rightarrow> data_registry" where
  "offer_account k reg =
     (let (cAccount, db) = GetRecord Account_default k (m_account_db reg);
          reg = reg\<lparr>m_account_db := db\<rparr>
      in if nAccountBalance cAccount > 0
         then reg\<lparr>m_coinbase := snd (AddTransaction k (nAccountBalance cAccount) (m_coinbase reg))\<rparr>
         else reg)"

definition rebuild_coinbase :: "platform \<Rightarrow> u64 \<Rightarrow> string \<Rightarrow> data_registry \<Rightarrow> data_registry" where
  "rebuild_coinbase pf reward last_blockfinder reg =
     (let fee = reward * ucast (m_pool_fee (m_config reg));
          reg = reg\<lparr>m_coinbase := Reset (reward - fee) ((m_coinbase reg)\<lparr>nPoolFee := fee\<rparr>)\<rparr>;
          reg = foldl (\<lambda>r k. offer_account k r) reg (get_sorted_accounts (pf_sort pf) reg)
      in if \<not> IsComplete (m_coinbase reg)
         then reg\<lparr>m_coinbase := snd (AddTransaction last_blockfinder (GetRemainder (m_coinbase reg)) (m_coinbase reg))\<rparr>
         else reg)"

definition send_coinbase :: "world \<Rightarrow> world res" where
  "send_coinbase w = transmit_wallet (set_coinbase (Serialize (m_coinbase (w_registry w)))) w"

definition on_block_reward :: "platform \<Rightarrow> bytes \<Rightarrow> world \<Rightarrow> world res" where
  "on_block_reward pf d w =
     (let w = set_daemon ((w_daemon w)\<lparr>dc_round_reward := bytes2uint64 (pf_shl32 pf) d 0\<rparr>) w
      in if m_current_round (w_registry w) > 1 \<and> dc_coinbase_pending (w_daemon w)
         then send_coinbase (set_registry (rebuild_coinbase pf (dc_round_reward (w_daemon w))
                (dc_last_blockfinder (w_daemon w)) (w_registry w)) w)
         else new_round (set_pending False w))"

text \<open>The log lines of the two block answers look the round of the block up in the store.\<close>

definition log_round :: "base_uint \<Rightarrow> data_registry \<Rightarrow> data_registry" where
  "log_round h reg = reg\<lparr>m_block_db := snd (GetRecord Block_default h (m_block_db reg))\<rparr>"

definition on_orphan_block :: "bytes \<Rightarrow> world \<Rightarrow> world res" where
  "on_orphan_block d w =
     rbind (SetBytes 32 d) (\<lambda>hashOrphan.
     rbind (refund_payouts hashOrphan (log_round hashOrphan (w_registry w))) (\<lambda>reg.
       Inr (set_pending True (set_registry reg w))))"

definition on_good_block :: "bytes \<Rightarrow> world \<Rightarrow> world res" where
  "on_good_block d w =
     rbind (SetBytes 32 d) (\<lambda>hashBlock. Inr (set_registry (log_round hashBlock (w_registry w)) w))"

definition on_good :: "world \<Rightarrow> world res" where
  "on_good w =
     (let d = w_daemon w
      in rbind (update_balances (dc_round_reward d) (dc_hash_submit_block d) (dc_last_blockfinder d) (w_registry w))
           (\<lambda>reg. let reg = clear_shares reg
                  in new_round (set_registry (reg\<lparr>m_current_round := m_current_round reg + 1\<rparr>) w)))"

text \<open>The first living connection that waits for a block gets it; \<open>None\<close> if there is none.\<close>

fun first_waiting :: "(nat \<Rightarrow> pool_connection option) \<Rightarrow> pool_connection_data list \<Rightarrow> nat option" where
  "first_waiting pools [] = None"
| "first_waiting pools (e # es) =
     (if pools (pd_connection e) \<noteq> None \<and> pd_blocks_waiting e > 0 then Some 0
      else map_option Suc (first_waiting pools es))"

text \<open>The result tells whether the handler returns before its tail.\<close>

definition on_block_data :: "platform \<Rightarrow> bytes \<Rightarrow> world \<Rightarrow> (bool \<times> world) res" where
  "on_block_data pf d w =
     rbind (deserialize_block (pf_shl32 pf) d) (\<lambda>block.
       if nHeight block \<noteq> m_best_height (w_registry w) then Inr (False, w)
       else case first_waiting (w_pools w) (dc_pool_connections (w_daemon w)) of
              None \<Rightarrow> Inr (False, w)
            | Some n \<Rightarrow>
                let e = dc_pool_connections (w_daemon w) ! n;
                    w = set_entry n (e\<lparr>pd_blocks_waiting := pd_blocks_waiting e - 1\<rparr>) w
                in rbind (add_block pf block (pd_connection e) w) (\<lambda>w. Inr (True, w)))"

section \<open>The handler\<close>

definition go_on :: "world res \<Rightarrow> (bool \<times> world) res" where
  "go_on m = rbind m (\<lambda>w. Inr (False, w))"

definition wallet_branch :: "platform \<Rightarrow> packet \<Rightarrow> world \<Rightarrow> (bool \<times> world) res" where
  "wallet_branch pf packet w =
     (let h = m_header packet
      in if h = D_BLOCK_HEIGHT then go_on (rbind (packet_data packet) (\<lambda>d. Inr (on_block_height d w)))
         else if h = D_NEW_ROUND then Inr (False, set_pending True w)
         else if h = D_COINBASE_SET then go_on (on_coinbase_set w)
         else if h = D_COINBASE_FAIL then Inr (False, set_pending True w)
         else if h = D_BLOCK_REWARD then go_on (rbind (packet_data packet) (\<lambda>d. on_block_reward pf d w))
         else if h = D_ORPHAN_BLOCK then go_on (rbind (packet_data packet) (\<lambda>d. on_orphan_block d w))
         else if h = D_GOOD_BLOCK then go_on (rbind (packet_data packet) (\<lambda>d. on_good_block d w))
         else if h = D_GOOD then go_on (on_good w)
         else if h = D_FAIL then Inr (False, w)
         else if h = D_BLOCK_DATA then rbind (packet_data packet) (\<lambda>d. on_block_data pf d w)
         else Inr (False, w))"

definition wallet_tail :: "world \<Rightarrow> world res" where
  "wallet_tail w =
     (if \<not> dc_new_block (w_daemon w) then Inr w
      else let w = set_daemon ((w_daemon w)\<lparr>dc_new_block := False\<rparr>) w
           in if m_current_round (w_registry w) > 1 then send_coinbase w else Inr (set_pending False w))"

definition wallet_process_data :: "platform \<Rightarrow> bytes \<Rightarrow> world \<Rightarrow> world res" where
  "wallet_process_data pf receive_buffer w =
     rbind (daemon_packet_of_buffer receive_buffer) (\<lambda>packet.
       if \<not> daemon_is_valid packet then Inr w
       else if w_registry_expired w then Inr w
       else rbind (wallet_branch pf packet w) (\<lambda>(returned, w). if returned then Inr w else wallet_tail w))"

section \<open>The handler of the network connection\<close>

definition wallet_handler :: "platform \<Rightarrow> result_code \<Rightarrow> bytes \<Rightarrow> world \<Rightarrow> world res" where
  "wallet_handler pf result receive_buffer w =
     (if result = connection_declined \<or> result = connection_aborted \<or> result = connection_closed
         \<or> result = connection_error
      then Inr (set_daemon ((w_daemon w)\<lparr>dc_connection := False\<rparr>) w)
      else if result = connection_ok
      then transmit_wallet (set_channel 1)
             (start_get_height_timer (start_orphan_check_timer (start_block_timer w)))
      else wallet_process_data pf receive_buffer w)"

text \<open>\<open>connect\<close>: whether the socket produced a connection object.\<close>

definition daemon_connect :: "bool \<Rightarrow> world \<Rightarrow> bool \<times> world" where
  "daemon_connect socket_connected w =
     (if \<not> socket_connected then (False, w)
      else (True, set_daemon ((w_daemon w)\<lparr>dc_connection := True\<rparr>) w))"

end
