(* ===== verification/Server.thy ===== *)
theory Server
  imports Daemon_Connection
begin

text \<open>
  The server (\<open>src/src/server.cpp\<close>, \<open>main.cpp\<close>) and the events it runs on. \<open>server_init\<close> and
  \<open>server_run\<close> build the state; the network and the timers then call the handlers, in any order that the
  state of the connections and timers allows. \<open>handle\<close> is the handler of one event, and \<open>step\<close> the
  transition relation of the running server.
\<close>

section \<open>Start\<close>

record files =
  fl_conf :: "string option"
  fl_blk :: "bytes option"
  fl_acct :: "bytes option"
  fl_bans :: "string option \<times> string option"

definition world_new :: "data_registry \<Rightarrow> u64 \<Rightarrow> world" where
  "world_new reg uninit =
     \<lparr>w_registry = reg, w_registry_expired = False, w_daemon = Daemon_connection_new uninit,
      w_daemon_expired = False, w_pools = (\<lambda>_. None), w_server_pools = [], w_server_timer = None,
      w_prime = prime_static, w_out = []\<rparr>"

text \<open>The inner \<open>None\<close> is the return value \<open>false\<close>, the outer one a read of a file that does not end.\<close>

definition server_init :: "platform \<Rightarrow> 'j json_api \<Rightarrow> files \<Rightarrow> u64 \<Rightarrow> world option res option" where
  "server_init pf api fs uninit =
     (case read_config api (fl_conf fs) Config_default of
        Inl e \<Rightarrow> Some (Inl e)
      | Inr (ok, cfg) \<Rightarrow>
          if \<not> ok then Some (Inr None)
          else map_option (\<lambda>r. rbind r (\<lambda>reg. Inr (Some (world_new (Data_registry_init reg) uninit))))
                 (Data_registry_new (pf_shl32 pf) cfg (fl_blk fs) (fl_acct fs) (fl_bans fs)))"

definition start_server_timer :: "world \<Rightarrow> world" where
  "start_server_timer w =
     w\<lparr>w_server_timer := timer_start_seconds (unat (m_maintenance_timer_seconds (m_config (w_registry w))))\<rparr>"

text \<open>\<open>run\<close> up to the event loop: \<open>None\<close> when the wallet connection cannot be started.\<close>

definition server_run :: "bool \<Rightarrow> world \<Rightarrow> world option" where
  "server_run socket_connected w =
     (case daemon_connect socket_connected w of
        (ok, w) \<Rightarrow> if \<not> ok then None else Some (start_server_timer w))"

section \<open>Connections of miners\<close>

text \<open>The listening socket makes a connection, the server wraps it, and its handler is told it is up.\<close>

definition accept_connection :: "u32 \<Rightarrow> int \<Rightarrow> nat \<Rightarrow> string \<Rightarrow> world \<Rightarrow> world res" where
  "accept_connection uninit now i address w =
     (let p = Pool_connection_new uninit (if w_registry_expired w then None else Some (w_registry w));
          w = (set_pool i p w)\<lparr>w_server_pools := w_server_pools w @ [i]\<rparr>
      in connected now address i w)"

text \<open>
  The maintenance timer drops the shared pointers to closed connections; nothing else holds a closed
  connection, so its object is gone and the weak pointers to it expire. (A transmission that is still posted
  keeps the network object, its handler and so the connection for a moment longer; the timer, which fires
  after seconds, is taken to come later.)
\<close>

definition pool_closed :: "world \<Rightarrow> nat \<Rightarrow> bool" where
  "pool_closed w i \<longleftrightarrow> (case w_pools w i of None \<Rightarrow> False | Some p \<Rightarrow> pc_connection_closed p)"

definition server_maintenance_timer_handler :: "bool \<Rightarrow> world \<Rightarrow> world" where
  "server_maintenance_timer_handler canceled w =
     (if canceled then w
      else start_server_timer
        (w\<lparr>w_server_pools := filter (\<lambda>i. \<not> pool_closed w i) (w_server_pools w),
           w_pools := (\<lambda>i. if pool_closed w i \<and> i \<in> set (w_server_pools w) then None else w_pools w i)\<rparr>))"

section \<open>Events\<close>

datatype event =
    Accept nat string u32
  | Miner_event nat result_code bytes
  | Wallet_event result_code bytes
  | Block_timer
  | Height_timer
  | Orphan_timer
  | Server_timer
  | Persistance_timer

text \<open>
  An event can happen when its source is there: a new connection gets a number that was never used, the
  network calls the handler of a connection that is open, and a timer fires while it waits.
\<close>

fun enabled :: "event \<Rightarrow> world \<Rightarrow> bool" where
  "enabled (Accept i address uninit) w =
     (w_pools w i = None \<and> i \<notin> pd_connection ` set (dc_pool_connections (w_daemon w)))"
| "enabled (Miner_event i result buffer) w =
     (case w_pools w i of None \<Rightarrow> False | Some p \<Rightarrow> pc_connection p \<and> result \<noteq> connection_ok)"
| "enabled (Wallet_event result buffer) w = dc_connection (w_daemon w)"
| "enabled Block_timer w = (dc_block_timer (w_daemon w) \<noteq> None)"
| "enabled Height_timer w = (dc_get_height_timer (w_daemon w) \<noteq> None)"
| "enabled Orphan_timer w = (dc_orphan_check_timer (w_daemon w) \<noteq> None)"
| "enabled Server_timer w = (w_server_timer w \<noteq> None)"
| "enabled Persistance_timer w = True"

text \<open>A timer that fires no longer waits; its handler starts it again.\<close>

definition block_timer_fires :: "world \<Rightarrow> world" where
  "block_timer_fires w = set_daemon ((w_daemon w)\<lparr>dc_block_timer := None\<rparr>) w"

definition height_timer_fires :: "world \<Rightarrow> world" where
  "height_timer_fires w = set_daemon ((w_daemon w)\<lparr>dc_get_height_timer := None\<rparr>) w"

definition orphan_timer_fires :: "world \<Rightarrow> world" where
  "orphan_timer_fires w = set_daemon ((w_daemon w)\<lparr>dc_orphan_check_timer := None\<rparr>) w"

fun handle :: "platform \<Rightarrow> int \<Rightarrow> event \<Rightarrow> world \<Rightarrow> world res option" where
  "handle pf now (Accept i address uninit) w = Some (accept_connection uninit now i address w)"
| "handle pf now (Miner_event i result buffer) w = connection_handler pf now i result '''' buffer w"
| "handle pf now (Wallet_event result buffer) w = Some (wallet_handler pf result buffer w)"
| "handle pf now Block_timer w = Some (block_timer_handler pf False (block_timer_fires w))"
| "handle pf now Height_timer w = Some (get_height_timer_handler False (height_timer_fires w))"
| "handle pf now Orphan_timer w = Some (orphan_check_timer_handler False (orphan_timer_fires w))"
| "handle pf now Server_timer w = Some (Inr (server_maintenance_timer_handler False w))"
| "handle pf now Persistance_timer w =
     Some (rbind (persistance_handler False (w_registry w)) (\<lambda>reg. Inr (set_registry reg w)))"

section \<open>The transition relation\<close>

inductive step :: "platform \<Rightarrow> event \<Rightarrow> world \<Rightarrow> world \<Rightarrow> bool" for pf where
  event: "enabled ev w \<Longrightarrow> handle pf now ev w = Some (Inr w') \<Longrightarrow> step pf ev w w'"

inductive_cases stepE: "step pf ev w w'"

inductive reach :: "platform \<Rightarrow> world \<Rightarrow> world \<Rightarrow> bool" for pf w where
  start: "reach pf w w"
| more: "reach pf w u \<Longrightarrow> step pf ev u v \<Longrightarrow> reach pf w v"

text \<open>A state in which an event can happen whose handler faults.\<close>

definition can_fault :: "platform \<Rightarrow> event \<Rightarrow> fault \<Rightarrow> world \<Rightarrow> bool" where
  "can_fault pf ev e w \<longleftrightarrow> enabled ev w \<and> (\<exists>now. handle pf now ev w = Some (Inl e))"

lemma reach_inv:
  assumes "reach pf w v" and "I w" and "\<And>ev u v. I u \<Longrightarrow> step pf ev u v \<Longrightarrow> I v"
  shows "I v"
  using assms by (induction rule: reach.induct) auto

lemma reach_trans: "reach pf w u \<Longrightarrow> reach pf u v \<Longrightarrow> reach pf w v"
  by (rotate_tac, induction rule: reach.induct) (auto intro: reach.more)

end
