(* ===== verification/Registry_Growth.thy ===== *)
theory Registry_Growth
  imports Server
begin

text \<open>
  No operation of the server removes an account or a block from the registry, damages the order of its
  stores or forgets its ban lists. \<open>reg_le\<close> says that; every operation on the registry is below it.
\<close>

section \<open>What no operation takes away from the registry\<close>

definition db_le :: "('k::linorder, 'r) database \<Rightarrow> ('k, 'r) database \<Rightarrow> bool" where
  "db_le d d' \<longleftrightarrow> (db_inv d \<longrightarrow> db_inv d') \<and> (\<forall>k. HasKey k d \<longrightarrow> HasKey k d')"

definition reg_le :: "data_registry \<Rightarrow> data_registry \<Rightarrow> bool" where
  "reg_le r r' \<longleftrightarrow>
     db_le (m_account_db r) (m_account_db r') \<and> db_le (m_block_db r) (m_block_db r')
     \<and> (om_inv (mapOutputs (m_coinbase r)) \<longrightarrow> om_inv (mapOutputs (m_coinbase r')))
     \<and> (m_banned_users r \<noteq> None \<longrightarrow> m_banned_users r' \<noteq> None)
     \<and> m_min_share r' = m_min_share r"

named_theorems le_intros \<open>operations that take nothing away\<close>

lemma db_le_refl [simp, le_intros]: "db_le d d"
  by (simp add: db_le_def)

lemma db_le_trans [trans]: "db_le a b \<Longrightarrow> db_le b c \<Longrightarrow> db_le a c"
  by (auto simp: db_le_def)

lemma reg_le_refl [simp, le_intros]: "reg_le r r"
  by (simp add: reg_le_def)

lemma reg_le_trans [trans]: "reg_le a b \<Longrightarrow> reg_le b c \<Longrightarrow> reg_le a c"
  using db_le_trans [of "m_account_db a" "m_account_db b" "m_account_db c"]
    db_le_trans [of "m_block_db a" "m_block_db b" "m_block_db c"]
  by (simp add: reg_le_def)

lemma db_le_update [le_intros]: "db_le d (UpdateRecord key r d)"
  by (auto simp: db_le_def UpdateRecord_def db_inv_def HasKey_def om_count_def)

lemma db_le_get [le_intros]: "db_le d (snd (GetRecord dflt k d))"
  by (auto simp: db_le_def GetRecord_def om_index_def db_inv_def HasKey_def om_count_def split: option.splits)

lemma db_le_get_update [le_intros]:
  "GetRecord dflt k d = (r, d1) \<Longrightarrow> db_le d (UpdateRecord key r' d1)"
  by (metis db_le_get db_le_trans db_le_update snd_conv)

lemma reg_le_accounts [le_intros]:
  "db_le (m_account_db r) d \<Longrightarrow> reg_le r (r\<lparr>m_account_db := d\<rparr>)"
  by (simp add: reg_le_def)

lemma reg_le_blocks [le_intros]: "db_le (m_block_db r) d \<Longrightarrow> reg_le r (r\<lparr>m_block_db := d\<rparr>)"
  by (simp add: reg_le_def)

lemma reg_le_coinbase [le_intros]:
  "(om_inv (mapOutputs (m_coinbase r)) \<longrightarrow> om_inv (mapOutputs c)) \<Longrightarrow> reg_le r (r\<lparr>m_coinbase := c\<rparr>)"
  by (simp add: reg_le_def)

lemma reg_le_files [simp, le_intros]:
  "reg_le r (r\<lparr>blk_dat := a\<rparr>)" "reg_le r (r\<lparr>acct_dat := a\<rparr>)"
  "reg_le r (r\<lparr>m_best_height := h\<rparr>)" "reg_le r (r\<lparr>m_current_round := h\<rparr>)"
  "reg_le r (r\<lparr>m_banned_users := Some b\<rparr>)"
  by (simp_all add: reg_le_def)

lemma outputs_inv_get [simp]: "om_inv (mapOutputs c) \<Longrightarrow> om_inv (mapOutputs (snd (get_map_outputs a c)))"
  by (auto simp: get_map_outputs_def om_index_def split: option.splits)

lemma outputs_inv_add [simp]: "om_inv (mapOutputs c) \<Longrightarrow> om_inv (mapOutputs (snd (AddTransaction a v c)))"
  by (auto simp: AddTransaction_def AddOutput_def om_index_def Let_def split: prod.split option.splits)

lemma rfold_reg_le:
  assumes "rfold f xs p = Inr q" and "\<And>x p q. f x p = Inr q \<Longrightarrow> reg_le (g p) (g q)"
  shows "reg_le (g p) (g q)"
  using assms
proof (induction xs arbitrary: p)
  case Nil
  then show ?case by simp
next
  case (Cons x xs)
  then obtain u where "f x p = Inr u" "rfold f xs u = Inr q" by (auto simp: rbind_eq_Inr)
  with Cons show ?case using reg_le_trans by blast
qed

lemma add_balance_le: "reg_le r (add_balance k v r)"
  by (auto simp: add_balance_def split: prod.split intro: le_intros)

lemma charge_payout_le:
  assumes "charge_payout k r = (a, r')"
  shows "reg_le r r'"
proof -
  obtain acc db where g: "GetRecord Account_default k (m_account_db r) = (acc, db)" by force
  obtain v cb where m: "get_map_outputs k (m_coinbase r) = (v, cb)" by force
  have cb: "om_inv (mapOutputs (m_coinbase r)) \<longrightarrow> om_inv (mapOutputs cb)"
    using outputs_inv_get [of "m_coinbase r" k] m by simp
  have d: "db_le (m_account_db r) db" using db_le_get [of "m_account_db r" Account_default k] g by simp
  have "db_le (m_account_db r) (UpdateRecord acc_cKey x db)" for x using g by (rule db_le_get_update)
  then show ?thesis
    using assms g m d cb by (auto simp: charge_payout_def Let_def reg_le_def split: if_splits)
qed

lemma pay_account_le:
  assumes "pay_account reward weight k p = Inr q"
  shows "reg_le (po_reg p) (po_reg q)"
proof -
  obtain a r where c: "charge_payout k (po_reg p) = (a, r)" by force
  have "reg_le r (r\<lparr>m_account_db := UpdateRecord acc_cKey x (m_account_db r)\<rparr>)" for x
    by (intro le_intros)
  with charge_payout_le [OF c] have "reg_le (po_reg p) (r\<lparr>m_account_db := UpdateRecord acc_cKey x (m_account_db r)\<rparr>)" for x
    using reg_le_trans by blast
  then show ?thesis
    using assms c charge_payout_le [OF c] by (auto simp: pay_account_def Let_def rbind_eq_Inr split: if_splits)
qed

lemma write_db_le: "write_block_db r = Inr r' \<Longrightarrow> reg_le r r'" "write_account_db r = Inr r' \<Longrightarrow> reg_le r r'"
  by (auto simp: write_block_db_def write_account_db_def rbind_eq_Inr)

lemma commit_block_le: "commit_block b r = Inr r' \<Longrightarrow> reg_le r r'"
  unfolding commit_block_def
  by (rule reg_le_trans [OF reg_le_blocks [OF db_le_update] write_db_le(1)])

lemma update_balances_le:
  assumes "update_balances reward h f r = Inr r'"
  shows "reg_le r r'"
proof -
  let ?reward = "reward_after_fee (m_pool_fee (m_config r)) reward"
  let ?p0 = "\<lparr>po_reg = r, po_block = new_block h r, nTotalReward = 0\<rparr>"
  from assms obtain rest p1 p2 r1 where p1: "pay_bonus f ?reward ?p0 = Inr (rest, p1)"
    and p2: "rfold (pay_account rest (total_weight (po_reg p1))) (GetKeys (m_account_db (po_reg p1))) p1 = Inr p2"
    and r1: "commit_block (po_block p2) (pay_remainder f rest p2) = Inr r1" and r': "write_account_db r1 = Inr r'"
    by (auto simp: update_balances_def Let_def rbind_eq_Inr)
  have "reg_le r (po_reg p1)"
    using p1 by (auto simp: pay_bonus_def rbind_eq_Inr add_balance_le split: if_splits)
  also have "reg_le (po_reg p1) (po_reg p2)" using p2 pay_account_le by (rule rfold_reg_le)
  also have "reg_le (po_reg p2) (pay_remainder f rest p2)" by (simp add: pay_remainder_def add_balance_le)
  also have "reg_le (pay_remainder f rest p2) r1"
    using r1 by (rule commit_block_le)
  also have "reg_le r1 r'" using r' by (rule write_db_le)
  finally show ?thesis .
qed

lemma fold_db_le: "(\<And>x d. db_le d (f x d)) \<Longrightarrow> db_le d (fold f xs d)"
proof (induction xs arbitrary: d)
  case (Cons x xs)
  then show ?case using db_le_trans [of d "f x d"] by simp
qed simp

lemma clear_shares_le: "reg_le r (clear_shares r)"
  unfolding clear_shares_def
  by (intro le_intros fold_db_le) (auto simp: clear_account_def split: prod.split intro: le_intros)

lemma refund_folds_le: "db_le d (fold refund_credit xs d)" "db_le d (fold refund_output ys d)"
  by (rule fold_db_le; auto simp: refund_credit_def refund_output_def split: prod.split intro: le_intros)+

lemma refund_payouts_le:
  assumes "refund_payouts h r = Inr r'"
  shows "reg_le r r'"
proof -
  obtain b bdb where g: "GetRecord Block_default h (m_block_db r) = (b, bdb)" by force
  have b: "db_le (m_block_db r) bdb" using db_le_get [of "m_block_db r" Block_default h] g by simp
  then have r1: "reg_le r (r\<lparr>m_block_db := bdb\<rparr>)" by (rule reg_le_blocks)
  let ?a = "fold refund_output (mapOutputs (cCoinbase b)) (fold refund_credit (mapCredits (cCredits b)) (m_account_db r))"
  have "db_le (m_account_db r) ?a" using refund_folds_le db_le_trans by blast
  with b have ra: "reg_le r (r\<lparr>m_block_db := bdb, m_account_db := ?a\<rparr>)" by (simp add: reg_le_def)
  then have "reg_le r r'" if "commit_block c (r\<lparr>m_block_db := bdb, m_account_db := ?a\<rparr>) = Inr r'" for c
    using that ra commit_block_le reg_le_trans by blast
  then show ?thesis
    using assms g r1 by (simp add: refund_payouts_def Let_def split: if_splits)
qed

lemma log_round_le: "reg_le r (log_round h r)"
  unfolding log_round_def by (intro le_intros)

lemma ensure_account_le: "reg_le r (ensure_account a r)"
  unfolding ensure_account_def by (auto intro: le_intros)

lemma offer_account_le: "reg_le r (offer_account k r)"
proof -
  obtain acc db where g: "GetRecord Account_default k (m_account_db r) = (acc, db)" by force
  have "db_le (m_account_db r) db" using db_le_get [of "m_account_db r" Account_default k] g by simp
  then show ?thesis by (auto simp: offer_account_def g Let_def reg_le_def)
qed

lemma foldl_reg_le: "(\<And>x r. reg_le r (f r x)) \<Longrightarrow> reg_le r (foldl f r xs)"
proof (induction xs arbitrary: r)
  case (Cons x xs)
  then show ?case using reg_le_trans [of r "f r x"] by simp
qed simp

lemma rebuild_coinbase_le: "reg_le r (rebuild_coinbase pf reward f r)"
proof -
  let ?fee = "reward * ucast (m_pool_fee (m_config r))"
  let ?r1 = "r\<lparr>m_coinbase := Reset (reward - ?fee) ((m_coinbase r)\<lparr>nPoolFee := ?fee\<rparr>)\<rparr>"
  let ?r2 = "foldl (\<lambda>r k. offer_account k r) ?r1 (get_sorted_accounts (pf_sort pf) ?r1)"
  have "reg_le r ?r1" by (intro le_intros) (simp add: Reset_def)
  also have "reg_le ?r1 ?r2" by (rule foldl_reg_le) (rule offer_account_le)
  finally have r2: "reg_le r ?r2" .
  have "reg_le ?r2 (?r2\<lparr>m_coinbase := snd (AddTransaction f v (m_coinbase ?r2))\<rparr>)" for v
    by (intro le_intros) simp
  with r2 have r3: "reg_le r (?r2\<lparr>m_coinbase := snd (AddTransaction f v (m_coinbase ?r2))\<rparr>)" for v
    by (rule reg_le_trans)
  show ?thesis unfolding rebuild_coinbase_def Let_def by (split if_split) (intro conjI impI r2 r3)
qed

lemma credit_share_le: "credit_share pf a d r = Inr r' \<Longrightarrow> reg_le r r'"
  by (auto simp: credit_share_def rbind_eq_Inr split: prod.splits intro: le_intros)

lemma persistance_handler_le: "persistance_handler c r = Inr r' \<Longrightarrow> reg_le r r'"
  unfolding persistance_handler_def
  by (auto simp: rbind_eq_Inr split: if_splits dest!: write_db_le intro: reg_le_trans)

end
