(* ===== verification/Server_Steps.thy ===== *)
theory Server_Steps
  imports Registry_Growth
begin

text \<open>
  Every handler of the server is a sequence of small changes of the state: a frame handed to a socket, a
  change of one miner connection, of the registry or of the wallet connection. \<open>micro\<close> lists these
  changes with the conditions under which the code makes them; the lemmas show that each handler is such
  a sequence. A property of the running server then has to be checked for the small changes only.
\<close>

section \<open>The small changes\<close>

text \<open>Some number passes the share check of a miner connection.\<close>

definition share_ok :: "platform \<Rightarrow> prime_globals \<Rightarrow> pool_connection \<Rightarrow> base_uint \<Rightarrow> bool" where
  "share_ok pf pg p h \<longleftrightarrow>
     (\<exists>d bits. gmp_verification (pf_gmp pf) pg h = Some (Inr d) \<and> set_bits_diff d = Inr bits
        \<and> pc_min_share p \<le> bits)"

definition may_log_in :: "platform \<Rightarrow> data_registry \<Rightarrow> string \<Rightarrow> bool" where
  "may_log_in pf reg a \<longleftrightarrow>
     valid_address (pf_SK256 pf) a = Inr True \<and> HasKey a (m_account_db reg)
     \<and> (\<exists>b. m_banned_users reg = Some b \<and> \<not> is_account_banned b a)"

inductive pool_step :: "platform \<Rightarrow> data_registry \<Rightarrow> prime_globals \<Rightarrow> pool_connection \<Rightarrow> pool_connection \<Rightarrow> bool"
  for pf reg pg where
  same: "pool_step pf reg pg p p"
| filter: "pc_ddos p \<noteq> None \<Longrightarrow> pool_step pf reg pg p (p\<lparr>pc_ddos := Some f\<rparr>)"
| address: "\<not> pc_logged_in p \<Longrightarrow> pool_step pf reg pg p (p\<lparr>pc_nxsaddress := a, pc_stats_address := a\<rparr>)"
| refused: "\<not> pc_logged_in p \<Longrightarrow> pc_ddos p \<noteq> None \<Longrightarrow>
    pool_step pf reg pg p (p\<lparr>pc_ddos := Some f, pc_logged_in := False\<rparr>)"
| login: "\<not> pc_logged_in p \<Longrightarrow> may_log_in pf reg (pc_nxsaddress p) \<Longrightarrow>
    pool_step pf reg pg p (p\<lparr>pc_logged_in := True\<rparr>)"
| count: "pool_step pf reg pg p (p\<lparr>pc_num_blocks_requested := n\<rparr>)"
| share: "share_ok pf pg p h \<Longrightarrow> h \<notin> pc_primes p \<Longrightarrow> om_find (pc_blocks_requested p) g = Some b \<Longrightarrow>
    width h = width g \<Longrightarrow> pool_step pf reg pg p (p\<lparr>pc_primes := insert h (pc_primes p)\<rparr>)"
| round: "pool_step pf reg pg p (p\<lparr>pc_primes := {}, pc_blocks_requested := [], pc_num_blocks_requested := 0\<rparr>)"
| block: "cblock_wf b \<Longrightarrow> pool_step pf reg pg p (p\<lparr>pc_num_blocks_requested := n,
    pc_blocks_requested := om_set (GetHash (pf_SK1024 pf) b) b (pc_blocks_requested p)\<rparr>)"
| connects: "pc_connection p \<Longrightarrow> pool_step pf reg pg p (p\<lparr>pc_remote_address := a, pc_ddos := Some f\<rparr>)"

definition timers_of :: "daemon_connection \<Rightarrow> chrono_timer \<times> chrono_timer \<times> chrono_timer \<times> chrono_timer" where
  "timers_of d = (dc_maintenance_timer d, dc_block_timer d, dc_orphan_check_timer d, dc_get_height_timer d)"

inductive daemon_step :: "platform \<Rightarrow> (nat \<Rightarrow> pool_connection option) \<Rightarrow> daemon_connection \<Rightarrow> daemon_connection \<Rightarrow> bool"
  for pf pools where
  flags: "dc_pool_connections d' = dc_pool_connections d \<Longrightarrow> dc_hash_submit_block d' = dc_hash_submit_block d \<Longrightarrow>
    timers_of d' = timers_of d \<Longrightarrow> dc_connection d' = dc_connection d \<Longrightarrow> daemon_step pf pools d d'"
| hash: "n < length (dc_pool_connections d) \<Longrightarrow> pd_submit_block (dc_pool_connections d ! n) = Some b \<Longrightarrow>
    daemon_step pf pools d (d\<lparr>dc_hash_submit_block := GetHash (pf_SK1024 pf) b\<rparr>)"
| adds: "daemon_step pf pools d (add_pool_connection i d)"
| counts: "n < length (dc_pool_connections d) \<Longrightarrow> pd_connection e = pd_connection (dc_pool_connections d ! n) \<Longrightarrow>
    pd_submit_block e = pd_submit_block (dc_pool_connections d ! n) \<or> pd_submit_block e = None \<Longrightarrow>
    daemon_step pf pools d (d\<lparr>dc_pool_connections := (dc_pool_connections d)[n := e]\<rparr>)"
| submits: "n < length (dc_pool_connections d) \<Longrightarrow> pools i = Some p \<Longrightarrow> om_find (pc_blocks_requested p) h = Some b \<Longrightarrow>
    daemon_step pf pools d (d\<lparr>dc_pool_connections :=
      (dc_pool_connections d)[n := (dc_pool_connections d ! n)\<lparr>pd_submit_block := Some (b\<lparr>nNonce := x\<rparr>)\<rparr>]\<rparr>)"

definition is_share_reply :: "bytes \<Rightarrow> bool" where
  "is_share_reply bs \<longleftrightarrow> bs = [ACCEPT] \<or> bs = [BLOCK]"

inductive micro :: "platform \<Rightarrow> world \<Rightarrow> world \<Rightarrow> bool" for pf where
  to_wallet: "dc_connection (w_daemon w) \<Longrightarrow> micro pf w (put Wallet bs w)"
| to_miner: "w_pools w i = Some p \<Longrightarrow> pc_connection p \<Longrightarrow> \<not> is_share_reply bs \<Longrightarrow> micro pf w (put (Miner i) bs w)"
| share_reply: "w_pools w i = Some p \<Longrightarrow> pc_connection p \<Longrightarrow> share_ok pf (w_prime w) p h \<Longrightarrow> micro pf w (put (Miner i) bs w)"
| pool: "w_pools w i = Some p \<Longrightarrow> pool_step pf (w_registry w) (w_prime w) p p' \<Longrightarrow> micro pf w (set_pool i p' w)"
| registry: "reg_le (w_registry w) reg \<Longrightarrow> micro pf w (set_registry reg w)"
| daemon: "daemon_step pf (w_pools w) (w_daemon w) d \<Longrightarrow> micro pf w (set_daemon d w)"
| gives_up: "w_daemon_expired w \<Longrightarrow> w_pools w i = Some p \<Longrightarrow> micro pf w (set_pool i (close_connection p) w)"

lemma daemon_step_timers: "daemon_step pf pools d d' \<Longrightarrow> timers_of d' = timers_of d"
  by (induction rule: daemon_step.induct) (simp_all add: timers_of_def add_pool_connection_def)

abbreviation micros :: "platform \<Rightarrow> world \<Rightarrow> world \<Rightarrow> bool" where
  "micros pf \<equiv> (micro pf)\<^sup>*\<^sup>*"

named_theorems micro_intros \<open>operations as sequences of small changes\<close>

lemmas micro_to_wallet = r_into_rtranclp [of "micro pf" for pf, OF micro.to_wallet]
lemmas micro_to_miner = r_into_rtranclp [of "micro pf" for pf, OF micro.to_miner]
lemmas micro_share_reply = r_into_rtranclp [of "micro pf" for pf, OF micro.share_reply]
lemmas micro_pool = r_into_rtranclp [of "micro pf" for pf, OF micro.pool]
lemmas micro_registry = r_into_rtranclp [of "micro pf" for pf, OF micro.registry]
lemmas micro_daemon = r_into_rtranclp [of "micro pf" for pf, OF micro.daemon]

lemma micros_trans [trans]: "micros pf u v \<Longrightarrow> micros pf v w \<Longrightarrow> micros pf u w"
  by (rule rtranclp_trans)

lemma micros_refl [simp, intro]: "micros pf w w"
  by simp

lemma micro_timers: "micro pf w w' \<Longrightarrow> timers_of (w_daemon w') = timers_of (w_daemon w)"
  by (induction rule: micro.induct) (simp_all add: daemon_step_timers)

lemma micros_timers: "micros pf w w' \<Longrightarrow> timers_of (w_daemon w') = timers_of (w_daemon w)"
  by (induction rule: rtranclp_induct) (simp_all add: micro_timers)

text \<open>
  The remaining changes belong to events: starting a timer, or its firing, changes the timers of the wallet
  connection only; a connection of a miner is accepted, ends, or is dropped when it has ended.
\<close>

inductive tick :: "platform \<Rightarrow> world \<Rightarrow> world \<Rightarrow> bool" for pf where
  small: "micro pf w w' \<Longrightarrow> tick pf w w'"
| timers: "dc_pool_connections d = dc_pool_connections (w_daemon w) \<Longrightarrow>
    dc_hash_submit_block d = dc_hash_submit_block (w_daemon w) \<Longrightarrow> tick pf w (set_daemon d w)"
| accepts: "w_pools w i = None \<Longrightarrow> tick pf w ((set_pool i
      (Pool_connection_new u (if w_registry_expired w then None else Some (w_registry w))) w)
      \<lparr>w_server_pools := w_server_pools w @ [i]\<rparr>)"
| hangs_up: "w_pools w i = Some p \<Longrightarrow> tick pf w (set_pool i (close_connection p) w)"
| maintains: "tick pf w (server_maintenance_timer_handler False w)"

abbreviation ticks :: "platform \<Rightarrow> world \<Rightarrow> world \<Rightarrow> bool" where
  "ticks pf \<equiv> (tick pf)\<^sup>*\<^sup>*"

lemma micros_ticks: "micros pf w w' \<Longrightarrow> ticks pf w w'"
  by (induction rule: rtranclp_induct) (auto intro: rtranclp.rtrancl_into_rtrancl tick.small)

lemma ticks_trans [trans]: "ticks pf u v \<Longrightarrow> ticks pf v w \<Longrightarrow> ticks pf u w"
  by (rule rtranclp_trans)

section \<open>Chains of fallible operations\<close>

text \<open>\<open>steps pf f\<close>: the operation \<open>f\<close> is a sequence of small changes whenever it succeeds.\<close>

definition steps :: "platform \<Rightarrow> (world \<Rightarrow> world res) \<Rightarrow> bool" where
  "steps pf f \<longleftrightarrow> (\<forall>w w'. f w = Inr w' \<longrightarrow> micros pf w w')"

lemma stepsI: "(\<And>w w'. f w = Inr w' \<Longrightarrow> micros pf w w') \<Longrightarrow> steps pf f"
  by (simp add: steps_def)

lemma stepsD: "steps pf f \<Longrightarrow> f w = Inr w' \<Longrightarrow> micros pf w w'"
  by (simp add: steps_def)

lemma micros_bind:
  assumes "rbind m g = Inr w'" and "\<And>u. m = Inr u \<Longrightarrow> micros pf w u" and "steps pf g"
  shows "micros pf w w'"
  using assms by (auto simp: rbind_eq_Inr dest: stepsD intro: micros_trans)

lemma steps_bind [micro_intros]: "steps pf f \<Longrightarrow> steps pf g \<Longrightarrow> steps pf (\<lambda>w. rbind (f w) g)"
  by (intro stepsI) (erule micros_bind; auto dest: stepsD)

lemma steps_Inr [micro_intros]: "steps pf Inr"
  by (intro stepsI) simp

lemma steps_rfold: "(\<And>x. steps pf (f x)) \<Longrightarrow> rfold f xs w = Inr w' \<Longrightarrow> micros pf w w'"
proof (induction xs arbitrary: w)
  case Nil
  then show ?case by simp
next
  case (Cons x xs)
  then obtain u where u: "f x w = Inr u" "rfold f xs u = Inr w'" by (auto simp: rbind_eq_Inr)
  from Cons.prems(1) u(1) have "micros pf w u" by (rule stepsD)
  with Cons.IH [OF Cons.prems(1) u(2)] show ?case by simp
qed

section \<open>Operations of a miner connection\<close>

lemma micros_on_pool:
  assumes "on_pool i f w = Inr w'"
    and "\<And>p p'. w_pools w i = Some p \<Longrightarrow> f p = Inr p' \<Longrightarrow> pool_step pf (w_registry w) (w_prime w) p p'"
  shows "micros pf w w'"
  using assms by (auto simp: on_pool_Inr intro: micro_pool)

lemma steps_on_pool:
  assumes "\<And>reg pg p p'. f p = Inr p' \<Longrightarrow> pool_step pf reg pg p p'"
  shows "steps pf (on_pool i f)"
  using assms by (intro stepsI) (erule micros_on_pool)

lemma steps_transmit_wallet [micro_intros]: "steps pf (transmit_wallet packet)"
  by (intro stepsI) (auto simp: transmit_wallet_Inr intro: micro_to_wallet)

lemma steps_transmit_miner:
  assumes "\<And>bs. get_bytes packet = Inr bs \<Longrightarrow> \<not> is_share_reply bs"
  shows "steps pf (transmit_miner i packet)"
  using assms by (intro stepsI) (auto simp: transmit_miner_Inr intro: micro_to_miner)

lemma steps_reply [micro_intros]:
  "steps pf (transmit_miner i (get_packet LOGIN_SKMINER_FAIL))"
  "steps pf (transmit_miner i (get_packet LOGIN_SKMINER_SUCCESS))"
  "steps pf (transmit_miner i (get_packet PING))"
  "steps pf (transmit_miner i (get_packet REJECT))"
  "steps pf (transmit_miner i (get_packet STALE))"
  "steps pf (transmit_miner i (get_height h))"
  "steps pf (transmit_miner i (data_response ACCOUNT_BALANCE v))"
  "steps pf (transmit_miner i (data_response PENDING_PAYOUT v))"
  "steps pf (transmit_miner i (block_data_packet pf b n))"
  by (rule steps_transmit_miner;
      auto simp: data_response_def get_packet_def packet_default_def block_data_packet_def get_bytes_def is_share_reply_def
        get_height_def)+

lemma add_score_step: "add_score now n p = Inr p' \<Longrightarrow> pool_step pf reg pg p p'"
  by (auto simp: add_score_def rbind_eq_Inr split: option.splits intro!: pool_step.filter)

lemma score_if_ddos_step: "score_if_ddos now n p = Inr p' \<Longrightarrow> pool_step pf reg pg p p'"
  by (auto simp: score_if_ddos_def split: if_splits intro: add_score_step pool_step.same)

lemma steps_score [micro_intros]: "steps pf (on_pool i (score_if_ddos now n))"
  by (rule steps_on_pool) (rule score_if_ddos_step)

lemma ban_Inr: "ban now p = Inr p' \<Longrightarrow> \<exists>f. pc_ddos p \<noteq> None \<and> p' = p\<lparr>pc_ddos := Some f\<rparr>"
  by (auto simp: ban_def rbind_eq_Inr split: option.splits)

lemma rfold_bans:
  "rfold (\<lambda>b. ban_when b now) bs p = Inr p' \<Longrightarrow> p' = p \<or> (\<exists>f. pc_ddos p \<noteq> None \<and> p' = p\<lparr>pc_ddos := Some f\<rparr>)"
proof (induction bs arbitrary: p)
  case Nil
  then show ?case by simp
next
  case (Cons b bs)
  then obtain u where u: "ban_when b now p = Inr u" "rfold (\<lambda>b. ban_when b now) bs u = Inr p'"
    by (auto simp: rbind_eq_Inr)
  from u(1) have "u = p \<or> (\<exists>f. pc_ddos p \<noteq> None \<and> u = p\<lparr>pc_ddos := Some f\<rparr>)"
    by (auto simp: ban_when_def dest: ban_Inr split: if_splits)
  with Cons.IH [OF u(2)] show ?case by (elim disjE exE conjE) auto
qed

lemma ddos_invalid_header_step: "ddos_invalid_header now packet p = Inr p' \<Longrightarrow> pool_step pf reg pg p p'"
  unfolding ddos_invalid_header_def
  by (auto split: if_splits dest!: rfold_bans intro: pool_step.same pool_step.filter simp del: rfold.simps)

section \<open>The handlers of a miner connection\<close>

lemma steps_with_pool:
  assumes "\<And>p w w'. w_pools w i = Some p \<Longrightarrow> f p w = Inr w' \<Longrightarrow> micros pf w w'"
  shows "steps pf (with_pool i f)"
  using assms by (intro stepsI) (auto simp: with_pool_Inr)

lemma micros_set_registry:
  "steps pf g \<Longrightarrow> reg_le (w_registry w) reg \<Longrightarrow> g (set_registry reg w) = Inr w' \<Longrightarrow> micros pf w w'"
  by (meson micro_registry micros_trans stepsD)

lemma login_banned_micros:
  assumes "login_banned now i b w = Inr w'" and "w_pools w i = Some p" and "\<not> pc_logged_in p"
  shows "micros pf w w'"
proof -
  let ?b = "if \<not> is_ip_address_banned b (pc_remote_address p) then add_banned_ip_address (pc_remote_address p) b else b"
  let ?w1 = "set_registry ((w_registry w)\<lparr>m_banned_users := Some ?b\<rparr>) w"
  from assms(1,2) obtain w2 where w2: "on_pool i (\<lambda>p. rbind (ban now p) (\<lambda>p. Inr (p\<lparr>pc_logged_in := False\<rparr>))) ?w1 = Inr w2"
    and w': "transmit_miner i (get_packet LOGIN_SKMINER_FAIL) w2 = Inr w'"
    by (auto simp: login_banned_def Let_def rbind_eq_Inr)
  have "micros pf w ?w1" by (intro micro_registry le_intros)
  also have "micros pf ?w1 w2"
    using w2 assms(2,3)
    by (elim micros_on_pool) (auto simp: rbind_eq_Inr dest!: ban_Inr intro: pool_step.refused)
  also have "micros pf w2 w'" using steps_reply(1) w' by (rule stepsD)
  finally show ?thesis .
qed

lemma login_address_micros:
  assumes "login_address pf now i a w = Inr w'" and "w_pools w i = Some p" and p: "\<not> pc_logged_in p"
  shows "micros pf w w'"
proof -
  let ?p = "p\<lparr>pc_nxsaddress := a, pc_stats_address := a\<rparr>"
  let ?w1 = "set_pool i ?p w"
  from assms(1,2) obtain valid where valid: "valid_address (pf_SK256 pf) a = Inr valid"
    and rest: "(if \<not> valid
       then rbind (on_pool i (\<lambda>p. if pc_isDDOS p then ban now p else Inr p) ?w1)
              (transmit_miner i (get_packet LOGIN_SKMINER_FAIL))
       else let w = set_registry (ensure_account a (w_registry ?w1)) ?w1
            in case m_banned_users (w_registry w) of
              None \<Rightarrow> Inl Null_deref
            | Some b \<Rightarrow>
                if is_account_banned b a then login_banned now i b w
                else rbind (on_pool i (\<lambda>p. Inr (p\<lparr>pc_logged_in := True\<rparr>)) w)
                       (transmit_miner i (get_packet LOGIN_SKMINER_SUCCESS))) = Inr w'"
    by (auto simp: login_address_def rbind_eq_Inr)
  have w1: "micros pf w ?w1" by (rule micro_pool [OF assms(2) pool_step.address [OF p]])
  show ?thesis
  proof (cases valid)
    case False
    with rest have "rbind (on_pool i (\<lambda>p. if pc_isDDOS p then ban now p else Inr p) ?w1)
        (transmit_miner i (get_packet LOGIN_SKMINER_FAIL)) = Inr w'" by (simp only: if_True not_False_eq_True)
    then have "micros pf ?w1 w'"
    proof (rule micros_bind [OF _ micros_on_pool steps_reply(1)])
      fix q q'
      assume "(if pc_isDDOS q then ban now q else Inr q) = Inr q'"
      then show "pool_step pf (w_registry ?w1) (w_prime ?w1) q q'"
        by (auto dest!: ban_Inr split: if_splits intro: pool_step.same pool_step.filter)
    qed
    with w1 show ?thesis by (rule micros_trans)
  next
    case True
    let ?w2 = "set_registry (ensure_account a (w_registry w)) ?w1"
    have w2: "micros pf ?w1 ?w2" by (intro micro_registry) (simp add: ensure_account_le)
    from rest True obtain b where b: "m_banned_users (ensure_account a (w_registry w)) = Some b"
      by (auto simp: Let_def split: option.splits)
    have "micros pf ?w2 w'"
    proof (cases "is_account_banned b a")
      case banned: True
      then have "login_banned now i b ?w2 = Inr w'" using rest True b by (simp add: Let_def)
      then show ?thesis by (rule login_banned_micros [where p = ?p]) (simp_all add: p)
    next
      case False
      have "HasKey a (m_account_db (ensure_account a (w_registry w)))"
        by (auto simp: ensure_account_def HasKey_def UpdateRecord_def om_count_def Account_key_def)
      then have "may_log_in pf (w_registry ?w2) (pc_nxsaddress ?p)"
        using valid True b False by (simp add: may_log_in_def)
      then have step: "pool_step pf (w_registry ?w2) pg ?p (?p\<lparr>pc_logged_in := True\<rparr>)" for pg
        by (intro pool_step.login) (simp_all add: p)
      from rest True b False have "rbind (on_pool i (\<lambda>p. Inr (p\<lparr>pc_logged_in := True\<rparr>)) ?w2)
          (transmit_miner i (get_packet LOGIN_SKMINER_SUCCESS)) = Inr w'" by (simp add: Let_def)
      then show ?thesis
      proof (rule micros_bind [OF _ micros_on_pool steps_reply(2)])
        fix u
        assume u: "on_pool i (\<lambda>p. Inr (p\<lparr>pc_logged_in := True\<rparr>)) ?w2 = Inr u"
        show "on_pool i (\<lambda>p. Inr (p\<lparr>pc_logged_in := True\<rparr>)) ?w2 = Inr u" by (rule u)
      next
        fix q q'
        assume "w_pools ?w2 i = Some q" and "(Inr (q\<lparr>pc_logged_in := True\<rparr>) :: pool_connection res) = Inr q'"
        then show "pool_step pf (w_registry ?w2) (w_prime ?w2) q q'" using step by auto
      qed
    qed
    with w1 w2 show ?thesis by (meson micros_trans)
  qed
qed

lemma steps_login: "steps pf (process_login pf now i packet)"
proof (unfold process_login_def, rule steps_with_pool)
  fix p w w'
  assume *: "w_pools w i = Some p" "(if pc_logged_in p then on_pool i (score_if_ddos now 10) w
     else rbind (packet_data packet) (\<lambda>d. rbind (bytes2string d 0) (\<lambda>a. login_address pf now i a w))) = Inr w'"
  show "micros pf w w'"
  proof (cases "pc_logged_in p")
    case True
    then have "on_pool i (score_if_ddos now 10) w = Inr w'" using *(2) by (simp only: if_True)
    then show ?thesis by (rule stepsD [OF steps_score])
  next
    case False
    with * show ?thesis by (auto simp: rbind_eq_Inr intro: login_address_micros)
  qed
qed

text \<open>The two calls of the wallet connection.\<close>

lemma micros_set_entry:
  assumes "n < length (dc_pool_connections (w_daemon w))"
    and "pd_connection e = pd_connection (dc_pool_connections (w_daemon w) ! n)"
    and "pd_submit_block e = pd_submit_block (dc_pool_connections (w_daemon w) ! n) \<or> pd_submit_block e = None"
  shows "micros pf w (set_entry n e w)"
  unfolding set_entry_def using assms by (intro micro_daemon daemon_step.counts)

lemma find_pool_connection_less:
  "find_pool_connection w ip = Inr n \<Longrightarrow> n < length (dc_pool_connections (w_daemon w))"
  using find_pool_Some by (auto simp: find_pool_connection_Inr)

lemma steps_request_block: "steps pf (request_block k ip)"
  by (rule stepsI)
    (auto simp: request_block_def rbind_eq_Inr dest: find_pool_connection_less intro!: micros_set_entry)

lemma micros_submit_block:
  assumes "daemon_submit_block (b\<lparr>nNonce := x\<rparr>) ip w = Inr (ok, w')" and "w_pools w i = Some p"
    and "om_find (pc_blocks_requested p) h = Some b"
  shows "micros pf w w' \<and> w_pools w' = w_pools w \<and> w_prime w' = w_prime w"
proof -
  from assms(1) obtain n where n: "n < length (dc_pool_connections (w_daemon w))"
    and w': "w' = w \<or> w' = set_entry n ((dc_pool_connections (w_daemon w) ! n)\<lparr>pd_submit_block := Some (b\<lparr>nNonce := x\<rparr>)\<rparr>) w"
    by (auto simp: daemon_submit_block_def Let_def rbind_eq_Inr dest: find_pool_connection_less split: if_splits)
  have "micros pf w (set_entry n ((dc_pool_connections (w_daemon w) ! n)\<lparr>pd_submit_block := Some (b\<lparr>nNonce := x\<rparr>)\<rparr>) w)"
    unfolding set_entry_def using n assms(2,3) by (intro micro_daemon daemon_step.submits)
  with w' show ?thesis by auto
qed

lemma steps_get_block: "steps pf (process_get_block now i)"
  unfolding process_get_block_def
proof (rule steps_bind)
  show "steps pf (on_pool i (\<lambda>p. Inr (p\<lparr>pc_num_blocks_requested := pc_num_blocks_requested p + 1\<rparr>)))"
    by (rule steps_on_pool) (auto intro: pool_step.count)
  have score: "steps pf (on_pool i (\<lambda>p. if pc_ddos p \<noteq> None then add_score now 1 p else Inr p))"
    by (rule steps_on_pool) (auto split: if_splits intro: add_score_step pool_step.same)
  show "steps pf (with_pool i (\<lambda>p w. rbind (request_block (pc_num_blocks_requested p) (pc_remote_address p) w)
      (on_pool i (\<lambda>p. if pc_ddos p \<noteq> None then add_score now 1 p else Inr p))))"
    by (rule steps_with_pool) (rule micros_bind [OF _ _ score], assumption, rule stepsD [OF steps_request_block])
qed

lemma steps_get_balance: "steps pf (process_get_balance i)"
  unfolding process_get_balance_def
proof (rule steps_with_pool)
  fix p w w'
  assume *: "(let reg = w_registry w; (acc, db) = GetRecord Account_default (pc_nxsaddress p) (m_account_db reg)
     in transmit_miner i (data_response ACCOUNT_BALANCE (nAccountBalance acc)) (set_registry (reg\<lparr>m_account_db := db\<rparr>) w)) = Inr w'"
  obtain acc db where g: "GetRecord Account_default (pc_nxsaddress p) (m_account_db (w_registry w)) = (acc, db)" by force
  have "reg_le (w_registry w) ((w_registry w)\<lparr>m_account_db := db\<rparr>)"
    using db_le_get [of "m_account_db (w_registry w)" Account_default "pc_nxsaddress p"] g by (intro le_intros) simp
  with * g show "micros pf w w'"
    by (auto simp: Let_def intro: micros_set_registry [OF steps_reply(7)])
qed

lemma steps_get_payout: "steps pf (process_get_payout i)"
  unfolding process_get_payout_def
proof (rule steps_with_pool)
  fix p and w w' :: world
  let ?r = "w_registry w"
  let ?q = "if find_address (m_coinbase ?r) (pc_nxsaddress p) then get_map_outputs (pc_nxsaddress p) (m_coinbase ?r)
      else (0, m_coinbase ?r)"
  assume "(let reg = ?r; (pending_payout, cb) = (if find_address (m_coinbase reg) (pc_nxsaddress p)
            then get_map_outputs (pc_nxsaddress p) (m_coinbase reg) else (0, m_coinbase reg))
     in transmit_miner i (data_response PENDING_PAYOUT pending_payout) (set_registry (reg\<lparr>m_coinbase := cb\<rparr>) w)) = Inr w'"
  then have "transmit_miner i (data_response PENDING_PAYOUT (fst ?q)) (set_registry (?r\<lparr>m_coinbase := snd ?q\<rparr>) w) = Inr w'"
    by (simp only: Let_def split_beta)
  moreover have "reg_le ?r (?r\<lparr>m_coinbase := snd ?q\<rparr>)" by (intro le_intros) auto
  ultimately show "micros pf w w'" by (intro micros_set_registry [OF steps_reply(8)])
qed

lemma steps_submit_pps: "steps pf (process_submit_pps i packet)"
  by (rule stepsI) (auto simp: process_submit_pps_def rbind_eq_Inr intro: stepsD [OF steps_reply(3)])

section \<open>Shares\<close>

lemma steps_share_refused:
  "steps pf (share_not_found now i)" "steps pf (share_stale now i)" "steps pf (share_duplicate now i)"
  "steps pf (share_below now i)"
  unfolding share_not_found_def share_stale_def share_duplicate_def share_below_def
  by (intro steps_bind steps_reply steps_score stepsI; (elim micros_bind)?; (intro steps_score)?;
      blast dest: stepsD [OF steps_reply(6)])+

lemma share_finish_micros:
  assumes "share_finish i b x d w = Inr w'" and "w_pools w i = Some p" and "om_find (pc_blocks_requested p) g = Some b"
    and "share_ok pf (w_prime w) p h"
  shows "micros pf w w'"
proof (cases "d_ge d (get_difficulty (nBits b))")
  case True
  with assms(1,2) obtain ok u where u: "daemon_submit_block (b\<lparr>nNonce := x\<rparr>) (pc_remote_address p) w = Inr (ok, u)"
    and w': "(if ok then transmit_miner i (get_packet BLOCK) u else Inr u) = Inr w'"
    by (auto simp: share_finish_def rbind_eq_Inr)
  from micros_submit_block [OF u assms(2,3)] have m: "micros pf w u" "w_pools u = w_pools w" "w_prime u = w_prime w"
    by auto
  then have "micros pf u w'"
    using w' assms(2,4) by (auto simp: transmit_miner_Inr split: if_splits intro: micro_share_reply)
  with m(1) show ?thesis by (rule micros_trans)
next
  case False
  with assms show ?thesis by (auto simp: share_finish_def transmit_miner_Inr intro: micro_share_reply)
qed

lemma share_accepted_micros:
  assumes "share_accepted pf i h b x d w = Inr w'" and "w_pools w i = Some p"
    and "om_find (pc_blocks_requested p) g = Some b" and "share_ok pf (w_prime w) p h" and "h \<notin> pc_primes p"
    and "width h = width g"
  shows "micros pf w w'"
proof -
  let ?p = "p\<lparr>pc_primes := insert h (pc_primes p)\<rparr>"
  let ?w1 = "set_pool i ?p w"
  from assms(1,2) obtain reg where reg: "credit_share pf (pc_nxsaddress p) d (w_registry w) = Inr reg"
    and w': "share_finish i b x d (set_registry reg ?w1) = Inr w'"
    by (auto simp: share_accepted_def rbind_eq_Inr)
  have "micros pf w ?w1" using pool_step.share [OF assms(4,5,3,6)] by (rule micro_pool [OF assms(2)])
  also have "micros pf ?w1 (set_registry reg ?w1)"
    using credit_share_le [OF reg] by (intro micro_registry) simp
  also have "micros pf (set_registry reg ?w1) w'"
    using w' by (rule share_finish_micros [where p = ?p and g = g and h = h])
      (use assms(3,4) in \<open>simp_all add: share_ok_def\<close>)
  finally show ?thesis .
qed

lemma check_share_micros:
  assumes "check_share pf now i h b x w = Some (Inr w')" and "w_pools w i = Some p"
    and "om_find (pc_blocks_requested p) g = Some b" and "h \<notin> pc_primes p" and "width h = width g"
  shows "micros pf w w'"
proof -
  from assms(1,2) obtain d bits where d: "gmp_verification (pf_gmp pf) (w_prime w) h = Some (Inr d)"
    and bits: "set_bits_diff d = Inr bits"
    and w': "(if bits \<ge> pc_min_share p then share_accepted pf i h b x d w else share_below now i w) = Inr w'"
    by (auto simp: check_share_def rbind_eq_Inr)
  show ?thesis
  proof (cases "bits \<ge> pc_min_share p")
    case True
    then have "share_ok pf (w_prime w) p h" using d bits by (auto simp: share_ok_def)
    with True w' assms show ?thesis by (auto intro: share_accepted_micros)
  next
    case False
    with w' show ?thesis by (auto intro: stepsD [OF steps_share_refused(4)])
  qed
qed

lemma width_add_nonce: "width (bu_add64 a n) = width a"
  by (simp add: bu_add64_def bu_assign64_def)

lemma submit_share_micros:
  assumes "process_submit_share pf now i packet w = Some (Inr w')"
  shows "micros pf w w'"
proof -
  from assms obtain d g p where p: "w_pools w i = Some p"
    and *: "(case om_find (pc_blocks_requested p) g of None \<Rightarrow> Some (share_not_found now i w)
        | Some block \<Rightarrow> submit_known pf now i d g block w) = Some (Inr w')"
    by (auto simp: process_submit_share_def split: sum.splits option.splits)
  show ?thesis
  proof (cases "om_find (pc_blocks_requested p) g")
    case None
    with * show ?thesis by (auto intro: stepsD [OF steps_share_refused(1)])
  next
    case (Some b)
    with * have k: "submit_known pf now i d g b w = Some (Inr w')" by simp
    show ?thesis
    proof (cases "nHeight b = m_best_height (w_registry w)")
      case False
      with k show ?thesis by (auto simp: submit_known_def intro: stepsD [OF steps_share_refused(2)])
    next
      case True
      with k p obtain x where x: "(if bu_add64 g x \<in> pc_primes p then Some (share_duplicate now i w)
          else check_share pf now i (bu_add64 g x) b x w) = Some (Inr w')"
        by (auto simp: submit_known_def Let_def split: sum.splits)
      then show ?thesis
        using p Some by (auto simp: width_add_nonce split: if_splits
            intro: stepsD [OF steps_share_refused(3)] check_share_micros)
    qed
  qed
qed

end
