(* ===== verification/Handler_Steps.thy ===== *)
theory Handler_Steps
  imports Server_Steps
begin

text \<open>
  The handlers of the connections and timers as sequences of the small changes of \<open>Server_Steps\<close>, up to
  \<open>step_ticks\<close>: every step of the running server is a sequence of these and of the changes of timers and of
  the life of a connection that belong to its event.
\<close>

section \<open>Received data of a miner\<close>

lemma process_request_micros:
  "process_request pf now i packet w = Some (Inr w') \<Longrightarrow> micros pf w w'"
  unfolding process_request_def process_ping_def
  by (auto split: if_splits intro: submit_share_micros stepsD [OF steps_get_block] stepsD [OF steps_get_balance]
      stepsD [OF steps_get_payout] stepsD [OF steps_reply(3)] stepsD [OF steps_submit_pps])

lemma close_micros:
  "on_pool i (\<lambda>p. Inr (close_connection p)) w = Inr w' \<Longrightarrow> w_daemon_expired w \<Longrightarrow> micros pf w w'"
  by (auto simp: on_pool_Inr intro!: r_into_rtranclp [of "micro pf"] micro.gives_up)

lemma process_packet_micros:
  assumes "process_packet pf now i packet w = Some (Inr w')"
  shows "micros pf w w'"
proof (cases "w_pools w i")
  case None
  then show ?thesis
    using assms by (auto simp: process_packet_def process_login_def with_pool_def split: if_splits)
next
  case (Some p)
  note score = stepsD [OF steps_score] and login = stepsD [OF steps_login]
  show ?thesis
    using assms Some unfolding process_packet_def
    by (auto simp del: on_pool_Some split: if_splits intro: score close_micros login process_request_micros)
qed

lemma process_data_micros:
  assumes "process_data pf now i buffer w = Some (Inr w')"
  shows "micros pf w w'"
proof -
  from assms obtain packet where "packet_of_buffer buffer = Inr packet"
    by (auto simp: process_data_def split: sum.splits)
  note assms = assms [unfolded process_data_def this]
  show ?thesis
  proof (cases "is_valid packet")
    case False
    with assms show ?thesis by (auto simp del: on_pool_Some intro: stepsD [OF steps_score])
  next
    case True
    with assms obtain u where u: "on_pool i (ddos_invalid_header now packet) w = Inr u"
      and w': "process_packet pf now i packet u = Some (Inr w')"
      by (auto simp del: on_pool_Some split: sum.splits)
    have "micros pf w u" using u by (rule micros_on_pool) (rule ddos_invalid_header_step)
    also have "micros pf u w'" using w' by (rule process_packet_micros)
    finally show ?thesis .
  qed
qed

lemma steps_connected: "steps pf (connected now address i)"
  unfolding connected_def
proof (rule steps_bind)
  show "steps pf (on_pool i (\<lambda>p. if \<not> pc_connection p then Inl Null_deref
      else Inr (p\<lparr>pc_remote_address := address, pc_ddos := Some (DDOS_Filter_new 30 address now)\<rparr>)))"
    by (rule steps_on_pool) (auto split: if_splits intro: pool_step.connects)
  show "steps pf (\<lambda>w. if w_daemon_expired w then on_pool i (\<lambda>p. Inr (close_connection p)) w
      else Inr (set_daemon (add_pool_connection i (w_daemon w)) w))"
    by (rule stepsI)
      (auto simp del: on_pool_Some split: if_splits intro: close_micros micro_daemon daemon_step.adds)
qed

lemma connection_handler_micros:
  assumes "connection_handler pf now i result address buffer w = Some (Inr w')" and "\<not> ends_connection result"
  shows "micros pf w w'"
  using assms unfolding connection_handler_def ends_connection_def
  by (auto simp del: on_pool_Some split: if_splits
      intro: stepsD [OF steps_connected] process_data_micros)

lemma connection_handler_ends:
  assumes "connection_handler pf now i result address buffer w = Some (Inr w')" and "ends_connection result"
  shows "\<exists>p. w_pools w i = Some p \<and> w' = set_pool i (close_connection p) w"
  using assms by (auto simp: connection_handler_def ends_connection_def on_pool_Inr split: if_splits)

section \<open>Calls of the wallet connection\<close>

lemma steps_pool_new_round: "steps pf (pool_new_round h i)"
  unfolding pool_new_round_def
  by (intro steps_bind steps_reply steps_on_pool) (auto intro: pool_step.round)

lemma add_block_micros:
  assumes "add_block pf b i w = Inr w'" and "cblock_wf b"
  shows "micros pf w w'"
proof -
  from assms(1) obtain p where p: "w_pools w i = Some p" by (auto simp: add_block_def with_pool_Inr)
  let ?p = "p\<lparr>pc_num_blocks_requested := pc_num_blocks_requested p - 1,
      pc_blocks_requested := om_set (GetHash (pf_SK1024 pf) b) b (pc_blocks_requested p)\<rparr>"
  show ?thesis
  proof (cases "pc_connection p")
    case True
    with assms(1) p have "transmit_miner i (block_data_packet pf b (pc_min_share p)) (set_pool i ?p w) = Inr w'"
      by (simp add: add_block_def Let_def)
    moreover have "micros pf w (set_pool i ?p w)" by (rule micro_pool [OF p pool_step.block [OF assms(2)]])
    ultimately show ?thesis using stepsD [OF steps_reply(9)] micros_trans by blast
  next
    case False
    with assms(1) p show ?thesis by (simp add: add_block_def)
  qed
qed

section \<open>The wallet connection\<close>

lemma micro_flags:
  "dc_pool_connections d = dc_pool_connections (w_daemon w) \<Longrightarrow> dc_hash_submit_block d = dc_hash_submit_block (w_daemon w) \<Longrightarrow>
   timers_of d = timers_of (w_daemon w) \<Longrightarrow> dc_connection d = dc_connection (w_daemon w) \<Longrightarrow>
   micros pf w (set_daemon d w)"
  by (intro micro_daemon daemon_step.flags)

lemma micro_set_pending [intro, simp]: "micros pf w (set_pending b w)"
  unfolding set_pending_def by (simp add: micro_flags timers_of_def)

lemma tick_timers [intro, simp]:
  "ticks pf w (start_block_timer w)" "ticks pf w (start_orphan_check_timer w)" "ticks pf w (start_get_height_timer w)"
  "ticks pf w (block_timer_fires w)" "ticks pf w (height_timer_fires w)" "ticks pf w (orphan_timer_fires w)"
  unfolding start_block_timer_def start_orphan_check_timer_def start_get_height_timer_def
    block_timer_fires_def height_timer_fires_def orphan_timer_fires_def
  by (rule r_into_rtranclp, rule tick.timers; simp)+

lemma steps_height_body:
  "steps pf (\<lambda>w. rbind (transmit_wallet daemon_get_height w) (\<lambda>w. rbind (transmit_wallet daemon_get_round w) (\<lambda>w.
     if dc_coinbase_pending (w_daemon w) then transmit_wallet daemon_get_reward w else Inr w)))"
proof -
  have "steps pf (\<lambda>w. if dc_coinbase_pending (w_daemon w) then transmit_wallet daemon_get_reward w else Inr w)"
    by (rule stepsI) (auto split: if_splits intro: stepsD [OF steps_transmit_wallet])
  then show ?thesis by (intro steps_bind steps_transmit_wallet)
qed

text \<open>A timer handler that did its work is a sequence of small changes, and then it starts its timer.\<close>

lemma height_timer_micros:
  assumes "get_height_timer_handler False w = Inr w'"
  shows "\<exists>u. micros pf w u \<and> w' = start_get_height_timer u"
proof -
  from assms obtain u where u: "rbind (transmit_wallet daemon_get_height w) (\<lambda>w. rbind (transmit_wallet daemon_get_round w) (\<lambda>w.
     if dc_coinbase_pending (w_daemon w) then transmit_wallet daemon_get_reward w else Inr w)) = Inr u"
    and w': "w' = start_get_height_timer u"
    by (auto simp: get_height_timer_handler_def rbind_eq_Inr)
  from u have "micros pf w u" by (rule stepsD [OF steps_height_body])
  with w' show ?thesis by blast
qed

lemma first_submit_Some:
  "first_submit pools es = Some n \<Longrightarrow>
     n < length es \<and> pools (pd_connection (es ! n)) \<noteq> None \<and> pd_submit_block (es ! n) \<noteq> None"
  by (induction es arbitrary: n) (auto split: if_splits)

lemma first_waiting_Some:
  "first_waiting pools es = Some n \<Longrightarrow>
     n < length es \<and> pools (pd_connection (es ! n)) \<noteq> None \<and> pd_blocks_waiting (es ! n) > 0"
  by (induction es arbitrary: n) (auto split: if_splits)

lemma submit_to_wallet_micros:
  assumes "submit_to_wallet pf b p w = Inr w'" and "n < length (dc_pool_connections (w_daemon w))"
    and "pd_submit_block (dc_pool_connections (w_daemon w) ! n) = Some b"
  shows "micros pf w w' \<and> dc_pool_connections (w_daemon w') = dc_pool_connections (w_daemon w)"
proof -
  let ?w = "set_daemon ((w_daemon w)\<lparr>dc_hash_submit_block := GetHash (pf_SK1024 pf) b\<rparr>) w"
  have 1: "micros pf w ?w" using assms(2,3) by (intro micro_daemon daemon_step.hash)
  show ?thesis
  proof (cases "nHeight b = m_best_height (w_registry w)")
    case True
    with assms(1) obtain u where u: "transmit_wallet (submit_block (hashMerkleRoot b) (nNonce b)) ?w = Inr u"
      and w': "w' = set_daemon ((w_daemon u)\<lparr>dc_last_blockfinder := pc_nxsaddress p\<rparr>) u"
      by (auto simp: submit_to_wallet_def Let_def rbind_eq_Inr)
    have "micros pf ?w u" using u by (rule stepsD [OF steps_transmit_wallet])
    moreover have "micros pf u w'" unfolding w' by (rule micro_flags) (simp_all add: timers_of_def)
    ultimately show ?thesis using 1 u w' by (auto simp: transmit_wallet_Inr)
  next
    case False
    with assms(1) 1 show ?thesis by (auto simp: submit_to_wallet_def Let_def)
  qed
qed

lemma steps_submit_pending: "steps pf (submit_pending pf)"
proof (rule stepsI)
  fix w w'
  assume *: "submit_pending pf w = Inr w'"
  let ?es = "dc_pool_connections (w_daemon w)"
  show "micros pf w w'"
  proof (cases "first_submit (w_pools w) ?es")
    case None
    with * show ?thesis by (simp add: submit_pending_def)
  next
    case (Some n)
    with * obtain b p u where b: "pd_submit_block (?es ! n) = Some b" and u: "submit_to_wallet pf b p w = Inr u"
      and w': "w' = set_entry n ((?es ! n)\<lparr>pd_submit_block := None\<rparr>) u"
      by (auto simp: submit_pending_def Let_def rbind_eq_Inr split: option.splits)
    from Some have n: "n < length ?es" by (rule first_submit_Some [THEN conjunct1])
    from submit_to_wallet_micros [OF u n b] have m: "micros pf w u" "dc_pool_connections (w_daemon u) = ?es" by auto
    then have "micros pf u w'" unfolding w' using n by (intro micros_set_entry) simp_all
    with m(1) show ?thesis by (rule micros_trans)
  qed
qed

declare request_loop.simps [simp del]

lemma request_loop_micros:
  assumes "request_loop n e w = Inr w'" and "n < length (dc_pool_connections (w_daemon w))"
    and "dc_pool_connections (w_daemon w) ! n = e"
  shows "micros pf w w' \<and> length (dc_pool_connections (w_daemon w')) = length (dc_pool_connections (w_daemon w))"
  using assms
proof (induction n e w rule: request_loop.induct)
  case (1 n e w)
  show ?case
  proof (cases "pd_blocks_requested e > 0")
    case True
    let ?e = "e\<lparr>pd_blocks_requested := pd_blocks_requested e - 1, pd_blocks_waiting := pd_blocks_waiting e + 1\<rparr>"
    from 1(2) True obtain u where u: "transmit_wallet daemon_get_block (set_entry n ?e w) = Inr u"
      and w': "request_loop n ?e u = Inr w'"
      by (subst (asm) request_loop.simps) (auto simp: Let_def rbind_eq_Inr)
    have "micros pf w (set_entry n ?e w)" using 1(3,4) by (intro micros_set_entry) simp_all
    also have "micros pf (set_entry n ?e w) u" using u by (rule stepsD [OF steps_transmit_wallet])
    finally have m: "micros pf w u" .
    have "dc_pool_connections (w_daemon u) = (dc_pool_connections (w_daemon w))[n := ?e]"
      using u by (auto simp: transmit_wallet_Inr)
    with 1(1) [OF True refl w'] 1(3) m show ?thesis by (auto intro: micros_trans)
  next
    case False
    with 1(2) show ?thesis by (subst (asm) request_loop.simps) simp
  qed
qed

lemma steps_request_pending: "steps pf request_pending"
proof (rule stepsI)
  fix w w'
  have "rfold (\<lambda>n w. request_loop n (dc_pool_connections (w_daemon w) ! n) w) ns w = Inr w' \<Longrightarrow>
      \<forall>n \<in> set ns. n < length (dc_pool_connections (w_daemon w)) \<Longrightarrow> micros pf w w'" for ns
  proof (induction ns arbitrary: w)
    case Nil
    then show ?case by simp
  next
    case (Cons n ns)
    then obtain u where u: "request_loop n (dc_pool_connections (w_daemon w) ! n) w = Inr u"
      and w': "rfold (\<lambda>n w. request_loop n (dc_pool_connections (w_daemon w) ! n) w) ns u = Inr w'"
      by (auto simp: rbind_eq_Inr)
    from request_loop_micros [OF u _ refl] Cons.prems(2) have m: "micros pf w u"
      and len: "length (dc_pool_connections (w_daemon u)) = length (dc_pool_connections (w_daemon w))" by auto
    from Cons.IH [OF w'] Cons.prems(2) len have "micros pf u w'" by simp
    with m show ?case by (rule micros_trans)
  qed
  then show "request_pending w = Inr w' \<Longrightarrow> micros pf w w'" by (simp add: request_pending_def)
qed

lemma block_timer_micros:
  assumes "block_timer_handler pf False w = Inr w'" and "\<not> w_registry_expired w"
  shows "\<exists>u. micros pf w u \<and> w' = start_block_timer u"
proof (cases "dc_coinbase_pending (w_daemon w)")
  case True
  with assms show ?thesis by (auto simp: block_timer_handler_def)
next
  case False
  with assms obtain v u where "submit_pending pf w = Inr v" "request_pending v = Inr u" "w' = start_block_timer u"
    by (auto simp: block_timer_handler_def rbind_eq_Inr)
  then show ?thesis using stepsD [OF steps_submit_pending] stepsD [OF steps_request_pending] micros_trans by blast
qed

lemma steps_check_orphan: "steps pf (check_orphan k)"
proof (rule stepsI)
  fix w w' :: world
  let ?r = "w_registry w"
  let ?g = "GetRecord Block_default k (m_block_db ?r)"
  let ?w = "set_registry (?r\<lparr>m_block_db := snd ?g\<rparr>) w"
  assume "check_orphan k w = Inr w'"
  then have "(if nRound (fst ?g) \<ge> m_current_round ?r - 5 \<and> nCoinbaseValue (fst ?g) > 0
      then transmit_wallet (check_block k) ?w else Inr ?w) = Inr w'"
    by (simp only: check_orphan_def Let_def split_beta)
  moreover have "micros pf w ?w" by (intro micro_registry le_intros)
  ultimately show "micros pf w w'"
    by (auto split: if_splits intro: micros_trans stepsD [OF steps_transmit_wallet])
qed

lemma orphan_timer_micros:
  assumes "orphan_check_timer_handler False w = Inr w'" and "\<not> w_registry_expired w"
  shows "\<exists>u. micros pf w u \<and> w' = start_orphan_check_timer u"
proof -
  from assms obtain u where u: "rfold check_orphan (GetKeys (m_block_db (w_registry w))) w = Inr u"
    and w': "w' = start_orphan_check_timer u"
    by (auto simp: orphan_check_timer_handler_def rbind_eq_Inr)
  have "micros pf w u" using steps_check_orphan u by (rule steps_rfold)
  with w' show ?thesis by blast
qed

section \<open>Answers of the wallet\<close>

lemma steps_new_round: "steps pf new_round"
proof (rule stepsI)
  fix w w'
  let ?w = "set_daemon ((w_daemon w)\<lparr>dc_new_block := True\<rparr>) w"
  assume "new_round w = Inr w'"
  then have r: "rfold (\<lambda>e w. if w_pools w (pd_connection e) = None then Inr w
      else pool_new_round (m_best_height (w_registry w)) (pd_connection e) w) (dc_pool_connections (w_daemon w)) ?w = Inr w'"
    by (simp only: new_round_def)
  have "micros pf w ?w" by (rule micro_flags) (simp_all add: timers_of_def)
  also have "micros pf ?w w'"
    by (rule steps_rfold [OF _ r]) (rule stepsI, auto split: if_splits intro: stepsD [OF steps_pool_new_round])
  finally show "micros pf w w'" .
qed

lemma on_block_height_micros: "micros pf w (on_block_height d w)"
proof -
  have "micros pf w (set_registry ((w_registry w)\<lparr>m_best_height := h\<rparr>) w)" for h
    by (intro micro_registry le_intros)
  then show ?thesis
    using micros_trans [OF _ micro_set_pending] by (simp add: on_block_height_def Let_def)
qed

lemma steps_coinbase_set: "steps pf on_coinbase_set"
proof (rule stepsI)
  fix w w'
  assume "on_coinbase_set w = Inr w'"
  then obtain u reg where u: "new_round (set_pending False w) = Inr u"
    and reg: "write_account_db (w_registry u) = Inr reg" and w': "w' = set_registry reg u"
    by (auto simp: on_coinbase_set_def rbind_eq_Inr)
  have "micros pf w (set_pending False w)" by simp
  also have "micros pf (set_pending False w) u" using u by (rule stepsD [OF steps_new_round])
  also have "micros pf u w'" unfolding w' using write_db_le(2) [OF reg] by (rule micro_registry)
  finally show "micros pf w w'" .
qed

lemma steps_send_coinbase: "steps pf send_coinbase"
  unfolding send_coinbase_def by (intro stepsI) (erule stepsD [OF steps_transmit_wallet])

lemma steps_block_reward: "steps pf (on_block_reward pf d)"
proof (rule stepsI)
  fix w w'
  let ?w = "set_daemon ((w_daemon w)\<lparr>dc_round_reward := bytes2uint64 (pf_shl32 pf) d 0\<rparr>) w"
  let ?reg = "rebuild_coinbase pf (dc_round_reward (w_daemon ?w)) (dc_last_blockfinder (w_daemon ?w)) (w_registry ?w)"
  assume *: "on_block_reward pf d w = Inr w'"
  have 1: "micros pf w ?w" by (rule micro_flags) (simp_all add: timers_of_def)
  show "micros pf w w'"
  proof (cases "m_current_round (w_registry ?w) > 1 \<and> dc_coinbase_pending (w_daemon ?w)")
    case True
    with * have "send_coinbase (set_registry ?reg ?w) = Inr w'" by (simp add: on_block_reward_def Let_def)
    then have "micros pf ?w w'" by (rule micros_set_registry [OF steps_send_coinbase rebuild_coinbase_le])
    with 1 show ?thesis by (rule micros_trans)
  next
    case False
    with * have "new_round (set_pending False ?w) = Inr w'" by (auto simp: on_block_reward_def Let_def)
    then have "micros pf (set_pending False ?w) w'" by (rule stepsD [OF steps_new_round])
    with 1 show ?thesis by (meson micro_set_pending micros_trans)
  qed
qed

lemma steps_block_answers: "steps pf (on_orphan_block d)" "steps pf (on_good_block d)"
proof -
  show "steps pf (on_orphan_block d)"
  proof (rule stepsI)
    fix w w' :: world
    assume "on_orphan_block d w = Inr w'"
    then obtain h reg where reg: "refund_payouts h (log_round h (w_registry w)) = Inr reg"
      and w': "w' = set_pending True (set_registry reg w)"
      by (auto simp: on_orphan_block_def rbind_eq_Inr)
    have "micros pf w (set_registry reg w)"
      using reg_le_trans [OF log_round_le refund_payouts_le [OF reg]] by (rule micro_registry)
    then show "micros pf w w'" unfolding w' using micro_set_pending by (rule micros_trans)
  qed
  show "steps pf (on_good_block d)"
    by (rule stepsI) (auto simp: on_good_block_def rbind_eq_Inr intro: micro_registry log_round_le)
qed

lemma steps_good: "steps pf on_good"
proof (rule stepsI)
  fix w w' :: world
  let ?d = "w_daemon w"
  assume "on_good w = Inr w'"
  then obtain reg where reg: "update_balances (dc_round_reward ?d) (dc_hash_submit_block ?d) (dc_last_blockfinder ?d) (w_registry w) = Inr reg"
    and w': "new_round (set_registry ((clear_shares reg)\<lparr>m_current_round := m_current_round (clear_shares reg) + 1\<rparr>) w) = Inr w'"
    by (auto simp: on_good_def Let_def rbind_eq_Inr)
  have "reg_le (w_registry w) reg" using reg by (rule update_balances_le)
  also have "reg_le reg (clear_shares reg)" by (rule clear_shares_le)
  also have "reg_le (clear_shares reg) ((clear_shares reg)\<lparr>m_current_round := m_current_round (clear_shares reg) + 1\<rparr>)" by simp
  finally show "micros pf w w'" using w' by (rule micros_set_registry [OF steps_new_round])
qed

lemma deserialize_block_wf: "deserialize_block shl32 d = Inr b \<Longrightarrow> cblock_wf b"
  by (auto simp: deserialize_block_def Let_def rbind_eq_Inr cblock_wf_def dest: SetBytes_width)

lemma block_data_micros:
  assumes "on_block_data pf d w = Inr (ret, w')"
  shows "micros pf w w'"
proof -
  from assms obtain b where b: "deserialize_block (pf_shl32 pf) d = Inr b"
    by (auto simp: on_block_data_def rbind_eq_Inr)
  let ?es = "dc_pool_connections (w_daemon w)"
  show ?thesis
  proof (cases "nHeight b = m_best_height (w_registry w) \<and> first_waiting (w_pools w) ?es \<noteq> None")
    case True
    then obtain n where n: "first_waiting (w_pools w) ?es = Some n" by auto
    let ?w = "set_entry n ((?es ! n)\<lparr>pd_blocks_waiting := pd_blocks_waiting (?es ! n) - 1\<rparr>) w"
    from True n assms b have "add_block pf b (pd_connection (?es ! n)) ?w = Inr w'"
      by (auto simp: on_block_data_def Let_def rbind_eq_Inr)
    then have "micros pf ?w w'" using deserialize_block_wf [OF b] by (rule add_block_micros)
    moreover have "micros pf w ?w" using first_waiting_Some [OF n] by (intro micros_set_entry) auto
    ultimately show ?thesis by (meson micros_trans)
  next
    case False
    with assms b show ?thesis by (auto simp: on_block_data_def split: if_splits)
  qed
qed

lemma wallet_branch_micros:
  assumes "wallet_branch pf packet w = Inr (ret, w')"
  shows "micros pf w w'"
  using assms unfolding wallet_branch_def
  by (auto simp: Let_def go_on_def rbind_eq_Inr split: if_splits
      intro: on_block_height_micros stepsD [OF steps_coinbase_set] stepsD [OF steps_block_reward]
        stepsD [OF steps_block_answers(1)] stepsD [OF steps_block_answers(2)] stepsD [OF steps_good] block_data_micros)

lemma steps_wallet_tail: "steps pf wallet_tail"
proof (rule stepsI)
  fix w w'
  let ?w = "set_daemon ((w_daemon w)\<lparr>dc_new_block := False\<rparr>) w"
  assume *: "wallet_tail w = Inr w'"
  have 1: "micros pf w ?w" by (rule micro_flags) (simp_all add: timers_of_def)
  show "micros pf w w'"
  proof (cases "dc_new_block (w_daemon w)")
    case True
    with * have "(if m_current_round (w_registry ?w) > 1 then send_coinbase ?w else Inr (set_pending False ?w)) = Inr w'"
      by (simp add: wallet_tail_def Let_def)
    then have "micros pf ?w w'" by (auto split: if_splits intro: stepsD [OF steps_send_coinbase])
    with 1 show ?thesis by (rule micros_trans)
  next
    case False
    with * show ?thesis by (simp add: wallet_tail_def)
  qed
qed

lemma steps_wallet_process_data: "steps pf (wallet_process_data pf buffer)"
proof (rule stepsI)
  fix w w'
  assume "wallet_process_data pf buffer w = Inr w'"
  then obtain packet where p: "(if \<not> daemon_is_valid packet then Inr w else if w_registry_expired w then Inr w
      else rbind (wallet_branch pf packet w) (\<lambda>(returned, w). if returned then Inr w else wallet_tail w)) = Inr w'"
    by (auto simp only: wallet_process_data_def rbind_eq_Inr)
  show "micros pf w w'"
  proof (cases "\<not> daemon_is_valid packet \<or> w_registry_expired w")
    case True
    with p show ?thesis by (auto split: if_splits)
  next
    case False
    with p obtain returned u where u: "wallet_branch pf packet w = Inr (returned, u)"
      and w': "(if returned then Inr u else wallet_tail u) = Inr w'"
      by (auto simp: rbind_eq_Inr)
    from u have "micros pf w u" by (rule wallet_branch_micros)
    also have "micros pf u w'" using w' by (auto split: if_splits intro: stepsD [OF steps_wallet_tail])
    finally show ?thesis .
  qed
qed

text \<open>The handler of the wallet connection starts the timers when the connection is up, and only then.\<close>

lemma wallet_handler_micros:
  assumes "wallet_handler pf result buffer w = Inr w'" and "\<not> ends_connection result"
  shows "\<exists>u. (u = w \<or> u = start_get_height_timer (start_orphan_check_timer (start_block_timer w))) \<and> micros pf u w'"
  using assms
  by (auto simp: wallet_handler_def ends_connection_def split: if_splits
      intro: stepsD [OF steps_wallet_process_data] stepsD [OF steps_transmit_wallet])

lemma wallet_handler_ends:
  "wallet_handler pf result buffer w = Inr w' \<Longrightarrow> ends_connection result \<Longrightarrow>
   w' = set_daemon ((w_daemon w)\<lparr>dc_connection := False\<rparr>) w"
  by (auto simp: wallet_handler_def ends_connection_def split: if_splits)

section \<open>Steps of the server\<close>

lemma accept_connection_ticks:
  assumes "accept_connection uninit now i address w = Inr w'" and "w_pools w i = None"
  shows "\<exists>u. tick pf w u \<and> micros pf u w' \<and> w_daemon u = w_daemon w \<and> w_daemon_expired u = w_daemon_expired w
    \<and> w_out u = w_out w \<and> w_pools u = (w_pools w)(i \<mapsto>
        Pool_connection_new uninit (if w_registry_expired w then None else Some (w_registry w)))"
proof -
  let ?w = "(set_pool i (Pool_connection_new uninit (if w_registry_expired w then None else Some (w_registry w))) w)
      \<lparr>w_server_pools := w_server_pools w @ [i]\<rparr>"
  from assms(1) have "connected now address i ?w = Inr w'"
    by (simp only: accept_connection_def Let_def)
  then have "micros pf ?w w'" by (rule stepsD [OF steps_connected])
  moreover have "tick pf w ?w" using assms(2) by (rule tick.accepts)
  ultimately show ?thesis by (intro exI [of _ ?w]) simp
qed

lemma tick_around: "ticks pf w v \<Longrightarrow> micros pf v u \<Longrightarrow> ticks pf u x \<Longrightarrow> ticks pf w x"
  by (rule ticks_trans [OF _ ticks_trans [OF micros_ticks]])

lemma step_ticks: "step pf ev w w' \<Longrightarrow> ticks pf w w'"
proof (erule stepE)
  fix now
  assume e: "enabled ev w" and h: "handle pf now ev w = Some (Inr w')"
  have expired: "w_registry_expired (f w) = w_registry_expired w"
    if "f \<in> {block_timer_fires, height_timer_fires, orphan_timer_fires}" for f
    using that by (auto simp: block_timer_fires_def height_timer_fires_def orphan_timer_fires_def)
  show "ticks pf w w'"
  proof (cases ev)
    case (Accept i address uninit)
    with e h obtain u where "tick pf w u" "micros pf u w'" using accept_connection_ticks by fastforce
    then show ?thesis by (meson converse_rtranclp_into_rtranclp micros_ticks)
  next
    case (Miner_event i result buffer)
    with h have c: "connection_handler pf now i result '''' buffer w = Some (Inr w')" by simp
    show ?thesis
    proof (cases "ends_connection result")
      case True
      with connection_handler_ends [OF c] show ?thesis by (auto intro: tick.hangs_up)
    next
      case False
      with c show ?thesis by (intro micros_ticks connection_handler_micros)
    qed
  next
    case (Wallet_event result buffer)
    with h have b: "wallet_handler pf result buffer w = Inr w'" by simp
    show ?thesis
    proof (cases "ends_connection result")
      case True
      show ?thesis unfolding wallet_handler_ends [OF b True]
        by (rule r_into_rtranclp, rule tick.timers) simp_all
    next
      case False
      from wallet_handler_micros [OF b False] obtain u
        where u: "u = w \<or> u = start_get_height_timer (start_orphan_check_timer (start_block_timer w))"
          and m: "micros pf u w'" by blast
      have "ticks pf w (start_get_height_timer (start_orphan_check_timer (start_block_timer w)))"
        by (rule ticks_trans [OF tick_timers(1) ticks_trans [OF tick_timers(2) tick_timers(3)]])
      then have "ticks pf w u" using u by auto
      also have "ticks pf u w'" using m by (rule micros_ticks)
      finally show ?thesis .
    qed
  next
    case Block_timer
    with h have b: "block_timer_handler pf False (block_timer_fires w) = Inr w'" by simp
    show ?thesis
    proof (cases "w_registry_expired w")
      case True
      with b expired [of block_timer_fires] have "w' = block_timer_fires w" by (simp add: block_timer_handler_def)
      then show ?thesis by simp
    next
      case False
      with block_timer_micros [OF b] expired obtain u where u: "micros pf (block_timer_fires w) u" "w' = start_block_timer u"
        by auto
      show ?thesis unfolding u(2) by (rule tick_around [OF tick_timers(4) u(1) tick_timers(1)])
    qed
  next
    case Height_timer
    with h have "get_height_timer_handler False (height_timer_fires w) = Inr w'" by simp
    from height_timer_micros [OF this] obtain u where u: "micros pf (height_timer_fires w) u" "w' = start_get_height_timer u"
      by blast
    show ?thesis unfolding u(2) by (rule tick_around [OF tick_timers(5) u(1) tick_timers(3)])
  next
    case Orphan_timer
    with h have b: "orphan_check_timer_handler False (orphan_timer_fires w) = Inr w'" by simp
    show ?thesis
    proof (cases "w_registry_expired w")
      case True
      with b expired [of orphan_timer_fires] have "w' = orphan_timer_fires w"
        by (simp add: orphan_check_timer_handler_def)
      then show ?thesis by simp
    next
      case False
      with orphan_timer_micros [OF b] expired obtain u where u: "micros pf (orphan_timer_fires w) u" "w' = start_orphan_check_timer u"
        by auto
      show ?thesis unfolding u(2) by (rule tick_around [OF tick_timers(6) u(1) tick_timers(2)])
    qed
  next
    case Server_timer
    with h show ?thesis by (auto intro: tick.maintains)
  next
    case Persistance_timer
    with h show ?thesis by (auto simp: rbind_eq_Inr intro: micros_ticks micro_registry persistance_handler_le)
  qed
qed

text \<open>An invariant of the small changes and of changes of the timers is an invariant of the running server.\<close>

lemma reach_tick:
  assumes "reach pf w v" and "I w" and "\<And>u v. I u \<Longrightarrow> tick pf u v \<Longrightarrow> I v"
  shows "I v"
proof (rule reach_inv [OF assms(1), of I])
  show "I w" by (rule assms(2))
  fix ev u v
  assume u: "I u" and s: "step pf ev u v"
  show "I v" using step_ticks [OF s] by (induction rule: rtranclp_induct) (use u assms(3) in blast)+
qed

end
