(* ===== verification/Server_Invariants.thy ===== *)
theory Server_Invariants
  imports Handler_Steps Prime_Properties
begin

text \<open>
  What holds in every state of the running server: the stores, blocks and numbers have the form the code
  relies on, a logged in miner has an account, and nobody passes the share check. Each invariant is
  checked for the small changes of \<open>Server_Steps\<close>; the last section shows that it holds at the start.
\<close>

section \<open>The form of the state\<close>

definition hash_ok :: "platform \<Rightarrow> bool" where
  "hash_ok pf \<longleftrightarrow> (\<forall>bs. width (pf_SK1024 pf bs) = 32)"

definition registry_typed :: "data_registry \<Rightarrow> bool" where
  "registry_typed r \<longleftrightarrow>
     db_inv (m_account_db r) \<and> db_inv (m_block_db r) \<and> om_inv (mapOutputs (m_coinbase r))
     \<and> m_banned_users r \<noteq> None"

definition pool_typed :: "platform \<Rightarrow> pool_connection \<Rightarrow> bool" where
  "pool_typed pf p \<longleftrightarrow>
     (\<forall>h \<in> pc_primes p. width h = 32) \<and> om_inv (pc_blocks_requested p)
     \<and> (\<forall>h b. om_find (pc_blocks_requested p) h = Some b \<longrightarrow> h = GetHash (pf_SK1024 pf) b \<and> cblock_wf b)"

definition entry_typed :: "pool_connection_data \<Rightarrow> bool" where
  "entry_typed e \<longleftrightarrow> (\<forall>b. pd_submit_block e = Some b \<longrightarrow> cblock_wf b)"

definition daemon_typed :: "daemon_connection \<Rightarrow> bool" where
  "daemon_typed d \<longleftrightarrow> (\<forall>e \<in> set (dc_pool_connections d). entry_typed e) \<and> width (dc_hash_submit_block d) = 32"

definition world_typed :: "platform \<Rightarrow> world \<Rightarrow> bool" where
  "world_typed pf w \<longleftrightarrow>
     registry_typed (w_registry w) \<and> (\<forall>i p. w_pools w i = Some p \<longrightarrow> pool_typed pf p) \<and> daemon_typed (w_daemon w)"

lemma registry_typed_le: "registry_typed r \<Longrightarrow> reg_le r r' \<Longrightarrow> registry_typed r'"
  by (simp add: registry_typed_def reg_le_def db_le_def)

lemma GetHash_width: "hash_ok pf \<Longrightarrow> width (GetHash (pf_SK1024 pf) b) = 32"
  by (simp add: hash_ok_def GetHash_def)

lemma pool_typed_step:
  assumes "pool_step pf reg pg p p'" and "hash_ok pf" and "pool_typed pf p"
  shows "pool_typed pf p'"
  using assms
proof (cases rule: pool_step.cases)
  case (share h g b)
  then have "g = GetHash (pf_SK1024 pf) b" using assms(3) by (simp add: pool_typed_def)
  then have "width h = 32" using share(5) GetHash_width [OF assms(2)] by simp
  with share assms(3) show ?thesis by (auto simp: pool_typed_def)
next
  case (block b n)
  with assms(3) show ?thesis by (auto simp: pool_typed_def)
qed (auto simp: pool_typed_def close_connection_def om_find_def)

lemma entries_update:
  "\<forall>e \<in> set es. P e \<Longrightarrow> P e' \<Longrightarrow> \<forall>e \<in> set (es[n := e']). P e"
  using set_update_subset_insert [of es n e'] by blast

lemma daemon_typed_step:
  assumes "daemon_step pf pools d d'" and "hash_ok pf" and "daemon_typed d"
    and "\<And>i p. pools i = Some p \<Longrightarrow> pool_typed pf p"
  shows "daemon_typed d'"
  using assms
proof (cases rule: daemon_step.cases)
  case (counts n e)
  then have "entry_typed e" using assms(3) nth_mem by (fastforce simp: daemon_typed_def entry_typed_def)
  with counts assms(3) show ?thesis by (auto simp: daemon_typed_def dest: entries_update)
next
  case (submits n i p h b x)
  let ?e = "(dc_pool_connections d ! n)\<lparr>pd_submit_block := Some (b\<lparr>nNonce := x\<rparr>)\<rparr>"
  have "cblock_wf b" using assms(4) [OF submits(3)] submits(4) by (simp add: pool_typed_def)
  then have "entry_typed ?e" by (simp add: entry_typed_def cblock_wf_def)
  with submits assms(3) show ?thesis by (auto simp: daemon_typed_def dest: entries_update)
qed (auto simp: daemon_typed_def GetHash_width add_pool_connection_def Pool_connection_data_new_def entry_typed_def)

lemma pool_typed_new: "pool_typed pf (Pool_connection_new u r)"
  by (simp add: pool_typed_def Pool_connection_new_def om_find_def)

lemma pool_typed_close: "pool_typed pf p \<Longrightarrow> pool_typed pf (close_connection p)"
  by (simp add: pool_typed_def close_connection_def)

lemma server_timer_frame [simp]:
  "w_registry (server_maintenance_timer_handler c w) = w_registry w"
  "w_daemon (server_maintenance_timer_handler c w) = w_daemon w"
  "w_out (server_maintenance_timer_handler c w) = w_out w"
  "w_prime (server_maintenance_timer_handler c w) = w_prime w"
  "w_registry_expired (server_maintenance_timer_handler c w) = w_registry_expired w"
  "w_daemon_expired (server_maintenance_timer_handler c w) = w_daemon_expired w"
  by (simp_all add: server_maintenance_timer_handler_def start_server_timer_def)

lemma server_timer_pools:
  "w_pools (server_maintenance_timer_handler c w) i = Some p \<Longrightarrow> w_pools w i = Some p"
  by (auto simp: server_maintenance_timer_handler_def start_server_timer_def split: if_splits)

lemma world_typed_micro:
  assumes "hash_ok pf" and "world_typed pf w" and "micro pf w w'"
  shows "world_typed pf w'"
  using assms(3)
proof (cases rule: micro.cases)
  case (pool i p p')
  have "pool_typed pf p" using pool(2) assms(2) by (simp add: world_typed_def)
  with pool(3) assms(1) have "pool_typed pf p'" by (rule pool_typed_step)
  with pool assms(2) show ?thesis by (auto simp: world_typed_def)
next
  case (registry reg)
  with assms(2) show ?thesis by (auto simp: world_typed_def intro: registry_typed_le)
next
  case (daemon d)
  have "daemon_typed d"
    using daemon(2) assms(1) by (rule daemon_typed_step) (use assms(2) in \<open>auto simp: world_typed_def\<close>)
  with daemon assms(2) show ?thesis by (simp add: world_typed_def)
next
  case (gives_up i p)
  with assms(2) show ?thesis by (auto simp: world_typed_def pool_typed_close)
qed (use assms(2) in \<open>simp_all add: world_typed_def\<close>)

lemma world_typed_tick: "hash_ok pf \<Longrightarrow> world_typed pf w \<Longrightarrow> tick pf w w' \<Longrightarrow> world_typed pf w'"
  by (erule tick.cases)
    (auto simp: world_typed_def daemon_typed_def pool_typed_new pool_typed_close
      dest: world_typed_micro server_timer_pools)

section \<open>Members\<close>

text \<open>A logged in miner has given a valid address, which has an account.\<close>

definition members_ok :: "platform \<Rightarrow> world \<Rightarrow> bool" where
  "members_ok pf w \<longleftrightarrow>
     (\<forall>i p. w_pools w i = Some p \<longrightarrow> pc_logged_in p \<longrightarrow>
        valid_address (pf_SK256 pf) (pc_nxsaddress p) = Inr True
        \<and> HasKey (pc_nxsaddress p) (m_account_db (w_registry w)))"

lemma members_ok_micro:
  assumes "members_ok pf w" and "micro pf w w'"
  shows "members_ok pf w'"
  using assms(2)
proof (cases rule: micro.cases)
  case (pool i p p')
  have "pc_logged_in p' \<Longrightarrow> valid_address (pf_SK256 pf) (pc_nxsaddress p') = Inr True
      \<and> HasKey (pc_nxsaddress p') (m_account_db (w_registry w))"
    using pool(3)
  proof (cases rule: pool_step.cases)
    case login
    assume "pc_logged_in p'"
    with login show ?thesis by (simp add: may_log_in_def)
  qed (use pool(2) assms(1) in \<open>auto simp: members_ok_def close_connection_def\<close>)
  with pool assms(1) show ?thesis by (auto simp: members_ok_def)
next
  case (registry reg)
  with assms(1) show ?thesis by (auto simp: members_ok_def reg_le_def db_le_def)
next
  case (gives_up i p)
  with assms(1) show ?thesis by (auto simp: members_ok_def close_connection_def)
qed (use assms(1) in \<open>simp_all add: members_ok_def\<close>)

lemma members_ok_tick: "members_ok pf w \<Longrightarrow> tick pf w w' \<Longrightarrow> members_ok pf w'"
  by (erule tick.cases)
    (auto simp: members_ok_def Pool_connection_new_def close_connection_def
      dest: members_ok_micro [unfolded members_ok_def] server_timer_pools)

section \<open>Shares\<close>

text \<open>\<open>mpz_powm\<close> traps on the modulus 0.\<close>

definition gmp_traps :: "gmp \<Rightarrow> bool" where
  "gmp_traps g \<longleftrightarrow> (\<forall>b e. mpz_powm g b e 0 = Inl Div_by_zero)"

lemma no_share_ok:
  assumes "gmp_ok g" and "gmp_traps g" and "g = pf_gmp pf" and "0 < pc_min_share p"
  shows "\<not> share_ok pf prime_static p h"
proof (cases "uval h = 0")
  case True
  have "gmp_verification g prime_static h = Some (Inl Div_by_zero)"
    using assms(1,2) True
    by (simp add: gmp_verification_def gmp_import gmp_prime_test_def gmp_divisor_def gmp_fermat_def
        prime_static_def gmp_traps_def Let_def)
  then show ?thesis by (simp add: share_ok_def assms(3) [symmetric])
next
  case False
  then have "gmp_verification g prime_static h = Some (Inr (Fin 0))"
    by (intro gmp_verification_static assms(1)) simp
  then show ?thesis using assms(4) set_bits_diff_zero by (auto simp: share_ok_def assms(3) [symmetric] not_le)
qed

definition no_shares :: "world \<Rightarrow> bool" where
  "no_shares w \<longleftrightarrow>
     w_prime w = prime_static \<and> \<not> w_registry_expired w \<and> 0 < m_min_share (w_registry w)
     \<and> (\<forall>i p. w_pools w i = Some p \<longrightarrow> pc_min_share p = m_min_share (w_registry w) \<and> pc_primes p = {})
     \<and> (\<forall>i bs. (Miner i, bs) \<in> set (w_out w) \<longrightarrow> \<not> is_share_reply bs)"

lemma no_shares_micro:
  assumes "gmp_ok (pf_gmp pf)" and "gmp_traps (pf_gmp pf)" and "no_shares w" and "micro pf w w'"
  shows "no_shares w'"
proof -
  have never: "\<not> share_ok pf (w_prime w) p h" if "w_pools w i = Some p" for i p h
    using no_share_ok [OF assms(1,2) refl] assms(3) that by (auto simp: no_shares_def)
  show ?thesis
    using assms(4)
  proof (cases rule: micro.cases)
    case (pool i p p')
    have "pc_min_share p' = pc_min_share p \<and> (pc_primes p = {} \<longrightarrow> pc_primes p' = {})"
      using pool(3)
    proof (cases rule: pool_step.cases)
      case (share h g b)
      with never pool(2) show ?thesis by blast
    qed (auto simp: close_connection_def)
    with pool assms(3) show ?thesis by (auto simp: no_shares_def)
  next
    case (share_reply i p h bs)
    with never show ?thesis by blast
  next
    case (registry reg)
    with assms(3) show ?thesis by (auto simp: no_shares_def reg_le_def)
  next
    case (gives_up i p)
    with assms(3) show ?thesis by (auto simp: no_shares_def close_connection_def)
  qed (use assms(3) in \<open>auto simp: no_shares_def\<close>)
qed

lemma no_shares_tick:
  assumes "gmp_ok (pf_gmp pf)" and "gmp_traps (pf_gmp pf)" and "no_shares w" and "tick pf w w'"
  shows "no_shares w'"
  using assms(4)
proof (cases rule: tick.cases)
  case small
  with assms show ?thesis by (blast intro: no_shares_micro)
next
  case (timers d)
  with assms(3) show ?thesis by (simp add: no_shares_def)
next
  case (accepts i u)
  with assms(3) show ?thesis by (auto simp: no_shares_def Pool_connection_new_def)
next
  case (hangs_up i p)
  with assms(3) show ?thesis by (auto simp: no_shares_def close_connection_def)
next
  case maintains
  with assms(3) show ?thesis by (auto simp: no_shares_def dest: server_timer_pools)
qed

section \<open>Timers\<close>

text \<open>The three timers of the wallet connection wait together.\<close>

definition timers_armed :: "world \<Rightarrow> bool" where
  "timers_armed w \<longleftrightarrow>
     dc_block_timer (w_daemon w) \<noteq> None \<and> dc_orphan_check_timer (w_daemon w) \<noteq> None
     \<and> dc_get_height_timer (w_daemon w) \<noteq> None"

lemma timers_armed_micros: "micros pf w w' \<Longrightarrow> timers_armed w' = timers_armed w"
  using micros_timers by (auto simp: timers_armed_def timers_of_def)

lemma fires_expired [simp]:
  "w_registry_expired (block_timer_fires w) = w_registry_expired w"
  "w_registry_expired (orphan_timer_fires w) = w_registry_expired w"
  by (simp_all add: block_timer_fires_def orphan_timer_fires_def)

lemma timers_armed_step:
  assumes "step pf ev w w'" and "timers_armed w" and "\<not> w_registry_expired w"
  shows "timers_armed w'"
  using assms(1)
proof (rule stepE)
  fix now
  assume e: "enabled ev w" and h: "handle pf now ev w = Some (Inr w')"
  have around: "timers_armed (start u)"
    if "micros pf (fires w) u" "(start, fires) \<in> {(start_block_timer, block_timer_fires),
        (start_get_height_timer, height_timer_fires), (start_orphan_check_timer, orphan_timer_fires)}" for start fires u
    using micros_timers [OF that(1)] that(2) assms(2)
    by (auto simp: timers_armed_def timers_of_def start_block_timer_def start_get_height_timer_def
        start_orphan_check_timer_def block_timer_fires_def height_timer_fires_def orphan_timer_fires_def
        timer_start_milliseconds_def timer_start_seconds_def)
  show ?thesis
  proof (cases ev)
    case (Accept i address uninit)
    with e h obtain u where "micros pf u w'" "w_daemon u = w_daemon w" using accept_connection_ticks by fastforce
    with assms(2) show ?thesis by (auto simp: timers_armed_def dest: timers_armed_micros)
  next
    case (Miner_event i result buffer)
    with h have c: "connection_handler pf now i result '''' buffer w = Some (Inr w')" by simp
    show ?thesis
    proof (cases "ends_connection result")
      case True
      with connection_handler_ends [OF c] assms(2) show ?thesis by (auto simp: timers_armed_def)
    next
      case False
      with connection_handler_micros [OF c] assms(2) show ?thesis by (auto dest: timers_armed_micros)
    qed
  next
    case (Wallet_event result buffer)
    with h have b: "wallet_handler pf result buffer w = Inr w'" by simp
    show ?thesis
    proof (cases "ends_connection result")
      case True
      from wallet_handler_ends [OF b True] assms(2) show ?thesis by (simp add: timers_armed_def)
    next
      case False
      from wallet_handler_micros [OF b False] obtain u
        where "u = w \<or> u = start_get_height_timer (start_orphan_check_timer (start_block_timer w))"
          and m: "micros pf u w'" by blast
      then have "timers_armed u"
        using assms(2) by (auto simp: timers_armed_def start_block_timer_def start_get_height_timer_def
            start_orphan_check_timer_def timer_start_milliseconds_def timer_start_seconds_def)
      with timers_armed_micros [OF m] show ?thesis by simp
    qed
  next
    case Block_timer
    with h have "block_timer_handler pf False (block_timer_fires w) = Inr w'" by simp
    from block_timer_micros [OF this] assms(3) around show ?thesis by auto
  next
    case Height_timer
    with h have "get_height_timer_handler False (height_timer_fires w) = Inr w'" by simp
    from height_timer_micros [OF this, of pf] around show ?thesis by auto
  next
    case Orphan_timer
    with h have "orphan_check_timer_handler False (orphan_timer_fires w) = Inr w'" by simp
    from orphan_timer_micros [OF this, of pf] assms(3) around show ?thesis by auto
  next
    case Server_timer
    with h assms(2) show ?thesis by (auto simp: timers_armed_def)
  next
    case Persistance_timer
    with h assms(2) show ?thesis by (auto simp: timers_armed_def rbind_eq_Inr)
  qed
qed

lemma micro_expired: "micro pf w w' \<Longrightarrow> w_registry_expired w' = w_registry_expired w"
  by (induction rule: micro.induct) simp_all

lemma tick_expired: "tick pf w w' \<Longrightarrow> w_registry_expired w' = w_registry_expired w"
  by (induction rule: tick.induct) (simp_all add: micro_expired)

lemma ticks_expired: "ticks pf w w' \<Longrightarrow> w_registry_expired w' = w_registry_expired w"
  by (induction rule: rtranclp_induct) (simp_all add: tick_expired)

lemma timers_armed_reach:
  assumes "reach pf w v" and "timers_armed w" and "\<not> w_registry_expired w"
  shows "timers_armed v \<and> \<not> w_registry_expired v"
  using assms(1)
proof (rule reach_inv)
  fix ev u v
  assume "timers_armed u \<and> \<not> w_registry_expired u" and "step pf ev u v"
  then show "timers_armed v \<and> \<not> w_registry_expired v"
    using timers_armed_step ticks_expired [OF step_ticks] by blast
qed (use assms in simp)

section \<open>The start\<close>

text \<open>\<open>main\<close> up to the event loop: initialisation succeeds and the wallet socket is connected.\<close>

definition started :: "platform \<Rightarrow> 'j json_api \<Rightarrow> files \<Rightarrow> u64 \<Rightarrow> world \<Rightarrow> bool" where
  "started pf api fs uninit w \<longleftrightarrow>
     (\<exists>w0. server_init pf api fs uninit = Some (Inr (Some w0)) \<and> server_run True w0 = Some w)"

lemma read_loop_inv:
  assumes "read_loop des key s = Some (Inr m)" and "om_inv (snd s)"
  shows "om_inv m"
proof -
  have "om_inv (snd s) \<longrightarrow> (\<forall>m. Inr m = r \<longrightarrow> om_inv m)" if "read_loop des key s = Some r" for r
  proof (rule read_loop.raw_induct [OF _ that])
    fix loop des key s r
    assume IH: "\<And>key s b y. loop key s b = Some y \<Longrightarrow> om_inv (snd b) \<longrightarrow> (\<forall>m. Inr m = y \<longrightarrow> om_inv m)"
      and r: "(if stream_more (fst s) then case read_step des key s of Inl e \<Rightarrow> Some (Inl e) | Inr s' \<Rightarrow> loop des key s'
        else Some (Inr (snd s))) = Some r"
    show "om_inv (snd s) \<longrightarrow> (\<forall>m. Inr m = r \<longrightarrow> om_inv m)"
    proof (cases "stream_more (fst s)")
      case True
      have "om_inv (snd s')" if "read_step des key s = Inr s'" "om_inv (snd s)" for s'
        using that by (auto simp: read_step_def Let_def rbind_eq_Inr split: prod.splits)
      with r True show ?thesis by (cases "read_step des key s") (auto dest: IH)
    next
      case False
      with r show ?thesis by auto
    qed
  qed
  then show ?thesis using assms by blast
qed

lemma Database_new_inv: "Database_new des key content name = Some (Inr db) \<Longrightarrow> db_inv db"
  by (auto simp: Database_new_def ReadIntoMemory_def db_inv_def split: option.splits sum.splits
      dest: read_loop_inv)

lemma bind_sum_Some:
  "Option.bind m (\<lambda>r. case r of Inl e \<Rightarrow> Some (Inl e) | Inr x \<Rightarrow> f x) = Some (Inr y) \<longleftrightarrow>
     (\<exists>x. m = Some (Inr x) \<and> f x = Some (Inr y))"
  by (cases m) (auto split: sum.splits)

lemma server_init_new:
  assumes "server_init pf api fs uninit = Some (Inr (Some w))"
  shows "\<exists>cfg reg. read_config api (fl_conf fs) Config_default = Inr (True, cfg)
    \<and> w = world_new reg uninit \<and> registry_typed reg \<and> m_min_share reg = cfg_min_share cfg
    \<and> m_config reg = cfg \<and> m_current_round reg = 1 \<and> m_best_height reg = 0"
proof -
  from assms obtain cfg where cfg: "read_config api (fl_conf fs) Config_default = Inr (True, cfg)"
    by (auto simp: server_init_def split: sum.splits if_splits)
  with assms obtain r where r: "Data_registry_new (pf_shl32 pf) cfg (fl_blk fs) (fl_acct fs) (fl_bans fs) = Some (Inr r)"
    and w: "w = world_new (Data_registry_init r) uninit"
    by (auto simp: server_init_def rbind_eq_Inr)
  from r obtain bdb adb where b: "Database_new (Block_Deserialize (pf_shl32 pf)) blk_cKey (fl_blk fs) ''blk.dat'' = Some (Inr bdb)"
    and a: "Database_new (Account_Deserialize (pf_shl32 pf)) acc_cKey (fl_acct fs) ''acct.dat'' = Some (Inr adb)"
    and r': "r = \<lparr>m_block_db = bdb, m_account_db = adb, m_banned_users = None, m_best_height = 0,
                  m_current_round = 1, m_config = cfg, m_min_share = cfg_min_share cfg,
                  m_use_ddos = cfg_use_ddos cfg, m_coinbase = Coinbase_default,
                  m_submit_block = cblock_default, blk_dat = fl_blk fs, acct_dat = fl_acct fs, ban_files = fl_bans fs\<rparr>"
    by (auto simp: Data_registry_new_def bind_sum_Some)
  have "registry_typed (Data_registry_init r)"
    using Database_new_inv [OF a] Database_new_inv [OF b]
    by (simp add: registry_typed_def Data_registry_init_def r' Coinbase_default_def)
  with cfg w show ?thesis by (auto simp: Data_registry_init_def r')
qed

lemma started_state:
  assumes "started pf api fs uninit w"
  shows "\<exists>cfg. read_config api (fl_conf fs) Config_default = Inr (True, cfg) \<and> registry_typed (w_registry w)
    \<and> m_min_share (w_registry w) = cfg_min_share cfg \<and> \<not> w_registry_expired w \<and> \<not> w_daemon_expired w
    \<and> w_pools w = (\<lambda>_. None) \<and> w_prime w = prime_static \<and> w_out w = [] \<and> w_daemon w = (Daemon_connection_new uninit)\<lparr>dc_connection := True\<rparr>"
proof -
  from assms obtain w0 where i: "server_init pf api fs uninit = Some (Inr (Some w0))" and r: "server_run True w0 = Some w"
    by (auto simp: started_def)
  from server_init_new [OF i] r show ?thesis
    by (fastforce simp: world_new_def server_run_def daemon_connect_def start_server_timer_def)
qed

lemma started_typed: "started pf api fs uninit w \<Longrightarrow> world_typed pf w"
  by (drule started_state) (auto simp: world_typed_def daemon_typed_def Daemon_connection_new_def uint_zero_def)

lemma started_members: "started pf api fs uninit w \<Longrightarrow> members_ok pf w"
  by (drule started_state) (auto simp: members_ok_def)

lemma started_no_shares:
  assumes "started pf api fs uninit w"
    and "\<And>cfg. read_config api (fl_conf fs) Config_default = Inr (True, cfg) \<Longrightarrow> 0 < cfg_min_share cfg"
  shows "no_shares w"
  using started_state [OF assms(1)] assms(2) by (auto simp: no_shares_def)

end
