(* ===== verification/Server_Runs.thy ===== *)
theory Server_Runs
  imports Server_Invariants Guard_Properties
begin

text \<open>
  What single handlers of the running server do: the block timer forwards every request, a round that
  starts while a closed connection is still registered faults, and a concrete start of the server that
  the examples run on.
\<close>

section \<open>The block timer\<close>

abbreviation entries :: "world \<Rightarrow> pool_connection_data list" where
  "entries w \<equiv> dc_pool_connections (w_daemon w)"

lemma get_bytes_get_block: "get_bytes daemon_get_block = Inr [D_GET_BLOCK]"
  by (simp add: get_bytes_def daemon_get_block_def packet_default_def)

lemma request_loop_ok:
  assumes "dc_connection (w_daemon w)" and "n < length (entries w)" and "entries w ! n = e"
  shows "\<exists>w'. request_loop n e w = Inr w' \<and> dc_connection (w_daemon w')
    \<and> entries w' = (entries w)[n := e\<lparr>pd_blocks_requested := 0, pd_blocks_waiting := pd_blocks_waiting e + pd_blocks_requested e\<rparr>]
    \<and> w_out w' = w_out w @ replicate (unat (pd_blocks_requested e)) (Wallet, [D_GET_BLOCK])"
  using assms
proof (induction n e w rule: request_loop.induct)
  case (1 n e w)
  show ?case
  proof (cases "pd_blocks_requested e > 0")
    case True
    let ?e = "e\<lparr>pd_blocks_requested := pd_blocks_requested e - 1, pd_blocks_waiting := pd_blocks_waiting e + 1\<rparr>"
    let ?u = "put Wallet [D_GET_BLOCK] (set_entry n ?e w)"
    have step: "request_loop n e w = request_loop n ?e ?u"
      using True 1(2) by (subst request_loop.simps) (simp add: transmit_wallet_def get_bytes_get_block Let_def)
    obtain k where k: "unat (pd_blocks_requested e) = Suc k"
      using True by (metis not0_implies_Suc unat_eq_0 word_neq_0_conv)
    then have "unat (pd_blocks_requested e - 1) = k"
      using True by (simp add: unat_minus_one word_greater_zero_iff)
    with 1(1) [OF True refl, of ?u] 1(2,3) k show ?thesis
      by (auto simp: step Let_def)
  next
    case False
    then have z: "pd_blocks_requested e = 0" by (simp add: word_greater_zero_iff)
    then have "e\<lparr>pd_blocks_requested := 0, pd_blocks_waiting := pd_blocks_waiting e + pd_blocks_requested e\<rparr> = e" by simp
    then have "(entries w)[n := e\<lparr>pd_blocks_requested := 0, pd_blocks_waiting := pd_blocks_waiting e + pd_blocks_requested e\<rparr>]
        = entries w" using 1(4) by (metis list_update_id)
    moreover have "request_loop n e w = Inr w" using z by (subst request_loop.simps) simp
    ultimately show ?thesis using 1(2) z by (simp only: unat_0 replicate_0 append_Nil2) blast
  qed
qed

definition pending_requests :: "world \<Rightarrow> nat" where
  "pending_requests w = (\<Sum>e\<leftarrow>entries w. unat (pd_blocks_requested e))"

lemma request_pending_upto:
  assumes "dc_connection (w_daemon w)" and "k \<le> length (entries w)"
  shows "\<exists>w'. rfold (\<lambda>n w. request_loop n (entries w ! n) w) [0..<k] w = Inr w' \<and> dc_connection (w_daemon w')
    \<and> length (entries w') = length (entries w)
    \<and> (\<forall>n < k. pd_blocks_requested (entries w' ! n) = 0)
    \<and> (\<forall>n < length (entries w). k \<le> n \<longrightarrow> entries w' ! n = entries w ! n)
    \<and> w_out w' = w_out w @ replicate (\<Sum>e\<leftarrow>take k (entries w). unat (pd_blocks_requested e)) (Wallet, [D_GET_BLOCK])"
  using assms(2)
proof (induction k)
  case 0
  then show ?case using assms(1) by simp
next
  case (Suc k)
  then obtain u where u: "rfold (\<lambda>n w. request_loop n (entries w ! n) w) [0..<k] w = Inr u" "dc_connection (w_daemon u)"
    "length (entries u) = length (entries w)" "\<forall>n < k. pd_blocks_requested (entries u ! n) = 0"
    "\<forall>n < length (entries w). k \<le> n \<longrightarrow> entries u ! n = entries w ! n"
    "w_out u = w_out w @ replicate (\<Sum>e\<leftarrow>take k (entries w). unat (pd_blocks_requested e)) (Wallet, [D_GET_BLOCK])"
    by auto
  have k: "k < length (entries u)" using Suc.prems u(3) by simp
  then have ek: "entries u ! k = entries w ! k" using u(3,5) by simp
  from request_loop_ok [OF u(2) k refl] obtain v where v: "request_loop k (entries u ! k) u = Inr v"
    "dc_connection (w_daemon v)"
    "entries v = (entries u)[k := (entries u ! k)\<lparr>pd_blocks_requested := 0,
        pd_blocks_waiting := pd_blocks_waiting (entries u ! k) + pd_blocks_requested (entries u ! k)\<rparr>]"
    "w_out v = w_out u @ replicate (unat (pd_blocks_requested (entries u ! k))) (Wallet, [D_GET_BLOCK])"
    by blast
  show ?case
    using Suc.prems u v k ek
    by (intro exI [of _ v])
       (auto simp: rfold_append nth_list_update take_Suc_conv_app_nth replicate_add less_Suc_eq)
qed

lemma request_pending_ok:
  assumes "dc_connection (w_daemon w)"
  shows "\<exists>w'. request_pending w = Inr w' \<and> (\<forall>e \<in> set (entries w'). pd_blocks_requested e = 0)
    \<and> w_out w' = w_out w @ replicate (pending_requests w) (Wallet, [D_GET_BLOCK])"
  using request_pending_upto [OF assms order_refl]
  by (auto simp: request_pending_def pending_requests_def in_set_conv_nth)

lemma get_bytes_submit: "\<exists>bs. get_bytes (submit_block h n) = Inr bs"
  by (simp add: get_bytes_def submit_block_def packet_default_def)

lemma submit_pending_ok:
  assumes "dc_connection (w_daemon w)"
  shows "\<exists>w' pre. submit_pending pf w = Inr w' \<and> dc_connection (w_daemon w')
    \<and> map pd_blocks_requested (entries w') = map pd_blocks_requested (entries w)
    \<and> w_out w' = w_out w @ pre \<and> length pre \<le> 1"
proof (cases "first_submit (w_pools w) (entries w)")
  case None
  with assms show ?thesis by (auto simp: submit_pending_def)
next
  case (Some n)
  from first_submit_Some [OF this] obtain b p where n: "n < length (entries w)"
    and p: "w_pools w (pd_connection (entries w ! n)) = Some p" and b: "pd_submit_block (entries w ! n) = Some b" by auto
  obtain bs where bs: "get_bytes (submit_block (hashMerkleRoot b) (nNonce b)) = Inr bs" using get_bytes_submit by blast
  have upd: "map pd_blocks_requested ((entries w)[n := (entries w ! n)\<lparr>pd_submit_block := None\<rparr>])
      = map pd_blocks_requested (entries w)"
    using n by (simp add: map_update list_update_same_conv)
  show ?thesis
    using Some p b bs assms upd
    by (cases "nHeight b = m_best_height (w_registry w)")
       (auto simp: submit_pending_def submit_to_wallet_def Let_def transmit_wallet_def)
qed

lemma block_timer_forwards:
  assumes "dc_connection (w_daemon w)" and "\<not> w_registry_expired w" and "\<not> dc_coinbase_pending (w_daemon w)"
  shows "\<exists>w' pre. block_timer_handler pf False w = Inr w' \<and> (\<forall>e \<in> set (entries w'). pd_blocks_requested e = 0)
    \<and> dc_block_timer (w_daemon w') = Some 50
    \<and> w_out w' = w_out w @ pre @ replicate (pending_requests w) (Wallet, [D_GET_BLOCK]) \<and> length pre \<le> 1"
proof -
  from submit_pending_ok [OF assms(1)] obtain u pre where u: "submit_pending pf w = Inr u" "dc_connection (w_daemon u)"
    "map pd_blocks_requested (entries u) = map pd_blocks_requested (entries w)" "w_out u = w_out w @ pre" "length pre \<le> 1"
    by blast
  have "map unat (map pd_blocks_requested (entries u)) = map unat (map pd_blocks_requested (entries w))" using u(3) by simp
  then have sum: "pending_requests u = pending_requests w" by (simp add: pending_requests_def comp_def)
  from request_pending_ok [OF u(2)] obtain v where "request_pending u = Inr v"
    "\<forall>e \<in> set (entries v). pd_blocks_requested e = 0"
    "w_out v = w_out u @ replicate (pending_requests u) (Wallet, [D_GET_BLOCK])" by blast
  with assms u sum show ?thesis
    by (intro exI [of _ "start_block_timer v"] exI [of _ pre])
       (simp add: block_timer_handler_def start_block_timer_def timer_start_milliseconds_def)
qed

section \<open>Rounds and closed connections\<close>

lemma pool_new_round_cases: "pool_new_round h i w = Inl e \<Longrightarrow> e = Null_deref"
  by (auto simp: pool_new_round_def on_pool_def with_pool_def transmit_miner_def get_bytes_get_height rbind_eq_Inl
      split: option.splits if_splits)

lemma pool_new_round_closed:
  assumes "w_pools w i = Some p" and "\<not> pc_connection p"
  shows "pool_new_round h i w = Inl Null_deref"
  using assms by (simp add: pool_new_round_def transmit_miner_def)

lemma pool_new_round_keeps_closed:
  assumes "pool_new_round h j w = Inr w'" and "w_pools w i = Some p" and "\<not> pc_connection p"
  shows "\<exists>q. w_pools w' i = Some q \<and> \<not> pc_connection q"
  using assms by (auto simp: pool_new_round_def rbind_eq_Inr on_pool_Inr transmit_miner_Inr split: if_splits)

text \<open>A round cannot start while a closed connection is still alive and registered.\<close>

lemma new_round_faults:
  assumes "e \<in> set (entries w)" and "w_pools w (pd_connection e) = Some p" and "\<not> pc_connection p"
  shows "new_round w = Inl Null_deref"
proof -
  let ?f = "\<lambda>e w. if w_pools w (pd_connection e) = None then Inr w
      else pool_new_round (m_best_height (w_registry w)) (pd_connection e) w"
  have "e \<in> set es \<Longrightarrow> w_pools u (pd_connection e) = Some q \<Longrightarrow> \<not> pc_connection q \<Longrightarrow> rfold ?f es u = Inl Null_deref"
    for es u q
  proof (induction es arbitrary: u q)
    case Nil
    then show ?case by simp
  next
    case (Cons x es)
    show ?case
    proof (cases "?f x u")
      case (Inl err)
      then have "err = Null_deref" by (auto split: if_splits dest: pool_new_round_cases)
      with Inl show ?thesis by (simp only: rfold.simps rbind_Inl)
    next
      case (Inr v)
      then have "x \<noteq> e" using pool_new_round_closed [OF Cons.prems(2,3)] Cons.prems(2) by auto
      then have "e \<in> set es" using Cons.prems(1) by auto
      moreover have "\<exists>q. w_pools v (pd_connection e) = Some q \<and> \<not> pc_connection q"
        using Inr Cons.prems(2,3) by (auto split: if_splits dest: pool_new_round_keeps_closed)
      ultimately have "rfold ?f es v = Inl Null_deref" using Cons.IH by blast
      with Inr show ?thesis by (simp only: rfold.simps rbind_Inr)
    qed
  qed
  then show ?thesis using assms by (simp add: new_round_def)
qed

text \<open>A round that starts changes the miner connections, and sends; nothing else.\<close>

lemma pool_new_round_frame:
  "pool_new_round h i w = Inr w' \<Longrightarrow>
     w_registry w' = w_registry w \<and> w_daemon w' = w_daemon w \<and> (\<exists>fs. w_out w' = w_out w @ fs)"
  by (auto simp: pool_new_round_def rbind_eq_Inr on_pool_Inr transmit_miner_Inr)

lemma new_round_frame:
  assumes "new_round w = Inr w'"
  shows "w_registry w' = w_registry w \<and> w_daemon w' = (w_daemon w)\<lparr>dc_new_block := True\<rparr>
    \<and> (\<exists>fs. w_out w' = w_out w @ fs)"
  using assms unfolding new_round_def
proof (rule rfold_inv)
  fix e :: pool_connection_data and u v
  assume I: "w_registry u = w_registry w \<and> w_daemon u = (w_daemon w)\<lparr>dc_new_block := True\<rparr> \<and> (\<exists>fs. w_out u = w_out w @ fs)"
    and s: "(if w_pools u (pd_connection e) = None then Inr u
      else pool_new_round (m_best_height (w_registry u)) (pd_connection e) u) = Inr v"
  show "w_registry v = w_registry w \<and> w_daemon v = (w_daemon w)\<lparr>dc_new_block := True\<rparr> \<and> (\<exists>fs. w_out v = w_out w @ fs)"
  proof (cases "w_pools u (pd_connection e) = None")
    case True
    with I s show ?thesis by simp
  next
    case False
    with s have "pool_new_round (m_best_height (w_registry u)) (pd_connection e) u = Inr v" by simp
    from pool_new_round_frame [OF this] I show ?thesis by auto
  qed
qed simp

section \<open>A concrete server\<close>

definition example_platform :: platform where
  "example_platform =
     \<lparr>pf_shl32 = (\<lambda>x. 0), pf_SK256 = (\<lambda>_. uint_zero 8), pf_SK1024 = (\<lambda>_. bu_assign64 32 7),
      pf_gmp = gmp_exact, pf_pow = (\<lambda>_ _. Fin 1), pf_sort = insertion_sort\<rparr>"

definition example_files :: files where
  "example_files = \<lparr>fl_conf = Some ''abc'', fl_blk = None, fl_acct = None, fl_bans = (None, None)\<rparr>"

definition example_config :: config where
  "example_config =
     (case read_config example_json (Some ''abc'') Config_default of Inl _ \<Rightarrow> Config_default | Inr (_, c) \<Rightarrow> c)"

definition example_start :: world where
  "example_start =
     start_server_timer (snd (daemon_connect True (world_new (Data_registry_init
       \<lparr>m_block_db = \<lparr>strFilename = ''blk.dat'', mapRecords = []\<rparr>, m_account_db = \<lparr>strFilename = ''acct.dat'', mapRecords = []\<rparr>,
        m_banned_users = None, m_best_height = 0, m_current_round = 1, m_config = example_config,
        m_min_share = cfg_min_share example_config, m_use_ddos = cfg_use_ddos example_config, m_coinbase = Coinbase_default,
        m_submit_block = cblock_default, blk_dat = None, acct_dat = None, ban_files = (None, None)\<rparr>) 0)))"

lemma example_config: "read_config example_json (Some ''abc'') Config_default = Inr (True, example_config)"
  "cfg_min_share example_config = 12"
  by (simp_all add: example_config_def read_config_def example_json_def read_fields_def get_to_def)

lemma example_started: "started example_platform example_json example_files 0 example_start"
  by (simp add: started_def server_init_def example_files_def example_config Data_registry_new_def Database_new_def
      ReadIntoMemory_def server_run_def daemon_connect_def example_start_def)

lemma example_hash_ok: "hash_ok example_platform"
  by (simp add: hash_ok_def example_platform_def)

text \<open>A miner has connected from the address \<open>10.0.0.1\<close>.\<close>

definition example_miner :: pool_connection where
  "example_miner = (Pool_connection_new 0 (Some (w_registry example_start)))
     \<lparr>pc_remote_address := ''10.0.0.1'', pc_ddos := Some (DDOS_Filter_new 30 ''10.0.0.1'' 0)\<rparr>"

definition example_world :: world where
  "example_world = set_daemon (add_pool_connection 1 (w_daemon example_start))
     ((set_pool 1 example_miner example_start)\<lparr>w_server_pools := [1]\<rparr>)"

lemma example_start_simps [simp]:
  "w_pools example_start = (\<lambda>_. None)" "w_registry_expired example_start = False"
  "w_daemon_expired example_start = False" "w_server_pools example_start = []"
  "w_daemon example_start = (Daemon_connection_new 0)\<lparr>dc_connection := True\<rparr>" "w_out example_start = []"
  by (simp_all add: example_start_def daemon_connect_def world_new_def start_server_timer_def)

lemma example_accept: "step example_platform (Accept 1 ''10.0.0.1'' 0) example_start example_world"
proof (rule step.event [where now = 0])
  show "enabled (Accept 1 ''10.0.0.1'' 0) example_start" by (simp add: Daemon_connection_new_def)
  have "accept_connection 0 0 1 ''10.0.0.1'' example_start = Inr example_world"
    by (simp add: accept_connection_def connected_def on_pool_def with_pool_def example_world_def example_miner_def
        Pool_connection_new_def set_pool_def set_daemon_def)
  then show "handle example_platform 0 (Accept 1 ''10.0.0.1'' 0) example_start = Some (Inr example_world)" by simp
qed

lemma example_reach: "reach example_platform example_start example_world"
  by (rule reach.more [OF reach.start example_accept])

end
