(* ===== verification/Endpoint.thy ===== *)
theory Endpoint
  imports Prelude "HOL-Library.List_Lexorder"
begin

text \<open>
  The endpoints of \<open>src/src/network/endpoint.hpp\<close>: a transport protocol and, in a union, the endpoint of asio
  for it. An address of asio is a tagged value, an IPv4 address as a number or an IPv6 address as its 16
  bytes with a scope. Parsing and printing an address is done by the operating system and is an argument.

  The union is an optional asio endpoint: \<open>None\<close> until one of its members is written. Both members have the
  same representation and the tag \<open>m_protocol\<close> tells which one is read. Reading the union before it was
  written is the fault \<open>Null_deref\<close>; \<open>bad_address_cast\<close> is the fault \<open>Bad_cast\<close>.
\<close>

section \<open>Addresses and endpoints of asio\<close>

datatype ip_address = V4 u32 | V6 bytes u32

definition v4_bytes :: "u32 \<Rightarrow> bytes" where
  "v4_bytes a = map (\<lambda>i. ucast (drop_bit (24 - 8 * i) a)) [0..<4]"

definition v4_of_bytes :: "bytes \<Rightarrow> u32" where
  "v4_of_bytes bs = foldl (\<lambda>w b. push_bit 8 w OR ucast b) 0 bs"

definition ip_is_v4 :: "ip_address \<Rightarrow> bool" where
  "ip_is_v4 a = (case a of V4 _ \<Rightarrow> True | V6 _ _ \<Rightarrow> False)"

definition ip_is_v6 :: "ip_address \<Rightarrow> bool" where
  "ip_is_v6 a = (case a of V4 _ \<Rightarrow> False | V6 _ _ \<Rightarrow> True)"

definition ip_is_multicast :: "ip_address \<Rightarrow> bool" where
  "ip_is_multicast a =
     (case a of V4 n \<Rightarrow> n AND 0xF0000000 = 0xE0000000 | V6 bs _ \<Rightarrow> bs ! 0 = 0xff)"

definition to_v4 :: "ip_address \<Rightarrow> u32 res" where
  "to_v4 a = (case a of V4 n \<Rightarrow> Inr n | V6 _ _ \<Rightarrow> Inl Bad_cast)"

definition to_v6 :: "ip_address \<Rightarrow> (bytes \<times> u32) res" where
  "to_v6 a = (case a of V4 _ \<Rightarrow> Inl Bad_cast | V6 bs scope \<Rightarrow> Inr (bs, scope))"

text \<open>The order of asio: IPv4 before IPv6, numbers, and \<open>memcmp\<close> of the bytes before the scope.\<close>

instantiation ip_address :: linorder
begin

fun less_ip_address :: "ip_address \<Rightarrow> ip_address \<Rightarrow> bool" where
  "less_ip_address (V4 a) (V4 b) = (a < b)"
| "less_ip_address (V4 a) (V6 b t) = True"
| "less_ip_address (V6 a s) (V4 b) = False"
| "less_ip_address (V6 a s) (V6 b t) = (a < b \<or> a = b \<and> s < t)"

definition less_eq_ip_address :: "ip_address \<Rightarrow> ip_address \<Rightarrow> bool" where
  "less_eq_ip_address a b = (a < b \<or> a = b)"

instance
proof
  fix x y z :: ip_address
  show lt: "(x < y) = (x \<le> y \<and> \<not> y \<le> x)"
    by (cases x; cases y) (auto simp: less_eq_ip_address_def)
  show "x \<le> x" by (simp add: less_eq_ip_address_def)
  show "x \<le> y \<Longrightarrow> y \<le> z \<Longrightarrow> x \<le> z"
    by (cases x; cases y; cases z) (auto simp: less_eq_ip_address_def)
  show "x \<le> y \<Longrightarrow> y \<le> x \<Longrightarrow> x = y"
    by (cases x; cases y) (auto simp: less_eq_ip_address_def)
  show "x \<le> y \<or> y \<le> x"
    by (cases x; cases y) (auto simp: less_eq_ip_address_def)
qed

end

datatype asio_endpoint = Asio_endpoint (asio_address: ip_address) (asio_port: u16)

instantiation asio_endpoint :: linorder
begin

definition less_asio_endpoint :: "asio_endpoint \<Rightarrow> asio_endpoint \<Rightarrow> bool" where
  "less_asio_endpoint e1 e2 =
     (if asio_address e1 < asio_address e2 then True
      else if asio_address e1 \<noteq> asio_address e2 then False
      else asio_port e1 < asio_port e2)"

definition less_eq_asio_endpoint :: "asio_endpoint \<Rightarrow> asio_endpoint \<Rightarrow> bool" where
  "less_eq_asio_endpoint e1 e2 = (e1 < e2 \<or> e1 = e2)"

instance
proof
  fix x y z :: asio_endpoint
  note defs = less_eq_asio_endpoint_def less_asio_endpoint_def
  show "(x < y) = (x \<le> y \<and> \<not> y \<le> x)" by (auto simp: defs asio_endpoint.expand split: if_splits)
  show "x \<le> x" by (simp add: defs)
  show "x \<le> y \<Longrightarrow> y \<le> z \<Longrightarrow> x \<le> z" by (auto simp: defs asio_endpoint.expand split: if_splits)
  show "x \<le> y \<Longrightarrow> y \<le> x \<Longrightarrow> x = y" by (auto simp: defs asio_endpoint.expand split: if_splits)
  show "x \<le> y \<or> y \<le> x" by (cases x; cases y) (auto simp: defs)
qed

end

section \<open>Endpoints\<close>

datatype transport_protocol = tcp | udp | none

definition protocol_number :: "transport_protocol \<Rightarrow> nat" where
  "protocol_number p = (case p of tcp \<Rightarrow> 6 | udp \<Rightarrow> 17 | none \<Rightarrow> 255)"

record endpoint =
  ne_protocol :: transport_protocol
  ne_base :: "asio_endpoint option"

definition assert_that :: "bool \<Rightarrow> 'a res \<Rightarrow> 'a res" where
  "assert_that b r = (if b then r else Inl Assert_failed)"

definition Endpoint_is_valid :: "endpoint \<Rightarrow> bool" where
  "Endpoint_is_valid e \<longleftrightarrow> ne_protocol e \<noteq> none"

definition Endpoint_is_udp :: "endpoint \<Rightarrow> bool" where
  "Endpoint_is_udp e \<longleftrightarrow> ne_protocol e = udp"

definition Endpoint_is_tcp :: "endpoint \<Rightarrow> bool" where
  "Endpoint_is_tcp e \<longleftrightarrow> ne_protocol e = tcp"

text \<open>\<open>assert(is_valid()); assert(is_udp() || is_tcp());\<close> and the active member of the union.\<close>

definition usable :: "endpoint \<Rightarrow> 'a res \<Rightarrow> 'a res" where
  "usable e r = assert_that (Endpoint_is_valid e) (assert_that (Endpoint_is_udp e \<or> Endpoint_is_tcp e) r)"

definition base_of :: "endpoint \<Rightarrow> asio_endpoint res" where
  "base_of e = (case ne_base e of None \<Rightarrow> Inl Null_deref | Some b \<Rightarrow> Inr b)"

definition call_on_base_address :: "(ip_address \<Rightarrow> 'a res) \<Rightarrow> endpoint \<Rightarrow> 'a res" where
  "call_on_base_address f e = rbind (base_of e) (\<lambda>b. f (asio_address b))"

section \<open>Construction\<close>

definition init_ip_endpoint :: "ip_address \<Rightarrow> u16 \<Rightarrow> endpoint \<Rightarrow> endpoint" where
  "init_ip_endpoint a p e =
     (if ne_protocol e = udp then e\<lparr>ne_base := Some (Asio_endpoint a p)\<rparr>
      else if ne_protocol e = tcp then
        (if ip_is_multicast a then e\<lparr>ne_protocol := none\<rparr>
         else e\<lparr>ne_base := Some (Asio_endpoint a p)\<rparr>)
      else e)"

definition Endpoint_default :: endpoint where
  "Endpoint_default = \<lparr>ne_protocol = none, ne_base = None\<rparr>"

definition with_scope :: "u32 \<Rightarrow> ip_address \<Rightarrow> ip_address" where
  "with_scope scope a = (case a of V6 bs s \<Rightarrow> if scope \<noteq> 0 then V6 bs scope else a | V4 _ \<Rightarrow> a)"

definition Endpoint_of_udp :: "asio_endpoint \<Rightarrow> u32 \<Rightarrow> endpoint" where
  "Endpoint_of_udp b scope =
     \<lparr>ne_protocol = udp, ne_base = Some (Asio_endpoint (with_scope scope (asio_address b)) (asio_port b))\<rparr>"

definition Endpoint_of_tcp :: "asio_endpoint \<Rightarrow> u32 \<Rightarrow> endpoint" where
  "Endpoint_of_tcp b scope =
     \<lparr>ne_protocol = tcp, ne_base = Some (Asio_endpoint (with_scope scope (asio_address b)) (asio_port b))\<rparr>"

text \<open>\<open>make_address\<close> gives the address \<open>0.0.0.0\<close> together with its error.\<close>

definition Endpoint_of_string ::
  "(string \<Rightarrow> ip_address option) \<Rightarrow> transport_protocol \<Rightarrow> string \<Rightarrow> u16 \<Rightarrow> u32 \<Rightarrow> endpoint" where
  "Endpoint_of_string make_address protocol s p scope =
     (case make_address s of
        Some a \<Rightarrow> init_ip_endpoint (with_scope scope a) p \<lparr>ne_protocol = protocol, ne_base = None\<rparr>
      | None \<Rightarrow> init_ip_endpoint (V4 0) p \<lparr>ne_protocol = none, ne_base = None\<rparr>)"

definition init_ip_range :: "bytes \<Rightarrow> u16 \<Rightarrow> u32 \<Rightarrow> endpoint \<Rightarrow> endpoint" where
  "init_ip_range bs p scope e =
     (if length bs = 4 then init_ip_endpoint (V4 (v4_of_bytes bs)) p e
      else if length bs = 16 then init_ip_endpoint (V6 bs scope) p e
      else e\<lparr>ne_protocol := none\<rparr>)"

definition Endpoint_of_range :: "transport_protocol \<Rightarrow> bytes \<Rightarrow> u16 \<Rightarrow> u32 \<Rightarrow> endpoint res" where
  "Endpoint_of_range protocol bs p scope =
     (let e = \<lparr>ne_protocol = protocol, ne_base = None\<rparr> in usable e (Inr (init_ip_range bs p scope e)))"

text \<open>The constructors with a tag read as many bytes as the address has from their iterator.\<close>

definition Endpoint_of_v4 :: "transport_protocol \<Rightarrow> bytes \<Rightarrow> u16 \<Rightarrow> u32 \<Rightarrow> endpoint res" where
  "Endpoint_of_v4 protocol mem p scope =
     rbind (vec_range 0 4 mem) (\<lambda>bs. Endpoint_of_range protocol bs p scope)"

definition Endpoint_of_v6 :: "transport_protocol \<Rightarrow> bytes \<Rightarrow> u16 \<Rightarrow> u32 \<Rightarrow> endpoint res" where
  "Endpoint_of_v6 protocol mem p scope =
     rbind (vec_range 0 16 mem) (\<lambda>bs. Endpoint_of_range protocol bs p scope)"

text \<open>Copying and moving write the member the copied protocol names.\<close>

definition copy_endpoint_base :: "endpoint \<Rightarrow> endpoint \<Rightarrow> endpoint res" where
  "copy_endpoint_base other e =
     (if ne_protocol e = udp \<or> ne_protocol e = tcp
      then rbind (base_of other) (\<lambda>b. Inr (e\<lparr>ne_base := Some b\<rparr>)) else Inr e)"

definition Endpoint_copy :: "endpoint \<Rightarrow> endpoint res" where
  "Endpoint_copy other = copy_endpoint_base other \<lparr>ne_protocol = ne_protocol other, ne_base = None\<rparr>"

definition Endpoint_assign :: "endpoint \<Rightarrow> endpoint \<Rightarrow> endpoint res" where
  "Endpoint_assign other e = copy_endpoint_base other (e\<lparr>ne_protocol := ne_protocol other\<rparr>)"

section \<open>Access\<close>

definition Endpoint_address_v4 :: "endpoint \<Rightarrow> bytes res" where
  "Endpoint_address_v4 e = usable e (call_on_base_address (\<lambda>a. rbind (to_v4 a) (\<lambda>n. Inr (v4_bytes n))) e)"

definition Endpoint_address_v6 :: "endpoint \<Rightarrow> bytes res" where
  "Endpoint_address_v6 e = usable e (call_on_base_address (\<lambda>a. rbind (to_v6 a) (\<lambda>(bs, _). Inr bs)) e)"

definition Endpoint_address_string :: "(ip_address \<Rightarrow> string) \<Rightarrow> endpoint \<Rightarrow> string res" where
  "Endpoint_address_string to_string e = usable e (call_on_base_address (\<lambda>a. Inr (to_string a)) e)"

definition Endpoint_port :: "endpoint \<Rightarrow> u16 res" where
  "Endpoint_port e = usable e (rbind (base_of e) (\<lambda>b. Inr (asio_port b)))"

definition Endpoint_set_port :: "u16 \<Rightarrow> endpoint \<Rightarrow> endpoint res" where
  "Endpoint_set_port p e =
     usable e (rbind (base_of e) (\<lambda>b. Inr (e\<lparr>ne_base := Some (Asio_endpoint (asio_address b) p)\<rparr>)))"

definition Endpoint_is_v6 :: "endpoint \<Rightarrow> bool res" where
  "Endpoint_is_v6 e = usable e (call_on_base_address (\<lambda>a. Inr (ip_is_v6 a)) e)"

definition Endpoint_is_v4 :: "endpoint \<Rightarrow> bool res" where
  "Endpoint_is_v4 e = usable e (call_on_base_address (\<lambda>a. Inr (ip_is_v4 a)) e)"

definition Endpoint_is_multicast :: "endpoint \<Rightarrow> bool res" where
  "Endpoint_is_multicast e =
     assert_that (Endpoint_is_valid e) (call_on_base_address (\<lambda>a. Inr (ip_is_multicast a)) e)"

definition Endpoint_scope_id :: "endpoint \<Rightarrow> u32 res" where
  "Endpoint_scope_id e = usable e (rbind (Endpoint_is_v6 e) (\<lambda>v6.
     if v6 then call_on_base_address (\<lambda>a. rbind (to_v6 a) (\<lambda>(_, scope). Inr scope)) e else Inr 0))"

definition Endpoint_set_scope_id :: "u32 \<Rightarrow> endpoint \<Rightarrow> endpoint res" where
  "Endpoint_set_scope_id scope e =
     usable e (rbind (Endpoint_is_v6 e) (\<lambda>v6.
       if v6
       then rbind (Endpoint_scope_id e) (\<lambda>old.
            if old \<noteq> scope
            then rbind (call_on_base_address (\<lambda>a. rbind (to_v6 a) (\<lambda>(bs, _). Inr (V6 bs scope))) e) (\<lambda>a.
                 rbind (Endpoint_port e) (\<lambda>p. Inr (init_ip_endpoint a p e)))
            else Inr e)
       else Inr e))"

definition get_udp_base :: "endpoint \<Rightarrow> asio_endpoint res" where
  "get_udp_base e = assert_that (Endpoint_is_valid e) (assert_that (Endpoint_is_udp e) (base_of e))"

definition get_tcp_base :: "endpoint \<Rightarrow> asio_endpoint res" where
  "get_tcp_base e = assert_that (Endpoint_is_valid e) (assert_that (Endpoint_is_tcp e) (base_of e))"

section \<open>Comparison\<close>

definition Endpoint_eq :: "endpoint \<Rightarrow> endpoint \<Rightarrow> bool res" where
  "Endpoint_eq e other =
     (if ne_protocol other = ne_protocol e
      then if ne_protocol e = none then Inr False
           else rbind (base_of e) (\<lambda>a. rbind (base_of other) (\<lambda>b. Inr (a = b)))
      else Inr False)"

definition Endpoint_less :: "endpoint \<Rightarrow> endpoint \<Rightarrow> bool res" where
  "Endpoint_less e other =
     (if ne_protocol other = ne_protocol e
      then if ne_protocol e = none then Inr False
           else rbind (base_of e) (\<lambda>a. rbind (base_of other) (\<lambda>b. Inr (a < b)))
      else Inr (protocol_number (ne_protocol e) < protocol_number (ne_protocol other)))"

end
