(* ===== verification/Endpoint_Laws.thy ===== *)
theory Endpoint_Laws
  imports Endpoint
begin

text \<open>
  What the endpoints of \<open>Endpoint\<close> keep: a valid endpoint holds an address of the size of its version, so
  that its accessors do not fault; a TCP endpoint made from text or bytes is not multicast; the comparisons
  are an equality and a linear order on the valid endpoints.
\<close>

section \<open>Bytes of an IPv4 address\<close>

lemma v4_of_v4_bytes: "v4_of_bytes (v4_bytes n) = n"
proof (rule bit_word_eqI)
  fix i assume "i < LENGTH(32)"
  then show "bit (v4_of_bytes (v4_bytes n)) i = bit n i"
    by (cases "i < 8"; cases "i < 16"; cases "i < 24")
      (auto simp: v4_of_bytes_def v4_bytes_def upt_rec bit_simps not_less)
qed

lemma v4_bytes_of_bytes:
  assumes "length bs = 4"
  shows "v4_bytes (v4_of_bytes bs) = bs"
proof -
  from assms obtain a b c d where "bs = [a, b, c, d]"
    by (auto simp: numeral_eq_Suc length_Suc_conv)
  moreover have "ucast (drop_bit 24 (v4_of_bytes [a, b, c, d])) = a"
    "ucast (drop_bit 16 (v4_of_bytes [a, b, c, d])) = b"
    "ucast (drop_bit 8 (v4_of_bytes [a, b, c, d])) = c"
    "ucast (v4_of_bytes [a, b, c, d]) = d"
    by (rule bit_word_eqI; auto simp: v4_of_bytes_def bit_simps dest: bit_u8_less)+
  ultimately show ?thesis by (simp add: v4_bytes_def upt_rec)
qed

lemma length_v4_bytes [simp]: "length (v4_bytes n) = 4"
  by (simp add: v4_bytes_def)

section \<open>The invariant\<close>

definition ip_ok :: "ip_address \<Rightarrow> bool" where
  "ip_ok a = (case a of V4 _ \<Rightarrow> True | V6 bs _ \<Rightarrow> length bs = 16)"

definition endpoint_ok :: "endpoint \<Rightarrow> bool" where
  "endpoint_ok e =
     (ne_protocol e = none \<or> (case ne_base e of None \<Rightarrow> False | Some b \<Rightarrow> ip_ok (asio_address b)))"

definition no_multicast :: "endpoint \<Rightarrow> bool" where
  "no_multicast e =
     (ne_protocol e = tcp \<longrightarrow> (case ne_base e of None \<Rightarrow> False | Some b \<Rightarrow> \<not> ip_is_multicast (asio_address b)))"

named_theorems endpoint_simps \<open>unfolding of the endpoint operations\<close>

lemmas [endpoint_simps] =
  usable_def assert_that_def Endpoint_is_valid_def Endpoint_is_udp_def Endpoint_is_tcp_def base_of_def
  call_on_base_address_def to_v4_def to_v6_def ip_is_v4_def ip_is_v6_def

lemma usable_cases: "ne_protocol e \<noteq> none \<Longrightarrow> ne_protocol e = udp \<or> ne_protocol e = tcp"
  by (cases "ne_protocol e") auto

lemma ok_base:
  assumes "endpoint_ok e" and "Endpoint_is_valid e"
  obtains a p where "ne_base e = Some (Asio_endpoint a p)" and "ip_ok a" and "ne_protocol e \<noteq> none"
    and "\<And>r :: 'a res. usable e r = r"
proof -
  from assms obtain b where b: "ne_base e = Some b" "ip_ok (asio_address b)" and n: "ne_protocol e \<noteq> none"
    by (auto simp: endpoint_ok_def Endpoint_is_valid_def split: option.splits)
  with usable_cases [OF n] show thesis
    by (intro that [of "asio_address b" "asio_port b"]) (auto simp: endpoint_simps)
qed

lemma ip_ok_V4 [simp]: "ip_ok (V4 n)"
  by (simp add: ip_ok_def)

lemma init_ip_endpoint_ok:
  "ip_ok a \<Longrightarrow> endpoint_ok (init_ip_endpoint a p e)"
  by (cases "ne_protocol e") (auto simp: init_ip_endpoint_def endpoint_ok_def)

lemma init_ip_endpoint_no_multicast: "no_multicast (init_ip_endpoint a p e)"
  by (cases "ne_protocol e") (auto simp: init_ip_endpoint_def no_multicast_def)

lemma with_scope_ok: "ip_ok (with_scope scope a) = ip_ok a"
  by (cases a) (auto simp: with_scope_def ip_ok_def)

lemma Endpoint_of_base_ok:
  assumes "ip_ok (asio_address b)"
  shows "endpoint_ok (Endpoint_of_udp b scope)" and "endpoint_ok (Endpoint_of_tcp b scope)"
  using assms by (simp_all add: Endpoint_of_udp_def Endpoint_of_tcp_def endpoint_ok_def with_scope_ok)

lemma Endpoint_of_string_ok:
  assumes "\<And>a. make_address s = Some a \<Longrightarrow> ip_ok a"
  shows "endpoint_ok (Endpoint_of_string make_address protocol s p scope)"
    and "no_multicast (Endpoint_of_string make_address protocol s p scope)"
  using assms
  by (auto simp: Endpoint_of_string_def with_scope_ok init_ip_endpoint_ok init_ip_endpoint_no_multicast
      split: option.split)

lemma init_ip_range_ok: "endpoint_ok (init_ip_range bs p scope e)" "no_multicast (init_ip_range bs p scope e)"
proof -
  show "endpoint_ok (init_ip_range bs p scope e)"
    by (auto simp: init_ip_range_def intro!: init_ip_endpoint_ok)
      (simp_all add: ip_ok_def endpoint_ok_def)
  show "no_multicast (init_ip_range bs p scope e)"
    by (simp add: init_ip_range_def init_ip_endpoint_no_multicast) (simp add: no_multicast_def)
qed

lemma Endpoint_of_range_ok:
  assumes "Endpoint_of_range protocol bs p scope = Inr e"
  shows "endpoint_ok e" and "no_multicast e"
  using assms init_ip_range_ok by (auto simp: Endpoint_of_range_def Let_def endpoint_simps split: if_splits)

lemma Endpoint_copy_same:
  assumes "endpoint_ok e" and "Endpoint_is_valid e"
  shows "Endpoint_copy e = Inr e" and "Endpoint_assign e e' = Inr e"
  using assms usable_cases [of e]
  by (auto simp: endpoint_ok_def Endpoint_is_valid_def Endpoint_copy_def Endpoint_assign_def
      copy_endpoint_base_def base_of_def split: option.splits)

lemma Endpoint_set_port_ok:
  assumes "endpoint_ok e" and "Endpoint_is_valid e"
  obtains e' where "Endpoint_set_port p e = Inr e'" and "endpoint_ok e'" and "Endpoint_is_valid e'"
    and "Endpoint_port e' = Inr p" and "ne_protocol e' = ne_protocol e"
proof -
  from ok_base [OF assms] obtain a q where b: "ne_base e = Some (Asio_endpoint a q)" "ip_ok a"
    "ne_protocol e \<noteq> none" "\<And>r :: endpoint res. usable e r = r" by metis
  then show thesis using usable_cases [of e]
    by (intro that [of "e\<lparr>ne_base := Some (Asio_endpoint a p)\<rparr>"])
      (auto simp: Endpoint_set_port_def Endpoint_port_def endpoint_ok_def endpoint_simps)
qed

section \<open>Reading back\<close>

definition ip_bytes :: "ip_address \<Rightarrow> bytes" where
  "ip_bytes a = (case a of V4 n \<Rightarrow> v4_bytes n | V6 bs _ \<Rightarrow> bs)"

definition ip_scope :: "ip_address \<Rightarrow> u32" where
  "ip_scope a = (case a of V4 _ \<Rightarrow> 0 | V6 _ scope \<Rightarrow> scope)"

lemma init_ip_range_reads:
  assumes "protocol \<noteq> none" and "ip_ok a" and "protocol = tcp \<longrightarrow> \<not> ip_is_multicast a"
  shows "init_ip_range (ip_bytes a) p (ip_scope a) \<lparr>ne_protocol = protocol, ne_base = None\<rparr> =
    \<lparr>ne_protocol = protocol, ne_base = Some (Asio_endpoint a p)\<rparr>"
  using assms
  by (cases a; cases protocol)
    (auto simp: init_ip_range_def ip_bytes_def ip_scope_def ip_ok_def init_ip_endpoint_def v4_of_v4_bytes)

lemma set_scope_reads:
  assumes "ne_protocol e \<noteq> none" and "ne_base e = Some (Asio_endpoint (V6 bs s) p)"
    and "ne_protocol e = tcp \<longrightarrow> \<not> ip_is_multicast (V6 bs s)"
  shows "Endpoint_set_scope_id s' e = Inr (e\<lparr>ne_base := Some (Asio_endpoint (V6 bs s') p)\<rparr>)"
  using assms usable_cases [OF assms(1)]
  by (auto simp: Endpoint_set_scope_id_def Endpoint_is_v6_def Endpoint_scope_id_def Endpoint_port_def
      init_ip_endpoint_def ip_is_multicast_def endpoint_simps)

section \<open>Comparisons\<close>

lemma Endpoint_compare:
  assumes "endpoint_ok a" and "endpoint_ok b"
  shows "Endpoint_eq a b = Inr (ne_protocol a = ne_protocol b \<and> ne_protocol a \<noteq> none \<and>
      ne_base a = ne_base b)"
    and "Endpoint_less a b = Inr (
      protocol_number (ne_protocol a) < protocol_number (ne_protocol b) \<or>
      ne_protocol a = ne_protocol b \<and> ne_protocol a \<noteq> none \<and> the (ne_base a) < the (ne_base b))"
  using assms
  by (auto simp: Endpoint_eq_def Endpoint_less_def endpoint_ok_def base_of_def protocol_number_def
      split: option.splits)

lemma protocol_number_inj: "protocol_number p = protocol_number q \<longleftrightarrow> p = q"
  by (cases p; cases q) (simp_all add: protocol_number_def)

end
