(* ===== verification/Tcp_Connection.thy ===== *)
theory Tcp_Connection
  imports Endpoint_Laws Network_Types
begin

text \<open>
  The TCP connections of \<open>src/src/network/tcp/connection_impl.hpp\<close> over asio. What asio answers is the
  argument of an operation: the error codes of its calls, the number of bytes that wait, the bytes read.
  The completion of an asynchronous call is an event.

  A connection object lives as long as somebody holds a shared pointer to it: its user (\<open>tn_held\<close>) or a
  transmission that was posted, which waits in the queue of the system executor (\<open>tn_posted\<close>) or has been
  taken from it by a thread (\<open>tn_running\<close>). The completion handlers have weak pointers and do nothing once
  the object is gone; its destructor has closed the socket. The user's handler may let go of the connection
  and may transmit on it while it runs, which is its \<open>reaction\<close>. The calls of the handler are recorded in
  \<open>tn_calls\<close>; a null payload is \<open>None\<close>.
\<close>

section \<open>State\<close>

datatype asio_error = Eof | Connection_reset | Other_error

record tcp_connection =
  tn_open :: bool
  tn_remote :: endpoint
  tn_local :: endpoint
  tn_handler :: bool
  tn_connecting :: bool
  tn_receiving :: bool
  tn_held :: bool
  tn_posted :: "bytes list"
  tn_running :: "bytes list"
  tn_sent :: "bytes list"
  tn_calls :: "(result_code \<times> bytes option) list"

definition Connection_connecting :: "endpoint \<Rightarrow> endpoint \<Rightarrow> tcp_connection" where
  "Connection_connecting remote_endpoint local_endpoint =
     \<lparr>tn_open = False, tn_remote = remote_endpoint, tn_local = local_endpoint, tn_handler = True,
      tn_connecting = False, tn_receiving = False, tn_held = True, tn_posted = [], tn_running = [], tn_sent = [],
      tn_calls = []\<rparr>"

definition Connection_accepted :: "endpoint \<Rightarrow> tcp_connection" where
  "Connection_accepted remote_endpoint =
     \<lparr>tn_open = True, tn_remote = remote_endpoint, tn_local = Endpoint_default, tn_handler = False,
      tn_connecting = False, tn_receiving = False, tn_held = True, tn_posted = [], tn_running = [], tn_sent = [],
      tn_calls = []\<rparr>"

definition living :: "tcp_connection \<Rightarrow> bool" where
  "living c \<longleftrightarrow> tn_held c \<or> tn_posted c \<noteq> [] \<or> tn_running c \<noteq> []"

section \<open>Operations\<close>

definition Connection_close :: "tcp_connection \<Rightarrow> tcp_connection" where
  "Connection_close c = (if tn_open c then c\<lparr>tn_open := False\<rparr> else c)"

text \<open>At the end of a scope that held a shared pointer: the destructor, when it was the last one.\<close>

definition let_go :: "tcp_connection \<Rightarrow> tcp_connection" where
  "let_go c = (if living c then c else Connection_close c)"

record reaction =
  re_releases :: bool
  re_transmits :: "bytes list"

definition transmit :: "bytes \<Rightarrow> tcp_connection \<Rightarrow> tcp_connection" where
  "transmit tx_buffer c = c\<lparr>tn_posted := tn_posted c @ [tx_buffer]\<rparr>"

definition call_handler :: "reaction \<Rightarrow> result_code \<Rightarrow> bytes option \<Rightarrow> tcp_connection \<Rightarrow> tcp_connection res" where
  "call_handler r result payload c =
     (if \<not> tn_handler c then Inl Exception_thrown
      else let c = fold transmit (re_transmits r) (c\<lparr>tn_calls := tn_calls c @ [(result, payload)]\<rparr>)
           in Inr (c\<lparr>tn_held := tn_held c \<and> \<not> re_releases r\<rparr>))"

definition receive :: "tcp_connection \<Rightarrow> tcp_connection" where
  "receive c = c\<lparr>tn_receiving := True\<rparr>"

definition update_port :: "asio_endpoint \<Rightarrow> endpoint \<Rightarrow> endpoint res" where
  "update_port source destination = Endpoint_set_port (asio_port source) destination"

text \<open>The answers of the socket: did \<open>open\<close> and \<open>bind\<close> fail, and the local endpoint, unless that throws.\<close>

record socket_answers =
  sa_open_error :: bool
  sa_bind_error :: bool
  sa_local :: "asio_endpoint option"

definition initialise_socket :: "socket_answers \<Rightarrow> tcp_connection \<Rightarrow> (result_code \<times> tcp_connection) res" where
  "initialise_socket a c =
     rbind (get_tcp_base (tn_local c)) (\<lambda>_.
     if sa_open_error a then Inr (result_error, c)
     else let c = c\<lparr>tn_open := True\<rparr> in
       if sa_bind_error a then Inr (result_error, c\<lparr>tn_open := False\<rparr>)
       else case sa_local a of
              None \<Rightarrow> Inl Exception_thrown
            | Some e \<Rightarrow> rbind (update_port e (tn_local c)) (\<lambda>local_endpoint.
                Inr (result_ok, c\<lparr>tn_local := local_endpoint\<rparr>)))"

definition Connection_connect :: "socket_answers \<Rightarrow> tcp_connection \<Rightarrow> (result_code \<times> tcp_connection) res" where
  "Connection_connect a c =
     rbind (initialise_socket a c) (\<lambda>(result, c).
     if result \<noteq> result_ok then Inr (result_error, c)
     else rbind (get_tcp_base (tn_remote c)) (\<lambda>_. Inr (result_ok, c\<lparr>tn_connecting := True\<rparr>)))"

definition handle_accept ::
  "bool \<Rightarrow> asio_endpoint option \<Rightarrow> reaction \<Rightarrow> tcp_connection \<Rightarrow> tcp_connection res" where
  "handle_accept handler local_answer r c =
     assert_that handler
       (case local_answer of
          None \<Rightarrow> Inl Exception_thrown
        | Some e \<Rightarrow>
            rbind (call_handler r connection_ok None (c\<lparr>tn_handler := True, tn_local := Endpoint_of_tcp e 0\<rparr>)) (\<lambda>c.
              Inr (let_go (receive c))))"

section \<open>Completion handlers\<close>

definition on_connect :: "asio_error option \<Rightarrow> reaction \<Rightarrow> tcp_connection \<Rightarrow> tcp_connection res" where
  "on_connect error r c =
     (let alive = living c; c = c\<lparr>tn_connecting := False\<rparr> in
      if alive
      then rbind (call_handler r (if error = None then connection_ok else connection_declined) None c) (\<lambda>c.
             Inr (let_go (if error = None then receive c else c)))
      else Inr c)"

text \<open>
  What asio answers while data is received: the error of the completion, the number of bytes that wait
  (\<open>None\<close> when \<open>available\<close> throws), the error of the read and the bytes it wrote into the buffer.
\<close>

record receive_answer =
  ra_error :: "asio_error option"
  ra_available :: "nat option"
  ra_read_error :: bool
  ra_data :: bytes

definition receive_buffer :: "nat \<Rightarrow> bytes \<Rightarrow> bytes" where
  "receive_buffer n data = take n data @ replicate (n - List.length data) 0"

definition on_receive :: "receive_answer \<Rightarrow> reaction \<Rightarrow> tcp_connection \<Rightarrow> tcp_connection res" where
  "on_receive a r c =
     (let alive = living c; c = c\<lparr>tn_receiving := False\<rparr> in
      if \<not> alive then Inr c
      else rbind
        (case ra_error a of
           None \<Rightarrow>
             (case ra_available a of
                None \<Rightarrow> Inl Exception_thrown
              | Some n \<Rightarrow>
                  if n = 0 then call_handler r connection_closed None c
                  else if \<not> ra_read_error a
                  then rbind (call_handler r receive_ok (Some (receive_buffer n (ra_data a))) c) (\<lambda>c. Inr (receive c))
                  else call_handler r connection_aborted None c)
         | Some Eof \<Rightarrow> call_handler r connection_closed None c
         | Some Connection_reset \<Rightarrow> call_handler r connection_closed None c
         | Some Other_error \<Rightarrow> call_handler r connection_aborted None c)
        (\<lambda>c. Inr (let_go c)))"

text \<open>
  \<open>asio::post\<close> without an executor hands the function to the system executor, whose scheduler has one queue and
  a pool of threads. A thread that is free takes the front of the queue; what it does then is interleaved with
  the other threads. How many functions can run at once is not limited here (\<open>System_Executor\<close> has the limit):
  the steps of a connection are those of every number of threads.
\<close>

definition post_taken :: "tcp_connection \<Rightarrow> tcp_connection" where
  "post_taken c =
     (case tn_posted c of
        [] \<Rightarrow> c
      | tx_buffer # waiting \<Rightarrow> c\<lparr>tn_posted := waiting, tn_running := tn_running c @ [tx_buffer]\<rparr>)"

text \<open>The posted function sends its payload and gives up the shared pointer it holds.\<close>

definition on_posted :: "nat \<Rightarrow> tcp_connection \<Rightarrow> tcp_connection" where
  "on_posted k c =
     (if k < List.length (tn_running c)
      then let_go (c\<lparr>tn_running := take k (tn_running c) @ drop (Suc k) (tn_running c),
                    tn_sent := tn_sent c @ [tn_running c ! k]\<rparr>)
      else c)"

section \<open>Events\<close>

datatype connection_event =
    Connect_completes "asio_error option" reaction
  | Receive_completes receive_answer reaction
  | Post_taken
  | Post_runs nat
  | User_transmits bytes
  | User_releases

fun connection_enabled :: "connection_event \<Rightarrow> tcp_connection \<Rightarrow> bool" where
  "connection_enabled (Connect_completes error r) c = tn_connecting c"
| "connection_enabled (Receive_completes a r) c = tn_receiving c"
| "connection_enabled Post_taken c = (tn_posted c \<noteq> [])"
| "connection_enabled (Post_runs k) c = (k < List.length (tn_running c))"
| "connection_enabled (User_transmits bs) c = tn_held c"
| "connection_enabled User_releases c = tn_held c"

fun connection_handle :: "connection_event \<Rightarrow> tcp_connection \<Rightarrow> tcp_connection res" where
  "connection_handle (Connect_completes error r) c = on_connect error r c"
| "connection_handle (Receive_completes a r) c = on_receive a r c"
| "connection_handle Post_taken c = Inr (post_taken c)"
| "connection_handle (Post_runs k) c = Inr (on_posted k c)"
| "connection_handle (User_transmits bs) c = Inr (transmit bs c)"
| "connection_handle User_releases c = Inr (let_go (c\<lparr>tn_held := False\<rparr>))"

inductive connection_step :: "tcp_connection \<Rightarrow> connection_event \<Rightarrow> tcp_connection \<Rightarrow> bool" where
  "connection_enabled ev c \<Longrightarrow> connection_handle ev c = Inr c' \<Longrightarrow> connection_step c ev c'"

inductive_simps connection_step_simps: "connection_step c ev c'"

text \<open>The start of a connection: a successful \<open>connect\<close> or an accepted socket.\<close>

inductive connection_start :: "tcp_connection \<Rightarrow> bool" where
  outgoing: "Connection_connect a (Connection_connecting remote local_endpoint) = Inr (result_ok, c) \<Longrightarrow>
    connection_start c"
| incoming: "handle_accept handler answer r (Connection_accepted remote) = Inr c \<Longrightarrow> connection_start c"

inductive connection_run :: "tcp_connection \<Rightarrow> bool" where
  start: "connection_start c \<Longrightarrow> connection_run c"
| more: "connection_run c \<Longrightarrow> connection_step c ev c' \<Longrightarrow> connection_run c'"

end
