(* ===== verification/Tcp_Calls.thy ===== *)
theory Tcp_Calls
  imports Tcp_Connection
begin

text \<open>
  The contract of a connection handler: what the network layer promises about its calls, as an automaton,
  and the invariant by which \<open>connection_run\<close> keeps it.
\<close>

section \<open>The contract\<close>

datatype phase = Opening | Established | Ended

fun call_phase :: "phase \<Rightarrow> result_code \<times> bytes option \<Rightarrow> phase option" where
  "call_phase Opening (result, payload) =
     (if result = connection_ok \<and> payload = None then Some Established
      else if result = connection_declined \<and> payload = None then Some Ended else None)"
| "call_phase Established (result, payload) =
     (if result = receive_ok \<and> payload \<noteq> None \<and> payload \<noteq> Some [] then Some Established
      else if (result = connection_closed \<or> result = connection_aborted) \<and> payload = None then Some Ended
      else None)"
| "call_phase Ended call = None"

fun calls_phase :: "phase \<Rightarrow> (result_code \<times> bytes option) list \<Rightarrow> phase option" where
  "calls_phase ph [] = Some ph"
| "calls_phase ph (call # calls) = Option.bind (call_phase ph call) (\<lambda>ph. calls_phase ph calls)"

lemma calls_phase_snoc:
  "calls_phase ph (calls @ [call]) = Option.bind (calls_phase ph calls) (\<lambda>ph. call_phase ph call)"
  by (induction calls arbitrary: ph) (simp_all add: option.case_eq_if split: bind_split)

section \<open>The invariant\<close>

text \<open>
  While the object lives exactly the call that can come is awaited: the connect in the opening phase, a
  receive in the established phase, none after the end.
\<close>

definition contract :: "tcp_connection \<Rightarrow> bool" where
  "contract c \<longleftrightarrow> tn_handler c \<and>
     (\<exists>ph. calls_phase Opening (tn_calls c) = Some ph \<and>
       (tn_connecting c \<longrightarrow> ph = Opening) \<and> (tn_receiving c \<longrightarrow> ph = Established) \<and>
       (living c \<longrightarrow> (ph = Opening \<longrightarrow> tn_connecting c) \<and> (ph = Established \<longrightarrow> tn_receiving c) \<and>
          (ph \<noteq> Ended \<longrightarrow> tn_open c)) \<and>
       (\<not> living c \<longrightarrow> \<not> tn_open c))"

lemma fold_transmit:
  "fold transmit bss c = c\<lparr>tn_posted := tn_posted c @ bss\<rparr>"
  by (induction bss arbitrary: c) (simp_all add: transmit_def)

definition called :: "reaction \<Rightarrow> result_code \<Rightarrow> bytes option \<Rightarrow> tcp_connection \<Rightarrow> tcp_connection" where
  "called r result payload c =
     c\<lparr>tn_calls := tn_calls c @ [(result, payload)], tn_posted := tn_posted c @ re_transmits r,
       tn_held := tn_held c \<and> \<not> re_releases r\<rparr>"

lemma called_simps [simp]:
  "tn_handler (called r result payload c) = tn_handler c" "tn_open (called r result payload c) = tn_open c"
  "tn_connecting (called r result payload c) = tn_connecting c"
  "tn_receiving (called r result payload c) = tn_receiving c"
  "tn_calls (called r result payload c) = tn_calls c @ [(result, payload)]"
  by (simp_all add: called_def)

lemma receive_simps [simp]:
  "tn_handler (receive c) = tn_handler c" "tn_open (receive c) = tn_open c"
  "tn_connecting (receive c) = tn_connecting c" "tn_receiving (receive c)" "tn_calls (receive c) = tn_calls c"
  by (simp_all add: receive_def)

lemma call_handler_eq:
  "tn_handler c \<Longrightarrow> call_handler r result payload c = Inr (called r result payload c)"
  by (simp add: call_handler_def fold_transmit called_def)

lemma let_go_simps [simp]:
  "tn_handler (let_go c) = tn_handler c" "tn_calls (let_go c) = tn_calls c"
  "tn_connecting (let_go c) = tn_connecting c" "tn_receiving (let_go c) = tn_receiving c"
  "living (let_go c) = living c" "tn_open (let_go c) = (living c \<and> tn_open c)"
  by (simp_all add: let_go_def Connection_close_def living_def)

lemma contract_let_go:
  assumes "tn_handler c" and "calls_phase Opening (tn_calls c) = Some ph"
    and "tn_connecting c \<longrightarrow> ph = Opening" and "tn_receiving c \<longrightarrow> ph = Established"
    and "living c \<longrightarrow> (ph = Opening \<longrightarrow> tn_connecting c) \<and> (ph = Established \<longrightarrow> tn_receiving c) \<and>
      (ph \<noteq> Ended \<longrightarrow> tn_open c)"
  shows "contract (let_go c)"
  unfolding contract_def let_go_simps by (intro conjI exI [of _ ph]) (use assms in blast)+

lemma contractE:
  assumes "contract c"
  obtains ph where "tn_handler c" and "calls_phase Opening (tn_calls c) = Some ph"
    and "tn_connecting c \<Longrightarrow> ph = Opening" and "tn_receiving c \<Longrightarrow> ph = Established"
    and "living c \<Longrightarrow> (ph = Opening) = tn_connecting c" and "living c \<Longrightarrow> (ph = Established) = tn_receiving c"
    and "living c \<Longrightarrow> ph \<noteq> Ended \<Longrightarrow> tn_open c" and "\<not> living c \<Longrightarrow> \<not> tn_open c"
proof -
  from assms obtain ph where "tn_handler c" "calls_phase Opening (tn_calls c) = Some ph"
    "tn_connecting c \<longrightarrow> ph = Opening" "tn_receiving c \<longrightarrow> ph = Established"
    "living c \<longrightarrow> (ph = Opening \<longrightarrow> tn_connecting c) \<and> (ph = Established \<longrightarrow> tn_receiving c) \<and>
       (ph \<noteq> Ended \<longrightarrow> tn_open c)" "\<not> living c \<longrightarrow> \<not> tn_open c"
    unfolding contract_def by blast
  then show thesis by (intro that [of ph]) blast+
qed

lemma receive_buffer_not_empty: "n \<noteq> 0 \<Longrightarrow> receive_buffer n data \<noteq> []"
  by (cases data) (auto simp: receive_buffer_def)

lemma contract_start:
  assumes "connection_start c"
  shows "contract c"
  using assms
proof cases
  case (outgoing a remote local_endpoint)
  then show ?thesis
    by (auto simp: Connection_connect_def initialise_socket_def Connection_connecting_def rbind_eq_Inr
        contract_def living_def Let_def split: if_splits option.splits)
next
  case (incoming handler answer r remote)
  then obtain e where "c = let_go (receive (called r connection_ok None
      (Connection_accepted remote\<lparr>tn_handler := True, tn_local := Endpoint_of_tcp e 0\<rparr>)))"
    by (auto simp: handle_accept_def assert_that_def rbind_eq_Inr call_handler_eq split: if_splits option.splits)
  then show ?thesis
    by (simp, intro contract_let_go [where ph = Established]) (simp_all add: Connection_accepted_def)
qed

section \<open>Every step keeps it\<close>

lemma on_connect_contract:
  assumes "contract c" and "tn_connecting c" and "on_connect error r c = Inr c'"
  shows "contract c'"
proof (cases "living c")
  case False
  with assms show ?thesis by (auto simp: on_connect_def Let_def contract_def living_def)
next
  case True
  from assms(1) obtain ph where ph: "tn_handler c" "calls_phase Opening (tn_calls c) = Some ph"
    "ph = Opening" "\<not> tn_receiving c" "tn_open c"
    using assms(2) True by (elim contractE) auto
  show ?thesis
  proof (cases "error = None")
    case True
    with ph assms(3) \<open>living c\<close> show ?thesis
      by (auto simp: on_connect_def call_handler_eq calls_phase_snoc
          intro!: contract_let_go [where ph = Established])
  next
    case False
    with ph assms(3) \<open>living c\<close> show ?thesis
      by (auto simp: on_connect_def call_handler_eq calls_phase_snoc intro!: contract_let_go [where ph = Ended])
  qed
qed

lemma on_receive_living:
  assumes "tn_handler c" and "living c" and "on_receive a r c = Inr c'"
  shows "(\<exists>bs. bs \<noteq> [] \<and> c' = let_go (receive (called r receive_ok (Some bs) (c\<lparr>tn_receiving := False\<rparr>)))) \<or>
    (\<exists>result. (result = connection_closed \<or> result = connection_aborted) \<and>
       c' = let_go (called r result None (c\<lparr>tn_receiving := False\<rparr>)))"
proof (cases "ra_error a")
  case None
  with assms obtain n where n: "ra_available a = Some n"
    by (cases "ra_available a") (auto simp: on_receive_def Let_def)
  show ?thesis
  proof (cases "n \<noteq> 0 \<and> \<not> ra_read_error a")
    case True
    with None n assms have "c' = let_go (receive (called r receive_ok (Some (receive_buffer n (ra_data a)))
        (c\<lparr>tn_receiving := False\<rparr>)))"
      by (simp add: on_receive_def Let_def call_handler_eq)
    with True receive_buffer_not_empty show ?thesis by blast
  next
    case False
    with None n assms show ?thesis by (auto simp: on_receive_def Let_def call_handler_eq split: if_splits)
  qed
next
  case (Some e)
  with assms show ?thesis by (cases e) (auto simp: on_receive_def Let_def call_handler_eq)
qed

lemma on_receive_contract:
  assumes "contract c" and "tn_receiving c" and "on_receive a r c = Inr c'"
  shows "contract c'"
proof (cases "living c")
  case False
  with assms show ?thesis by (auto simp: on_receive_def Let_def contract_def living_def)
next
  case True
  from assms(1) obtain ph where ph: "tn_handler c" "calls_phase Opening (tn_calls c) = Some ph"
    "ph = Established" "\<not> tn_connecting c" "tn_open c"
    using assms(2) True by (elim contractE) auto
  from on_receive_living [OF ph(1) True assms(3)] show ?thesis
  proof (elim disjE exE conjE)
    fix bs :: bytes
    assume "bs \<noteq> []" and "c' = let_go (receive (called r receive_ok (Some bs) (c\<lparr>tn_receiving := False\<rparr>)))"
    with ph show ?thesis
      by (auto simp: calls_phase_snoc intro!: contract_let_go [where ph = Established])
  qed (use ph in \<open>auto simp: calls_phase_snoc intro!: contract_let_go [where ph = Ended]\<close>)
qed

lemma contract_shrink:
  assumes "contract c" and "living c" and "tn_handler c' = tn_handler c" and "tn_calls c' = tn_calls c"
    and "tn_connecting c' = tn_connecting c" and "tn_receiving c' = tn_receiving c" and "tn_open c' = tn_open c"
  shows "contract (let_go c')"
  using assms by (elim contractE, intro contract_let_go) auto

lemma post_taken_eq:
  "tn_posted c = f # fs \<Longrightarrow> post_taken c = c\<lparr>tn_posted := fs, tn_running := tn_running c @ [f]\<rparr>"
  "tn_posted c = [] \<Longrightarrow> post_taken c = c"
  by (simp_all add: post_taken_def)

lemma post_taken_fields [simp]:
  "tn_held (post_taken c) = tn_held c" "tn_open (post_taken c) = tn_open c"
  "tn_handler (post_taken c) = tn_handler c" "tn_calls (post_taken c) = tn_calls c"
  "tn_connecting (post_taken c) = tn_connecting c" "tn_receiving (post_taken c) = tn_receiving c"
  "tn_sent (post_taken c) = tn_sent c" "living (post_taken c) = living c"
  by (simp_all add: post_taken_def living_def split: list.split)

lemma post_taken_contract: "contract c \<Longrightarrow> contract (post_taken c)"
  by (simp add: contract_def)

lemma on_posted_contract: "contract c \<Longrightarrow> contract (on_posted k c)"
  by (auto simp: on_posted_def living_def intro!: contract_shrink [of c])

lemma transmit_contract: "contract c \<Longrightarrow> tn_held c \<Longrightarrow> contract (transmit bs c)"
  by (auto simp: transmit_def contract_def living_def)

lemma release_contract: "contract c \<Longrightarrow> tn_held c \<Longrightarrow> contract (let_go (c\<lparr>tn_held := False\<rparr>))"
  by (auto simp: living_def intro!: contract_shrink [of c])

lemma contract_step:
  assumes "connection_step c ev c'" and "contract c"
  shows "contract c'"
proof (cases ev)
  case (Connect_completes error r)
  with assms on_connect_contract show ?thesis by (auto simp: connection_step_simps)
next
  case (Receive_completes a r)
  with assms on_receive_contract show ?thesis by (auto simp: connection_step_simps)
qed (use assms in \<open>auto simp: connection_step_simps post_taken_contract on_posted_contract transmit_contract release_contract\<close>)

lemma contract_run: "connection_run c \<Longrightarrow> contract c"
  by (induction rule: connection_run.induct) (auto intro: contract_start contract_step)

section \<open>After the end of the object\<close>

lemma dead_step:
  assumes "connection_step c ev c'" and "\<not> living c"
  shows "\<not> living c' \<and> tn_calls c' = tn_calls c"
  using assms
  by (cases ev) (auto simp: connection_step_simps living_def on_connect_def on_receive_def Let_def)

text \<open>With its handler set, only \<open>available\<close> can make a completion throw.\<close>

lemma on_connect_returns: "tn_handler c \<Longrightarrow> \<exists>c'. on_connect error r c = Inr c'"
  by (simp add: on_connect_def Let_def call_handler_eq)

lemma on_receive_returns:
  assumes "tn_handler c" and "on_receive a r c = Inl e"
  shows "e = Exception_thrown \<and> ra_error a = None \<and> ra_available a = None"
proof (cases "ra_error a")
  case None
  with assms show ?thesis
    by (cases "ra_available a") (auto simp: on_receive_def Let_def call_handler_eq split: if_splits)
next
  case (Some err)
  with assms show ?thesis
    by (cases err) (auto simp: on_receive_def Let_def call_handler_eq split: if_splits)
qed

lemma handle_faults:
  assumes "tn_handler c" and "connection_handle ev c = Inl e"
  shows "e = Exception_thrown \<and> (\<exists>a r. ev = Receive_completes a r \<and> ra_error a = None \<and> ra_available a = None)"
proof (cases ev)
  case (Connect_completes error r)
  with assms on_connect_returns [OF assms(1), of error r] show ?thesis by auto
next
  case (Receive_completes a r)
  with assms on_receive_returns [OF assms(1)] show ?thesis by auto
qed (use assms in auto)

end
