(* ===== verification/Connection_User.thy ===== *)
theory Connection_User
  imports "HOL-Library.Multiset" Tcp_Calls
begin

text \<open>
  The other side of the contract of \<open>Tcp_Calls\<close>: what the user of connections must keep. \<open>linked\<close> relates a
  connection to its user, who holds it or has let go of it and has transmitted some frames. The locale
  \<open>connection_user\<close> states the laws of a user of many connections, and shows that whatever the user and the
  network do, every connection stays linked.
\<close>

section \<open>What a user does to a connection\<close>

text \<open>
  The user held the connection and had transmitted the frames \<open>fs\<close>; now it holds it if \<open>h\<close>, and has
  transmitted \<open>fs'\<close>, which extends \<open>fs\<close>.
\<close>

definition react :: "bool \<Rightarrow> bytes list \<Rightarrow> bytes list \<Rightarrow> reaction" where
  "react h fs fs' = \<lparr>re_releases = \<not> h, re_transmits = drop (List.length fs) fs'\<rparr>"

text \<open>The same outside the handler of the connection.\<close>

definition user_acts :: "reaction \<Rightarrow> tcp_connection \<Rightarrow> tcp_connection" where
  "user_acts r c = let_go ((fold transmit (re_transmits r) c)\<lparr>tn_held := tn_held c \<and> \<not> re_releases r\<rparr>)"

section \<open>Links\<close>

definition linked :: "bool \<Rightarrow> bytes list \<Rightarrow> tcp_connection \<Rightarrow> bool" where
  "linked h fs c \<longleftrightarrow> contract c \<and> tn_held c = h \<and> (calls_phase Opening (tn_calls c) = Some Ended) = (\<not> h)
     \<and> mset (tn_sent c @ tn_running c @ tn_posted c) = mset fs"

fun link_ok :: "bool \<Rightarrow> bytes list \<Rightarrow> tcp_connection option \<Rightarrow> bool" where
  "link_ok h fs None = (\<not> h \<and> fs = [])"
| "link_ok h fs (Some c) = linked h fs c"

lemma let_go_fields [simp]:
  "tn_held (let_go c) = tn_held c" "tn_sent (let_go c) = tn_sent c" "tn_posted (let_go c) = tn_posted c"
  "tn_running (let_go c) = tn_running c"
  by (simp_all add: let_go_def Connection_close_def)

lemma react_simps [simp]:
  "re_releases (react h fs fs') = (\<not> h)" "re_transmits (react h fs (fs @ new)) = new"
  by (simp_all add: react_def)

lemma call_phase_ends:
  "call_phase ph (result, payload) = Some ph' \<Longrightarrow> ph \<noteq> Ended \<and> (ph' = Ended) = ends_connection result"
  by (cases ph) (auto simp: ends_connection_def split: if_splits)

text \<open>A living connection is held exactly while a completion is awaited.\<close>

lemma linked_awaits:
  assumes "linked h fs c"
  shows "(living c \<and> (tn_connecting c \<or> tn_receiving c)) = h" and "h \<Longrightarrow> tn_open c" and "h \<Longrightarrow> living c"
proof -
  from assms have c: "contract c" "tn_held c = h" "(calls_phase Opening (tn_calls c) = Some Ended) = (\<not> h)"
    by (simp_all add: linked_def)
  from c(1) obtain ph where ph: "calls_phase Opening (tn_calls c) = Some ph"
    "tn_connecting c \<Longrightarrow> ph = Opening" "tn_receiving c \<Longrightarrow> ph = Established"
    "living c \<Longrightarrow> (ph = Opening) = tn_connecting c" "living c \<Longrightarrow> (ph = Established) = tn_receiving c"
    "living c \<Longrightarrow> ph \<noteq> Ended \<Longrightarrow> tn_open c" by (elim contractE) blast
  have h: "(ph = Ended) = (\<not> h)" using c(3) ph(1) by simp
  have l: "h \<Longrightarrow> living c" using c(2) by (simp add: living_def)
  show "h \<Longrightarrow> living c" by (rule l)
  show "(living c \<and> (tn_connecting c \<or> tn_receiving c)) = h"
    using h l ph(2-5) by (cases ph) auto
  show "h \<Longrightarrow> tn_open c" using h l ph(6) by auto
qed

section \<open>Completions\<close>

text \<open>The completion handler of a living connection calls its user once.\<close>

inductive completes :: "reaction \<Rightarrow> tcp_connection \<Rightarrow> tcp_connection \<Rightarrow> bool" for r c c' where
  connected: "tn_connecting c \<Longrightarrow> on_connect error r c = Inr c' \<Longrightarrow> completes r c c'"
| received: "tn_receiving c \<Longrightarrow> on_receive a r c = Inr c' \<Longrightarrow> completes r c c'"

lemma later_call:
  assumes "contract c" and "tn_calls c = calls @ [(result, payload)]" and "calls \<noteq> []"
  shows "result \<noteq> connection_ok"
proof -
  have no_return: "calls_phase ph calls = Some Opening \<Longrightarrow> calls = [] \<and> ph = Opening" for ph calls
    by (induction ph calls rule: calls_phase.induct)
      (auto simp: bind_eq_Some_conv elim!: call_phase.elims split: if_splits)
  from assms(1) obtain ph where "calls_phase Opening (tn_calls c) = Some ph" by (elim contractE)
  with assms(2) obtain ph0 where p: "calls_phase Opening calls = Some ph0" "call_phase ph0 (result, payload) = Some ph"
    by (auto simp: calls_phase_snoc bind_eq_Some_conv)
  with no_return assms(3) show ?thesis by (cases ph0) auto
qed

lemma completes_contract: "completes r c c' \<Longrightarrow> contract c \<Longrightarrow> contract c'"
  by (erule completes.cases) (auto intro: on_connect_contract on_receive_contract)

lemma called_fields [simp]:
  "tn_held (called r result payload c) = (tn_held c \<and> \<not> re_releases r)"
  "tn_sent (called r result payload c) = tn_sent c"
  "tn_posted (called r result payload c) = tn_posted c @ re_transmits r"
  "tn_running (called r result payload c) = tn_running c"
  by (simp_all add: called_def)

lemma receive_fields [simp]:
  "tn_held (receive c) = tn_held c" "tn_sent (receive c) = tn_sent c" "tn_posted (receive c) = tn_posted c"
  "tn_running (receive c) = tn_running c"
  by (simp_all add: receive_def)

lemma completes_fields:
  assumes "completes r c c'" and "living c" and "tn_handler c"
  shows "tn_held c' = (tn_held c \<and> \<not> re_releases r)" "tn_sent c' = tn_sent c"
    "tn_posted c' = tn_posted c @ re_transmits r" "tn_running c' = tn_running c"
proof -
  have "tn_held c' = (tn_held c \<and> \<not> re_releases r) \<and> tn_sent c' = tn_sent c
      \<and> tn_posted c' = tn_posted c @ re_transmits r \<and> tn_running c' = tn_running c"
    using assms(1)
  proof cases
    case (connected error)
    with assms show ?thesis by (cases "error = None") (auto simp: on_connect_def Let_def call_handler_eq)
  next
    case (received a)
    from on_receive_living [OF assms(3,2) received(2)] show ?thesis by auto
  qed
  then show "tn_held c' = (tn_held c \<and> \<not> re_releases r)" "tn_sent c' = tn_sent c"
    "tn_posted c' = tn_posted c @ re_transmits r" "tn_running c' = tn_running c" by simp_all
qed

lemma linked_called:
  assumes l: "linked h fs c" and "living c" and c': "completes (react h' fs (fs @ new)) c c'"
    and calls: "tn_calls c' = tn_calls c @ [(result, payload)]" and h': "h' = (\<not> ends_connection result)"
  shows "h \<and> linked h' (fs @ new) c'"
proof -
  from l have c: "contract c" "tn_held c = h" "(calls_phase Opening (tn_calls c) = Some Ended) = (\<not> h)"
    "mset (tn_sent c @ tn_running c @ tn_posted c) = mset fs" by (simp_all add: linked_def)
  have handler: "tn_handler c" using c(1) by (simp add: contract_def)
  have c'': "contract c'" using c' c(1) by (rule completes_contract)
  then obtain ph' where "calls_phase Opening (tn_calls c') = Some ph'" by (elim contractE)
  with calls obtain ph where ph: "calls_phase Opening (tn_calls c) = Some ph" "call_phase ph (result, payload) = Some ph'"
    by (auto simp: calls_phase_snoc bind_eq_Some_conv)
  from call_phase_ends [OF ph(2)] ph(1) c(3) have h: h by auto
  have "(calls_phase Opening (tn_calls c') = Some Ended) = (\<not> h')"
    using call_phase_ends [OF ph(2)] ph calls h' by (simp add: calls_phase_snoc)
  with c'' h c completes_fields [OF c' assms(2) handler] show ?thesis
    by (simp add: linked_def)
qed

lemma linked_late:
  assumes "linked h fs c" and "\<not> living c" and "completes r c c'"
  shows "linked h fs c'"
  using assms(3)
proof cases
  case (connected error)
  then have "c' = c\<lparr>tn_connecting := False\<rparr>" using assms(2) by (simp add: on_connect_def)
  with assms(1) completes_contract [OF assms(3)] show ?thesis by (simp add: linked_def)
next
  case (received a)
  then have "c' = c\<lparr>tn_receiving := False\<rparr>" using assms(2) by (simp add: on_receive_def)
  with assms(1) completes_contract [OF assms(3)] show ?thesis by (simp add: linked_def)
qed

lemma mset_without: "k < List.length xs \<Longrightarrow> mset xs = add_mset (xs ! k) (mset (take k xs @ drop (Suc k) xs))"
  by (subst id_take_nth_drop [of k xs]) simp_all

lemma linked_posted:
  assumes "linked h fs c"
  shows "linked h fs (on_posted k c)"
proof (cases "k < List.length (tn_running c)")
  case True
  have "contract (on_posted k c)" using assms by (simp add: linked_def on_posted_contract)
  moreover have "mset (tn_sent (on_posted k c) @ tn_running (on_posted k c) @ tn_posted (on_posted k c))
      = mset (tn_sent c @ tn_running c @ tn_posted c)"
    using True by (simp add: on_posted_def mset_without [OF True])
  moreover have "tn_held (on_posted k c) = tn_held c \<and> tn_calls (on_posted k c) = tn_calls c"
    by (simp add: on_posted_def)
  ultimately show ?thesis using assms by (simp add: linked_def del: mset_append)
qed (use assms in \<open>simp add: on_posted_def\<close>)

lemma linked_taken:
  assumes "linked h fs c"
  shows "linked h fs (post_taken c)"
proof (cases "tn_posted c")
  case (Cons f waiting)
  then have "mset (tn_sent (post_taken c) @ tn_running (post_taken c) @ tn_posted (post_taken c))
      = mset (tn_sent c @ tn_running c @ tn_posted c)" by (simp add: post_taken_eq)
  with assms show ?thesis by (simp add: linked_def post_taken_contract del: mset_append)
qed (use assms in \<open>simp add: post_taken_eq\<close>)

lemma linked_acts:
  assumes l: "linked h fs c" and "new = [] \<or> h"
  shows "linked h (fs @ new) (user_acts (react h fs (fs @ new)) c)"
proof -
  from l have c: "contract c" "tn_held c = h" by (simp_all add: linked_def)
  let ?u = "c\<lparr>tn_posted := tn_posted c @ new, tn_held := h\<rparr>"
  have eq: "user_acts (react h fs (fs @ new)) c = let_go ?u"
    using c(2) by (simp add: user_acts_def fold_transmit)
  have "contract (let_go ?u)"
  proof (cases h)
    case True
    with c show ?thesis by (intro contract_shrink [of c]) (simp_all add: living_def)
  next
    case False
    then have "?u = c" using assms(2) c(2) by simp
    moreover have "let_go c = c" if "\<not> living c"
      using that c(1) by (auto simp: let_go_def Connection_close_def contract_def)
    then have "let_go c = c" by (cases "living c") (simp_all add: let_go_def)
    ultimately show ?thesis using c(1) by (simp only:)
  qed
  with l show ?thesis unfolding eq by (simp add: linked_def)
qed

section \<open>New connections\<close>

lemma linked_accepted:
  assumes "handle_accept handler answer (react True [] fs) (Connection_accepted remote) = Inr c"
  shows "linked True fs c"
proof -
  have "contract c" using assms by (intro contract_start connection_start.incoming)
  moreover obtain e where "c = let_go (receive (called (react True [] fs) connection_ok None
      (Connection_accepted remote\<lparr>tn_handler := True, tn_local := Endpoint_of_tcp e 0\<rparr>)))"
    using assms by (auto simp: handle_accept_def assert_that_def rbind_eq_Inr call_handler_eq
        split: if_splits option.splits)
  ultimately show ?thesis by (simp add: linked_def Connection_accepted_def react_def)
qed

lemma linked_connecting:
  assumes "Connection_connect a (Connection_connecting remote local_endpoint) = Inr (result_ok, c)"
  shows "linked True [] c"
proof -
  have "contract c" using assms by (intro contract_start connection_start.outgoing)
  moreover have "tn_held c \<and> tn_calls c = [] \<and> tn_sent c = [] \<and> tn_posted c = [] \<and> tn_running c = []"
    using assms by (auto simp: Connection_connect_def initialise_socket_def Connection_connecting_def rbind_eq_Inr
        Let_def split: if_splits option.splits)
  ultimately show ?thesis by (simp add: linked_def)
qed

section \<open>The laws of a user\<close>

text \<open>
  A user has a state \<open>'w\<close> and changes it when the handler of the connection \<open>q\<close> is called, when a new
  connection \<open>q\<close> is given to it, and on its own.
\<close>

datatype 'q user_event = Called 'q result_code | Opened 'q | Acts

fun concerns :: "'q user_event \<Rightarrow> 'q \<Rightarrow> bool" where
  "concerns (Called p result) q = (p = q)"
| "concerns (Opened p) q = (p = q)"
| "concerns Acts q = False"

locale connection_user =
  fixes inv :: "'w \<Rightarrow> bool" and holds :: "'w \<Rightarrow> 'q \<Rightarrow> bool" and frames :: "'w \<Rightarrow> 'q \<Rightarrow> bytes list"
    and change :: "'q user_event \<Rightarrow> 'w \<Rightarrow> 'w \<Rightarrow> bool"
  assumes keeps_inv: "inv w \<Longrightarrow> change ev w w' \<Longrightarrow> inv w'"
    and lets_go_at_end: "inv w \<Longrightarrow> change (Called q result) w w' \<Longrightarrow> holds w q \<Longrightarrow>
      holds w' q = (\<not> ends_connection result)"
    and holds_new: "inv w \<Longrightarrow> change (Opened q) w w' \<Longrightarrow> holds w' q"
    and holds_others: "inv w \<Longrightarrow> change ev w w' \<Longrightarrow> \<not> concerns ev q \<Longrightarrow> holds w' q = holds w q"
    and sends_on_held: "inv w \<Longrightarrow> change ev w w' \<Longrightarrow>
      \<exists>new. frames w' q = frames w q @ new \<and> (new = [] \<or> holds w q \<or> ev = Opened q)"
begin

lemma other_link_ok:
  assumes "inv w" and "change ev w w'" and "\<not> concerns ev q" and "link_ok (holds w q) (frames w q) l"
  shows "link_ok (holds w' q) (frames w' q) (map_option (user_acts (react (holds w' q) (frames w q) (frames w' q))) l)"
proof -
  from sends_on_held [OF assms(1,2)] obtain new
    where new: "frames w' q = frames w q @ new" "new = [] \<or> holds w q \<or> ev = Opened q" by blast
  have "holds w' q = holds w q" using assms(1-3) by (rule holds_others)
  moreover have "new = [] \<or> holds w q" using new(2) assms(3) by auto
  ultimately show ?thesis using new(1) assms(4) linked_acts by (cases l) auto
qed

lemma called_link_ok:
  assumes "inv w" and "change (Called q result) w w'" and "linked (holds w q) (frames w q) c" and "living c"
    and "completes (react (holds w' q) (frames w q) (frames w' q)) c c'"
    and "tn_calls c' = tn_calls c @ [(result, payload)]"
  shows "linked (holds w' q) (frames w' q) c'"
proof -
  have h: "holds w q" using linked_awaits(1) [OF assms(3)] assms(4,5) by (auto elim: completes.cases)
  from sends_on_held [OF assms(1,2)] obtain new where new: "frames w' q = frames w q @ new" by blast
  from linked_called [OF assms(3,4) _ assms(6) lets_go_at_end [OF assms(1,2) h], of new] assms(5)
  show ?thesis by (simp add: new)
qed

lemma opened_link_ok:
  assumes "inv w" and "change (Opened q) w w'" and "frames w q = []"
    and "handle_accept handler answer (react (holds w' q) (frames w q) (frames w' q)) (Connection_accepted remote) = Inr c"
  shows "linked (holds w' q) (frames w' q) c"
  using assms(4) holds_new [OF assms(1,2)] assms(3) by (auto intro: linked_accepted)

end

end
