(* ===== verification/Server_Links.thy ===== *)
theory Server_Links
  imports Server_Invariants Connection_User
begin

text \<open>
  The server as the user of its connections: whose connection it holds, what it has transmitted, and the
  laws of \<open>connection_user\<close>, which every handler of the server keeps.
\<close>

section \<open>The connections the server holds\<close>

text \<open>\<open>m_connection\<close> of a miner connection and of the wallet connection.\<close>

fun holds :: "world \<Rightarrow> peer \<Rightarrow> bool" where
  "holds w (Miner i) = (case w_pools w i of None \<Rightarrow> False | Some p \<Rightarrow> pc_connection p)"
| "holds w Wallet = dc_connection (w_daemon w)"

definition frames_to :: "world \<Rightarrow> peer \<Rightarrow> bytes list" where
  "frames_to w q = map snd (filter (\<lambda>f. fst f = q) (w_out w))"

definition links_inv :: "world \<Rightarrow> bool" where
  "links_inv w \<longleftrightarrow> \<not> w_daemon_expired w
     \<and> (\<forall>i p. w_pools w i = Some p \<longrightarrow> pc_connection_closed p = (\<not> pc_connection p))"

fun peer_event :: "peer \<Rightarrow> result_code \<Rightarrow> bytes \<Rightarrow> event" where
  "peer_event (Miner i) result buffer = Miner_event i result buffer"
| "peer_event Wallet result buffer = Wallet_event result buffer"

fun internal :: "event \<Rightarrow> bool" where
  "internal (Accept i address uninit) = False"
| "internal (Miner_event i result buffer) = False"
| "internal (Wallet_event result buffer) = False"
| "internal _ = True"

inductive server_change :: "platform \<Rightarrow> peer user_event \<Rightarrow> world \<Rightarrow> world \<Rightarrow> bool" for pf where
  called: "handle pf now (peer_event q result buffer) w = Some (Inr w') \<Longrightarrow>
    server_change pf (Called q result) w w'"
| opened: "step pf (Accept i address uninit) w w' \<Longrightarrow> server_change pf (Opened (Miner i)) w w'"
| internal: "internal ev \<Longrightarrow> step pf ev w w' \<Longrightarrow> server_change pf Acts w w'"

lemma frames_to_put [simp]: "frames_to (put p bs w) q = frames_to w q @ (if p = q then [bs] else [])"
  by (simp add: frames_to_def)

lemma frames_to_cong: "w_out w = w_out w' \<Longrightarrow> frames_to w q = frames_to w' q"
  by (simp add: frames_to_def)

lemma holds_Miner: "holds w (Miner i) \<longleftrightarrow> (\<exists>p. w_pools w i = Some p \<and> pc_connection p)"
  by (auto split: option.splits)

declare holds.simps(1) [simp del]

section \<open>Changes that keep the connections\<close>

definition quiet_change :: "world \<Rightarrow> world \<Rightarrow> bool" where
  "quiet_change w w' \<longleftrightarrow> links_inv w' \<and>
     (\<forall>q. holds w' q = holds w q \<and> (\<exists>new. frames_to w' q = frames_to w q @ new \<and> (new = [] \<or> holds w q)))"

lemma quiet_refl: "links_inv w \<Longrightarrow> quiet_change w w"
  by (simp add: quiet_change_def)

lemma quiet_trans: "quiet_change u v \<Longrightarrow> quiet_change v w \<Longrightarrow> quiet_change u w"
  unfolding quiet_change_def by (metis append.assoc append_Nil2)

lemma pool_step_life:
  "pool_step pf reg pg p p' \<Longrightarrow> pc_connection p' = pc_connection p \<and> pc_connection_closed p' = pc_connection_closed p"
  by (induction rule: pool_step.induct) simp_all

lemma daemon_step_connection: "daemon_step pf pools d d' \<Longrightarrow> dc_connection d' = dc_connection d"
  by (induction rule: daemon_step.induct) (simp_all add: add_pool_connection_def)

lemma quietI:
  assumes "links_inv w'" and "\<And>q. holds w' q = holds w q"
    and "\<And>q. \<exists>new. frames_to w' q = frames_to w q @ new \<and> (new = [] \<or> holds w q)"
  shows "quiet_change w w'"
  using assms by (simp add: quiet_change_def)

lemma quiet_same:
  assumes "links_inv w'" and "\<And>q. holds w' q = holds w q" and "w_out w' = w_out w"
  shows "quiet_change w w'"
  using assms by (simp add: quiet_change_def frames_to_def)

lemma holds_cong:
  "w_pools w' = w_pools w \<Longrightarrow> dc_connection (w_daemon w') = dc_connection (w_daemon w) \<Longrightarrow> holds w' q = holds w q"
  by (cases q) (simp_all add: holds_Miner)

lemma quiet_frame:
  assumes "links_inv w" and "w_daemon_expired w' = w_daemon_expired w" and "w_pools w' = w_pools w"
    and "dc_connection (w_daemon w') = dc_connection (w_daemon w)" and "w_out w' = w_out w"
  shows "quiet_change w w'"
proof (rule quiet_same)
  show "links_inv w'" using assms by (simp add: links_inv_def)
  show "holds w' q = holds w q" for q using assms(3,4) by (rule holds_cong)
qed (rule assms)

lemma quiet_put:
  assumes "links_inv w" and "holds w q"
  shows "quiet_change w (put q bs w)"
proof (rule quietI)
  show "links_inv (put q bs w)" using assms by (simp add: links_inv_def)
  show "holds (put q bs w) p = holds w p" for p by (rule holds_cong) simp_all
  show "\<exists>new. frames_to (put q bs w) p = frames_to w p @ new \<and> (new = [] \<or> holds w p)" for p
    using assms(2) by auto
qed

lemma micro_quiet:
  assumes "micro pf w w'" and i: "links_inv w"
  shows "quiet_change w w'"
  using assms(1)
proof cases
  case (to_wallet bs)
  with i show ?thesis by (simp add: quiet_put)
next
  case (to_miner i p bs)
  with assms(2) show ?thesis by (simp add: quiet_put holds_Miner)
next
  case (share_reply i p h bs)
  with assms(2) show ?thesis by (simp add: quiet_put holds_Miner)
next
  case (pool i p p')
  from pool_step_life [OF pool(3)] pool(1,2) assms(2) have "holds w' q = holds w q" for q
    by (cases q) (simp_all add: holds_Miner)
  with pool_step_life [OF pool(3)] pool(1,2) assms(2) show ?thesis
    by (intro quiet_same) (auto simp: links_inv_def)
next
  case (registry reg)
  with i show ?thesis by (intro quiet_frame) simp_all
next
  case (daemon d)
  with i daemon_step_connection [OF daemon(2)] show ?thesis
    by (intro quiet_frame) simp_all
next
  case (gives_up i p)
  with i show ?thesis by (simp add: links_inv_def)
qed

lemma quiet_inv: "quiet_change w w' \<Longrightarrow> links_inv w'"
  by (simp add: quiet_change_def)

lemma micros_quiet: "micros pf w w' \<Longrightarrow> links_inv w \<Longrightarrow> quiet_change w w'"
  by (induction rule: rtranclp_induct) (auto intro: quiet_refl quiet_trans micro_quiet quiet_inv)

section \<open>Handlers on the server's own account\<close>

lemma timers_quiet:
  assumes "links_inv w"
  shows "quiet_change w (start_block_timer w)" "quiet_change w (start_get_height_timer w)"
    "quiet_change w (start_orphan_check_timer w)" "quiet_change w (block_timer_fires w)"
    "quiet_change w (height_timer_fires w)" "quiet_change w (orphan_timer_fires w)"
  using assms
  by (intro quiet_frame;
      simp add: start_block_timer_def start_get_height_timer_def
        start_orphan_check_timer_def block_timer_fires_def height_timer_fires_def orphan_timer_fires_def)+

text \<open>The timer fires, the handler does its work, and the timer starts again.\<close>

lemma timer_round_quiet:
  assumes "links_inv w" and "\<And>u. links_inv u \<Longrightarrow> quiet_change u (fires u)" and "micros pf (fires w) u"
    and "\<And>u. links_inv u \<Longrightarrow> quiet_change u (start u)"
  shows "quiet_change w (start u)"
proof -
  have f: "quiet_change w (fires w)" using assms(1) by (rule assms(2))
  have u: "quiet_change (fires w) u" using assms(3) quiet_inv [OF f] by (rule micros_quiet)
  from f u assms(4) [OF quiet_inv [OF u]] show ?thesis by (meson quiet_trans)
qed

lemma maintenance_quiet:
  assumes "links_inv w"
  shows "quiet_change w (server_maintenance_timer_handler False w)"
proof (rule quiet_same)
  let ?w = "server_maintenance_timer_handler False w"
  show "links_inv ?w" using assms by (auto simp: links_inv_def dest: server_timer_pools)
  show "holds ?w q = holds w q" for q
    using assms by (cases q) (auto simp: holds_Miner links_inv_def server_maintenance_timer_handler_def
        start_server_timer_def pool_closed_def split: option.splits)
qed simp

lemma internal_quiet:
  assumes "internal ev" and "step pf ev w w'" and i: "links_inv w"
  shows "quiet_change w w'"
  using assms(2)
proof (rule stepE)
  fix now
  assume e: "enabled ev w" and h: "handle pf now ev w = Some (Inr w')"
  show ?thesis
  proof (cases ev)
    case Block_timer
    with h have b: "block_timer_handler pf False (block_timer_fires w) = Inr w'" by simp
    show ?thesis
    proof (cases "w_registry_expired w")
      case True
      with b have "w' = block_timer_fires w" by (simp add: block_timer_handler_def)
      with timers_quiet(4) [OF i] show ?thesis by simp
    next
      case False
      with block_timer_micros [OF b] obtain u where "micros pf (block_timer_fires w) u" "w' = start_block_timer u" by auto
      with timer_round_quiet [where fires = block_timer_fires, OF i timers_quiet(4) _ timers_quiet(1)] show ?thesis by simp
    qed
  next
    case Height_timer
    with h have "get_height_timer_handler False (height_timer_fires w) = Inr w'" by simp
    from height_timer_micros [OF this] obtain u where "micros pf (height_timer_fires w) u" "w' = start_get_height_timer u"
      by blast
    with timer_round_quiet [where fires = height_timer_fires, OF i timers_quiet(5) _ timers_quiet(2)] show ?thesis by simp
  next
    case Orphan_timer
    with h have b: "orphan_check_timer_handler False (orphan_timer_fires w) = Inr w'" by simp
    show ?thesis
    proof (cases "w_registry_expired w")
      case True
      with b have "w' = orphan_timer_fires w" by (simp add: orphan_check_timer_handler_def)
      with timers_quiet(6) [OF i] show ?thesis by simp
    next
      case False
      with orphan_timer_micros [OF b] obtain u where "micros pf (orphan_timer_fires w) u" "w' = start_orphan_check_timer u"
        by auto
      with timer_round_quiet [where fires = orphan_timer_fires, OF i timers_quiet(6) _ timers_quiet(3)] show ?thesis by simp
    qed
  next
    case Server_timer
    with h maintenance_quiet [OF i] show ?thesis by simp
  next
    case Persistance_timer
    with h obtain reg where "w' = set_registry reg w" by (auto simp: rbind_eq_Inr)
    with i show ?thesis by (intro quiet_frame) simp_all
  qed (use assms(1) in simp_all)
qed

section \<open>Handlers of connections\<close>

text \<open>The connection \<open>q\<close> is let go of, and nothing is sent.\<close>

definition hung_up :: "peer \<Rightarrow> world \<Rightarrow> world \<Rightarrow> bool" where
  "hung_up q w w' \<longleftrightarrow> links_inv w' \<and> w_out w' = w_out w \<and> (\<forall>p. holds w' p = (p \<noteq> q \<and> holds w p))"

lemma peer_event_result:
  assumes "handle pf now (peer_event q result buffer) w = Some (Inr w')" and i: "links_inv w"
  shows "if ends_connection result then hung_up q w w' else quiet_change w w'"
proof (cases q)
  case (Miner n)
  with assms have c: "connection_handler pf now n result '''' buffer w = Some (Inr w')" by simp
  show ?thesis
  proof (cases "ends_connection result")
    case True
    from connection_handler_ends [OF c True] obtain p where p: "w_pools w n = Some p" "w' = set_pool n (close_connection p) w"
      by blast
    have "holds w' r = (r \<noteq> q \<and> holds w r)" for r
      using p Miner by (cases r) (auto simp: holds_Miner close_connection_def)
    with True i p show ?thesis by (auto simp: hung_up_def links_inv_def close_connection_def)
  next
    case False
    with micros_quiet [OF connection_handler_micros [OF c False] i] show ?thesis by simp
  qed
next
  case Wallet
  with assms have b: "wallet_handler pf result buffer w = Inr w'" by simp
  show ?thesis
  proof (cases "ends_connection result")
    case True
    from wallet_handler_ends [OF b True] have "holds w' r = (r \<noteq> q \<and> holds w r)" for r
      using Wallet by (cases r) (simp_all add: holds_Miner)
    with True i wallet_handler_ends [OF b True] show ?thesis by (simp add: hung_up_def links_inv_def)
  next
    case False
    from wallet_handler_micros [OF b False] obtain u
      where u: "u = w \<or> u = start_get_height_timer (start_orphan_check_timer (start_block_timer w))"
        and m: "micros pf u w'" by blast
    have "quiet_change w (start_get_height_timer (start_orphan_check_timer (start_block_timer w)))"
      using timers_quiet(1-3) i by (meson quiet_inv quiet_trans)
    with u i have q: "quiet_change w u" by (auto intro: quiet_refl)
    from quiet_trans [OF q micros_quiet [OF m quiet_inv [OF q]]] False show ?thesis by simp
  qed
qed

lemma opened_result:
  assumes "step pf (Accept i address uninit) w w'" and inv: "links_inv w"
  shows "links_inv w' \<and> holds w' (Miner i) \<and> (\<forall>q. q \<noteq> Miner i \<longrightarrow> holds w' q = holds w q)
    \<and> (\<forall>q. \<exists>new. frames_to w' q = frames_to w q @ new \<and> (new = [] \<or> holds w q \<or> q = Miner i))"
  using assms(1)
proof (rule stepE)
  fix now
  assume e: "enabled (Accept i address uninit) w" and h: "handle pf now (Accept i address uninit) w = Some (Inr w')"
  let ?p = "Pool_connection_new uninit (if w_registry_expired w then None else Some (w_registry w))"
  from e h accept_connection_ticks [of uninit now i address w w'] obtain u
    where m: "micros pf u w'" and u: "w_daemon u = w_daemon w" "w_daemon_expired u = w_daemon_expired w"
      "w_out u = w_out w" "w_pools u = (w_pools w)(i \<mapsto> ?p)"
    by auto
  have p: "pc_connection ?p" "\<not> pc_connection_closed ?p" by (simp_all add: Pool_connection_new_def)
  have hu: "holds u q = (q = Miner i \<or> holds w q)" for q
    using u p by (cases q) (auto simp: holds_Miner)
  have "links_inv u" using inv u p by (auto simp: links_inv_def)
  with m have q: "quiet_change u w'" by (rule micros_quiet)
  then show ?thesis
    using hu frames_to_cong [OF u(3)] by (auto simp: quiet_change_def)
qed

section \<open>The laws\<close>

interpretation server: connection_user links_inv holds frames_to "server_change pf" for pf
proof
  fix w w' :: world and ev :: "peer user_event" and q :: peer and result
  assume inv: "links_inv w"
  {
    fix r now p buffer
    assume "handle pf now (peer_event p r buffer) w = Some (Inr w')"
    from peer_event_result [OF this inv] have "links_inv w'
        \<and> (if ends_connection r then \<not> holds w' p else holds w' p = holds w p)
        \<and> (\<forall>q. q \<noteq> p \<longrightarrow> holds w' q = holds w q)
        \<and> (\<forall>q. \<exists>new. frames_to w' q = frames_to w q @ new \<and> (new = [] \<or> holds w q))"
      by (auto simp: hung_up_def quiet_change_def frames_to_def split: if_splits)
  } note called = this
  show "links_inv w'" if "server_change pf ev w w'"
    using that by cases (auto dest: called opened_result [OF _ inv] internal_quiet [OF _ _ inv] quiet_inv)
  show "holds w' q = (\<not> ends_connection result)" if "server_change pf (Called q result) w w'" and "holds w q"
    using that(1)
  proof cases
    case (called now buffer)
    from this have "handle pf now (peer_event q result buffer) w = Some (Inr w')" by simp
    from peer_event_result [OF this inv] that(2) show ?thesis
      by (auto simp: hung_up_def quiet_change_def split: if_splits)
  qed
  show "holds w' q" if "server_change pf (Opened q) w w'"
    using that by cases (auto dest: opened_result [OF _ inv])
  show "holds w' q = holds w q" if "server_change pf ev w w'" and "\<not> concerns ev q"
    using that by cases (auto dest: called opened_result [OF _ inv] internal_quiet [OF _ _ inv] simp: quiet_change_def)
  show "\<exists>new. frames_to w' q = frames_to w q @ new \<and> (new = [] \<or> holds w q \<or> ev = Opened q)"
    if "server_change pf ev w w'"
    using that
  proof cases
    case (opened i address uninit)
    with opened_result [OF opened(2) inv] show ?thesis by blast
  next
    case (internal e)
    with internal_quiet [OF internal(2,3) inv] show ?thesis unfolding quiet_change_def by blast
  qed (use called in blast)
qed

end
