(* ===== verification/Base58_Roundtrip.thy ===== *)
theory Base58_Roundtrip
  imports Base58
begin

text \<open>
  The conversion loops of \<open>Base58\<close> compute with numbers: the digit vector denotes a number, a turn of
  the loop multiplies and adds, the vector is always long enough, and what was encoded is decoded.
\<close>

section \<open>Digits and numbers\<close>

fun dval :: "nat \<Rightarrow> nat list \<Rightarrow> nat" where
  "dval b [] = 0"
| "dval b (d # ds) = d + b * dval b ds"

definition bval :: "nat \<Rightarrow> nat list \<Rightarrow> nat" where
  "bval b ds = foldl (\<lambda>a d. d + b * a) 0 ds"

definition zeros :: "nat list \<Rightarrow> bool" where
  "zeros ds \<longleftrightarrow> list_all (\<lambda>d. d = 0) ds"

definition digits :: "nat \<Rightarrow> nat list \<Rightarrow> bool" where
  "digits b ds \<longleftrightarrow> list_all (\<lambda>d. d < b) ds"

lemma zeros_simps [simp]: "zeros []" "zeros (d # ds) \<longleftrightarrow> d = 0 \<and> zeros ds"
  by (simp_all add: zeros_def)

lemma digits_simps [simp]: "digits b []" "digits b (d # ds) \<longleftrightarrow> d < b \<and> digits b ds"
  "digits b (xs @ ys) \<longleftrightarrow> digits b xs \<and> digits b ys" "digits b (rev xs) \<longleftrightarrow> digits b xs"
  by (simp_all add: digits_def)

lemma zeros_replicate [simp]: "zeros (replicate n 0)"
  by (simp add: zeros_def list_all_iff)

lemma zeros_drop: "zeros ds \<Longrightarrow> zeros (drop n ds)"
  by (auto simp: zeros_def list_all_iff dest: in_set_dropD)

lemma dval_zeros: "zeros ds \<Longrightarrow> dval b ds = 0"
  by (induction ds) auto

lemma dval_append: "dval b (xs @ ys) = dval b xs + b ^ length xs * dval b ys"
  by (induction xs) (auto simp: algebra_simps)

lemma bval_dval: "bval b ds = dval b (rev ds)"
  unfolding bval_def by (induction ds rule: rev_induct) simp_all

lemma bval_bound: "digits b ds \<Longrightarrow> bval b ds < b ^ length ds"
proof (induction ds rule: rev_induct)
  case Nil
  show ?case by (simp add: bval_def)
next
  case (snoc d ds)
  then have "bval b ds + 1 \<le> b ^ length ds" "d < b" by simp_all
  then have "b * (bval b ds + 1) \<le> b * b ^ length ds" by (intro mult_le_mono2)
  with \<open>d < b\<close> show ?case by (simp add: bval_def algebra_simps)
qed

lemma dval_eq_0: "0 < b \<Longrightarrow> dval b ds = 0 \<Longrightarrow> zeros ds"
  by (induction ds) auto

lemma dval_inj:
  assumes "1 < b"
  shows "digits b xs \<Longrightarrow> digits b ys \<Longrightarrow> xs = [] \<or> last xs \<noteq> 0 \<Longrightarrow> ys = [] \<or> last ys \<noteq> 0 \<Longrightarrow>
    dval b xs = dval b ys \<Longrightarrow> xs = ys"
proof (induction xs arbitrary: ys)
  case Nil
  have "zeros ys" using Nil.prems assms by (intro dval_eq_0 [of b]) simp_all
  then have "ys \<noteq> [] \<Longrightarrow> last ys = 0" by (simp add: zeros_def list_all_iff)
  then show ?case using Nil.prems(4) by blast
next
  case (Cons x xs)
  show ?case
  proof (cases ys)
    case Nil
    then have "zeros (x # xs)" using Cons.prems(5) assms by (intro dval_eq_0 [of b]) simp_all
    then have "last (x # xs) = 0" by (simp only: zeros_def list_all_iff) (metis last_in_set list.distinct(1))
    then show ?thesis using Cons.prems(3) by blast
  next
    case (Cons y zs)
    have eq: "x + b * dval b xs = y + b * dval b zs" and xy: "x < b" "y < b"
      using Cons.prems Cons by simp_all
    then have "x = y" by (metis mod_mult_self2 mod_less)
    with eq assms have v: "dval b xs = dval b zs" by simp
    have "xs = zs"
      using Cons.prems Cons v by (intro Cons.IH) (auto split: if_splits)
    with \<open>x = y\<close> Cons show ?thesis by simp
  qed
qed

section \<open>One turn of the loop\<close>

lemma mul_add_ok:
  assumes "0 < base"
  shows "mul_add base m len i carry ds = (ds', i', c') \<Longrightarrow> zeros (drop (len - i) ds) \<Longrightarrow> digits base ds \<Longrightarrow>
    length ds' = length ds \<and> digits base ds' \<and> dval base ds' + base ^ length ds * c' = carry + m * dval base ds
    \<and> i \<le> i' \<and> zeros (drop (i' - i) ds')"
proof (induction ds arbitrary: i carry ds' i' c')
  case Nil
  then show ?case by simp
next
  case (Cons d ds)
  show ?case
  proof (cases "carry \<noteq> 0 \<or> i < len")
    case False
    then have "zeros (d # ds)" using Cons.prems(2) by simp
    with False Cons.prems(1,3) show ?thesis by (auto simp: dval_zeros)
  next
    case True
    let ?c = "carry + m * d"
    obtain e j c where r: "mul_add base m len (Suc i) (?c div base) ds = (e, j, c)"
      using prod_cases3 by blast
    have "zeros (drop (len - Suc i) ds)"
    proof (cases "len - i")
      case 0
      then show ?thesis using Cons.prems(2) by simp
    next
      case (Suc n)
      then have "len - Suc i = n" by simp
      with Suc Cons.prems(2) show ?thesis by simp
    qed
    from Cons.IH [OF r this] Cons.prems(3) have IH: "length e = length ds" "digits base e"
      "dval base e + base ^ length ds * c = ?c div base + m * dval base ds" "Suc i \<le> j" "zeros (drop (j - Suc i) e)"
      by simp_all
    have res: "ds' = ?c mod base # e" "i' = j" "c' = c" using Cons.prems(1) True r by (simp_all add: Let_def)
    have "dval base ds' + base ^ length (d # ds) * c' = ?c mod base + base * (dval base e + base ^ length ds * c)"
      by (simp add: res algebra_simps)
    also have "\<dots> = (?c mod base + base * (?c div base)) + base * (m * dval base ds)"
      unfolding IH(3) by (simp add: algebra_simps)
    also have "?c mod base + base * (?c div base) = ?c" by (rule mod_mult_div_eq)
    finally have "dval base ds' + base ^ length (d # ds) * c' = carry + m * dval base (d # ds)"
      by (simp add: algebra_simps)
    moreover have "zeros (drop (i' - i) ds')"
      using IH(4,5) by (simp add: res) (metis Suc_diff_le Suc_le_D diff_Suc_Suc drop_Suc_Cons Suc_diff_Suc Suc_le_eq)
    ultimately show ?thesis using IH assms by (simp add: res)
  qed
qed

text \<open>A digit vector of length \<open>n\<close> that denotes \<open>v\<close>, with nothing beyond its used length.\<close>

definition represents :: "nat \<Rightarrow> nat \<Rightarrow> nat \<Rightarrow> nat list \<times> nat \<Rightarrow> bool" where
  "represents base n v s \<longleftrightarrow>
     length (fst s) = n \<and> digits base (fst s) \<and> zeros (drop (snd s) (fst s)) \<and> dval base (fst s) = v"

lemma represents_empty: "0 < base \<Longrightarrow> represents base n 0 (replicate n 0, 0)"
  by (simp add: represents_def digits_def list_all_iff dval_zeros)

lemma put_digit_ok:
  assumes "represents base n v s" and "0 < base" and "carry + m * v < base ^ n"
  shows "\<exists>t. put_digit base m carry s = Inr t \<and> represents base n (carry + m * v) t"
proof -
  obtain b i c where r: "mul_add base m (snd s) 0 carry (fst s) = (b, i, c)" using prod_cases3 by blast
  from mul_add_ok [OF assms(2) r] assms(1) have *: "length b = n" "digits base b"
    "dval base b + base ^ n * c = carry + m * v" "zeros (drop i b)"
    by (simp_all add: represents_def)
  have "c = 0"
  proof (rule ccontr)
    assume "c \<noteq> 0"
    then have "base ^ n \<le> base ^ n * c" by simp
    then show False using *(3) assms(3) by linarith
  qed
  with r * show ?thesis by (simp add: put_digit_def represents_def)
qed

lemma put_digits_ok:
  assumes "0 < base" and "m ^ length ds \<le> base ^ n"
  shows "digits m ds \<Longrightarrow> \<exists>t. rfold (put_digit base m) ds (replicate n 0, 0) = Inr t \<and> represents base n (bval m ds) t"
  using assms(2)
proof (induction ds rule: rev_induct)
  case Nil
  show ?case using represents_empty [OF assms(1)] by (simp add: bval_def)
next
  case (snoc d ds)
  have dm: "digits m ds" "d < m" using snoc.prems(1) by simp_all
  have "m ^ length ds \<le> m ^ length (ds @ [d])" using dm(2) by simp
  then have "m ^ length ds \<le> base ^ n" using snoc.prems(2) by (rule order_trans)
  from snoc.IH [OF dm(1) this] obtain t where t: "rfold (put_digit base m) ds (replicate n 0, 0) = Inr t"
    "represents base n (bval m ds) t" by blast
  have v: "bval m (ds @ [d]) = d + m * bval m ds" by (simp add: bval_def)
  have "d + m * bval m ds < base ^ n"
    using bval_bound [OF snoc.prems(1)] snoc.prems(2) unfolding v by linarith
  from put_digit_ok [OF t(2) assms(1) this] t(1) show ?case by (auto simp: rfold_append v rbind_eq_Inr)
qed

lemma dropWhile_zero_hd: "dropWhile (\<lambda>d. d = 0) xs = [] \<or> hd (dropWhile (\<lambda>d. d = 0) xs) \<noteq> (0 :: nat)"
  by (induction xs) auto

lemma bval_dropWhile: "bval b (dropWhile (\<lambda>d. d = 0) xs) = bval b xs"
  by (induction xs) (auto simp: bval_def)

lemma significant_ok:
  assumes "represents base n v s"
  shows "bval base (significant s) = v" and "digits base (significant s)"
    and "significant s = [] \<or> hd (significant s) \<noteq> 0" and "length (significant s) \<le> n"
proof -
  note r = assms [unfolded represents_def]
  have "dval base (fst s) = dval base (take (snd s) (fst s)) + base ^ length (take (snd s) (fst s)) * dval base (drop (snd s) (fst s))"
    using dval_append [of base "take (snd s) (fst s)" "drop (snd s) (fst s)"] by simp
  then have "dval base (take (snd s) (fst s)) = v" using r by (simp add: dval_zeros)
  then show "bval base (significant s) = v" unfolding significant_def bval_dropWhile by (simp add: bval_dval)
  show "digits base (significant s)"
    using r unfolding significant_def digits_def list_all_iff
    by (auto dest!: set_dropWhileD in_set_takeD)
  show "significant s = [] \<or> hd (significant s) \<noteq> 0" unfolding significant_def by (rule dropWhile_zero_hd)
  show "length (significant s) \<le> n"
    using r length_dropWhile_le [of "\<lambda>d. d = 0" "rev (take (snd s) (fst s))"] by (simp add: significant_def)
qed

lemma significant_unique:
  assumes "1 < base" and "represents base n (bval base ds) s" and "digits base ds" and "ds = [] \<or> hd ds \<noteq> 0"
  shows "significant s = ds"
proof -
  note s = significant_ok [OF assms(2)]
  have "rev (significant s) = rev ds"
    using assms s by (intro dval_inj [OF assms(1)]) (auto simp: last_rev bval_dval)
  then show ?thesis by simp
qed

section \<open>The vectors are long enough\<close>

lemma pow_scale:
  assumes "(a :: nat) ^ q \<le> b ^ p" and "p * n \<le> q * k" and "0 < q" and "0 < b"
  shows "a ^ n \<le> b ^ k"
proof -
  have "(a ^ n) ^ q = (a ^ q) ^ n" by (simp add: power_mult [symmetric] mult.commute)
  also have "\<dots> \<le> (b ^ p) ^ n" using assms(1) by (rule power_mono) simp
  also have "\<dots> = b ^ (p * n)" by (simp add: power_mult)
  also have "\<dots> \<le> b ^ (q * k)" using assms(2,4) by (intro power_increasing) simp_all
  also have "\<dots> = (b ^ k) ^ q" by (simp add: power_mult [symmetric] mult.commute)
  finally show ?thesis using assms(3) by (simp add: power_mono_iff)
qed

lemma scaled_div_bound:
  assumes "(p :: nat) * d \<le> q * m" and "0 < d"
  shows "p * n \<le> q * (n * m div d + 1)"
proof -
  have "n * m \<le> d * (n * m div d + 1)"
    using assms(2) by (metis Suc_eq_plus1 dividend_less_times_div less_imp_le mult_Suc_right add.commute)
  then have 1: "q * (n * m) \<le> q * (d * (n * m div d + 1))" by (rule mult_le_mono2)
  have "d * (p * n) = (p * d) * n" by (simp only: ac_simps)
  also have "\<dots> \<le> (q * m) * n" using assms(1) by (rule mult_le_mono1)
  also have "\<dots> = q * (n * m)" by (simp only: ac_simps)
  also note 1
  also have "q * (d * (n * m div d + 1)) = d * (q * (n * m div d + 1))" by (simp only: ac_simps)
  finally show ?thesis using assms(2) by (simp only: mult_le_cancel1)
qed

lemma encode_size: "256 ^ n \<le> (58 :: nat) ^ (n * 138 div 100 + 1)"
proof (rule pow_scale [of _ 100 _ 138])
  show "(256 :: nat) ^ 100 \<le> 58 ^ 138" by simp
  show "138 * n \<le> 100 * (n * 138 div 100 + 1)"
    by (rule scaled_div_bound) simp_all
qed simp_all

lemma decode_size: "58 ^ n \<le> (256 :: nat) ^ (n * 733 div 1000 + 1)"
proof (rule pow_scale [of _ 71 _ 52])
  show "(58 :: nat) ^ 71 \<le> 256 ^ 52" by simp
  show "52 * n \<le> 71 * (n * 733 div 1000 + 1)"
    by (rule scaled_div_bound) simp_all
qed simp_all

section \<open>Decoding what was encoded\<close>

lemma alphabet_check:
  "list_all (\<lambda>d. let c = pszBase58 ! d in \<not> IsSpace c \<and> c \<noteq> CHR 0x00 \<and> mapBase58 ! (of_char c) = int d
     \<and> (c = CHR ''1'' \<longleftrightarrow> d = 0)) [0..<58]"
  by code_simp

lemma alphabet:
  assumes "d < 58"
  shows "\<not> IsSpace (pszBase58 ! d)" "pszBase58 ! d \<noteq> CHR 0x00" "mapBase58 ! (of_char (pszBase58 ! d)) = int d"
    "pszBase58 ! d = CHR ''1'' \<longleftrightarrow> d = 0"
  using alphabet_check assms by (auto simp: list_all_iff Let_def)

lemma decode_digits_alphabet:
  "digits 58 ds \<Longrightarrow> decode_digits (map ((!) pszBase58) ds) s
     = rbind (rfold (put_digit 256 58) ds s) (\<lambda>t. Inr (Some ([], t)))"
proof (induction ds arbitrary: s)
  case Nil
  show ?case by simp
next
  case (Cons d ds)
  have "d < 58" "digits 58 ds" using Cons.prems by simp_all
  then show ?case by (cases "put_digit 256 58 d s") (simp_all add: alphabet Cons.IH)
qed

lemma takeWhile_replicate_append:
  "P x \<Longrightarrow> ys = [] \<or> \<not> P (hd ys) \<Longrightarrow>
   takeWhile P (replicate n x @ ys) = replicate n x \<and> dropWhile P (replicate n x @ ys) = ys"
  by (cases ys) (auto simp: takeWhile_append dropWhile_append)

lemma leading_zeros:
  "p = replicate (length (takeWhile (\<lambda>b. b = 0) p)) (0 :: u8) @ dropWhile (\<lambda>b. b = 0) p"
  by (induction p) auto

definition bytes_digits :: "bytes \<Rightarrow> nat list" where
  "bytes_digits p = map unat (dropWhile (\<lambda>b. b = 0) p)"

lemma bytes_digits_ok: "digits 256 (bytes_digits p)" "bytes_digits p = [] \<or> hd (bytes_digits p) \<noteq> 0"
proof -
  show "digits 256 (bytes_digits p)" by (auto simp: bytes_digits_def digits_def list_all_iff unat_u8_less)
  have "dropWhile (\<lambda>b. b = 0) p = [] \<or> hd (dropWhile (\<lambda>b. b = 0) p) \<noteq> 0" by (induction p) auto
  then show "bytes_digits p = [] \<or> hd (bytes_digits p) \<noteq> 0"
    by (cases "dropWhile (\<lambda>b. b = 0) p") (auto simp: bytes_digits_def unat_eq_zero)
qed

lemma rfold_map: "rfold (\<lambda>x. f (g x)) xs s = rfold f (map g xs) s"
proof (induction xs arbitrary: s)
  case Nil
  show ?case by simp
next
  case (Cons x xs)
  show ?case by (cases "f (g x) s") (simp_all add: Cons.IH)
qed

lemma int32_of_nat: "n < 2 ^ 31 \<Longrightarrow> int32 (int n) = Inr (int n)"
  by (simp add: int32_def)

text \<open>The encoding of a byte range: one \<open>1\<close> for each leading zero, then the digits of the number.\<close>

lemma EncodeBase58_range_ok:
  assumes "length p * 138 div 100 + 1 < 2 ^ 31"
  shows "\<exists>ds. EncodeBase58_range p
      = Inr (replicate (length (takeWhile (\<lambda>b. b = 0) p)) (CHR ''1'') @ map ((!) pszBase58) ds)
    \<and> digits 58 ds \<and> (ds = [] \<or> hd ds \<noteq> 0) \<and> bval 58 ds = bval 256 (bytes_digits p)
    \<and> length ds \<le> length p * 138 div 100 + 1"
proof -
  let ?q = "dropWhile (\<lambda>b. b = 0) p"
  let ?n = "length ?q * 138 div 100 + 1"
  have len: "length ?q \<le> length p" by (rule length_dropWhile_le)
  then have n: "?n \<le> length p * 138 div 100 + 1" by (intro add_le_mono div_le_mono) simp_all
  then have i: "int32 (int ?n) = Inr (int ?n)" using assms by (intro int32_of_nat) (rule le_less_trans)
  have "256 ^ length (bytes_digits p) \<le> (58 :: nat) ^ ?n"
    using encode_size [of "length ?q"] by (simp add: bytes_digits_def)
  from put_digits_ok [OF _ this bytes_digits_ok(1)] obtain t where
    t: "rfold (put_digit 58 256) (bytes_digits p) (replicate ?n 0, 0) = Inr t"
      "represents 58 ?n (bval 256 (bytes_digits p)) t" by auto
  have f: "rfold (\<lambda>b. put_digit 58 256 (unat b)) ?q (replicate ?n 0, 0) = Inr t"
    using t(1) unfolding bytes_digits_def rfold_map [of "put_digit 58 256" unat] .
  have "EncodeBase58_range p
      = Inr (replicate (length (takeWhile (\<lambda>b. b = 0) p)) (CHR ''1'') @ map ((!) pszBase58) (significant t))"
    unfolding EncodeBase58_range_def Let_def i rbind_Inr nat_int f by (rule refl)
  with significant_ok [OF t(2)] n show ?thesis by (intro exI [of _ "significant t"]) simp
qed

lemma decode_length:
  assumes "n < 2 ^ 31"
  shows "n * 733 div 1000 + 1 < (2 :: nat) ^ 31"
proof (cases "n = 0")
  case False
  then have "n * 733 div 1000 < n" by (intro less_mult_imp_div_less) simp
  then have "n * 733 div 1000 + 1 \<le> n" by simp
  then show ?thesis using assms by (rule le_less_trans)
qed simp

lemma DecodeBase58_alphabet:
  assumes "digits 58 ds" and "ds = [] \<or> hd ds \<noteq> 0" and "length ds * 733 div 1000 + 1 < 2 ^ 31"
    and "digits 256 bs" and "bs = [] \<or> hd bs \<noteq> 0" and "bval 58 ds = bval 256 bs"
  shows "DecodeBase58 (replicate z (CHR ''1'') @ map ((!) pszBase58) ds) vch
    = Inr (True, replicate z 0 @ map of_nat bs)"
proof -
  let ?s = "map ((!) pszBase58) ds" and ?n = "length ds * 733 div 1000 + 1"
  have hd: "?s = [] \<or> (\<not> IsSpace (hd ?s) \<and> hd ?s \<noteq> CHR ''1'')"
    using assms(1,2) by (cases ds) (auto simp: alphabet)
  have sp: "dropWhile IsSpace (replicate z (CHR ''1'') @ ?s) = replicate z (CHR ''1'') @ ?s"
    using hd by (cases z; cases ?s) (auto simp: IsSpace_def)
  have tw: "takeWhile (\<lambda>c. c = CHR ''1'') (replicate z (CHR ''1'') @ ?s) = replicate z (CHR ''1'')"
    "dropWhile (\<lambda>c. c = CHR ''1'') (replicate z (CHR ''1'') @ ?s) = ?s"
    using takeWhile_replicate_append [of "\<lambda>c. c = CHR ''1''" "CHR ''1''" ?s z] hd by auto
  have i: "int32 (int ?n) = Inr (int ?n)" using assms(3) by (rule int32_of_nat)
  have "(58 :: nat) ^ length ds \<le> 256 ^ ?n" by (rule decode_size)
  from put_digits_ok [OF _ this assms(1)] obtain t where
    t: "rfold (put_digit 256 58) ds (replicate ?n 0, 0) = Inr t" "represents 256 ?n (bval 256 bs) t"
    using assms(6) by auto
  have sig: "significant t = bs" by (rule significant_unique [OF _ t(2) assms(4,5)]) simp
  show ?thesis
    unfolding DecodeBase58_def sp tw Let_def length_map i rbind_Inr nat_int decode_digits_alphabet [OF assms(1)] t(1)
    by (simp add: sig)
qed

lemma base58_decode_encode:
  assumes "length p * 138 div 100 + 1 < 2 ^ 31"
  shows "\<exists>s. EncodeBase58_range p = Inr s \<and> DecodeBase58 s vch = Inr (True, p) \<and> c_str s = s"
proof -
  obtain ds where ds: "EncodeBase58_range p
      = Inr (replicate (length (takeWhile (\<lambda>b. b = 0) p)) (CHR ''1'') @ map ((!) pszBase58) ds)"
    "digits 58 ds" "ds = [] \<or> hd ds \<noteq> 0" "bval 58 ds = bval 256 (bytes_digits p)"
    "length ds \<le> length p * 138 div 100 + 1"
    using EncodeBase58_range_ok [OF assms] by blast
  let ?s = "replicate (length (takeWhile (\<lambda>b. b = 0) p)) (CHR ''1'') @ map ((!) pszBase58) ds"
  have "length ds * 733 div 1000 + 1 < 2 ^ 31" using ds(5) assms by (intro decode_length) (rule le_less_trans)
  from DecodeBase58_alphabet [OF ds(2,3) this bytes_digits_ok ds(4)]
  have "DecodeBase58 ?s vch = Inr (True, replicate (length (takeWhile (\<lambda>b. b = 0) p)) 0 @ dropWhile (\<lambda>b. b = 0) p)"
    by (simp add: bytes_digits_def comp_def)
  then have "DecodeBase58 ?s vch = Inr (True, p)" by (simp only: leading_zeros [symmetric])
  moreover have "c_str ?s = ?s"
    using ds(2) unfolding c_str_def by (subst takeWhile_eq_all_conv) (auto simp: digits_def list_all_iff alphabet alphabet(2) [symmetric])
  ultimately show ?thesis using ds(1) by blast
qed

section \<open>No decoding aborts\<close>

lemma map_entries: "list_all (\<lambda>e. -1 \<le> e \<and> e < 58) mapBase58" "length mapBase58 = 256"
  by code_simp+

lemma decode_digits_total:
  assumes "represents 256 n v s" and "v < 58 ^ k" and "(58 :: nat) ^ (k + length cs) \<le> 256 ^ n"
  shows "is_ok_res (decode_digits cs s)"
  using assms
proof (induction cs arbitrary: s v k)
  case Nil
  show ?case by simp
next
  case (Cons c cs)
  let ?e = "mapBase58 ! (of_char c)"
  have "?e \<in> set mapBase58" using map_entries(2) by (intro nth_mem) simp
  then have e: "-1 \<le> ?e" "?e < 58" using map_entries(1) by (auto simp: list_all_iff)
  show ?case
  proof (cases "IsSpace c \<or> ?e = -1")
    case True
    then show ?thesis by (auto simp: Let_def)
  next
    case False
    let ?d = "nat ?e"
    have d: "?d < 58" using e False by linarith
    have "58 * (v + 1) \<le> (58 :: nat) * 58 ^ k" using Cons.prems(2) by (intro mult_le_mono2) simp
    with d have v: "?d + 58 * v < (58 :: nat) ^ Suc k" by simp
    also have "(58 :: nat) ^ Suc k \<le> 58 ^ (k + length (c # cs))" by (intro power_increasing) simp_all
    also note Cons.prems(3)
    finally have "?d + 58 * v < 256 ^ n" .
    from put_digit_ok [OF Cons.prems(1) _ this] obtain t where
      t: "put_digit 256 58 ?d s = Inr t" "represents 256 n (?d + 58 * v) t" by auto
    have "is_ok_res (decode_digits cs t)"
      by (rule Cons.IH [OF t(2) v]) (use Cons.prems(3) in simp)
    with False t(1) show ?thesis by (simp add: Let_def)
  qed
qed

lemma DecodeBase58_total:
  assumes "length psz < 2 ^ 31"
  shows "is_ok_res (DecodeBase58 psz vch)"
proof -
  let ?p = "dropWhile (\<lambda>c. c = CHR ''1'') (dropWhile IsSpace psz)"
  let ?n = "length ?p * 733 div 1000 + 1"
  have "length ?p \<le> length psz" by (meson length_dropWhile_le order_trans)
  then have "?n < 2 ^ 31" using assms by (intro decode_length) (rule le_less_trans)
  then have i: "int32 (int ?n) = Inr (int ?n)" by (rule int32_of_nat)
  have "represents 256 ?n 0 (replicate ?n 0, 0)" by (rule represents_empty) simp
  from decode_digits_total [OF this, of 0 ?p] decode_size [of "length ?p"]
  obtain r where "decode_digits ?p (replicate ?n 0, 0) = Inr r" by (auto simp: is_ok_res_iff)
  then show ?thesis
    unfolding DecodeBase58_def Let_def i rbind_Inr nat_int by (auto split: option.splits)
qed

end
