(* ===== verification/Address_Properties.thy ===== *)
theory Address_Properties
  imports Base58_Roundtrip
begin

text \<open>
  What the address check of a login promises: base 58 and the checksum are inverted by the decoder, the
  check never aborts, accepts every address the code itself builds, and accepts nothing without a matching
  checksum.
\<close>

section \<open>The checksum\<close>

lemma length_hash_memory: "length (hash_memory h) = 4 * width h"
  by (simp add: hash_memory_def length_concat_mem32)

lemma EncodeBase58_nonempty: "p \<noteq> [] \<Longrightarrow> EncodeBase58 p = EncodeBase58_range p"
  by (simp add: EncodeBase58_def vec_at_def)

lemma check_decode_encode:
  assumes "1 \<le> width (SK256 v)" and "length v < 2 ^ 29"
  shows "\<exists>s. EncodeBase58Check SK256 v = Inr s \<and> c_str s = s \<and> DecodeBase58Check SK256 s r = Inr (True, v)"
proof -
  let ?c = "take 4 (hash_memory (SK256 v))"
  have c: "length ?c = 4" using assms(1) by (simp add: length_hash_memory)
  have ne: "v @ ?c \<noteq> []" using c by (metis append_is_Nil_conv list.size(3) zero_neq_numeral)
  have "length (v @ ?c) * 138 div 100 + 1 < 2 ^ 31"
  proof -
    have "length (v @ ?c) * 138 \<le> (2 ^ 29 + 4) * 138" using assms(2) c by (intro mult_le_mono1) simp
    then have "length (v @ ?c) * 138 div 100 \<le> (2 ^ 29 + 4) * 138 div 100" by (rule div_le_mono)
    then have "length (v @ ?c) * 138 div 100 + 1 \<le> (2 ^ 29 + 4) * 138 div 100 + 1" by simp
    also have "\<dots> < (2 :: nat) ^ 31" by simp
    finally show ?thesis .
  qed
  from base58_decode_encode [OF this, of r] obtain s where
    s: "EncodeBase58_range (v @ ?c) = Inr s" "DecodeBase58 s r = Inr (True, v @ ?c)" "c_str s = s" by blast
  have "EncodeBase58Check SK256 v = Inr s"
    unfolding EncodeBase58Check_def EncodeBase58_nonempty [OF ne] by (rule s(1))
  moreover have "DecodeBase58Check SK256 s r = Inr (True, v)"
    using s(2) c by (simp add: DecodeBase58Check_def Let_def)
  ultimately show ?thesis using s(3) by blast
qed

lemma mem_words_memory: "mem_words (concat (map mem32 ws)) = ws"
proof (induction ws)
  case Nil
  show ?case by simp
next
  case (Cons w ws)
  have "mem32 w = [ucast w, ucast (drop_bit 8 w), ucast (drop_bit 16 w), ucast (drop_bit 24 w)]"
    by (simp add: mem32_def uint2bytes_def)
  moreover have "bytes2uint [ucast (drop_bit 24 w), ucast (drop_bit 16 w), ucast (drop_bit 8 w), ucast w] 0 = w"
    using bytes2uint_uint2bytes [of w] by (simp only: uint2bytes_def)
  ultimately show ?case by (simp add: Cons.IH)
qed

lemma address_of_hash:
  assumes "width h = 8" and "\<forall>d. width (SK256 d) = 8"
  shows "\<exists>s. Base58Data_ToString SK256 (SetHash256 h) = Inr s \<and> NexusAddress SK256 s = Inr (SetHash256 h)
    \<and> valid_address SK256 s = Inr True \<and> GetHash256 (SetHash256 h) = Inr h"
proof -
  let ?d = "SetHash256 h"
  let ?v = "[b58_version ?d] @ vchData ?d"
  have data: "vchData ?d = hash_memory h" "b58_version ?d = 42"
    using assms(1) by (simp_all add: SetHash256_def SetData_def length_hash_memory)
  have "1 \<le> width (SK256 ?v)" "length ?v < 2 ^ 29" using assms by (simp_all add: data length_hash_memory)
  from check_decode_encode [of SK256 ?v, OF this, of "[]"] obtain s where
    s: "EncodeBase58Check SK256 ?v = Inr s" "c_str s = s" "DecodeBase58Check SK256 s [] = Inr (True, ?v)" by blast
  have "SetString SK256 s = Inr (True, ?d)" using s(2,3) by (simp add: SetString_def)
  then have n: "NexusAddress SK256 s = Inr ?d" by (simp add: NexusAddress_def)
  have "IsValid ?d" using assms(1) by (simp add: IsValid_def data length_hash_memory)
  moreover have "GetHash256 ?d = Inr h"
    using assms(1) by (simp add: GetHash256_def data length_hash_memory) (simp add: hash_memory_def mem_words_memory)
  ultimately show ?thesis using s(1) n by (auto simp: Base58Data_ToString_def valid_address_def)
qed

section \<open>Properties\<close>

text \<open>
  C19: base 58 is inverted by its decoder: a non empty byte vector is encoded to a string without spaces or
  zero bytes, and decoding that string yields the same bytes, leading zeros included.
\<close>

theorem base58_roundtrip:
  assumes "vch \<noteq> []" and "length vch * 138 div 100 + 1 < 2 ^ 31"
  shows "\<exists>s. EncodeBase58 vch = Inr s \<and> c_str s = s \<and> DecodeBase58 s old = Inr (True, vch)"
  using base58_decode_encode [OF assms(2), of old] EncodeBase58_nonempty [OF assms(1)] by auto

lemma base58_roundtrip_witness:
  "\<exists>s. EncodeBase58 [0, 0, 7, 255] = Inr s \<and> DecodeBase58 s [] = Inr (True, [0, 0, 7, 255])"
  using base58_roundtrip [of "[0, 0, 7, 255]" "[]"] by auto

text \<open>
  C20: the address of every 256 bit key hash passes the check of a login: it is printed as a string that the
  constructor of an address reads back as the same address, and its hash is recovered.
\<close>

theorem address_roundtrip:
  assumes "width h = 8" and "\<forall>d. width (SK256 d) = 8"
  shows "\<exists>s. Base58Data_ToString SK256 (SetHash256 h) = Inr s \<and> NexusAddress SK256 s = Inr (SetHash256 h)
    \<and> valid_address SK256 s = Inr True \<and> GetHash256 (SetHash256 h) = Inr h"
  using address_of_hash [OF assms] .

lemma address_roundtrip_witness:
  "\<exists>s. Base58Data_ToString (\<lambda>d. bu_assign64 8 (of_nat (length d))) (SetHash256 (bu_assign64 8 77)) = Inr s
    \<and> valid_address (\<lambda>d. bu_assign64 8 (of_nat (length d))) s = Inr True"
  using address_roundtrip [of "bu_assign64 8 77" "\<lambda>d. bu_assign64 8 (of_nat (length d))"] by auto

text \<open>
  The check of an address never aborts the server, whatever a miner sends: the assertions of the
  decoder hold and its vectors are large enough for every string of less than \<open>2 ^ 31\<close> characters.
\<close>

theorem address_check_total:
  assumes "length s < 2 ^ 31"
  shows "is_ok_res (valid_address SK256 s)"
proof -
  have "length (c_str s) \<le> length s" unfolding c_str_def by (rule length_takeWhile_le)
  then have "is_ok_res (DecodeBase58 (c_str s) [])" using assms by (intro DecodeBase58_total) (rule le_less_trans)
  then obtain ok v where "DecodeBase58 (c_str s) [] = Inr (ok, v)" by (auto simp: is_ok_res_iff)
  then show ?thesis
    by (simp add: valid_address_def NexusAddress_def SetString_def DecodeBase58Check_def Let_def)
qed

lemma address_check_total_witness: "is_ok_res (valid_address (\<lambda>d. bu_assign64 8 0) ''2Sabc 0OIl'')"
  by (rule address_check_total) simp

text \<open>An accepted string decodes to at least five bytes, whose last four are the checksum of the others.\<close>

lemma accepted_decodes:
  assumes "valid_address SK256 s = Inr True"
  obtains v where "DecodeBase58 (c_str s) [] = Inr (True, v @ take 4 (hash_memory (SK256 v)))" and "v \<noteq> []"
    and "length (take 4 (hash_memory (SK256 v))) = 4" and "IsValid \<lparr>b58_version = hd v, vchData = tl v\<rparr>"
proof -
  obtain d b where d: "SetString SK256 s = Inr (b, d)" "IsValid d"
    using assms by (auto simp: valid_address_def NexusAddress_def rbind_eq_Inr)
  obtain ok v where v: "DecodeBase58Check SK256 (c_str s) [] = Inr (ok, v)"
    using d(1) by (auto simp: SetString_def rbind_eq_Inr)
  have "v \<noteq> []" using d v by (auto simp: SetString_def IsValid_def split: if_splits)
  then have dv: "d = \<lparr>b58_version = hd v, vchData = tl v\<rparr>" using d(1) v by (simp add: SetString_def)
  obtain w where w: "DecodeBase58 (c_str s) [] = Inr (True, w)" "4 \<le> length w" "v = take (length w - 4) w"
    "drop (length w - 4) w = take 4 (hash_memory (SK256 v))"
    using v \<open>v \<noteq> []\<close> by (auto simp: DecodeBase58Check_def rbind_eq_Inr Let_def not_less split: if_splits)
       (auto simp: DecodeBase58_def rbind_eq_Inr Let_def split: option.splits if_splits)
  have "w = v @ take 4 (hash_memory (SK256 v))" using w(3,4) by (metis append_take_drop_id)
  moreover have "length (drop (length w - 4) w) = 4" using w(2) by simp
  ultimately show thesis using that [of v] w(1,4) d(2) \<open>v \<noteq> []\<close> by (simp add: dv)
qed

text \<open>
  C21: an accepted address decodes to a version byte 42 or 104, 32 bytes of data, and the first four bytes of
  the hash of both; no other string is accepted. (The comment above the class \<open>NexusAddress\<close> speaks of the
  versions 55, 111, 117 and 196 and of RIPEMD160 hashes of 20 bytes; none of these is accepted.)
\<close>

theorem accepted_address_has_checksum:
  assumes "valid_address SK256 s = Inr True"
  shows "\<exists>version data. DecodeBase58 (c_str s) [] = Inr (True, version # data @ take 4 (hash_memory (SK256 (version # data))))
    \<and> (version = 42 \<or> version = 104) \<and> length data = 32"
proof -
  from assms obtain v where v: "DecodeBase58 (c_str s) [] = Inr (True, v @ take 4 (hash_memory (SK256 v)))" "v \<noteq> []"
    "IsValid \<lparr>b58_version = hd v, vchData = tl v\<rparr>" by (rule accepted_decodes)
  then show ?thesis
    by (intro exI [of _ "hd v"] exI [of _ "tl v"]) (auto simp: IsValid_def split: if_splits)
qed

lemma accepted_address_has_checksum_witness:
  "\<exists>s version data. valid_address (\<lambda>d. bu_assign64 8 5) s = Inr True
    \<and> DecodeBase58 (c_str s) [] = Inr (True, version # data @ take 4 (hash_memory (bu_assign64 8 5)))
    \<and> length data = 32"
proof -
  obtain s where s: "valid_address (\<lambda>d. bu_assign64 8 5) s = Inr True"
    using address_of_hash [of "bu_assign64 8 77" "\<lambda>d. bu_assign64 8 5"] by auto
  with accepted_address_has_checksum [OF s] show ?thesis by blast
qed

end
