(* ===== verification/Server_Sessions.thy ===== *)
theory Server_Sessions
  imports Server_Links Address_Properties
begin

text \<open>
  The abstract view of the miner connections, and the proof that every step of the server is the step its
  specification makes at the same event: who is a guest, who a member and with what address, and whose
  connection has ended.
\<close>

section \<open>The specification\<close>

text \<open>
  A session is a guest, a member with an address, or gone. \<open>session_next\<close> is the whole specification: at each
  event of the server the sessions change in exactly one way. \<open>admits\<close> says which addresses may log in.
\<close>

datatype session = Guest | Member string | Gone

text \<open>The address of a frame that is a login.\<close>

definition login_of :: "bytes \<Rightarrow> string option" where
  "login_of buffer =
     (case rbind (packet_of_buffer buffer) (\<lambda>packet. rbind (packet_data packet) (\<lambda>d.
           rbind (bytes2string d 0) (\<lambda>a. Inr (packet, a)))) of
        Inl e \<Rightarrow> None
      | Inr (packet, a) \<Rightarrow> if is_valid packet \<and> m_header packet = LOGIN then Some a else None)"

fun session_enabled :: "event \<Rightarrow> (nat \<Rightarrow> session option) \<Rightarrow> bool" where
  "session_enabled (Accept i address uninit) s = (s i = None)"
| "session_enabled (Miner_event i result buffer) s = (s i \<noteq> None \<and> s i \<noteq> Some Gone)"
| "session_enabled _ s = True"

fun session_next :: "(string \<Rightarrow> bool) \<Rightarrow> event \<Rightarrow> (nat \<Rightarrow> session option) \<Rightarrow> nat \<Rightarrow> session option" where
  "session_next admits (Accept i address uninit) s = s(i \<mapsto> Guest)"
| "session_next admits (Miner_event i result buffer) s =
     (if ends_connection result then s(i \<mapsto> Gone)
      else case (s i, login_of buffer) of
             (Some Guest, Some a) \<Rightarrow> if admits a then s(i \<mapsto> Member a) else s
           | _ \<Rightarrow> s)"
| "session_next admits Server_timer s = (\<lambda>i. if s i = Some Gone then None else s i)"
| "session_next admits _ s = s"

section \<open>The sessions of the server\<close>

definition session_of :: "pool_connection \<Rightarrow> session" where
  "session_of p =
     (if pc_connection_closed p then Gone else if pc_logged_in p then Member (pc_nxsaddress p) else Guest)"

definition sessions :: "world \<Rightarrow> nat \<Rightarrow> session option" where
  "sessions w i = map_option session_of (w_pools w i)"

text \<open>An address may log in when it is valid and its account is not banned.\<close>

definition admitted :: "platform \<Rightarrow> data_registry \<Rightarrow> string \<Rightarrow> bool" where
  "admitted pf reg a \<longleftrightarrow> valid_address (pf_SK256 pf) a = Inr True
     \<and> (\<exists>b. m_banned_users reg = Some b \<and> \<not> is_account_banned b a)"

lemma sessions_set_pool [simp]: "sessions (set_pool i p w) = (sessions w)(i \<mapsto> session_of p)"
  by (simp add: sessions_def fun_eq_iff)

lemma sessions_cong: "w_pools w' = w_pools w \<Longrightarrow> sessions w' = sessions w"
  by (simp add: sessions_def fun_eq_iff)

section \<open>Changes without a login\<close>

text \<open>
  Only the login of a valid address makes a member. A handler that does not look at addresses is the same
  handler on a platform where no address is valid, and there its small changes keep every session.
\<close>

definition closed_door :: "platform \<Rightarrow> platform" where
  "closed_door pf = pf\<lparr>pf_SK256 := \<lambda>_. BaseUint []\<rparr>"

lemma closed_door_simps [simp]:
  "pf_shl32 (closed_door pf) = pf_shl32 pf" "pf_SK1024 (closed_door pf) = pf_SK1024 pf"
  "pf_gmp (closed_door pf) = pf_gmp pf" "pf_pow (closed_door pf) = pf_pow pf" "pf_sort (closed_door pf) = pf_sort pf"
  by (simp_all add: closed_door_def)

lemma nobody_valid: "valid_address (pf_SK256 (closed_door pf)) a \<noteq> Inr True"
proof
  assume "valid_address (pf_SK256 (closed_door pf)) a = Inr True"
  then obtain v where "length (take 4 (hash_memory (pf_SK256 (closed_door pf) v))) = 4" by (rule accepted_decodes)
  then show False by (simp add: closed_door_def hash_memory_def)
qed

lemma pool_step_session: "pool_step (closed_door pf) reg pg p p' \<Longrightarrow> session_of p' = session_of p"
  by (induction rule: pool_step.induct) (auto simp: session_of_def may_log_in_def nobody_valid)

lemma micro_sessions:
  assumes "micro (closed_door pf) w w'" and "\<not> w_daemon_expired w"
  shows "sessions w' = sessions w \<and> \<not> w_daemon_expired w'"
  using assms
proof (induction rule: micro.induct)
  case (pool w i p p')
  then have "sessions w i = Some (session_of p')" by (simp add: sessions_def pool_step_session)
  with pool show ?case by (simp add: fun_upd_idem)
qed (simp_all add: sessions_def [abs_def])

lemma micros_sessions:
  assumes "micros (closed_door pf) w w'" and "\<not> w_daemon_expired w"
  shows "sessions w' = sessions w \<and> \<not> w_daemon_expired w'"
  using assms by (induction rule: rtranclp_induct) (auto dest: micro_sessions)

lemma share_weight_door [simp]: "share_weight (closed_door pf) d = share_weight pf d"
  by (simp add: share_weight_def Let_def cong: if_cong option.case_cong sum.case_cong)

lemma credit_share_door [simp]: "credit_share (closed_door pf) a d reg = credit_share pf a d reg"
  by (simp add: credit_share_def Let_def cong: if_cong option.case_cong sum.case_cong)

lemma share_accepted_door [simp]: "share_accepted (closed_door pf) i h b n d w = share_accepted pf i h b n d w"
  by (simp add: share_accepted_def Let_def cong: if_cong option.case_cong sum.case_cong)

lemma check_share_door [simp]: "check_share (closed_door pf) now i h b n w = check_share pf now i h b n w"
  by (simp add: check_share_def Let_def cong: if_cong option.case_cong sum.case_cong)

lemma submit_known_door [simp]: "submit_known (closed_door pf) now i d h b w = submit_known pf now i d h b w"
  by (simp add: submit_known_def Let_def cong: if_cong option.case_cong sum.case_cong)

lemma process_request_door: "process_request (closed_door pf) now i packet w = process_request pf now i packet w"
  by (simp add: process_request_def process_submit_share_def Let_def cong: if_cong option.case_cong sum.case_cong)

lemma submit_pending_door: "submit_pending (closed_door pf) w = submit_pending pf w"
  by (simp add: submit_pending_def submit_to_wallet_def cong: option.case_cong Let_def cong: if_cong option.case_cong sum.case_cong)

lemma block_timer_door: "block_timer_handler (closed_door pf) c w = block_timer_handler pf c w"
  by (simp add: block_timer_handler_def submit_pending_door Let_def cong: if_cong option.case_cong sum.case_cong)

lemma add_block_door [simp]: "add_block (closed_door pf) b i w = add_block pf b i w"
  by (simp add: add_block_def block_data_packet_def Let_def cong: if_cong option.case_cong sum.case_cong)

lemma on_block_reward_door [simp]: "on_block_reward (closed_door pf) d w = on_block_reward pf d w"
  by (simp add: on_block_reward_def rebuild_coinbase_def get_sorted_accounts_def Let_def cong: if_cong option.case_cong sum.case_cong)

lemma on_block_data_door [simp]: "on_block_data (closed_door pf) d w = on_block_data pf d w"
  by (simp add: on_block_data_def Let_def cong: if_cong option.case_cong sum.case_cong)

lemma wallet_branch_door [simp]: "wallet_branch (closed_door pf) packet w = wallet_branch pf packet w"
  by (simp add: wallet_branch_def Let_def cong: if_cong option.case_cong sum.case_cong)

lemma wallet_handler_door: "wallet_handler (closed_door pf) result buffer w = wallet_handler pf result buffer w"
  by (simp add: wallet_handler_def wallet_process_data_def Let_def cong: if_cong option.case_cong sum.case_cong)

section \<open>The login\<close>

lemma on_pool_sessions:
  assumes "on_pool i f w = Inr w'" and "\<And>p p'. w_pools w i = Some p \<Longrightarrow> f p = Inr p' \<Longrightarrow> session_of p' = session_of p"
  shows "sessions w' = sessions w \<and> w_registry w' = w_registry w"
proof -
  from assms(1) obtain p p' where p: "w_pools w i = Some p" "f p = Inr p'" "w' = set_pool i p' w" by (auto simp: on_pool_Inr)
  then have "sessions w i = Some (session_of p')" using assms(2) by (simp add: sessions_def)
  with p(3) show ?thesis by (simp add: fun_upd_idem)
qed

lemma transmit_sessions: "transmit_miner i packet w = Inr w' \<Longrightarrow> sessions w' = sessions w"
  by (auto simp: transmit_miner_Inr intro: sessions_cong)

lemma ban_session: "ban now p = Inr p' \<Longrightarrow> session_of p' = session_of p"
  by (auto dest!: ban_Inr simp: session_of_def)

lemma login_banned_sessions:
  assumes "login_banned now i b w = Inr w'" and "sessions w i = Some Guest"
  shows "sessions w' = sessions w"
proof -
  from assms(2) obtain p where p: "w_pools w i = Some p" "session_of p = Guest" by (auto simp: sessions_def)
  let ?b = "if \<not> is_ip_address_banned b (pc_remote_address p) then add_banned_ip_address (pc_remote_address p) b else b"
  let ?u = "set_registry ((w_registry w)\<lparr>m_banned_users := Some ?b\<rparr>) w"
  from assms(1) p(1) obtain v
    where v: "on_pool i (\<lambda>p. rbind (ban now p) (\<lambda>p. Inr (p\<lparr>pc_logged_in := False\<rparr>))) ?u = Inr v"
    and w': "transmit_miner i (get_packet LOGIN_SKMINER_FAIL) v = Inr w'"
    by (auto simp: login_banned_def Let_def rbind_eq_Inr)
  have "sessions v = sessions ?u"
    by (rule on_pool_sessions [OF v, THEN conjunct1])
      (use p in \<open>auto simp: rbind_eq_Inr session_of_def dest!: ban_Inr split: if_splits\<close>)
  with transmit_sessions [OF w'] show ?thesis using sessions_cong [of ?u w] by simp
qed

lemma login_address_sessions:
  assumes "login_address pf now i a w = Inr w'" and "sessions w i = Some Guest"
  shows "sessions w' = (if admitted pf (w_registry w) a then (sessions w)(i \<mapsto> Member a) else sessions w)"
proof -
  from assms(2) obtain p where p: "w_pools w i = Some p" "session_of p = Guest" by (auto simp: sessions_def)
  let ?p = "p\<lparr>pc_nxsaddress := a, pc_stats_address := a\<rparr>" and ?r = "ensure_account a (w_registry w)"
  let ?w1 = "set_pool i ?p w"
  have guest: "session_of ?p = Guest" "\<not> pc_connection_closed p" "\<not> pc_logged_in p"
    using p(2) by (auto simp: session_of_def split: if_splits)
  then have s1: "sessions ?w1 = sessions w" using assms(2) by (simp add: fun_upd_idem)
  have reg: "m_banned_users ?r = m_banned_users (w_registry w)" by (simp add: ensure_account_def)
  from assms(1) p obtain valid where valid: "valid_address (pf_SK256 pf) a = Inr valid"
    and rest: "(if \<not> valid
       then rbind (on_pool i (\<lambda>p. if pc_isDDOS p then ban now p else Inr p) ?w1)
              (transmit_miner i (get_packet LOGIN_SKMINER_FAIL))
       else let w = set_registry (ensure_account a (w_registry ?w1)) ?w1
            in case m_banned_users (w_registry w) of
              None \<Rightarrow> Inl Null_deref
            | Some b \<Rightarrow>
                if is_account_banned b a then login_banned now i b w
                else rbind (on_pool i (\<lambda>p. Inr (p\<lparr>pc_logged_in := True\<rparr>)) w)
                       (transmit_miner i (get_packet LOGIN_SKMINER_SUCCESS))) = Inr w'"
    by (auto simp: login_address_def rbind_eq_Inr)
  show ?thesis
  proof (cases valid)
    case False
    with rest obtain u where u: "on_pool i (\<lambda>p. if pc_isDDOS p then ban now p else Inr p) ?w1 = Inr u"
      and w': "transmit_miner i (get_packet LOGIN_SKMINER_FAIL) u = Inr w'"
      by (auto simp only: rbind_eq_Inr if_True not_False_eq_True)
    have "sessions u = sessions ?w1"
      by (rule on_pool_sessions [OF u, THEN conjunct1]) (auto dest: ban_session split: if_splits)
    with s1 transmit_sessions [OF w'] False valid show ?thesis by (simp add: admitted_def)
  next
    case True
    let ?w2 = "set_registry ?r ?w1"
    from rest True obtain b where b: "m_banned_users (w_registry w) = Some b"
      by (auto simp: Let_def reg split: option.splits)
    have s2: "sessions ?w2 = sessions w" using s1 sessions_cong [of ?w2 ?w1] by simp
    show ?thesis
    proof (cases "is_account_banned b a")
      case banned: True
      then have "login_banned now i b ?w2 = Inr w'" using rest True b by (simp add: Let_def reg)
      with login_banned_sessions [of now i b ?w2 w'] s2 assms(2) b banned show ?thesis by (simp add: admitted_def)
    next
      case False
      with rest True b have "transmit_miner i (get_packet LOGIN_SKMINER_SUCCESS)
          (set_pool i (?p\<lparr>pc_logged_in := True\<rparr>) ?w2) = Inr w'" by (simp add: Let_def reg)
      from transmit_sessions [OF this] s2 guest True valid b False show ?thesis
        by (simp add: admitted_def session_of_def)
    qed
  qed
qed

section \<open>Received data\<close>

lemma score_sessions: "on_pool i (score_if_ddos now n) w = Inr w' \<Longrightarrow> sessions w' = sessions w"
  using score_if_ddos_step pool_step_session by (intro on_pool_sessions [THEN conjunct1]) blast+

lemma process_packet_sessions:
  assumes "process_packet pf now i packet w = Some (Inr w')" and "links_inv w" and "\<not> w_registry_expired w"
    and "w_pools w i = Some p" and "pc_connection p"
  shows "if m_header packet = LOGIN \<and> session_of p = Guest
    then \<exists>d a. packet_data packet = Inr d \<and> bytes2string d 0 = Inr a
      \<and> sessions w' = (if admitted pf (w_registry w) a then (sessions w)(i \<mapsto> Member a) else sessions w)
    else sessions w' = sessions w"
proof -
  have inv: "\<not> w_daemon_expired w" "\<not> pc_connection_closed p" using assms(2,4,5) by (auto simp: links_inv_def)
  then have guest: "session_of p = Guest \<longleftrightarrow> \<not> pc_logged_in p" "sessions w i = Some (session_of p)"
    using assms(4) by (auto simp: session_of_def sessions_def)
  consider (again) "m_header packet = LOGIN" "pc_logged_in p" | (login) "m_header packet = LOGIN" "\<not> pc_logged_in p"
    | (stranger) "m_header packet \<noteq> LOGIN" "\<not> pc_logged_in p" | (request) "m_header packet \<noteq> LOGIN" "pc_logged_in p"
    by blast
  then show ?thesis
  proof cases
    case again
    with assms have "on_pool i (score_if_ddos now 10) w = Inr w'"
      by (simp add: process_packet_def process_login_def with_pool_def del: on_pool_Some)
    with again guest(1) score_sessions show ?thesis by simp
  next
    case login
    with assms obtain d a where a: "packet_data packet = Inr d" "bytes2string d 0 = Inr a" "login_address pf now i a w = Inr w'"
      by (auto simp: process_packet_def process_login_def with_pool_def rbind_eq_Inr)
    have "sessions w i = Some Guest" using guest login(2) by simp
    with login_address_sessions [OF a(3) this] a login guest show ?thesis by auto
  next
    case stranger
    with assms have "on_pool i (score_if_ddos now 10) w = Inr w'" by (simp add: process_packet_def del: on_pool_Some)
    with stranger score_sessions show ?thesis by simp
  next
    case request
    with assms inv have "process_request (closed_door pf) now i packet w = Some (Inr w')"
      by (simp add: process_packet_def process_request_door)
    from micros_sessions [OF process_request_micros [OF this] inv(1)] request guest show ?thesis by simp
  qed
qed

lemma miner_sessions:
  assumes "connection_handler pf now i result address buffer w = Some (Inr w')" and "links_inv w"
    and "\<not> w_registry_expired w" and "w_pools w i = Some p" and "pc_connection p" and "result \<noteq> connection_ok"
  shows "sessions w' = session_next (admitted pf (w_registry w)) (Miner_event i result buffer) (sessions w)"
proof (cases "ends_connection result")
  case True
  from connection_handler_ends [OF assms(1) this] True show ?thesis
    by (auto simp: session_of_def close_connection_def)
next
  case False
  with assms(1,6) have data: "process_data pf now i buffer w = Some (Inr w')"
    by (auto simp: connection_handler_def ends_connection_def split: if_splits)
  then obtain packet where packet: "packet_of_buffer buffer = Inr packet" by (auto simp: process_data_def split: sum.splits)
  have live: "\<not> pc_connection_closed p" using assms(2,4,5) by (auto simp: links_inv_def)
  have s: "sessions w i = Some (session_of p)" using assms(4) by (simp add: sessions_def)
  show ?thesis
  proof (cases "is_valid packet")
    case invalid: False
    with data packet have "on_pool i (score_if_ddos now 10) w = Inr w'" by (simp add: process_data_def del: on_pool_Some)
    from score_sessions [OF this] False packet invalid show ?thesis
      by (auto simp: login_of_def rbind_eq_Inr split: option.splits session.splits sum.splits)
  next
    case True
    with data packet obtain u where u: "on_pool i (ddos_invalid_header now packet) w = Inr u"
      and w': "process_packet pf now i packet u = Some (Inr w')"
      by (auto simp: process_data_def simp del: on_pool_Some split: sum.splits)
    have su: "sessions u = sessions w \<and> w_registry u = w_registry w"
      using u by (rule on_pool_sessions) (use ddos_invalid_header_step pool_step_session in blast)
    from u assms(4) obtain q where q: "w_pools u i = Some q" "ddos_invalid_header now packet p = Inr q" "u = set_pool i q w"
      by (auto simp: on_pool_Inr rbind_eq_Inr)
    from ddos_invalid_header_step [OF q(2)] have step: "pool_step (closed_door pf) reg pg p q" for reg pg .
    note life = pool_step_life [OF step] pool_step_session [OF step]
    have "links_inv u" "\<not> w_registry_expired u" "pc_connection q" using assms(2,3,5) life live q(3) by (auto simp: links_inv_def)
    from process_packet_sessions [OF w' this(1,2) q(1) this(3)] su life False packet True s
    show ?thesis by (auto simp: login_of_def rbind_eq_Inr split: session.splits option.splits sum.splits if_splits)
  qed
qed

section \<open>The invariant\<close>

text \<open>The numbers the wallet connection knows; they are never forgotten, so a number is never used again.\<close>

definition registered :: "world \<Rightarrow> nat set" where
  "registered w = pd_connection ` set (dc_pool_connections (w_daemon w))"

definition sessions_inv :: "world \<Rightarrow> bool" where
  "sessions_inv w \<longleftrightarrow> links_inv w \<and> \<not> w_registry_expired w \<and> dom (sessions w) \<subseteq> registered w
     \<and> (\<forall>i. w_pools w i \<noteq> None \<longrightarrow> i \<in> set (w_server_pools w))"

lemma daemon_step_registered:
  "daemon_step pf pools d d' \<Longrightarrow> pd_connection ` set (dc_pool_connections d) \<subseteq> pd_connection ` set (dc_pool_connections d')"
proof (induction rule: daemon_step.induct)
  case (counts n d e)
  then have "map pd_connection ((dc_pool_connections d)[n := e]) = map pd_connection (dc_pool_connections d)"
    by (simp add: map_update list_update_same_conv)
  from arg_cong [OF this, of set] show ?case by simp
next
  case (submits n d i p h b x)
  then have "map pd_connection ((dc_pool_connections d)[n := (dc_pool_connections d ! n)\<lparr>pd_submit_block := Some (b\<lparr>nNonce := x\<rparr>)\<rparr>])
      = map pd_connection (dc_pool_connections d)"
    by (simp add: map_update list_update_same_conv)
  from arg_cong [OF this, of set] show ?case by simp
qed (auto simp: add_pool_connection_def)

lemma ticks_registered: "ticks pf w w' \<Longrightarrow> registered w \<subseteq> registered w'"
proof (induction rule: rtranclp_induct)
  case (step v u)
  from step(2) have "registered v \<subseteq> registered u"
  proof cases
    case small
    then show ?thesis by cases (auto simp: registered_def dest: daemon_step_registered)
  qed (auto simp: registered_def)
  with step(3) show ?case by blast
qed simp

definition pools_listed :: "world \<Rightarrow> bool" where
  "pools_listed w \<longleftrightarrow> (\<forall>i. w_pools w i \<noteq> None \<longrightarrow> i \<in> set (w_server_pools w))"

lemma micro_listed: "micro pf w w' \<Longrightarrow> pools_listed w \<Longrightarrow> pools_listed w'"
  by (induction rule: micro.induct) (auto simp: pools_listed_def)

lemma tick_listed:
  assumes "pools_listed w" and "tick pf w w'"
  shows "pools_listed w'"
  using assms(2)
proof cases
  case small
  then show ?thesis using assms(1) by (rule micro_listed)
next
  case maintains
  with assms(1) show ?thesis
    by (auto simp: pools_listed_def server_maintenance_timer_handler_def start_server_timer_def)
qed (use assms(1) in \<open>auto simp: pools_listed_def\<close>)

section \<open>Every step of the server is a step of the specification\<close>

lemma accept_sessions:
  assumes "accept_connection uninit now i address w = Inr w'" and "w_pools w i = None" and "\<not> w_daemon_expired w"
  shows "sessions w' = (sessions w)(i \<mapsto> Guest) \<and> i \<in> registered w'"
proof
  let ?p = "Pool_connection_new uninit (if w_registry_expired w then None else Some (w_registry w))"
  from accept_connection_ticks [OF assms(1,2), of "closed_door undefined"] obtain u
    where u: "micros (closed_door undefined) u w'" "w_daemon_expired u = w_daemon_expired w"
      "w_pools u = (w_pools w)(i \<mapsto> ?p)" by blast
  have "sessions u = (sessions w)(i \<mapsto> Guest)"
    by (simp add: sessions_def fun_eq_iff u(3) session_of_def Pool_connection_new_def)
  with micros_sessions [OF u(1)] u(2) assms(3) show "sessions w' = (sessions w)(i \<mapsto> Guest)" by simp
  show "i \<in> registered w'"
    using assms(1,3) by (auto simp: accept_connection_def connected_def Let_def rbind_eq_Inr registered_def
        add_pool_connection_def Pool_connection_data_new_def)
qed

lemma timer_sessions:
  assumes "micros (closed_door pf) (fires w) u" and "w' = start u" and "\<not> w_daemon_expired w"
    and "\<And>w. w_pools (fires w) = w_pools w \<and> w_daemon_expired (fires w) = w_daemon_expired w"
    and "\<And>w. w_pools (start w) = w_pools w"
  shows "sessions w' = sessions w"
  using micros_sessions [OF assms(1)] assms(2-5) sessions_cong [of "fires w" w] sessions_cong [of "start u" u] by simp

lemma step_sessions:
  assumes "step pf ev w w'" and inv: "sessions_inv w"
  shows "session_enabled ev (sessions w)
    \<and> sessions w' = session_next (admitted pf (w_registry w)) ev (sessions w)"
  using assms(1)
proof (rule stepE)
  fix now
  assume e: "enabled ev w" and h: "handle pf now ev w = Some (Inr w')"
  have i: "links_inv w" "\<not> w_registry_expired w" "\<not> w_daemon_expired w" using inv by (auto simp: sessions_inv_def links_inv_def)
  note fires = block_timer_fires_def height_timer_fires_def orphan_timer_fires_def start_block_timer_def
    start_get_height_timer_def start_orphan_check_timer_def
  show ?thesis
  proof (cases ev)
    case (Accept k address uninit)
    with e h accept_sessions [of uninit now k address w w'] i(3) show ?thesis by (auto simp: sessions_def)
  next
    case (Miner_event k result buffer)
    with e obtain p where p: "w_pools w k = Some p" "pc_connection p" "result \<noteq> connection_ok" by (auto split: option.splits)
    with i(1) have "session_of p \<noteq> Gone" by (auto simp: links_inv_def session_of_def)
    moreover from Miner_event h have "connection_handler pf now k result '''' buffer w = Some (Inr w')" by simp
    ultimately show ?thesis using miner_sessions [OF _ i(1,2) p] p(1) Miner_event by (simp add: sessions_def)
  next
    case (Wallet_event result buffer)
    with h have b: "wallet_handler (closed_door pf) result buffer w = Inr w'" by (simp add: wallet_handler_door)
    show ?thesis
    proof (cases "ends_connection result")
      case True
      with wallet_handler_ends [OF b] sessions_cong [of w' w] Wallet_event show ?thesis by simp
    next
      case False
      from wallet_handler_micros [OF b False] obtain u
        where "u = w \<or> u = start_get_height_timer (start_orphan_check_timer (start_block_timer w))"
          and m: "micros (closed_door pf) u w'" by blast
      then have "w_pools u = w_pools w" "w_daemon_expired u = w_daemon_expired w" by (auto simp: fires)
      with micros_sessions [OF m] i(3) sessions_cong [of u w] Wallet_event show ?thesis by simp
    qed
  next
    case Block_timer
    with h have "block_timer_handler (closed_door pf) False (block_timer_fires w) = Inr w'" by (simp add: block_timer_door)
    from block_timer_micros [OF this] i obtain u where "micros (closed_door pf) (block_timer_fires w) u" "w' = start_block_timer u"
      by auto
    with timer_sessions [of pf block_timer_fires w u w' start_block_timer] i(3) Block_timer show ?thesis by (simp add: fires)
  next
    case Height_timer
    with h have "get_height_timer_handler False (height_timer_fires w) = Inr w'" by simp
    from height_timer_micros [OF this, of "closed_door pf"] obtain u
      where "micros (closed_door pf) (height_timer_fires w) u" "w' = start_get_height_timer u" by blast
    with timer_sessions [of pf height_timer_fires w u w' start_get_height_timer] i(3) Height_timer show ?thesis
      by (simp add: fires)
  next
    case Orphan_timer
    with h have "orphan_check_timer_handler False (orphan_timer_fires w) = Inr w'" by simp
    from orphan_timer_micros [OF this, of "closed_door pf"] i obtain u
      where "micros (closed_door pf) (orphan_timer_fires w) u" "w' = start_orphan_check_timer u" by auto
    with timer_sessions [of pf orphan_timer_fires w u w' start_orphan_check_timer] i(3) Orphan_timer show ?thesis
      by (simp add: fires)
  next
    case Server_timer
    have "sessions (server_maintenance_timer_handler False w) k = (if sessions w k = Some Gone then None else sessions w k)" for k
      using inv by (auto simp: sessions_inv_def sessions_def session_of_def server_maintenance_timer_handler_def
          start_server_timer_def pool_closed_def split: option.splits)
    with Server_timer h show ?thesis by (simp add: fun_eq_iff)
  next
    case Persistance_timer
    with h sessions_cong [of w' w] show ?thesis by (auto simp: rbind_eq_Inr)
  qed
qed

lemma session_next_dom:
  "session_enabled ev s \<Longrightarrow> dom (session_next admits ev s) \<subseteq>
     dom s \<union> (case ev of Accept i address uninit \<Rightarrow> {i} | _ \<Rightarrow> {})"
  by (cases ev) (auto split: if_splits option.splits session.splits)

lemma sessions_inv_step:
  assumes "sessions_inv w" and "step pf ev w w'"
  shows "sessions_inv w'"
proof -
  have "pools_listed w" using assms(1) by (simp add: sessions_inv_def pools_listed_def)
  with step_ticks [OF assms(2)] have listed: "pools_listed w'" by (induction rule: rtranclp_induct) (auto intro: tick_listed)
  have on_its_own: "links_inv w'" if "internal ev"
    using server.keeps_inv [OF _ server_change.internal [OF that assms(2)]] assms(1) by (simp add: sessions_inv_def)
  have "links_inv w'"
  proof (cases ev)
    case (Accept i address uninit)
    with assms server.keeps_inv [OF _ server_change.opened] show ?thesis by (auto simp: sessions_inv_def)
  next
    case (Miner_event i result buffer)
    from assms(2) obtain now where "handle pf now (peer_event (Miner i) result buffer) w = Some (Inr w')"
      by (auto simp: Miner_event elim: stepE)
    from server.keeps_inv [OF _ server_change.called [OF this]] assms(1) show ?thesis by (simp add: sessions_inv_def)
  next
    case (Wallet_event result buffer)
    from assms(2) obtain now where "handle pf now (peer_event Wallet result buffer) w = Some (Inr w')"
      by (auto simp: Wallet_event elim: stepE)
    from server.keeps_inv [OF _ server_change.called [OF this]] assms(1) show ?thesis by (simp add: sessions_inv_def)
  qed (use on_its_own in simp_all)
  moreover have "dom (sessions w') \<subseteq> registered w'"
  proof -
    note s = step_sessions [OF assms(2,1)]
    have "dom (sessions w') \<subseteq> dom (sessions w) \<union> (case ev of Accept i address uninit \<Rightarrow> {i} | _ \<Rightarrow> {})"
      using s session_next_dom by metis
    moreover have "dom (sessions w) \<subseteq> registered w'"
      using assms(1) ticks_registered [OF step_ticks [OF assms(2)]] by (auto simp: sessions_inv_def)
    moreover have "i \<in> registered w'" if "ev = Accept i address uninit" for i address uninit
      using assms that accept_sessions by (auto simp: sessions_inv_def links_inv_def elim!: stepE)
    ultimately show ?thesis by (cases ev) auto
  qed
  moreover have "\<not> w_registry_expired w'"
    using assms(1) ticks_expired [OF step_ticks [OF assms(2)]] by (simp add: sessions_inv_def)
  ultimately show ?thesis using listed by (simp add: sessions_inv_def pools_listed_def)
qed

lemma sessions_inv_start: "started pf api fs uninit w \<Longrightarrow> sessions_inv w"
  using started_state by (fastforce simp: sessions_inv_def links_inv_def sessions_def)

lemma sessions_inv_reach: "reach pf w v \<Longrightarrow> sessions_inv w \<Longrightarrow> sessions_inv v"
  by (erule reach_inv) (auto intro: sessions_inv_step)

section \<open>Sessions of a run\<close>

text \<open>What became of a session later: a member keeps its address until it is gone, and what is gone stays gone.\<close>

definition session_later :: "session option \<Rightarrow> session option \<Rightarrow> bool" where
  "session_later s s' \<longleftrightarrow>
     (case s of Some (Member a) \<Rightarrow> s' \<in> {Some (Member a), Some Gone, None} | Some Gone \<Rightarrow> s' \<in> {Some Gone, None}
      | _ \<Rightarrow> True)"

lemma session_kept_step:
  assumes "sessions_inv w" and "step pf ev w w'" and "i \<in> registered w"
    and "sessions w i \<in> {Some (Member a), Some Gone, None}" and "gone \<Longrightarrow> sessions w i \<noteq> Some (Member a)"
  shows "i \<in> registered w' \<and> sessions w' i \<in> {Some (Member a), Some Gone, None} \<and> (gone \<longrightarrow> sessions w' i \<noteq> Some (Member a))"
proof -
  note s = step_sessions [OF assms(2,1)]
  have other: "k \<noteq> i" if "ev = Accept k address uninit" for k address uninit
    using assms(2,3) that by (auto simp: registered_def elim!: stepE)
  have "sessions w' i \<in> {Some (Member a), Some Gone, None} \<and> (gone \<longrightarrow> sessions w' i \<noteq> Some (Member a))"
    using s assms(4,5) other by (cases ev) (auto split: option.splits session.splits)
  then show ?thesis using assms(3) ticks_registered [OF step_ticks [OF assms(2)]] by blast
qed

lemma session_later_reach:
  assumes "reach pf w v" and "sessions_inv w"
  shows "session_later (sessions w i) (sessions v i)"
proof (cases "\<exists>a. sessions w i = Some (Member a) \<or> sessions w i = Some Gone")
  case True
  then obtain a where a: "sessions w i = Some (Member a) \<or> sessions w i = Some Gone" by blast
  define gone where "gone = (sessions w i = Some Gone)"
  have "sessions_inv v \<and> i \<in> registered v \<and> sessions v i \<in> {Some (Member a), Some Gone, None}
      \<and> (gone \<longrightarrow> sessions v i \<noteq> Some (Member a))"
    using assms(1)
  proof (rule reach_inv)
    show "sessions_inv w \<and> i \<in> registered w \<and> sessions w i \<in> {Some (Member a), Some Gone, None}
        \<and> (gone \<longrightarrow> sessions w i \<noteq> Some (Member a))"
      using a assms(2) by (auto simp: gone_def sessions_inv_def dom_def)
  qed (use session_kept_step sessions_inv_step in blast)
  with a show ?thesis by (auto simp: session_later_def gone_def)
next
  case False
  then show ?thesis by (auto simp: session_later_def split: option.splits session.splits)
qed

end
