(* ===== verification/Server_Properties.thy ===== *)
theory Server_Properties
  imports Server_Runs Server_Sessions
begin

text \<open>
  What the running server promises, for every sequence of events from its start: the form of its state,
  who is logged in, that no share is ever accepted, how sessions evolve, that block requests reach the
  wallet, and the two ways in which a lost connection stops the server.
\<close>

section \<open>A miner logs in\<close>

text \<open>A login frame; the length field of a frame is not compared with the length of its data.\<close>

definition login_frame :: "string \<Rightarrow> bytes" where
  "login_frame s = [8, 0, 0, 0, 1] @ string2bytes s"

definition login_packet :: "string \<Rightarrow> packet" where
  "login_packet s = \<lparr>m_header = LOGIN, m_length = 1, m_data = Some (string2bytes s)\<rparr>"

lemma login_frame_packet: "packet_of_buffer (login_frame s) = Inr (login_packet s)"
  by (simp add: login_frame_def packet_of_buffer_def read_frame_ok bytes2uint_def login_packet_def)

lemma login_packet_passes: "is_valid (login_packet s)" "ddos_invalid_header now (login_packet s) p = Inr p"
  by (simp_all add: is_valid_def login_packet_def ddos_invalid_header_def ban_when_def)

lemma login_accepted:
  assumes "valid_address (pf_SK256 pf) s = Inr True" and "w_pools w i = Some p" and "\<not> pc_logged_in p"
    and "pc_connection p" and "\<not> w_registry_expired w"
    and "m_banned_users (w_registry w) = Some b" and "\<not> is_account_banned b s"
  shows "connection_handler pf now i receive_ok '''' (login_frame s) w =
    Some (Inr (put (Miner i) [LOGIN_SKMINER_SUCCESS]
      (set_pool i (p\<lparr>pc_nxsaddress := s, pc_stats_address := s, pc_logged_in := True\<rparr>)
        (set_registry (ensure_account s (w_registry w)) w))))"
proof -
  let ?p1 = "p\<lparr>pc_nxsaddress := s, pc_stats_address := s\<rparr>"
  have data: "bytes2string (string2bytes s) 0 = Inr s" by (rule bytes2string_string2bytes) simp_all
  have reg: "m_banned_users (ensure_account s r) = m_banned_users r" for r by (simp add: ensure_account_def)
  have same: "set_pool i p w = w" using assms(2) by (simp add: set_pool_def fun_upd_idem)
  have reply: "get_bytes (get_packet LOGIN_SKMINER_SUCCESS) = Inr [LOGIN_SKMINER_SUCCESS]"
    by (rule get_bytes_get_packet) simp
  have comm: "set_pool i q (set_registry r (set_pool i ?p1 w)) = set_pool i q (set_registry r w)" for q r
    by (simp add: set_pool_def set_registry_def)
  have "login_address pf now i s w = Inr (put (Miner i) [LOGIN_SKMINER_SUCCESS]
      (set_pool i (?p1\<lparr>pc_logged_in := True\<rparr>) (set_registry (ensure_account s (w_registry w)) w)))"
    using assms by (simp add: login_address_def Let_def reg transmit_miner_def reply comm)
  then have "process_packet pf now i (login_packet s) w = Some (Inr (put (Miner i) [LOGIN_SKMINER_SUCCESS]
      (set_pool i (?p1\<lparr>pc_logged_in := True\<rparr>) (set_registry (ensure_account s (w_registry w)) w))))"
    using assms(2,3,5) data
    by (simp add: process_packet_def process_login_def packet_data_def) (simp add: login_packet_def)
  then show ?thesis
    using assms(2) same
    by (simp add: connection_handler_def process_data_def login_frame_packet login_packet_passes)
qed

text \<open>The example server with a member.\<close>

definition example_member :: "string \<Rightarrow> world" where
  "example_member s = put (Miner 1) [LOGIN_SKMINER_SUCCESS]
     (set_pool 1 (example_miner\<lparr>pc_nxsaddress := s, pc_stats_address := s, pc_logged_in := True\<rparr>)
       (set_registry (ensure_account s (w_registry example_world)) example_world))"

lemma example_world_simps [simp]:
  "w_pools example_world = [1 \<mapsto> example_miner]" "\<not> w_registry_expired example_world"
  "\<not> w_daemon_expired example_world" "w_server_pools example_world = [1]"
  "w_daemon example_world = add_pool_connection 1 ((Daemon_connection_new 0)\<lparr>dc_connection := True\<rparr>)"
  "w_registry example_world = w_registry example_start" "w_out example_world = []"
  by (simp_all add: example_world_def set_pool_def)

lemma example_miner_simps [simp]:
  "pc_connection example_miner" "\<not> pc_logged_in example_miner" "pc_remote_address example_miner = ''10.0.0.1''"
  "\<not> pc_connection_closed example_miner"
  by (simp_all add: example_miner_def Pool_connection_new_def)

lemma example_no_bans: "m_banned_users (w_registry example_start) = Some Banned_users_new"
  by (simp add: example_start_def start_server_timer_def daemon_connect_def world_new_def Data_registry_init_def
      load_banned_users_def Banned_users_new_def Let_def)

lemma example_login:
  assumes "valid_address (pf_SK256 example_platform) s = Inr True"
  shows "step example_platform (Miner_event 1 receive_ok (login_frame s)) example_world (example_member s)"
proof (rule step.event [where now = 0])
  show "enabled (Miner_event 1 receive_ok (login_frame s)) example_world" by simp
  show "handle example_platform 0 (Miner_event 1 receive_ok (login_frame s)) example_world = Some (Inr (example_member s))"
    using login_accepted [of example_platform s example_world 1 example_miner Banned_users_new 0, OF assms]
    by (simp add: example_no_bans example_member_def Banned_users_new_def is_account_banned_def)
qed

lemma example_address: "\<exists>s. valid_address (pf_SK256 example_platform) s = Inr True"
  using address_of_hash [of "bu_assign64 8 77" "\<lambda>_. uint_zero 8"]
  by (auto simp: example_platform_def uint_zero_def)

lemma example_member_reach:
  "valid_address (pf_SK256 example_platform) s = Inr True \<Longrightarrow> reach example_platform example_start (example_member s)"
  by (rule reach.more [OF example_reach example_login])

section \<open>Properties\<close>

text \<open>
  Every state the server reaches has the form its code relies on. The account and block stores and the
  coinbase outputs are ordered maps and the ban lists exist; the blocks of a miner are stored under their
  own hash with hashes of the right width; the shares and the hash of the submitted block are 1024 bit
  numbers; the blocks waiting for submission are well formed.
\<close>

theorem server_state_typed:
  assumes "started pf api fs uninit w" and "hash_ok pf" and "reach pf w v"
  shows "world_typed pf v"
  using assms(3) started_typed [OF assms(1)] world_typed_tick [OF assms(2)] by (rule reach_tick)

lemma server_state_typed_witness: "world_typed example_platform example_world"
  by (rule server_state_typed [OF example_started example_hash_ok example_reach])

text \<open>
  C5: a miner is logged in only with a valid address that has an account, in every state the server reaches.
\<close>

theorem members_have_accounts:
  assumes "started pf api fs uninit w" and "reach pf w v" and "w_pools v i = Some p" and "pc_logged_in p"
  shows "valid_address (pf_SK256 pf) (pc_nxsaddress p) = Inr True \<and> HasKey (pc_nxsaddress p) (m_account_db (w_registry v))"
proof -
  have "members_ok pf v" using assms(2) started_members [OF assms(1)] members_ok_tick by (rule reach_tick)
  with assms(3,4) show ?thesis by (auto simp: members_ok_def)
qed

lemma members_have_accounts_witness:
  "\<exists>s p. w_pools (example_member s) 1 = Some p \<and> pc_logged_in p \<and> HasKey s (m_account_db (w_registry (example_member s)))"
proof -
  obtain s where s: "valid_address (pf_SK256 example_platform) s = Inr True" using example_address by blast
  let ?p = "example_miner\<lparr>pc_nxsaddress := s, pc_stats_address := s, pc_logged_in := True\<rparr>"
  have "w_pools (example_member s) 1 = Some ?p" by (simp add: example_member_def)
  with members_have_accounts [OF example_started example_member_reach [OF s] this] show ?thesis
    by (intro exI [of _ s] exI [of _ ?p]) simp
qed

text \<open>
  C6: the server never accepts a share. It starts without initialising the tables of the share check, so in
  every state it reaches, with a configured minimum share above 0, no miner has a share in its set and no
  reply that a share was accepted or a block found was ever sent to a miner.
\<close>

theorem no_share_is_accepted:
  assumes "started pf api fs uninit w" and "reach pf w v"
    and "read_config api (fl_conf fs) Config_default = Inr (True, cfg)" and "0 < cfg_min_share cfg"
    and "gmp_ok (pf_gmp pf)" and "gmp_traps (pf_gmp pf)"
  shows "(\<forall>i p. w_pools v i = Some p \<longrightarrow> pc_primes p = {})
    \<and> (\<forall>i bs. (Miner i, bs) \<in> set (w_out v) \<longrightarrow> bs \<noteq> [ACCEPT] \<and> bs \<noteq> [BLOCK])"
proof -
  have "no_shares w" using assms(1) by (rule started_no_shares) (use assms(3,4) in simp)
  then have "no_shares v" using assms(2) no_shares_tick [OF assms(5,6)] by (blast intro: reach_tick)
  then show ?thesis by (auto simp: no_shares_def is_share_reply_def)
qed

lemma no_share_is_accepted_witness:
  "\<exists>s. (Miner 1, [LOGIN_SKMINER_SUCCESS]) \<in> set (w_out (example_member s))
     \<and> (\<forall>i bs. (Miner i, bs) \<in> set (w_out (example_member s)) \<longrightarrow> bs \<noteq> [ACCEPT])"
proof -
  obtain s where s: "valid_address (pf_SK256 example_platform) s = Inr True" using example_address by blast
  have "gmp_ok (pf_gmp example_platform)" "gmp_traps (pf_gmp example_platform)"
    using gmp_exact_ok by (simp_all add: example_platform_def gmp_traps_def gmp_exact_def)
  with no_share_is_accepted [OF example_started example_member_reach [OF s]] show ?thesis
    by (intro exI [of _ s]) (simp add: example_files_def example_config, simp add: example_member_def)
qed

text \<open>
  C8: the miner connections implement their specification \<open>session_next\<close>, step for step: at every event of the
  running server the sessions change exactly as the specification says for this event, and the event is one
  that the specification allows. So a session opens as a guest with the connection; a guest becomes a member
  exactly when the frame it sends is a login with a valid address whose account is not banned, and with this
  address; a session ends exactly when its connection ends; ended sessions are dropped by the maintenance
  timer; and nothing else changes a session. Over a run a member keeps its address until its session ends,
  and a session that has ended never returns.
\<close>

theorem sessions_refine_specification:
  assumes "started pf api fs uninit w" and "reach pf w v"
  shows "(\<forall>ev u. step pf ev v u \<longrightarrow>
      session_enabled ev (sessions v) \<and> sessions u = session_next (admitted pf (w_registry v)) ev (sessions v))
    \<and> (\<forall>i u. reach pf v u \<longrightarrow> session_later (sessions v i) (sessions u i))"
proof -
  have "sessions_inv v" using assms(2) sessions_inv_start [OF assms(1)] by (rule sessions_inv_reach)
  then show ?thesis using step_sessions session_later_reach by blast
qed

lemma login_of_login_frame: "login_of (login_frame s) = Some s"
proof -
  have "bytes2string (string2bytes s) 0 = Inr s" by (rule bytes2string_string2bytes) simp_all
  then show ?thesis using login_packet_passes(1)
    by (simp add: login_of_def login_frame_packet packet_data_def) (simp add: login_packet_def)
qed

lemma sessions_refine_specification_witness:
  "\<exists>s. step example_platform (Miner_event 1 receive_ok (login_frame s)) example_world (example_member s)
     \<and> sessions (example_member s) = [1 \<mapsto> Member s]
     \<and> (\<forall>u. reach example_platform (example_member s) u \<longrightarrow> session_later (Some (Member s)) (sessions u 1))"
proof -
  obtain s where s: "valid_address (pf_SK256 example_platform) s = Inr True" using example_address by blast
  have "sessions example_world = [1 \<mapsto> Guest]" by (simp add: sessions_def fun_eq_iff session_of_def)
  moreover have "admitted example_platform (w_registry example_world) s"
    using s by (simp add: admitted_def example_no_bans Banned_users_new_def is_account_banned_def)
  ultimately have m: "sessions (example_member s) = [1 \<mapsto> Member s]"
    using sessions_refine_specification [OF example_started example_reach] example_login [OF s]
    by (fastforce simp: login_of_login_frame ends_connection_def)
  have "session_later (sessions (example_member s) 1) (sessions u 1)"
    if "reach example_platform (example_member s) u" for u
    using sessions_refine_specification [OF example_started example_member_reach [OF s]] that by blast
  with m example_login [OF s] show ?thesis by (intro exI [of _ s]) simp
qed

text \<open>
  C7: block requests reach the wallet. Once the timers of the wallet connection run they run for ever: in
  every later state in which the wallet is connected and no new round is pending, the block timer can fire,
  its handler succeeds, one request is sent to the wallet for every block the miners asked for, nothing stays
  requested, and the timer waits again.
\<close>

theorem requests_are_forwarded:
  assumes "reach pf w v" and "timers_armed w" and "\<not> w_registry_expired w"
    and "dc_connection (w_daemon v)" and "\<not> dc_coinbase_pending (w_daemon v)"
  shows "\<exists>u pre. step pf Block_timer v u \<and> (\<forall>e \<in> set (entries u). pd_blocks_requested e = 0) \<and> timers_armed u
    \<and> w_out u = w_out v @ pre @ replicate (\<Sum>e\<leftarrow>entries v. unat (pd_blocks_requested e)) (Wallet, [D_GET_BLOCK])
    \<and> length pre \<le> 1"
proof -
  have v: "timers_armed v" "\<not> w_registry_expired v" using timers_armed_reach [OF assms(1-3)] by auto
  let ?v = "block_timer_fires v"
  have "dc_connection (w_daemon ?v)" "\<not> w_registry_expired ?v" "\<not> dc_coinbase_pending (w_daemon ?v)"
    using assms(4,5) v(2) by (simp_all add: block_timer_fires_def)
  from block_timer_forwards [OF this, of pf] obtain u pre where u: "block_timer_handler pf False ?v = Inr u"
    "\<forall>e \<in> set (entries u). pd_blocks_requested e = 0"
    "w_out u = w_out ?v @ pre @ replicate (pending_requests ?v) (Wallet, [D_GET_BLOCK])" "length pre \<le> 1" by blast
  have "step pf Block_timer v u"
    using u(1) v(1) by (intro step.event [where now = 0]) (simp_all add: timers_armed_def)
  moreover from this have "timers_armed u" using v by (rule timers_armed_step)
  ultimately show ?thesis using u(2-4) by (auto simp: pending_requests_def block_timer_fires_def)
qed

lemma requests_are_forwarded_witness:
  "\<exists>u pre. step example_platform Block_timer (start_get_height_timer (start_orphan_check_timer (start_block_timer
      (set_entry 0 ((Pool_connection_data_new 1 3 0)) example_world)))) u
    \<and> w_out u = pre @ replicate 3 (Wallet, [D_GET_BLOCK])"
proof -
  let ?w = "start_get_height_timer (start_orphan_check_timer (start_block_timer
      (set_entry 0 ((Pool_connection_data_new 1 3 0)) example_world)))"
  have w: "timers_armed ?w" "\<not> w_registry_expired ?w" "dc_connection (w_daemon ?w)"
    "\<not> dc_coinbase_pending (w_daemon ?w)" "w_out ?w = []" "entries ?w = [Pool_connection_data_new 1 3 0]"
    by (simp_all add: timers_armed_def start_get_height_timer_def start_orphan_check_timer_def start_block_timer_def
        timer_start_milliseconds_def timer_start_seconds_def set_entry_def add_pool_connection_def
        Daemon_connection_new_def)
  have n: "(\<Sum>e\<leftarrow>entries ?w. unat (pd_blocks_requested e)) = 3"
    unfolding w(6) by (simp add: Pool_connection_data_new_def)
  from requests_are_forwarded [OF reach.start [of example_platform ?w] w(1-4)] w(5) show ?thesis
    unfolding n by auto
qed

section \<open>Lost connections\<close>

text \<open>
  C13: one miner that leaves can stop the server. When the network reports that a registered miner connection
  was closed, the handler succeeds and leaves a state in which the next answer of the wallet that starts a
  round, the frame \<open>COINBASE_SET\<close>, makes the server send to the connection that is gone: a null pointer.
\<close>

theorem closed_miner_stops_round:
  assumes "w_pools w i = Some p" and "pc_connection p" and "i \<in> pd_connection ` set (entries w)"
    and "dc_connection (w_daemon w)" and "\<not> w_registry_expired w"
  shows "\<exists>u. step pf (Miner_event i connection_closed []) w u
    \<and> can_fault pf (Wallet_event receive_ok [D_COINBASE_SET]) Null_deref u"
proof -
  let ?u = "set_pool i (close_connection p) w"
  have step: "step pf (Miner_event i connection_closed []) w ?u"
    using assms(1,2) by (intro step.event [where now = 0]) (simp_all add: connection_handler_def)
  obtain e where e: "e \<in> set (entries w)" "pd_connection e = i" using assms(3) by blast
  let ?v = "set_pending False ?u"
  have "new_round ?v = Inl Null_deref"
    by (rule new_round_faults [where e = e and p = "close_connection p"])
      (use e in \<open>simp_all add: set_pending_def close_connection_def\<close>)
  then have "wallet_process_data pf [D_COINBASE_SET] ?u = Inl Null_deref"
    using assms(5)
    by (simp add: wallet_process_data_def daemon_packet_of_buffer_def vec_at_def daemon_is_valid_def
        wallet_branch_def go_on_def on_coinbase_set_def Let_def)
  then have "can_fault pf (Wallet_event receive_ok [D_COINBASE_SET]) Null_deref ?u"
    using assms(4) by (simp add: can_fault_def wallet_handler_def)
  with step show ?thesis by blast
qed

lemma closed_miner_stops_round_witness:
  "\<exists>u. reach example_platform example_start u
     \<and> can_fault example_platform (Wallet_event receive_ok [D_COINBASE_SET]) Null_deref u"
proof -
  have "\<exists>u. step example_platform (Miner_event 1 connection_closed []) example_world u
      \<and> can_fault example_platform (Wallet_event receive_ok [D_COINBASE_SET]) Null_deref u"
    by (rule closed_miner_stops_round [of _ _ example_miner])
      (simp_all add: add_pool_connection_def Pool_connection_data_new_def Daemon_connection_new_def)
  then show ?thesis using reach.more [OF example_reach] by blast
qed

text \<open>
  C14: losing the wallet stops the server. When the network reports that the wallet connection was closed the
  timers are not cancelled, so the height timer still fires, and sends to a null pointer.
\<close>

theorem lost_wallet_stops_server:
  assumes "dc_connection (w_daemon w)" and "timers_armed w"
    and "result \<in> {connection_declined, connection_aborted, connection_closed, connection_error}"
  shows "\<exists>u. step pf (Wallet_event result []) w u \<and> can_fault pf Height_timer Null_deref u"
proof -
  let ?u = "set_daemon ((w_daemon w)\<lparr>dc_connection := False\<rparr>) w"
  have "step pf (Wallet_event result []) w ?u"
    using assms(1,3) by (intro step.event [where now = 0]) (auto simp: wallet_handler_def)
  moreover have "can_fault pf Height_timer Null_deref ?u"
    using assms(2) by (simp add: can_fault_def timers_armed_def get_height_timer_handler_def height_timer_fires_def
        transmit_wallet_def)
  ultimately show ?thesis by blast
qed

definition example_running :: world where
  "example_running = put Wallet ([D_SET_CHANNEL] @ uint2bytes 4 @ uint2bytes 1)
     (start_get_height_timer (start_orphan_check_timer (start_block_timer example_start)))"

lemma example_connected: "step example_platform (Wallet_event connection_ok []) example_start example_running"
proof (rule step.event [where now = 0])
  show "enabled (Wallet_event connection_ok []) example_start" by simp
  show "handle example_platform 0 (Wallet_event connection_ok []) example_start = Some (Inr example_running)"
    by (simp add: wallet_handler_def transmit_wallet_def example_running_def start_get_height_timer_def
        start_orphan_check_timer_def start_block_timer_def get_bytes_def set_channel_def packet_default_def)
qed

lemma lost_wallet_stops_server_witness:
  "\<exists>u. reach example_platform example_start u \<and> can_fault example_platform Height_timer Null_deref u"
proof -
  have "dc_connection (w_daemon example_running)" "timers_armed example_running"
    by (simp_all add: example_running_def timers_armed_def start_get_height_timer_def start_orphan_check_timer_def
        start_block_timer_def timer_start_milliseconds_def timer_start_seconds_def)
  from lost_wallet_stops_server [OF this, of connection_closed example_platform] obtain u
    where "step example_platform (Wallet_event connection_closed []) example_running u"
      "can_fault example_platform Height_timer Null_deref u" by auto
  then show ?thesis using reach.more [OF reach.more [OF reach.start example_connected]] by blast
qed

section \<open>Rounds\<close>

text \<open>
  From the second round on the coinbase transaction is set again and again. Whenever the server handles
  the wallet's answer \<open>COINBASE_SET\<close>, which starts a new round for every miner, the last thing it does is to
  send another \<open>SET_COINBASE\<close> frame, which the wallet answers with \<open>COINBASE_SET\<close>.
\<close>

theorem coinbase_set_is_repeated:
  assumes "wallet_process_data pf [D_COINBASE_SET] w = Inr w'" and "1 < m_current_round (w_registry w)"
    and "\<not> w_registry_expired w"
  shows "\<exists>frames bs. w_out w' = w_out w @ frames @ [(Wallet, D_SET_COINBASE # bs)]"
proof -
  from assms(1,3) obtain v where v: "on_coinbase_set w = Inr v" and tail: "wallet_tail v = Inr w'"
    by (auto simp: wallet_process_data_def daemon_packet_of_buffer_def vec_at_def daemon_is_valid_def
        wallet_branch_def go_on_def Let_def rbind_eq_Inr)
  from v obtain u reg where u: "new_round (set_pending False w) = Inr u" and reg: "write_account_db (w_registry u) = Inr reg"
    and v': "v = set_registry reg u" by (auto simp: on_coinbase_set_def rbind_eq_Inr)
  from new_round_frame [OF u] obtain fs where fs: "w_registry u = w_registry w" "dc_new_block (w_daemon u)"
    "w_out u = w_out w @ fs" by (auto simp: set_pending_def)
  have "m_current_round reg = m_current_round (w_registry u)"
    using reg by (auto simp: write_account_db_def rbind_eq_Inr)
  with assms(2) fs have round: "1 < m_current_round (w_registry v)" by (simp add: v')
  let ?w = "set_daemon ((w_daemon v)\<lparr>dc_new_block := False\<rparr>) v"
  have "send_coinbase ?w = Inr w'" using tail round fs(2) by (simp add: wallet_tail_def v' Let_def)
  then obtain bs where "get_bytes (set_coinbase (Serialize (m_coinbase (w_registry ?w)))) = Inr bs"
    "w' = put Wallet bs ?w" by (auto simp: send_coinbase_def transmit_wallet_Inr)
  then have "w_out w' = w_out w @ fs @ [(Wallet, D_SET_COINBASE # tl bs)]"
    using fs(3) v' by (auto simp: get_bytes_def set_coinbase_def packet_default_def)
  then show ?thesis by blast
qed

text \<open>The example server in its second round.\<close>

definition example_round :: world where
  "example_round = set_registry ((w_registry example_world)\<lparr>m_current_round := 2\<rparr>) example_world"

lemma coinbase_set_is_repeated_witness:
  "\<exists>w' frames bs. wallet_process_data example_platform [D_COINBASE_SET] example_round = Inr w'
     \<and> w_out w' = frames @ [(Wallet, D_SET_COINBASE # bs)]"
proof -
  have conn: "w_daemon example_round = add_pool_connection 1 ((Daemon_connection_new 0)\<lparr>dc_connection := True\<rparr>)"
    "w_pools example_round = [1 \<mapsto> example_miner]" "w_out example_round = []" "\<not> w_registry_expired example_round"
    "m_current_round (w_registry example_round) = 2"
    by (simp_all add: example_round_def)
  obtain u where u: "new_round (set_pending False example_round) = Inr u"
    by (auto simp: new_round_def set_pending_def conn add_pool_connection_def Pool_connection_data_new_def
        Daemon_connection_new_def pool_new_round_def transmit_miner_def get_bytes_get_height)
  obtain bs where bs: "write_account_db (w_registry u) = Inr ((w_registry u)\<lparr>acct_dat := Some bs\<rparr>)"
    using write_account_db_ok by blast
  have "w_daemon u = (w_daemon (set_pending False example_round))\<lparr>dc_new_block := True\<rparr>" "w_registry u = w_registry example_round"
    using new_round_frame [OF u] by (simp_all add: set_pending_def)
  then have "\<exists>w'. wallet_process_data example_platform [D_COINBASE_SET] example_round = Inr w'"
    using u bs conn by (simp add: wallet_process_data_def daemon_packet_of_buffer_def vec_at_def daemon_is_valid_def
        wallet_branch_def go_on_def on_coinbase_set_def wallet_tail_def send_coinbase_def transmit_wallet_def Let_def
        set_pending_def get_bytes_def set_coinbase_def packet_default_def add_pool_connection_def Daemon_connection_new_def)
  then obtain w' where w': "wallet_process_data example_platform [D_COINBASE_SET] example_round = Inr w'" by blast
  from coinbase_set_is_repeated [OF w'] conn(3-5) w' show ?thesis by auto
qed

section \<open>The submission slot\<close>

text \<open>
  C12: the list of miner connections has one slot for a block to submit for each address. For an address that
  is registered \<open>submit_block\<close> returns, and takes the block exactly when the slot is empty: then the block is in
  the slot; otherwise nothing changes. A block in the slot stays there whatever miner connections ask for
  next: no \<open>request_block\<close> and no \<open>submit_block\<close>, for this or another address, and no connection that registers
  replaces or loses it. (The block timer takes it out, which sends it to the wallet.)
\<close>

theorem submitted_block_is_kept:
  assumes "desk_view w ip = Some (m, slot)"
  shows "(\<exists>u. daemon_submit_block b ip w = Inr (slot = None, u)
      \<and> desk_view u = (if slot = None then (desk_view w)(ip \<mapsto> (m, Some b)) else desk_view w))
    \<and> (\<forall>c. slot = Some c \<longrightarrow>
        (\<forall>n ip' v. request_block n ip' w = Inr v \<longrightarrow> (\<exists>m'. desk_view v ip = Some (m', Some c)))
      \<and> (\<forall>d ip' ok v. daemon_submit_block d ip' w = Inr (ok, v) \<longrightarrow> desk_view v ip = Some (m, Some c))
      \<and> (\<forall>i. desk_view (set_daemon (add_pool_connection i (w_daemon w)) w) ip = Some (m, Some c)))"
proof (intro conjI allI impI)
  show "\<exists>u. daemon_submit_block b ip w = Inr (slot = None, u)
      \<and> desk_view u = (if slot = None then (desk_view w)(ip \<mapsto> (m, Some b)) else desk_view w)"
    using assms by (rule desk.sub_outcome)
next
  fix c n ip' v
  assume "slot = Some c" and "request_block n ip' w = Inr v"
  with assms desk.kept_by_req show "\<exists>m'. desk_view v ip = Some (m', Some c)" by blast
next
  fix c d ip' ok v
  assume "slot = Some c" and "daemon_submit_block d ip' w = Inr (ok, v)"
  with assms desk.kept_by_sub show "desk_view v ip = Some (m, Some c)" by blast
next
  fix c i
  assume "slot = Some c"
  with assms show "desk_view (set_daemon (add_pool_connection i (w_daemon w)) w) ip = Some (m, Some c)"
    by (auto simp: desk_view_def entry_of_registered)
qed

text \<open>A block is taken, and then kept while another one is refused.\<close>

lemma submitted_block_is_kept_witness:
  "\<exists>u v. daemon_submit_block cblock_default ''10.0.0.1'' example_world = Inr (True, u)
     \<and> daemon_submit_block (cblock_default\<lparr>nNonce := 5\<rparr>) ''10.0.0.1'' u = Inr (False, v)
     \<and> desk_view v ''10.0.0.1'' = Some (0, Some cblock_default)"
proof -
  have "desk_view example_world ''10.0.0.1'' = Some (0, None)"
    by (simp add: desk_view_def entry_of_def add_pool_connection_def Daemon_connection_new_def
        Pool_connection_data_new_def has_address_def)
  from submitted_block_is_kept [OF this, of cblock_default] obtain u
    where u: "daemon_submit_block cblock_default ''10.0.0.1'' example_world = Inr (True, u)"
      "desk_view u ''10.0.0.1'' = Some (0, Some cblock_default)" by auto
  from submitted_block_is_kept [OF u(2), of "cblock_default\<lparr>nNonce := 5\<rparr>"] u show ?thesis by auto
qed

text \<open>
  Miners behind one address share the slot of the first of them. When a living connection with the
  address of a request is registered before the one that asks, the request is booked for that first
  connection, and the entry of the one that asks does not change.
\<close>

theorem shared_address_is_booked_for_first:
  assumes "entries w = xs @ e # ys" and "w_pools w (pd_connection e) = Some p" and "pc_remote_address p = ip"
    and "\<forall>x \<in> set xs. \<not> has_address (w_pools w) ip x"
  shows "\<exists>u. request_block n ip w = Inr u \<and> entries u = xs @ e\<lparr>pd_blocks_requested := n\<rparr> # ys"
proof -
  have "find_pool (w_pools w) ip xs = None" using assms(4) by (simp add: find_pool_None)
  then have "find_pool (w_pools w) ip (entries w) = Some (length xs)"
    using assms(1-3) by (simp add: find_pool_append has_address_def)
  then show ?thesis using assms(1) by (simp add: request_block_def find_pool_connection_def)
qed

lemma shared_address_is_booked_for_first_witness:
  "\<exists>u. request_block 4 ''10.0.0.1'' (set_daemon (add_pool_connection 2 (w_daemon example_world))
        (set_pool 2 example_miner example_world)) = Inr u
     \<and> map pd_blocks_requested (entries u) = [4, 0]"
proof -
  let ?w = "set_daemon (add_pool_connection 2 (w_daemon example_world)) (set_pool 2 example_miner example_world)"
  have "\<exists>u. request_block 4 ''10.0.0.1'' ?w = Inr u
      \<and> entries u = [] @ (Pool_connection_data_new 1 0 0)\<lparr>pd_blocks_requested := 4\<rparr> # [Pool_connection_data_new 2 0 0]"
    by (rule shared_address_is_booked_for_first [where p = example_miner])
      (simp_all add: add_pool_connection_def Daemon_connection_new_def Pool_connection_data_new_def)
  then show ?thesis by (auto simp: Pool_connection_data_new_def)
qed

end
