(* ===== verification/Keccak_F.thy ===== *)
theory Keccak_F
  imports Prelude
begin

text \<open>
  The permutation Keccak-f[1600] of \<open>src/src/hash/Keccak-compact64.cpp\<close> and the access to its state.
  The state is the 200 bytes of \<open>Keccak_SpongeInstance\<close>; the permutation reads them as 25 lanes of 64
  bits. The byte order is that of the little endian branch of the source. An access outside the
  state or outside the data handed over is the fault \<open>Out_of_range\<close>.
\<close>

section \<open>Constants\<close>

type_synonym lanes = "u64 list"

definition KeccakF_RotationConstants :: "nat list" where
  "KeccakF_RotationConstants =
     [1, 3, 6, 10, 15, 21, 28, 36, 45, 55, 2, 14, 27, 41, 56, 8, 25, 43, 62, 18, 39, 61, 20, 44]"

definition KeccakF_PiLane :: "nat list" where
  "KeccakF_PiLane =
     [10, 7, 11, 17, 18, 3, 5, 16, 8, 21, 24, 4, 15, 23, 19, 13, 12, 2, 20, 14, 22, 9, 6, 1]"

definition KeccakF_Mod5 :: "nat list" where
  "KeccakF_Mod5 = [0, 1, 2, 3, 4, 0, 1, 2, 3, 4]"

definition cKeccakNumberOfRounds :: nat where
  "cKeccakNumberOfRounds = 24"

definition ROL64 :: "u64 \<Rightarrow> nat \<Rightarrow> u64" where
  "ROL64 a offset = push_bit offset a XOR drop_bit (64 - offset) a"

section \<open>Round constants\<close>

text \<open>
  One turn of the loop over \<open>i = 1, 2, 4, \<dots>, 64\<close>. The register is an \<open>unsigned int\<close> inside the
  function and is cut to a byte when it is stored back.
\<close>

definition lfsr_turn :: "u32 \<times> u64 \<Rightarrow> nat \<Rightarrow> u32 \<times> u64" where
  "lfsr_turn s i =
     (let (temp, rc) = s; doXOR = temp AND 1 in
      (if temp AND 0x80 \<noteq> 0 then push_bit 1 temp XOR 0x71 else push_bit 1 temp,
       if doXOR \<noteq> 0 then rc XOR push_bit (i - 1) 1 else rc))"

definition KeccakF1600_GetNextRoundConstant :: "u8 \<Rightarrow> u64 \<times> u8" where
  "KeccakF1600_GetNextRoundConstant LFSR =
     (let (temp, rc) = foldl lfsr_turn (ucast LFSR, 0) [1, 2, 4, 8, 16, 32, 64]
      in (rc, ucast temp))"

section \<open>The permutation\<close>

definition theta_columns :: "lanes \<Rightarrow> lanes" where
  "theta_columns st =
     map (\<lambda>x. st ! x XOR st ! (5 + x) XOR st ! (10 + x) XOR st ! (15 + x) XOR st ! (20 + x)) [0..<5]"

definition theta_column :: "lanes \<Rightarrow> lanes \<Rightarrow> nat \<Rightarrow> lanes" where
  "theta_column BC st x =
     (let temp = BC ! (KeccakF_Mod5 ! (x + 4)) XOR ROL64 (BC ! (KeccakF_Mod5 ! (x + 1))) 1
      in foldl (\<lambda>st y. st[y + x := st ! (y + x) XOR temp]) st [0, 5, 10, 15, 20])"

definition theta :: "lanes \<Rightarrow> lanes" where
  "theta st = foldl (theta_column (theta_columns st)) st [0..<5]"

definition rho_pi_turn :: "lanes \<times> u64 \<Rightarrow> nat \<Rightarrow> lanes \<times> u64" where
  "rho_pi_turn s x =
     (let (st, temp) = s; p = KeccakF_PiLane ! x
      in (st[p := ROL64 temp (KeccakF_RotationConstants ! x)], st ! p))"

definition rho_pi :: "lanes \<Rightarrow> lanes" where
  "rho_pi st = fst (foldl rho_pi_turn (st, st ! 1) [0..<24])"

definition chi_plane :: "lanes \<Rightarrow> nat \<Rightarrow> lanes" where
  "chi_plane st y =
     (let BC = [st ! (y + 0), st ! (y + 1), st ! (y + 2), st ! (y + 3), st ! (y + 4)]
      in foldl (\<lambda>st x. st[y + x := BC ! x XOR
                  (NOT (BC ! (KeccakF_Mod5 ! (x + 1))) AND BC ! (KeccakF_Mod5 ! (x + 2)))])
           st [0..<5])"

definition chi :: "lanes \<Rightarrow> lanes" where
  "chi st = foldl chi_plane st [0, 5, 10, 15, 20]"

definition keccak_round :: "lanes \<times> u8 \<Rightarrow> lanes \<times> u8" where
  "keccak_round s =
     (let (st, LFSRstate) = s;
          st = chi (rho_pi (theta st));
          (rc, LFSRstate) = KeccakF1600_GetNextRoundConstant LFSRstate
      in (st[0 := st ! 0 XOR rc], LFSRstate))"

definition permute_lanes :: "lanes \<Rightarrow> lanes" where
  "permute_lanes st = fst ((keccak_round ^^ cKeccakNumberOfRounds) (st, 1))"

section \<open>The state as bytes\<close>

definition lane_bytes :: "u64 \<Rightarrow> bytes" where
  "lane_bytes w = map (\<lambda>i. ucast (drop_bit (8 * i) w)) [0..<8]"

definition bytes_lane :: "bytes \<Rightarrow> u64" where
  "bytes_lane bs = foldr (\<lambda>b w. ucast b OR push_bit 8 w) bs 0"

definition state_lanes :: "bytes \<Rightarrow> lanes" where
  "state_lanes m = map (\<lambda>i. bytes_lane (take 8 (drop (8 * i) m))) [0..<25]"

definition lanes_state :: "lanes \<Rightarrow> bytes" where
  "lanes_state st = concat (map lane_bytes st)"

definition KeccakF1600_StateInitialize :: bytes where
  "KeccakF1600_StateInitialize = replicate (25 * 8) 0"

definition KeccakF1600_StatePermute :: "bytes \<Rightarrow> bytes" where
  "KeccakF1600_StatePermute m = lanes_state (permute_lanes (state_lanes m))"

text \<open>The loop \<open>state[i] ^= data[i]\<close> for \<open>n\<close> bytes at position \<open>pos\<close> of the state.\<close>

definition xor_at :: "nat \<Rightarrow> bytes \<Rightarrow> bytes \<Rightarrow> bytes" where
  "xor_at pos bs m =
     take pos m @ map2 (\<lambda>a b. a XOR b) (take (length bs) (drop pos m)) bs @ drop (pos + length bs) m"

definition xor_state :: "bytes \<Rightarrow> nat \<Rightarrow> bytes \<Rightarrow> nat \<Rightarrow> bytes res" where
  "xor_state m pos data n =
     (if n = 0 then Inr m
      else if n \<le> length data \<and> pos + n \<le> length m then Inr (xor_at pos (take n data) m)
      else Inl Out_of_range)"

definition KeccakF1600_StateXORBytesInLane :: "bytes \<Rightarrow> u32 \<Rightarrow> bytes \<Rightarrow> u32 \<Rightarrow> u32 \<Rightarrow> bytes res" where
  "KeccakF1600_StateXORBytesInLane m lanePosition data offset len =
     xor_state m (unat lanePosition * 8 + unat offset) data (unat len)"

definition KeccakF1600_StateXORLanes :: "bytes \<Rightarrow> bytes \<Rightarrow> u32 \<Rightarrow> bytes res" where
  "KeccakF1600_StateXORLanes m data laneCount = xor_state m 0 data (unat (laneCount * 8))"

definition KeccakF1600_StateComplementBit :: "bytes \<Rightarrow> u32 \<Rightarrow> bytes res" where
  "KeccakF1600_StateComplementBit m position =
     (let l = unat (position div 64); lane = push_bit (unat (position mod 64)) 1 in
      if l * 8 + 8 \<le> length m
      then Inr (take (l * 8) m @ lane_bytes (bytes_lane (take 8 (drop (l * 8) m)) XOR lane)
                @ drop (l * 8 + 8) m)
      else Inl Out_of_range)"

text \<open>The bytes a \<open>memcpy\<close> from the state writes to its destination.\<close>

definition KeccakF1600_StateExtractBytesInLane :: "bytes \<Rightarrow> u32 \<Rightarrow> u32 \<Rightarrow> u32 \<Rightarrow> bytes res" where
  "KeccakF1600_StateExtractBytesInLane m lanePosition offset len =
     (let p = int (unat lanePosition * 8 + unat offset) in vec_range p (p + int (unat len)) m)"

definition KeccakF1600_StateExtractLanes :: "bytes \<Rightarrow> u32 \<Rightarrow> bytes res" where
  "KeccakF1600_StateExtractLanes m laneCount = vec_range 0 (int (unat (laneCount * 8))) m"

definition KeccakF1600_StateXORPermuteExtract ::
  "bytes \<Rightarrow> bytes \<Rightarrow> u32 \<Rightarrow> u32 \<Rightarrow> (bytes \<times> bytes) res" where
  "KeccakF1600_StateXORPermuteExtract m inData inLaneCount outLaneCount =
     rbind (KeccakF1600_StateXORLanes m inData inLaneCount) (\<lambda>m1.
     let m2 = KeccakF1600_StatePermute m1 in
     rbind (KeccakF1600_StateExtractLanes m2 outLaneCount) (\<lambda>out. Inr (m2, out)))"

end
