(* ===== verification/Skein_Block.thy ===== *)
theory Skein_Block
  imports Keccak_F
begin

text \<open>
  The block function of Skein, \<open>src/src/hash/skein_block.cpp\<close> with the constants of
  \<open>src/src/hash/skein.h\<close> and the rotation and the byte order of \<open>skein_port.h\<close> (its little
  endian branch): the tweakable block cipher Threefish in three sizes and the feed forward of its input. With the default \<open>SKEIN_LOOP\<close> of the source the sizes 256 and 512 are
  unrolled, with indices modulo 5, 9 and 3 into the key schedule, and the size 1024 runs a loop that
  extends the key schedule in place. The array \<open>kw\<close> holds the tweak words \<open>ts\<close> from index 0 and the
  key words \<open>ks\<close> from index 3.
\<close>

section \<open>Constants and words\<close>

definition SKEIN_MK_64 :: "u64 \<Rightarrow> u64 \<Rightarrow> u64" where
  "SKEIN_MK_64 hi32 lo32 = lo32 + push_bit 32 hi32"

definition SKEIN_KS_PARITY :: u64 where
  "SKEIN_KS_PARITY = SKEIN_MK_64 0x55555555 0x55555555"

definition SKEIN_T1_FLAG_FIRST :: u64 where
  "SKEIN_T1_FLAG_FIRST = push_bit (126 - 64) 1"

definition SKEIN_T1_FLAG_FINAL :: u64 where
  "SKEIN_T1_FLAG_FINAL = push_bit (127 - 64) 1"

definition RotL_64 :: "u64 \<Rightarrow> nat \<Rightarrow> u64" where
  "RotL_64 x N = push_bit N x OR drop_bit (64 - N) x"

definition Skein_Get64_LSB_First :: "nat \<Rightarrow> bytes \<Rightarrow> u64 list" where
  "Skein_Get64_LSB_First wCnt bs = map (\<lambda>i. bytes_lane (take 8 (drop (8 * i) bs))) [0..<wCnt]"

definition Skein_Put64_LSB_First :: "u64 list \<Rightarrow> nat \<Rightarrow> bytes" where
  "Skein_Put64_LSB_First ws n = take n (concat (map lane_bytes ws))"

section \<open>Rounds\<close>

text \<open>
  One line of a round macro: \<open>X##p0 += X##p1; X##p1 = RotL_64(X##p1, N); X##p1 ^= X##p0\<close>. A round is
  its positions, two for every line, and its rotations.
\<close>

definition skein_mix :: "u64 list \<Rightarrow> nat \<Rightarrow> nat \<Rightarrow> nat \<Rightarrow> u64 list" where
  "skein_mix X p0 p1 N =
     (let X = X[p0 := X ! p0 + X ! p1];
          X = X[p1 := RotL_64 (X ! p1) N]
      in X[p1 := X ! p1 XOR X ! p0])"

fun skein_round :: "u64 list \<Rightarrow> nat list \<Rightarrow> nat list \<Rightarrow> u64 list" where
  "skein_round X (p0 # p1 # ps) (N # Ns) = skein_round (skein_mix X p0 p1 N) ps Ns"
| "skein_round X _ _ = X"

definition skein_rounds :: "(nat list \<times> nat list) list \<Rightarrow> u64 list \<Rightarrow> u64 list" where
  "skein_rounds rs X = foldl (\<lambda>X (ps, Ns). skein_round X ps Ns) X rs"

definition R256_table :: "(nat list \<times> nat list) list" where
  "R256_table =
     [([0, 1, 2, 3], [5, 56]),
      ([0, 3, 2, 1], [36, 28]),
      ([0, 1, 2, 3], [13, 46]),
      ([0, 3, 2, 1], [58, 44]),
      ([0, 1, 2, 3], [26, 20]),
      ([0, 3, 2, 1], [53, 35]),
      ([0, 1, 2, 3], [11, 42]),
      ([0, 3, 2, 1], [59, 50])]"

definition R512_table :: "(nat list \<times> nat list) list" where
  "R512_table =
     [([0, 1, 2, 3, 4, 5, 6, 7], [38, 30, 50, 53]),
      ([2, 1, 4, 7, 6, 5, 0, 3], [48, 20, 43, 31]),
      ([4, 1, 6, 3, 0, 5, 2, 7], [34, 14, 15, 27]),
      ([6, 1, 0, 7, 2, 5, 4, 3], [26, 12, 58, 7]),
      ([0, 1, 2, 3, 4, 5, 6, 7], [33, 49, 8, 42]),
      ([2, 1, 4, 7, 6, 5, 0, 3], [39, 27, 41, 14]),
      ([4, 1, 6, 3, 0, 5, 2, 7], [29, 26, 11, 9]),
      ([6, 1, 0, 7, 2, 5, 4, 3], [33, 51, 39, 35])]"

definition R1024_table :: "(nat list \<times> nat list) list" where
  "R1024_table =
     [([0, 1, 2, 3, 4, 5, 6, 7, 8, 9, 10, 11, 12, 13, 14, 15],
       [55, 43, 37, 40, 16, 22, 38, 12]),
      ([0, 9, 2, 13, 6, 11, 4, 15, 10, 7, 12, 3, 14, 5, 8, 1],
       [25, 25, 46, 13, 14, 13, 52, 57]),
      ([0, 7, 2, 5, 4, 3, 6, 1, 12, 15, 14, 13, 8, 11, 10, 9],
       [33, 8, 18, 57, 21, 12, 32, 54]),
      ([0, 15, 2, 11, 6, 13, 4, 9, 14, 1, 8, 5, 10, 3, 12, 7],
       [34, 43, 25, 60, 44, 9, 59, 34]),
      ([0, 1, 2, 3, 4, 5, 6, 7, 8, 9, 10, 11, 12, 13, 14, 15],
       [28, 7, 47, 48, 51, 9, 35, 41]),
      ([0, 9, 2, 13, 6, 11, 4, 15, 10, 7, 12, 3, 14, 5, 8, 1],
       [17, 6, 18, 25, 43, 42, 40, 15]),
      ([0, 7, 2, 5, 4, 3, 6, 1, 12, 15, 14, 13, 8, 11, 10, 9],
       [58, 7, 32, 45, 19, 18, 2, 56]),
      ([0, 15, 2, 11, 6, 13, 4, 9, 14, 1, 8, 5, 10, 3, 12, 7],
       [47, 49, 27, 58, 37, 48, 53, 56])]"

section \<open>Key injection, unrolled\<close>

text \<open>The key injections \<open>I256(R)\<close> and \<open>I512(R)\<close>.\<close>

definition I256 :: "u64 list \<Rightarrow> nat \<Rightarrow> u64 list \<Rightarrow> u64 list" where
  "I256 kw R X =
     [X ! 0 + kw ! (3 + (R + 1) mod 5),
      X ! 1 + (kw ! (3 + (R + 2) mod 5) + kw ! ((R + 1) mod 3)),
      X ! 2 + (kw ! (3 + (R + 3) mod 5) + kw ! ((R + 2) mod 3)),
      X ! 3 + (kw ! (3 + (R + 4) mod 5) + word_of_nat R + 1)]"

definition I512 :: "u64 list \<Rightarrow> nat \<Rightarrow> u64 list \<Rightarrow> u64 list" where
  "I512 kw R X =
     [X ! 0 + kw ! (3 + (R + 1) mod 9),
      X ! 1 + kw ! (3 + (R + 2) mod 9),
      X ! 2 + kw ! (3 + (R + 3) mod 9),
      X ! 3 + kw ! (3 + (R + 4) mod 9),
      X ! 4 + kw ! (3 + (R + 5) mod 9),
      X ! 5 + (kw ! (3 + (R + 6) mod 9) + kw ! ((R + 1) mod 3)),
      X ! 6 + (kw ! (3 + (R + 7) mod 9) + kw ! ((R + 2) mod 3)),
      X ! 7 + (kw ! (3 + (R + 8) mod 9) + word_of_nat R + 1)]"

definition R256_8_rounds :: "u64 list \<Rightarrow> u64 list \<Rightarrow> nat \<Rightarrow> u64 list" where
  "R256_8_rounds kw X R =
     I256 kw (2 * R + 1) (skein_rounds (drop 4 R256_table)
       (I256 kw (2 * R) (skein_rounds (take 4 R256_table) X)))"

definition R512_8_rounds :: "u64 list \<Rightarrow> u64 list \<Rightarrow> nat \<Rightarrow> u64 list" where
  "R512_8_rounds kw X R =
     I512 kw (2 * R + 1) (skein_rounds (drop 4 R512_table)
       (I512 kw (2 * R) (skein_rounds (take 4 R512_table) X)))"

section \<open>Key injection, looping\<close>

text \<open>
  \<open>I1024(R)\<close> in the loop, with \<open>s = r + R\<close>: the key words move along and the word left behind is
  appended. The tweak words written behind \<open>ts[2]\<close> take the places of key words already used.
\<close>

definition I1024 :: "nat \<Rightarrow> u64 list \<times> u64 list \<Rightarrow> u64 list \<times> u64 list" where
  "I1024 s Xkw =
     (let (X, kw) = Xkw;
          X = [X ! 0 + kw ! (3 + (s + 0)),
               X ! 1 + kw ! (3 + (s + 1)),
               X ! 2 + kw ! (3 + (s + 2)),
               X ! 3 + kw ! (3 + (s + 3)),
               X ! 4 + kw ! (3 + (s + 4)),
               X ! 5 + kw ! (3 + (s + 5)),
               X ! 6 + kw ! (3 + (s + 6)),
               X ! 7 + kw ! (3 + (s + 7)),
               X ! 8 + kw ! (3 + (s + 8)),
               X ! 9 + kw ! (3 + (s + 9)),
               X ! 10 + kw ! (3 + (s + 10)),
               X ! 11 + kw ! (3 + (s + 11)),
               X ! 12 + kw ! (3 + (s + 12)),
               X ! 13 + (kw ! (3 + (s + 13)) + kw ! (s + 0)),
               X ! 14 + (kw ! (3 + (s + 14)) + kw ! (s + 1)),
               X ! 15 + (kw ! (3 + (s + 15)) + word_of_nat s)];
          kw = kw[3 + (s + 16) := kw ! (3 + (s - 1))];
          kw = kw[s + 2 := kw ! (s - 1)]
      in (X, kw))"

definition R1024_8_rounds :: "u64 list \<times> u64 list \<Rightarrow> nat \<Rightarrow> u64 list \<times> u64 list" where
  "R1024_8_rounds Xkw r =
     (let (X, kw) = Xkw;
          (X, kw) = I1024 (r + 0) (skein_rounds (take 4 R1024_table) X, kw)
      in I1024 (r + 1) (skein_rounds (drop 4 R1024_table) X, kw))"

section \<open>One block\<close>

text \<open>
  The new chaining words from the old ones \<open>c\<close>, the tweak words \<open>t0\<close> and \<open>t1\<close> of this block and its
  bytes.
\<close>

definition Skein_256_block :: "u64 list \<Rightarrow> u64 \<Rightarrow> u64 \<Rightarrow> bytes \<Rightarrow> u64 list" where
  "Skein_256_block c t0 t1 blk =
     (let parity = c ! 0 XOR c ! 1 XOR c ! 2 XOR c ! 3 XOR SKEIN_KS_PARITY;
          kw = [t0, t1, t0 XOR t1] @ take 4 c @ [parity];
          w = Skein_Get64_LSB_First 4 blk;
          X = [w ! 0 + kw ! 3, w ! 1 + kw ! 4 + kw ! 0,
               w ! 2 + kw ! 5 + kw ! 1, w ! 3 + kw ! 6];
          X = foldl (R256_8_rounds kw) X [0..<9]
      in map (\<lambda>i. X ! i XOR w ! i) [0..<4])"

definition Skein_512_block :: "u64 list \<Rightarrow> u64 \<Rightarrow> u64 \<Rightarrow> bytes \<Rightarrow> u64 list" where
  "Skein_512_block c t0 t1 blk =
     (let parity = c ! 0 XOR c ! 1 XOR c ! 2 XOR c ! 3 XOR c ! 4 XOR c ! 5 XOR c ! 6 XOR c ! 7 XOR SKEIN_KS_PARITY;
          kw = [t0, t1, t0 XOR t1] @ take 8 c @ [parity];
          w = Skein_Get64_LSB_First 8 blk;
          X = [w ! 0 + kw ! 3, w ! 1 + kw ! 4,
               w ! 2 + kw ! 5, w ! 3 + kw ! 6,
               w ! 4 + kw ! 7, w ! 5 + kw ! 8 + kw ! 0,
               w ! 6 + kw ! 9 + kw ! 1, w ! 7 + kw ! 10];
          X = foldl (R512_8_rounds kw) X [0..<9]
      in map (\<lambda>i. X ! i XOR w ! i) [0..<8])"

definition Skein1024_block :: "u64 list \<Rightarrow> u64 \<Rightarrow> u64 \<Rightarrow> bytes \<Rightarrow> u64 list" where
  "Skein1024_block c t0 t1 blk =
     (let parity = c ! 0 XOR c ! 1 XOR c ! 2 XOR c ! 3 XOR c ! 4 XOR c ! 5 XOR c ! 6 XOR c ! 7 XOR
               c ! 8 XOR c ! 9 XOR c ! 10 XOR c ! 11 XOR c ! 12 XOR c ! 13 XOR c ! 14 XOR c ! 15 XOR SKEIN_KS_PARITY;
          kw = [t0, t1, t0 XOR t1] @ take 16 c @ [parity] @ replicate 20 0;
          w = Skein_Get64_LSB_First 16 blk;
          X = [w ! 0 + kw ! 3, w ! 1 + kw ! 4,
               w ! 2 + kw ! 5, w ! 3 + kw ! 6,
               w ! 4 + kw ! 7, w ! 5 + kw ! 8,
               w ! 6 + kw ! 9, w ! 7 + kw ! 10,
               w ! 8 + kw ! 11, w ! 9 + kw ! 12,
               w ! 10 + kw ! 13, w ! 11 + kw ! 14,
               w ! 12 + kw ! 15, w ! 13 + kw ! 16 + kw ! 0,
               w ! 14 + kw ! 17 + kw ! 1, w ! 15 + kw ! 18];
          (X, kw) = foldl R1024_8_rounds (X, kw) (map (\<lambda>k. 1 + 2 * k) [0..<10])
      in map (\<lambda>i. X ! i XOR w ! i) [0..<16])"

end
