(* ===== verification/Skein.thy ===== *)
theory Skein
  imports Skein_Block
begin

text \<open>
  The Skein hash of \<open>src/src/hash/skein.cpp\<close>: contexts, initialisation with the precomputed chaining
  values of \<open>skein_iv.h\<close>, the buffered update and the output in counter mode. The three sizes have
  the same code over their own block function; what they share is written once here, with the block
  size \<open>bb\<close> in bytes and the block function as arguments.

  The checks \<open>Skein_Assert\<close> are compiled out in this commit and every function returns
  \<open>SKEIN_SUCCESS\<close>. A message is the list of its \<open>msgByteCnt\<close> bytes, its sizes are natural numbers; the
  fault \<open>Out_of_range\<close> is an access outside the buffer or the message. The buffer never holds more than a
  block (\<open>bCnt <= bb\<close>), which \<open>Init\<close> establishes and \<open>Update\<close> keeps.
\<close>

section \<open>Contexts\<close>

record skein =
  hashBitLen :: u64
  bCnt :: nat
  tweak0 :: u64
  tweak1 :: u64
  chain :: "u64 list"
  buffer :: bytes

definition SKEIN_T1_BLK_TYPE :: "u64 \<Rightarrow> u64" where
  "SKEIN_T1_BLK_TYPE T = push_bit (120 - 64) T"

definition SKEIN_T1_BLK_TYPE_KEY :: u64 where
  "SKEIN_T1_BLK_TYPE_KEY = SKEIN_T1_BLK_TYPE 0"

definition SKEIN_T1_BLK_TYPE_MSG :: u64 where
  "SKEIN_T1_BLK_TYPE_MSG = SKEIN_T1_BLK_TYPE 48"

definition SKEIN_T1_BLK_TYPE_CFG_FINAL :: u64 where
  "SKEIN_T1_BLK_TYPE_CFG_FINAL = SKEIN_T1_BLK_TYPE 4 OR SKEIN_T1_FLAG_FINAL"

definition SKEIN_T1_BLK_TYPE_OUT_FINAL :: u64 where
  "SKEIN_T1_BLK_TYPE_OUT_FINAL = SKEIN_T1_BLK_TYPE 63 OR SKEIN_T1_FLAG_FINAL"

definition SKEIN_SCHEMA_VER :: u64 where
  "SKEIN_SCHEMA_VER = SKEIN_MK_64 1 0x33414853"

definition SKEIN_CFG_STR_LEN :: nat where
  "SKEIN_CFG_STR_LEN = 4 * 8"

definition Skein_Start_New_Type :: "u64 \<Rightarrow> skein \<Rightarrow> skein" where
  "Skein_Start_New_Type T ctx =
     ctx\<lparr>tweak0 := 0, tweak1 := SKEIN_T1_FLAG_FIRST OR T, bCnt := 0\<rparr>"

section \<open>Processing blocks\<close>

text \<open>
  The \<open>do \<dots> while (--blkCnt)\<close> loop of the block functions. It is never entered with 0 blocks;
  with 0 it would run on past the end of the message.
\<close>

fun process_loop ::
  "(u64 list \<Rightarrow> u64 \<Rightarrow> u64 \<Rightarrow> bytes \<Rightarrow> u64 list) \<Rightarrow> nat \<Rightarrow> nat \<Rightarrow> u64 \<Rightarrow> bytes \<Rightarrow>
   u64 list \<times> u64 \<times> u64 \<Rightarrow> (u64 list \<times> u64 \<times> u64) res" where
  "process_loop f bb 0 byteCntAdd blk s = Inl Out_of_range"
| "process_loop f bb (Suc n) byteCntAdd blk (X, t0, t1) =
     (if length blk < bb then Inl Out_of_range
      else let t0 = t0 + byteCntAdd;
               s = (f X t0 t1 (take bb blk), t0, t1 AND NOT SKEIN_T1_FLAG_FIRST)
           in if n = 0 then Inr s else process_loop f bb n byteCntAdd (drop bb blk) s)"

definition process_blocks ::
  "(u64 list \<Rightarrow> u64 \<Rightarrow> u64 \<Rightarrow> bytes \<Rightarrow> u64 list) \<Rightarrow> nat \<Rightarrow> skein \<Rightarrow> bytes \<Rightarrow> nat \<Rightarrow> nat \<Rightarrow> skein res" where
  "process_blocks f bb ctx blk blkCnt byteCntAdd =
     rbind (process_loop f bb blkCnt (word_of_nat byteCntAdd) blk (chain ctx, tweak0 ctx, tweak1 ctx))
       (\<lambda>(X, t0, t1). Inr (ctx\<lparr>chain := X, tweak0 := t0, tweak1 := t1\<rparr>))"

definition Skein_256_Process_Block :: "skein \<Rightarrow> bytes \<Rightarrow> nat \<Rightarrow> nat \<Rightarrow> skein res" where
  "Skein_256_Process_Block = process_blocks Skein_256_block 32"

definition Skein_512_Process_Block :: "skein \<Rightarrow> bytes \<Rightarrow> nat \<Rightarrow> nat \<Rightarrow> skein res" where
  "Skein_512_Process_Block = process_blocks Skein_512_block 64"

definition Skein1024_Process_Block :: "skein \<Rightarrow> bytes \<Rightarrow> nat \<Rightarrow> nat \<Rightarrow> skein res" where
  "Skein1024_Process_Block = process_blocks Skein1024_block 128"

type_synonym block_processor = "skein \<Rightarrow> bytes \<Rightarrow> nat \<Rightarrow> nat \<Rightarrow> skein res"

section \<open>Precomputed chaining values\<close>

definition SKEIN_256_IV_128 :: "u64 list" where
  "SKEIN_256_IV_128 =
     [SKEIN_MK_64 0x302F7EA2 0x3D7FE2E1, SKEIN_MK_64 0xADE4683A 0x6913752B,
      SKEIN_MK_64 0x975CFABE 0xF208AB0A, SKEIN_MK_64 0x2AF4BA95 0xF831F55B]"

definition SKEIN_256_IV_160 :: "u64 list" where
  "SKEIN_256_IV_160 =
     [SKEIN_MK_64 0xA38A0D80 0xA3687723, SKEIN_MK_64 0xB73CDB6A 0x5963FFC9,
      SKEIN_MK_64 0x9633E8EA 0x07A1B447, SKEIN_MK_64 0xCA0ED09E 0xC9529C22]"

definition SKEIN_256_IV_224 :: "u64 list" where
  "SKEIN_256_IV_224 =
     [SKEIN_MK_64 0xB8092969 0x9AE0F431, SKEIN_MK_64 0xD340DC14 0xA06929DC,
      SKEIN_MK_64 0xAE866594 0xBDE4DC5A, SKEIN_MK_64 0x339767C2 0x5A60EA1D]"

definition SKEIN_256_IV_256 :: "u64 list" where
  "SKEIN_256_IV_256 =
     [SKEIN_MK_64 0x38851268 0x0E660046, SKEIN_MK_64 0x4B72D5DE 0xC5A8FF01,
      SKEIN_MK_64 0x281A9298 0xCA5EB3A5, SKEIN_MK_64 0x54CA5249 0xF46070C4]"

definition SKEIN_512_IV_128 :: "u64 list" where
  "SKEIN_512_IV_128 =
     [SKEIN_MK_64 0x477DF9EF 0xAFC4F08A, SKEIN_MK_64 0x7A64D342 0x33660E14,
      SKEIN_MK_64 0x71653C44 0xCEBC89C5, SKEIN_MK_64 0x63D2A36D 0x65B0AB91,
      SKEIN_MK_64 0x52B93FB0 0x9782EA89, SKEIN_MK_64 0x20F36980 0x8B960829,
      SKEIN_MK_64 0xE8DF80FB 0x30303B9B, SKEIN_MK_64 0xB89D3902 0x1A476D1F]"

definition SKEIN_512_IV_160 :: "u64 list" where
  "SKEIN_512_IV_160 =
     [SKEIN_MK_64 0x0045FA2C 0xAD913A2C, SKEIN_MK_64 0xF45C9A76 0xBF75CE81,
      SKEIN_MK_64 0x0ED758A9 0x3D1F266B, SKEIN_MK_64 0xC0E65E85 0x1EDCD67A,
      SKEIN_MK_64 0x1E024D51 0xF5E7583E, SKEIN_MK_64 0xA271F855 0x4E52B0E1,
      SKEIN_MK_64 0x5292867D 0x8AC674F9, SKEIN_MK_64 0xADA325FA 0x60C3B226]"

definition SKEIN_512_IV_224 :: "u64 list" where
  "SKEIN_512_IV_224 =
     [SKEIN_MK_64 0xF2DAA169 0x8216CC98, SKEIN_MK_64 0x00E06A48 0x8983AE05,
      SKEIN_MK_64 0xC080CEA9 0x5948958F, SKEIN_MK_64 0x2A8F314B 0x57F4ADD1,
      SKEIN_MK_64 0xBCD06591 0x360A405A, SKEIN_MK_64 0xF81A11A1 0x02D91F70,
      SKEIN_MK_64 0x85C6FFA5 0x4810A739, SKEIN_MK_64 0x1E07AFE0 0x1802CE74]"

definition SKEIN_512_IV_256 :: "u64 list" where
  "SKEIN_512_IV_256 =
     [SKEIN_MK_64 0x88C07F38 0xD4F95AD4, SKEIN_MK_64 0x3DF0D33A 0x8610E240,
      SKEIN_MK_64 0x3E243F6E 0xDB6FAC74, SKEIN_MK_64 0xBAC4F4CD 0xD7A90A24,
      SKEIN_MK_64 0xDF90FD1F 0xDEEEBA04, SKEIN_MK_64 0xA4F5796B 0xDB7FDDA8,
      SKEIN_MK_64 0xDA182FD2 0x964BC923, SKEIN_MK_64 0x55F76677 0xEF6961F9]"

definition SKEIN_512_IV_384 :: "u64 list" where
  "SKEIN_512_IV_384 =
     [SKEIN_MK_64 0xE5BF4D02 0xBA62494C, SKEIN_MK_64 0x7AA1EABC 0xC3E6FC68,
      SKEIN_MK_64 0xBBE5FC26 0xE1038C5A, SKEIN_MK_64 0x53C9903E 0x8F88E9FA,
      SKEIN_MK_64 0xF30D8DDD 0xFB940C83, SKEIN_MK_64 0x500FDA3C 0x4865ABEC,
      SKEIN_MK_64 0x2226C67F 0x745BC5E7, SKEIN_MK_64 0x015DA800 0x77C639F7]"

definition SKEIN_512_IV_512 :: "u64 list" where
  "SKEIN_512_IV_512 =
     [SKEIN_MK_64 0xA8D47980 0x544A6E32, SKEIN_MK_64 0x84751153 0x3E9B1A8A,
      SKEIN_MK_64 0x6FAEE870 0xD8E81A00, SKEIN_MK_64 0x58B0D9D6 0xCB557F92,
      SKEIN_MK_64 0x9BBC0051 0xDAC1D4E9, SKEIN_MK_64 0xB744E2B1 0xD189E7CA,
      SKEIN_MK_64 0x979350FA 0x709C5EF3, SKEIN_MK_64 0x0350125A 0x92067BCD]"

definition SKEIN1024_IV_384 :: "u64 list" where
  "SKEIN1024_IV_384 =
     [SKEIN_MK_64 0x7600B2E3 0x9FC73E48, SKEIN_MK_64 0x7A4543BB 0xECCD60E4,
      SKEIN_MK_64 0x8AB879D6 0x2F53E192, SKEIN_MK_64 0x14847919 0xA7F0AC6E,
      SKEIN_MK_64 0x4F774735 0xAA99CB7F, SKEIN_MK_64 0x607CF3C2 0x41760EE1,
      SKEIN_MK_64 0xC0BF6D7B 0xFF9F27DB, SKEIN_MK_64 0x7D321485 0x99342254,
      SKEIN_MK_64 0xE7231BB0 0xCDF9DD49, SKEIN_MK_64 0x641DE8E6 0x464DB3F4,
      SKEIN_MK_64 0x05613046 0xA01CF005, SKEIN_MK_64 0x7347EE0B 0xB09E8BCC,
      SKEIN_MK_64 0x5103A256 0x161A26FF, SKEIN_MK_64 0x8161EAC4 0x3A1176C2,
      SKEIN_MK_64 0xB9607373 0xCF92C2CC, SKEIN_MK_64 0xFDE8D4AD 0xD376300D]"

definition SKEIN1024_IV_512 :: "u64 list" where
  "SKEIN1024_IV_512 =
     [SKEIN_MK_64 0x8CF63BE5 0xE1EDF4B7, SKEIN_MK_64 0x256FD425 0xCBDE61EB,
      SKEIN_MK_64 0x497B412D 0xEBA3EF9D, SKEIN_MK_64 0x3CBD412A 0xD8293FBA,
      SKEIN_MK_64 0xD5AE34D6 0xF26F646E, SKEIN_MK_64 0x72879C01 0x0DA17B79,
      SKEIN_MK_64 0x61BD8F18 0x05AFF621, SKEIN_MK_64 0x75CB3C94 0x9CE0E463,
      SKEIN_MK_64 0xAF27329D 0x2CD71E37, SKEIN_MK_64 0x7DB5EC5E 0x1141CE9F,
      SKEIN_MK_64 0x76484C13 0x20CAB67B, SKEIN_MK_64 0x57EB52A6 0x561BE8C5,
      SKEIN_MK_64 0x51161125 0xE681412D, SKEIN_MK_64 0xF510D937 0x5439A9BC,
      SKEIN_MK_64 0xD18AF77C 0xFC425E3C, SKEIN_MK_64 0xEB05160C 0x3FEBB037]"

definition SKEIN1024_IV_1024 :: "u64 list" where
  "SKEIN1024_IV_1024 =
     [SKEIN_MK_64 0x5A4352BE 0x62092156, SKEIN_MK_64 0x5F6E8B1A 0x72F001CA,
      SKEIN_MK_64 0xFFCBFE9C 0xA1A2CE26, SKEIN_MK_64 0x6C23C396 0x67038BCA,
      SKEIN_MK_64 0x583A8BFC 0xCE34EB6C, SKEIN_MK_64 0x3FDBFB11 0xD4A46A3E,
      SKEIN_MK_64 0x3304ACFC 0xA8300998, SKEIN_MK_64 0xB2F6675F 0xA17F0FD2,
      SKEIN_MK_64 0x9D259973 0x0EF7AB6B, SKEIN_MK_64 0x0914A20D 0x3DFEA9E4,
      SKEIN_MK_64 0xCC1A9CAF 0xA494DBD3, SKEIN_MK_64 0x9828030D 0xA0A6388C,
      SKEIN_MK_64 0x0D339D5D 0xAADEE3DC, SKEIN_MK_64 0xFC46DE35 0xC4E2A086,
      SKEIN_MK_64 0x53D6E4F5 0x2E19A6D1, SKEIN_MK_64 0x5663952F 0x715D1DDD]"

section \<open>Initialisation\<close>

text \<open>The configuration block of \<open>bb\<close> bytes, and the branch of \<open>Init\<close> that processes it.\<close>

definition skein_config :: "nat \<Rightarrow> u64 \<Rightarrow> u64 \<Rightarrow> bytes" where
  "skein_config bb bitlen treeInfo =
     lane_bytes SKEIN_SCHEMA_VER @ lane_bytes bitlen @ lane_bytes treeInfo @ replicate (bb - 24) 0"

definition skein_init_computed :: "block_processor \<Rightarrow> nat \<Rightarrow> u64 \<Rightarrow> skein \<Rightarrow> skein res" where
  "skein_init_computed pb bb bitlen ctx =
     pb ((Skein_Start_New_Type SKEIN_T1_BLK_TYPE_CFG_FINAL ctx)\<lparr>chain := replicate (bb div 8) 0\<rparr>)
       (skein_config bb bitlen 0) 1 SKEIN_CFG_STR_LEN"

definition skein_init ::
  "block_processor \<Rightarrow> nat \<Rightarrow> (u64 \<Rightarrow> u64 list option) \<Rightarrow> skein \<Rightarrow> u64 \<Rightarrow> skein res" where
  "skein_init pb bb precomputed ctx bitlen =
     (let ctx = ctx\<lparr>hashBitLen := bitlen\<rparr> in
      rbind (case precomputed bitlen of
               Some iv \<Rightarrow> Inr (ctx\<lparr>chain := iv\<rparr>)
             | None \<Rightarrow> skein_init_computed pb bb bitlen ctx) (\<lambda>ctx.
        Inr (Skein_Start_New_Type SKEIN_T1_BLK_TYPE_MSG ctx)))"

definition precomputed_256 :: "u64 \<Rightarrow> u64 list option" where
  "precomputed_256 bitlen =
     (if bitlen = 256 then Some SKEIN_256_IV_256
      else if bitlen = 224 then Some SKEIN_256_IV_224
      else if bitlen = 160 then Some SKEIN_256_IV_160
      else if bitlen = 128 then Some SKEIN_256_IV_128
      else None)"

definition precomputed_512 :: "u64 \<Rightarrow> u64 list option" where
  "precomputed_512 bitlen =
     (if bitlen = 512 then Some SKEIN_512_IV_512
      else if bitlen = 384 then Some SKEIN_512_IV_384
      else if bitlen = 256 then Some SKEIN_512_IV_256
      else if bitlen = 224 then Some SKEIN_512_IV_224
      else None)"

definition precomputed_1024 :: "u64 \<Rightarrow> u64 list option" where
  "precomputed_1024 bitlen =
     (if bitlen = 512 then Some SKEIN1024_IV_512
      else if bitlen = 384 then Some SKEIN1024_IV_384
      else if bitlen = 1024 then Some SKEIN1024_IV_1024
      else None)"

definition Skein_256_Init :: "skein \<Rightarrow> u64 \<Rightarrow> skein res" where
  "Skein_256_Init = skein_init Skein_256_Process_Block 32 precomputed_256"

definition Skein_512_Init :: "skein \<Rightarrow> u64 \<Rightarrow> skein res" where
  "Skein_512_Init = skein_init Skein_512_Process_Block 64 precomputed_512"

definition Skein1024_Init :: "skein \<Rightarrow> u64 \<Rightarrow> skein res" where
  "Skein1024_Init = skein_init Skein1024_Process_Block 128 precomputed_1024"

section \<open>Update\<close>

definition buffer_write :: "nat \<Rightarrow> bytes \<Rightarrow> bytes \<Rightarrow> bytes res" where
  "buffer_write pos bs buf =
     (if pos + length bs \<le> length buf then Inr (take pos buf @ bs @ drop (pos + length bs) buf)
      else Inl Out_of_range)"

text \<open>\<open>memcpy\<close> of the first \<open>n\<close> bytes of the message behind the buffered ones.\<close>

definition buffer_message :: "skein \<Rightarrow> bytes \<Rightarrow> nat \<Rightarrow> skein res" where
  "buffer_message ctx msg n =
     (if n \<le> length msg
      then rbind (buffer_write (bCnt ctx) (take n msg) (buffer ctx)) (\<lambda>buf.
             Inr (ctx\<lparr>buffer := buf, bCnt := bCnt ctx + n\<rparr>))
      else Inl Out_of_range)"

definition skein_update :: "block_processor \<Rightarrow> nat \<Rightarrow> skein \<Rightarrow> bytes \<Rightarrow> skein res" where
  "skein_update pb bb ctx msg =
     rbind (if length msg + bCnt ctx > bb
            then rbind (if bCnt ctx \<noteq> 0
                        then let n = bb - bCnt ctx in
                             rbind (if n \<noteq> 0 then buffer_message ctx msg n else Inr ctx) (\<lambda>ctx.
                             rbind (pb ctx (buffer ctx) 1 bb) (\<lambda>ctx.
                               Inr (ctx\<lparr>bCnt := 0\<rparr>, drop n msg)))
                        else Inr (ctx, msg)) (\<lambda>(ctx, msg).
                 if length msg > bb
                 then let n = (length msg - 1) div bb in
                      rbind (pb ctx msg n bb) (\<lambda>ctx. Inr (ctx, drop (n * bb) msg))
                 else Inr (ctx, msg))
            else Inr (ctx, msg)) (\<lambda>(ctx, msg).
       if msg \<noteq> [] then buffer_message ctx msg (length msg) else Inr ctx)"

definition Skein_256_Update :: "skein \<Rightarrow> bytes \<Rightarrow> skein res" where
  "Skein_256_Update = skein_update Skein_256_Process_Block 32"

definition Skein_512_Update :: "skein \<Rightarrow> bytes \<Rightarrow> skein res" where
  "Skein_512_Update = skein_update Skein_512_Process_Block 64"

definition Skein1024_Update :: "skein \<Rightarrow> bytes \<Rightarrow> skein res" where
  "Skein1024_Update = skein_update Skein1024_Process_Block 128"

section \<open>Output\<close>

text \<open>The last block of the message: flagged, padded with zeros, and counted with its own length.\<close>

definition skein_last_block :: "block_processor \<Rightarrow> nat \<Rightarrow> skein \<Rightarrow> skein res" where
  "skein_last_block pb bb ctx =
     (let ctx = ctx\<lparr>tweak1 := tweak1 ctx OR SKEIN_T1_FLAG_FINAL\<rparr> in
      rbind (if bCnt ctx < bb then buffer_write (bCnt ctx) (replicate (bb - bCnt ctx) 0) (buffer ctx)
             else Inr (buffer ctx)) (\<lambda>buf.
        pb (ctx\<lparr>buffer := buf\<rparr>) buf 1 (bCnt ctx)))"

text \<open>
  The counter mode loop from counter \<open>i\<close> on, with the chaining words \<open>X\<close> it restores after every
  block.
\<close>

function counter_mode ::
  "block_processor \<Rightarrow> nat \<Rightarrow> nat \<Rightarrow> u64 list \<Rightarrow> nat \<Rightarrow> skein \<Rightarrow> (skein \<times> bytes) res" where
  "counter_mode pb bb byteCnt X i ctx =
     (if i * bb < byteCnt \<and> bb \<noteq> 0
      then rbind (buffer_write 0 (lane_bytes (word_of_nat i)) (buffer ctx)) (\<lambda>buf.
           let ctx = Skein_Start_New_Type SKEIN_T1_BLK_TYPE_OUT_FINAL (ctx\<lparr>buffer := buf\<rparr>) in
           rbind (pb ctx (buffer ctx) 1 8) (\<lambda>ctx.
           let n = byteCnt - i * bb;
               n = (if n \<ge> bb then bb else n);
               chunk = Skein_Put64_LSB_First (chain ctx) n in
           rbind (counter_mode pb bb byteCnt X (Suc i) (ctx\<lparr>chain := X\<rparr>)) (\<lambda>(ctx, out).
             Inr (ctx, chunk @ out))))
      else Inr (ctx, []))"
  by pat_completeness auto

termination
proof (relation "measure (\<lambda>(pb, bb, byteCnt, X, i, ctx). byteCnt - i * bb)", goal_cases)
  case 1
  then show ?case by simp
next
  case (2 pb bb byteCnt X i ctx)
  then show ?case by (auto intro: diff_less_mono2)
qed

declare counter_mode.simps [simp del]

definition skein_output :: "block_processor \<Rightarrow> nat \<Rightarrow> skein \<Rightarrow> (skein \<times> bytes) res" where
  "skein_output pb bb ctx =
     counter_mode pb bb (unat (drop_bit 3 (hashBitLen ctx + 7))) (chain ctx) 0
       (ctx\<lparr>buffer := replicate bb 0\<rparr>)"

definition skein_final :: "block_processor \<Rightarrow> nat \<Rightarrow> skein \<Rightarrow> (skein \<times> bytes) res" where
  "skein_final pb bb ctx = rbind (skein_last_block pb bb ctx) (skein_output pb bb)"

definition Skein_256_Final :: "skein \<Rightarrow> (skein \<times> bytes) res" where
  "Skein_256_Final = skein_final Skein_256_Process_Block 32"

definition Skein_512_Final :: "skein \<Rightarrow> (skein \<times> bytes) res" where
  "Skein_512_Final = skein_final Skein_512_Process_Block 64"

definition Skein1024_Final :: "skein \<Rightarrow> (skein \<times> bytes) res" where
  "Skein1024_Final = skein_final Skein1024_Process_Block 128"

section \<open>Keys and tree hashing\<close>

definition skein_final_pad :: "block_processor \<Rightarrow> nat \<Rightarrow> skein \<Rightarrow> (skein \<times> bytes) res" where
  "skein_final_pad pb bb ctx =
     rbind (skein_last_block pb bb ctx) (\<lambda>ctx. Inr (ctx, Skein_Put64_LSB_First (chain ctx) bb))"

definition Skein_256_Final_Pad :: "skein \<Rightarrow> (skein \<times> bytes) res" where
  "Skein_256_Final_Pad = skein_final_pad Skein_256_Process_Block 32"

definition Skein_512_Final_Pad :: "skein \<Rightarrow> (skein \<times> bytes) res" where
  "Skein_512_Final_Pad = skein_final_pad Skein_512_Process_Block 64"

definition Skein1024_Final_Pad :: "skein \<Rightarrow> (skein \<times> bytes) res" where
  "Skein1024_Final_Pad = skein_final_pad Skein1024_Process_Block 128"

definition Skein_256_Output :: "skein \<Rightarrow> (skein \<times> bytes) res" where
  "Skein_256_Output = skein_output Skein_256_Process_Block 32"

definition Skein_512_Output :: "skein \<Rightarrow> (skein \<times> bytes) res" where
  "Skein_512_Output = skein_output Skein_512_Process_Block 64"

definition Skein1024_Output :: "skein \<Rightarrow> (skein \<times> bytes) res" where
  "Skein1024_Output = skein_output Skein1024_Process_Block 128"

text \<open>\<open>InitExt\<close>: the key, when there is one, is hashed into the chaining words first.\<close>

definition skein_init_ext ::
  "block_processor \<Rightarrow> nat \<Rightarrow> skein \<Rightarrow> u64 \<Rightarrow> u64 \<Rightarrow> bytes \<Rightarrow> skein res" where
  "skein_init_ext pb bb ctx bitlen treeInfo key =
     rbind (if key = [] then Inr (ctx\<lparr>chain := replicate (bb div 8) 0\<rparr>)
            else rbind (skein_update pb bb
                          ((Skein_Start_New_Type SKEIN_T1_BLK_TYPE_KEY
                             (ctx\<lparr>hashBitLen := word_of_nat (8 * bb)\<rparr>))\<lparr>chain := replicate (bb div 8) 0\<rparr>) key) (\<lambda>ctx.
                 rbind (skein_final_pad pb bb ctx) (\<lambda>(ctx, cfg).
                   Inr (ctx\<lparr>chain := Skein_Get64_LSB_First (bb div 8) cfg\<rparr>)))) (\<lambda>ctx.
     rbind (pb (Skein_Start_New_Type SKEIN_T1_BLK_TYPE_CFG_FINAL (ctx\<lparr>hashBitLen := bitlen\<rparr>))
              (skein_config bb bitlen treeInfo) 1 SKEIN_CFG_STR_LEN) (\<lambda>ctx.
       Inr (Skein_Start_New_Type SKEIN_T1_BLK_TYPE_MSG (ctx\<lparr>bCnt := 0\<rparr>))))"

definition Skein_256_InitExt :: "skein \<Rightarrow> u64 \<Rightarrow> u64 \<Rightarrow> bytes \<Rightarrow> skein res" where
  "Skein_256_InitExt = skein_init_ext Skein_256_Process_Block 32"

definition Skein_512_InitExt :: "skein \<Rightarrow> u64 \<Rightarrow> u64 \<Rightarrow> bytes \<Rightarrow> skein res" where
  "Skein_512_InitExt = skein_init_ext Skein_512_Process_Block 64"

definition Skein1024_InitExt :: "skein \<Rightarrow> u64 \<Rightarrow> u64 \<Rightarrow> bytes \<Rightarrow> skein res" where
  "Skein1024_InitExt = skein_init_ext Skein1024_Process_Block 128"

end
