(* ===== verification/Keccak_Sponge.thy ===== *)
theory Keccak_Sponge
  imports Keccak_F
begin

text \<open>
  The sponge of \<open>src/src/hash/KeccakSponge.cpp\<close> over the permutation. Pointers into the data are the
  rest of the data from that place on; the bytes written through an output pointer are the list the
  operation returns. Counters keep their widths: \<open>unsigned int\<close> for positions and partial blocks,
  \<open>unsigned long long\<close> for the lengths.

  A result is \<open>None\<close> where the code does not return, \<open>Some (Inl e)\<close> where it leaves the state or the
  data, and \<open>Some (Inr r)\<close> where it returns \<open>r\<close>, whose first component is the return code.
\<close>

section \<open>The instance\<close>

record sponge =
  kstate :: bytes
  rate :: u32
  byteIOIndex :: u32
  squeezing :: bool

definition Keccak_SpongeInitialize :: "sponge \<Rightarrow> u32 \<Rightarrow> u32 \<Rightarrow> int \<times> sponge" where
  "Keccak_SpongeInitialize inst r capacity =
     (if r + capacity \<noteq> 1600 then (1, inst)
      else if r \<le> 0 \<or> r > 1600 \<or> r mod 8 \<noteq> 0 then (1, inst)
      else (0, inst\<lparr>kstate := KeccakF1600_StateInitialize, rate := r, byteIOIndex := 0,
                    squeezing := False\<rparr>))"

section \<open>Absorbing\<close>

text \<open>The fast lane: the \<open>for\<close> loop over whole blocks, \<open>j\<close> the bytes left.\<close>

definition absorb_block :: "u32 \<Rightarrow> bytes \<Rightarrow> bytes \<Rightarrow> bytes res" where
  "absorb_block rateInBytes m cur =
     rbind (if rateInBytes mod 8 > 0
            then KeccakF1600_StateXORBytesInLane m (rateInBytes div 8)
                   (drop (unat (rateInBytes div 8 * 8)) cur) 0 (rateInBytes mod 8)
            else Inr m) (\<lambda>m1.
     rbind (KeccakF1600_StateXORPermuteExtract m1 cur (rateInBytes div 8) 0) (\<lambda>(m2, _). Inr m2))"

partial_function (option) absorb_blocks ::
  "u32 \<Rightarrow> bytes \<Rightarrow> bytes \<Rightarrow> u64 \<Rightarrow> (bytes \<times> bytes \<times> u64) res option" where
  "absorb_blocks rateInBytes m cur j =
     (if j \<ge> ucast rateInBytes
      then (case absorb_block rateInBytes m cur of
              Inl e \<Rightarrow> Some (Inl e)
            | Inr m1 \<Rightarrow> absorb_blocks rateInBytes m1 (drop (unat rateInBytes) cur) (j - ucast rateInBytes))
      else Some (Inr (m, cur, j)))"

text \<open>The bytes up to the end of the lane, or what is left of the partial block.\<close>

lemma lane_chunk:
  fixes idx pb :: u32
  assumes "pb > 0"
  defines "k \<equiv> (if 8 - idx mod 8 > pb then pb else 8 - idx mod 8)"
  shows "unat k = min (8 - unat idx mod 8) (unat pb)" and "0 < unat k" and "k \<le> pb"
proof -
  have m: "unat (idx mod 8) = unat idx mod 8" by (simp add: unat_mod)
  then have "idx mod 8 < 8" by (simp add: word_less_nat_alt)
  then have s: "unat (8 - idx mod 8) = 8 - unat idx mod 8"
    by (simp add: unat_sub m order_less_imp_le)
  from assms(1) have "0 < unat pb" by (simp add: word_less_nat_alt)
  then show "unat k = min (8 - unat idx mod 8) (unat pb)" and "0 < unat k" and "k \<le> pb"
    by (auto simp: k_def word_less_nat_alt word_le_nat_alt s)
qed

text \<open>The inner loop \<open>while(partialBlock > 0)\<close> of the normal lane.\<close>

function absorb_tail :: "bytes \<Rightarrow> u32 \<Rightarrow> bytes \<Rightarrow> u32 \<Rightarrow> (bytes \<times> u32 \<times> bytes) res" where
  "absorb_tail m idx cur partialBlock =
     (if partialBlock > 0
      then let offsetInLane = idx mod 8;
               bytesInLane = 8 - offsetInLane;
               bytesInLane = (if bytesInLane > partialBlock then partialBlock else bytesInLane)
           in rbind (KeccakF1600_StateXORBytesInLane m (idx div 8) cur offsetInLane bytesInLane) (\<lambda>m1.
              absorb_tail m1 (idx + bytesInLane) (drop (unat bytesInLane) cur) (partialBlock - bytesInLane))
      else Inr (m, idx, cur))"
  by pat_completeness auto

termination
proof (relation "measure (\<lambda>(m, idx, cur, pb). unat pb)", goal_cases)
  case 1
  then show ?case by simp
next
  case (2 m idx cur pb x xa xb y)
  then show ?case
    using lane_chunk [OF 2(1), of idx] by (auto simp: unat_sub split: if_splits)
qed

declare absorb_tail.simps [simp del]

text \<open>One turn of the normal lane: at most one partial block goes through the message queue.\<close>

definition absorb_queue :: "sponge \<Rightarrow> bytes \<Rightarrow> u64 \<Rightarrow> u64 \<Rightarrow> (sponge \<times> bytes \<times> u64) res" where
  "absorb_queue inst cur i dataByteLen =
     (let rateInBytes = rate inst div 8;
          partialBlock = ucast (dataByteLen - i);
          partialBlock = (if partialBlock + byteIOIndex inst > rateInBytes
                          then rateInBytes - byteIOIndex inst else partialBlock);
          i = i + ucast partialBlock in
      rbind (if byteIOIndex inst = 0 \<and> partialBlock \<ge> 8
             then rbind (KeccakF1600_StateXORLanes (kstate inst) cur (partialBlock div 8)) (\<lambda>m.
                    Inr (m, byteIOIndex inst + partialBlock div 8 * 8,
                         drop (unat (partialBlock div 8 * 8)) cur,
                         partialBlock - partialBlock div 8 * 8))
             else Inr (kstate inst, byteIOIndex inst, cur, partialBlock)) (\<lambda>(m, idx, cur, partialBlock).
      rbind (absorb_tail m idx cur partialBlock) (\<lambda>(m, idx, cur).
        Inr (if idx = rateInBytes
             then inst\<lparr>kstate := KeccakF1600_StatePermute m, byteIOIndex := 0\<rparr>
             else inst\<lparr>kstate := m, byteIOIndex := idx\<rparr>, cur, i))))"

partial_function (option) absorb_loop :: "sponge \<Rightarrow> bytes \<Rightarrow> u64 \<Rightarrow> u64 \<Rightarrow> sponge res option" where
  "absorb_loop inst cur i dataByteLen =
     (if i < dataByteLen then
        if byteIOIndex inst = 0 \<and> dataByteLen \<ge> i + ucast (rate inst div 8)
        then Option.bind (absorb_blocks (rate inst div 8) (kstate inst) cur (dataByteLen - i)) (\<lambda>r.
               case r of
                 Inl e \<Rightarrow> Some (Inl e)
               | Inr (m, cur1, j) \<Rightarrow> absorb_loop (inst\<lparr>kstate := m\<rparr>) cur1 (dataByteLen - j) dataByteLen)
        else (case absorb_queue inst cur i dataByteLen of
                Inl e \<Rightarrow> Some (Inl e)
              | Inr (inst1, cur1, i1) \<Rightarrow> absorb_loop inst1 cur1 i1 dataByteLen)
      else Some (Inr inst))"

definition Keccak_SpongeAbsorb :: "sponge \<Rightarrow> bytes \<Rightarrow> u64 \<Rightarrow> (int \<times> sponge) res option" where
  "Keccak_SpongeAbsorb inst data dataByteLen =
     (if squeezing inst then Some (Inr (1, inst))
      else map_option (\<lambda>r. rbind r (\<lambda>inst1. Inr (0, inst1))) (absorb_loop inst data 0 dataByteLen))"

definition Keccak_SpongeAbsorbLastFewBits :: "sponge \<Rightarrow> u8 \<Rightarrow> (int \<times> sponge) res" where
  "Keccak_SpongeAbsorbLastFewBits inst delimitedData =
     (let rateInBytes = rate inst div 8 in
      if delimitedData = 0 then Inr (1, inst)
      else if squeezing inst then Inr (1, inst)
      else rbind (KeccakF1600_StateXORBytesInLane (kstate inst) (byteIOIndex inst div 8) [delimitedData]
                    (byteIOIndex inst mod 8) 1) (\<lambda>m.
           let m = (if delimitedData \<ge> 0x80 \<and> byteIOIndex inst = rateInBytes - 1
                    then KeccakF1600_StatePermute m else m) in
           rbind (KeccakF1600_StateComplementBit m (rateInBytes * 8 - 1)) (\<lambda>m.
             Inr (0, inst\<lparr>kstate := KeccakF1600_StatePermute m, byteIOIndex := 0, squeezing := True\<rparr>))))"

section \<open>Squeezing\<close>

definition squeeze_block :: "u32 \<Rightarrow> bytes \<Rightarrow> (bytes \<times> bytes) res" where
  "squeeze_block rateInBytes m =
     rbind (KeccakF1600_StateXORPermuteExtract m [] 0 (rateInBytes div 8)) (\<lambda>(m1, out1).
     rbind (if rateInBytes mod 8 > 0
            then KeccakF1600_StateExtractBytesInLane m1 (rateInBytes div 8) 0 (rateInBytes mod 8)
            else Inr []) (\<lambda>out2. Inr (m1, out1 @ out2)))"

partial_function (option) squeeze_blocks ::
  "u32 \<Rightarrow> bytes \<Rightarrow> u64 \<Rightarrow> bytes \<Rightarrow> (bytes \<times> u64 \<times> bytes) res option" where
  "squeeze_blocks rateInBytes m j out =
     (if j \<ge> ucast rateInBytes
      then (case squeeze_block rateInBytes m of
              Inl e \<Rightarrow> Some (Inl e)
            | Inr (m1, blk) \<Rightarrow> squeeze_blocks rateInBytes m1 (j - ucast rateInBytes) (out @ blk))
      else Some (Inr (m, j, out)))"

function squeeze_tail :: "bytes \<Rightarrow> u32 \<Rightarrow> u32 \<Rightarrow> bytes \<Rightarrow> (u32 \<times> bytes) res" where
  "squeeze_tail m idx partialBlock out =
     (if partialBlock > 0
      then let offsetInLane = idx mod 8;
               bytesInLane = 8 - offsetInLane;
               bytesInLane = (if bytesInLane > partialBlock then partialBlock else bytesInLane)
           in rbind (KeccakF1600_StateExtractBytesInLane m (idx div 8) offsetInLane bytesInLane) (\<lambda>chunk.
              squeeze_tail m (idx + bytesInLane) (partialBlock - bytesInLane) (out @ chunk))
      else Inr (idx, out))"
  by pat_completeness auto

termination
proof (relation "measure (\<lambda>(m, idx, pb, out). unat pb)", goal_cases)
  case 1
  then show ?case by simp
next
  case (2 m idx pb out x xa xb y)
  then show ?case
    using lane_chunk [OF 2(1), of idx] by (auto simp: unat_sub split: if_splits)
qed

declare squeeze_tail.simps [simp del]

definition squeeze_queue :: "sponge \<Rightarrow> u64 \<Rightarrow> u64 \<Rightarrow> bytes \<Rightarrow> (sponge \<times> u64 \<times> bytes) res" where
  "squeeze_queue inst i dataByteLen out =
     (let rateInBytes = rate inst div 8;
          inst = (if byteIOIndex inst = rateInBytes
                  then inst\<lparr>kstate := KeccakF1600_StatePermute (kstate inst), byteIOIndex := 0\<rparr> else inst);
          partialBlock = ucast (dataByteLen - i);
          partialBlock = (if partialBlock + byteIOIndex inst > rateInBytes
                          then rateInBytes - byteIOIndex inst else partialBlock);
          i = i + ucast partialBlock in
      rbind (if byteIOIndex inst = 0 \<and> partialBlock \<ge> 8
             then rbind (KeccakF1600_StateExtractLanes (kstate inst) (partialBlock div 8)) (\<lambda>chunk.
                    Inr (byteIOIndex inst + partialBlock div 8 * 8,
                         partialBlock - partialBlock div 8 * 8, out @ chunk))
             else Inr (byteIOIndex inst, partialBlock, out)) (\<lambda>(idx, partialBlock, out).
      rbind (squeeze_tail (kstate inst) idx partialBlock out) (\<lambda>(idx, out).
        Inr (inst\<lparr>byteIOIndex := idx\<rparr>, i, out))))"

partial_function (option) squeeze_loop ::
  "sponge \<Rightarrow> u64 \<Rightarrow> u64 \<Rightarrow> bytes \<Rightarrow> (sponge \<times> bytes) res option" where
  "squeeze_loop inst i dataByteLen out =
     (if i < dataByteLen then
        if byteIOIndex inst = rate inst div 8 \<and> dataByteLen \<ge> i + ucast (rate inst div 8)
        then Option.bind (squeeze_blocks (rate inst div 8) (kstate inst) (dataByteLen - i) out) (\<lambda>r.
               case r of
                 Inl e \<Rightarrow> Some (Inl e)
               | Inr (m, j, out1) \<Rightarrow> squeeze_loop (inst\<lparr>kstate := m\<rparr>) (dataByteLen - j) dataByteLen out1)
        else (case squeeze_queue inst i dataByteLen out of
                Inl e \<Rightarrow> Some (Inl e)
              | Inr (inst1, i1, out1) \<Rightarrow> squeeze_loop inst1 i1 dataByteLen out1)
      else Some (Inr (inst, out)))"

definition Keccak_SpongeSqueeze :: "sponge \<Rightarrow> u64 \<Rightarrow> (int \<times> sponge \<times> bytes) res option" where
  "Keccak_SpongeSqueeze inst dataByteLen =
     (case (if \<not> squeezing inst then Keccak_SpongeAbsorbLastFewBits inst 0x01 else Inr (0, inst)) of
        Inl e \<Rightarrow> Some (Inl e)
      | Inr (_, inst1) \<Rightarrow>
          map_option (\<lambda>r. rbind r (\<lambda>(inst2, out). Inr (0, inst2, out))) (squeeze_loop inst1 0 dataByteLen []))"

declare absorb_blocks.simps [code] absorb_loop.simps [code]
  squeeze_blocks.simps [code] squeeze_loop.simps [code]

end
