(* ===== verification/Keccak_Hash.thy ===== *)
theory Keccak_Hash
  imports Keccak_Sponge
begin

text \<open>
  The hash interface of \<open>src/src/hash/KeccakHash.cpp\<close> over the sponge. Lengths of messages are in bits;
  a last incomplete byte is joined with the suffix of the instance. Results are those of
  \<open>Keccak_Sponge\<close>.
\<close>

datatype HashReturn = SUCCESS | FAIL | BAD_HASHLEN

record keccak_instance =
  hsponge :: sponge
  fixedOutputLength :: u32
  delimitedSuffix :: u8

text \<open>\<open>static_cast<HashReturn>\<close> of the return codes 0 and 1 of the sponge functions.\<close>

definition hash_return :: "int \<Rightarrow> HashReturn" where
  "hash_return c = (if c = 0 then SUCCESS else if c = 1 then FAIL else BAD_HASHLEN)"

definition Keccak_HashInitialize ::
  "keccak_instance \<Rightarrow> u32 \<Rightarrow> u32 \<Rightarrow> u32 \<Rightarrow> u8 \<Rightarrow> HashReturn \<times> keccak_instance" where
  "Keccak_HashInitialize inst r capacity hashbitlen suffix =
     (if suffix = 0 then (FAIL, inst)
      else let (code, sp) = Keccak_SpongeInitialize (hsponge inst) r capacity;
               inst = inst\<lparr>hsponge := sp\<rparr>
           in if hash_return code \<noteq> SUCCESS then (hash_return code, inst)
              else (SUCCESS, inst\<lparr>fixedOutputLength := hashbitlen, delimitedSuffix := suffix\<rparr>))"

definition hash_absorb ::
  "keccak_instance \<Rightarrow> bytes \<Rightarrow> u64 \<Rightarrow> (HashReturn \<times> keccak_instance) res option" where
  "hash_absorb inst data n =
     map_option (\<lambda>r. rbind r (\<lambda>(code, sp). Inr (hash_return code, inst\<lparr>hsponge := sp\<rparr>)))
       (Keccak_SpongeAbsorb (hsponge inst) data n)"

definition Keccak_HashUpdate ::
  "keccak_instance \<Rightarrow> bytes \<Rightarrow> u64 \<Rightarrow> (HashReturn \<times> keccak_instance) res option" where
  "Keccak_HashUpdate inst data databitlen =
     (if databitlen mod 8 = 0 then hash_absorb inst data (databitlen div 8)
      else Option.bind (hash_absorb inst data (databitlen div 8)) (\<lambda>r.
        case r of
          Inl e \<Rightarrow> Some (Inl e)
        | Inr (ret, inst1) \<Rightarrow>
            if ret = SUCCESS then
              (case vec_at data (unat (databitlen div 8)) of
                 Inl e \<Rightarrow> Some (Inl e)
               | Inr lastByte \<Rightarrow>
                   let delimitedLastBytes =
                         ucast lastByte OR push_bit (unat (databitlen mod 8)) (ucast (delimitedSuffix inst1)) :: u16
                   in if delimitedLastBytes AND 0xFF00 = 0
                      then Some (Inr (ret, inst1\<lparr>delimitedSuffix := ucast (delimitedLastBytes AND 0xFF)\<rparr>))
                      else map_option (\<lambda>r. rbind r (\<lambda>(ret, inst2).
                             Inr (ret, inst2\<lparr>delimitedSuffix := ucast (drop_bit 8 delimitedLastBytes AND 0xFF)\<rparr>)))
                             (hash_absorb inst1 [ucast (delimitedLastBytes AND 0xFF)] 1))
            else Some (Inr (ret, inst1))))"

definition hash_squeeze ::
  "keccak_instance \<Rightarrow> u64 \<Rightarrow> (HashReturn \<times> keccak_instance \<times> bytes) res option" where
  "hash_squeeze inst n =
     map_option (\<lambda>r. rbind r (\<lambda>(code, sp, out). Inr (hash_return code, inst\<lparr>hsponge := sp\<rparr>, out)))
       (Keccak_SpongeSqueeze (hsponge inst) n)"

definition Keccak_HashFinal ::
  "keccak_instance \<Rightarrow> (HashReturn \<times> keccak_instance \<times> bytes) res option" where
  "Keccak_HashFinal inst =
     (case Keccak_SpongeAbsorbLastFewBits (hsponge inst) (delimitedSuffix inst) of
        Inl e \<Rightarrow> Some (Inl e)
      | Inr (code, sp) \<Rightarrow>
          let inst = inst\<lparr>hsponge := sp\<rparr> in
          if hash_return code = SUCCESS then hash_squeeze inst (ucast (fixedOutputLength inst div 8))
          else Some (Inr (hash_return code, inst, [])))"

definition Keccak_HashSqueeze ::
  "keccak_instance \<Rightarrow> u64 \<Rightarrow> (HashReturn \<times> keccak_instance \<times> bytes) res option" where
  "Keccak_HashSqueeze inst databitlen =
     (if databitlen mod 8 \<noteq> 0 then Some (Inr (FAIL, inst, []))
      else hash_squeeze inst (databitlen div 8))"

end
