(* ===== verification/Hash_Templates.thy ===== *)
theory Hash_Templates
  imports Skein Keccak_Hash Uint1024
begin

text \<open>
  The hash functions of \<open>src/src/hash/templates.h\<close>: Skein over the bytes of the argument, Keccak over the
  bytes of the Skein hash. The local contexts start uninitialised; their members are given by
  \<open>raw_skein\<close> and \<open>raw_keccak\<close>, whose values \<open>Init\<close> replaces, up to the size of the Skein buffer. The
  return codes are ignored, as in the source. The result type is that of the sponge: \<open>None\<close> where the
  code does not return, a fault, or the hash.
\<close>

section \<open>The two stages\<close>

definition raw_skein :: "nat \<Rightarrow> skein" where
  "raw_skein bb =
     \<lparr>hashBitLen = 0, bCnt = 0, tweak0 = 0, tweak1 = 0, chain = [], buffer = replicate bb 0\<rparr>"

definition raw_keccak :: keccak_instance where
  "raw_keccak =
     \<lparr>hsponge = \<lparr>kstate = [], rate = 0, byteIOIndex = 0, squeezing = False\<rparr>,
      fixedOutputLength = 0, delimitedSuffix = 0\<rparr>"

text \<open>\<open>Init\<close>, one \<open>Update\<close> for every range of the argument, \<open>Final\<close>: the bytes written.\<close>

definition skein_stage ::
  "(skein \<Rightarrow> u64 \<Rightarrow> skein res) \<Rightarrow> (skein \<Rightarrow> bytes \<Rightarrow> skein res) \<Rightarrow> (skein \<Rightarrow> (skein \<times> bytes) res) \<Rightarrow>
   nat \<Rightarrow> u64 \<Rightarrow> bytes list \<Rightarrow> bytes res" where
  "skein_stage init update final bb bitlen ranges =
     rbind (init (raw_skein bb) bitlen) (\<lambda>ctx.
     rbind (rfold (\<lambda>msg ctx. update ctx msg) ranges ctx) (\<lambda>ctx.
     rbind (final ctx) (\<lambda>(_, out). Inr out)))"

definition keccak_stage :: "u32 \<Rightarrow> u32 \<Rightarrow> u32 \<Rightarrow> u8 \<Rightarrow> u64 \<Rightarrow> bytes \<Rightarrow> bytes res option" where
  "keccak_stage r capacity hashbitlen suffix databitlen data =
     (let ctx = snd (Keccak_HashInitialize raw_keccak r capacity hashbitlen suffix) in
      Option.bind (Keccak_HashUpdate ctx data databitlen) (\<lambda>u.
        case u of
          Inl e \<Rightarrow> Some (Inl e)
        | Inr (_, ctx) \<Rightarrow>
            map_option (\<lambda>v. rbind v (\<lambda>(_, _, out). Inr out)) (Keccak_HashFinal ctx)))"

definition then_keccak :: "bytes res \<Rightarrow> u32 \<Rightarrow> u32 \<Rightarrow> u32 \<Rightarrow> u8 \<Rightarrow> u64 \<Rightarrow> bytes res option" where
  "then_keccak skein r capacity hashbitlen suffix databitlen =
     (case skein of
        Inl e \<Rightarrow> Some (Inl e)
      | Inr out \<Rightarrow> keccak_stage r capacity hashbitlen suffix databitlen out)"

text \<open>The memory of an unsigned integer object, least significant byte of each word first.\<close>

definition uint_of_memory :: "bytes \<Rightarrow> base_uint" where
  "uint_of_memory bs =
     BaseUint (map (\<lambda>i. ucast (bytes_lane (take 4 (drop (4 * i) bs)))) [0..<length bs div 4])"

definition hash_result :: "(bytes \<Rightarrow> 'a) \<Rightarrow> bytes res option \<Rightarrow> 'a res option" where
  "hash_result f h = map_option (\<lambda>r. rbind r (\<lambda>out. Inr (f out))) h"

section \<open>The templates\<close>

definition SK64 :: "bytes \<Rightarrow> u64 res option" where
  "SK64 msg = hash_result bytes_lane
     (then_keccak (skein_stage Skein_256_Init Skein_256_Update Skein_256_Final 32 64 [msg])
        1344 256 64 0x06 64)"

definition SK256 :: "bytes \<Rightarrow> base_uint res option" where
  "SK256 msg = hash_result uint_of_memory
     (then_keccak (skein_stage Skein_256_Init Skein_256_Update Skein_256_Final 32 256 [msg])
        1088 512 256 0x06 256)"

text \<open>The overload for a vector takes the address \<open>&vch[0]\<close>, which an empty vector does not have.\<close>

definition SK256_vector :: "bytes \<Rightarrow> base_uint res option" where
  "SK256_vector vch = (if vch = [] then Some (Inl Out_of_range) else SK256 vch)"

definition sk512 :: "bytes list \<Rightarrow> base_uint res option" where
  "sk512 ranges = hash_result uint_of_memory
     (then_keccak (skein_stage Skein_512_Init Skein_512_Update Skein_512_Final 64 512 ranges)
        576 1024 512 0x06 512)"

definition SK512 :: "bytes \<Rightarrow> base_uint res option" where
  "SK512 p1 = sk512 [p1]"

definition SK512_2 :: "bytes \<Rightarrow> bytes \<Rightarrow> base_uint res option" where
  "SK512_2 p1 p2 = sk512 [p1, p2]"

definition SK512_3 :: "bytes \<Rightarrow> bytes \<Rightarrow> bytes \<Rightarrow> base_uint res option" where
  "SK512_3 p1 p2 p3 = sk512 [p1, p2, p3]"

definition SK576 :: "bytes \<Rightarrow> base_uint res option" where
  "SK576 msg = hash_result uint_of_memory
     (then_keccak (skein_stage Skein1024_Init Skein1024_Update Skein1024_Final 128 576 [msg])
        1024 576 576 0x06 576)"

definition SK1024 :: "bytes \<Rightarrow> base_uint res option" where
  "SK1024 msg = hash_result uint_of_memory
     (then_keccak (skein_stage Skein1024_Init Skein1024_Update Skein1024_Final 128 1024 [msg])
        576 1024 1024 0x05 1024)"

end
