(* ===== verification/Keccak_F_Spec.thy ===== *)
theory Keccak_F_Spec
  imports Keccak_F
begin

text \<open>
  Keccak-f[1600] as FIPS 202 states it, by the coordinates of the lanes, and the proof that
  \<open>KeccakF1600_StatePermute\<close>, which works in place over tables of positions and rotations and steps a
  byte register for the round constants, computes it. The last section relates the bytes of the state
  to its lanes.
\<close>

section \<open>The permutation by coordinates\<close>

text \<open>
  FIPS 202 numbers the lanes by \<open>x\<close> and \<open>y\<close>, the lane \<open>(x, y)\<close> at position \<open>5 * y + x\<close>. \<open>rho_offset\<close>
  walks \<open>(x, y) \<mapsto> (y, 2 x + 3 y)\<close> from \<open>(1, 0)\<close> and rotates the \<open>t\<close>th lane by \<open>(t + 1) (t + 2) / 2\<close>;
  \<open>rc_bit\<close> is its bit register \<open>rc(t)\<close>.
\<close>

definition lane :: "lanes \<Rightarrow> nat \<Rightarrow> nat \<Rightarrow> u64" where
  "lane a x y = a ! (5 * (y mod 5) + x mod 5)"

definition lane_array :: "(nat \<Rightarrow> nat \<Rightarrow> u64) \<Rightarrow> lanes" where
  "lane_array f = map (\<lambda>i. f (i mod 5) (i div 5)) [0..<25]"

definition column :: "lanes \<Rightarrow> nat \<Rightarrow> u64" where
  "column a x = lane a x 0 XOR lane a x 1 XOR lane a x 2 XOR lane a x 3 XOR lane a x 4"

definition spec_theta :: "lanes \<Rightarrow> lanes" where
  "spec_theta a = lane_array (\<lambda>x y. lane a x y XOR column a (x + 4) XOR word_rotl 1 (column a (x + 1)))"

fun rho_walk :: "nat \<Rightarrow> nat \<times> nat" where
  "rho_walk 0 = (1, 0)"
| "rho_walk (Suc t) = (let (x, y) = rho_walk t in (y, (2 * x + 3 * y) mod 5))"

fun rho_search :: "nat \<Rightarrow> nat \<Rightarrow> nat \<times> nat \<Rightarrow> nat" where
  "rho_search 0 t p = 0"
| "rho_search (Suc n) t p =
     (if rho_walk t = p then ((t + 1) * (t + 2) div 2) mod 64 else rho_search n (Suc t) p)"

definition rho_offset :: "nat \<Rightarrow> nat \<Rightarrow> nat" where
  "rho_offset x y = rho_search 24 0 (x, y)"

definition spec_rho :: "lanes \<Rightarrow> lanes" where
  "spec_rho a = lane_array (\<lambda>x y. word_rotl (rho_offset x y) (lane a x y))"

definition spec_pi :: "lanes \<Rightarrow> lanes" where
  "spec_pi a = lane_array (\<lambda>x y. lane a (x + 3 * y) x)"

definition spec_chi :: "lanes \<Rightarrow> lanes" where
  "spec_chi a = lane_array (\<lambda>x y. lane a x y XOR (NOT (lane a (x + 1) y) AND lane a (x + 2) y))"

definition rc_step :: "bool list \<Rightarrow> bool list" where
  "rc_step R =
     [R ! 7, R ! 0, R ! 1, R ! 2, R ! 3 \<noteq> R ! 7, R ! 4 \<noteq> R ! 7, R ! 5 \<noteq> R ! 7, R ! 6]"

definition rc_register :: "nat \<Rightarrow> bool list" where
  "rc_register t = (rc_step ^^ t) [True, False, False, False, False, False, False, False]"

definition rc_bit :: "nat \<Rightarrow> bool" where
  "rc_bit t = rc_register t ! 0"

definition spec_constant :: "nat \<Rightarrow> u64" where
  "spec_constant r =
     foldl (\<lambda>w j. if rc_bit (j + 7 * r) then w OR push_bit (2 ^ j - 1) 1 else w) 0 [0..<7]"

definition spec_round :: "nat \<Rightarrow> lanes \<Rightarrow> lanes" where
  "spec_round r a =
     (let b = spec_chi (spec_pi (spec_rho (spec_theta a))) in b[0 := b ! 0 XOR spec_constant r])"

definition spec_permute :: "lanes \<Rightarrow> lanes" where
  "spec_permute a = foldl (\<lambda>a r. spec_round r a) a [0..<24]"


section \<open>The steps of a round\<close>

lemma ROL64_rotl:
  assumes "0 < k" and "k < 64"
  shows "ROL64 a k = word_rotl k a"
proof (rule bit_word_eqI)
  fix n assume n: "n < LENGTH(64)"
  show "bit (ROL64 a k) n = bit (word_rotl k a) n"
  proof (cases "n < k")
    case True
    then have "(n + (64 - k)) mod 64 = 64 - k + n" using assms by simp
    then show ?thesis using assms n True
      by (simp add: ROL64_def bit_word_rotl_iff bit_simps)
  next
    case False
    then have "(n + (64 - k)) mod 64 = n - k" using assms n
      by (simp add: mod_if)
    moreover have "\<not> bit a (64 - k + n)" using False assms n
      by (auto dest: bit_imp_le_length)
    ultimately show ?thesis using assms n False
      by (simp add: ROL64_def bit_word_rotl_iff bit_simps)
  qed
qed

lemma rotl_zero: "word_rotl 0 (w :: u64) = w"
  by (rule bit_word_eqI) (simp add: bit_word_rotl_iff)

lemma lanes_cases:
  assumes "length (st :: lanes) = 25"
  obtains a0 a1 a2 a3 a4 a5 a6 a7 a8 a9 a10 a11 a12 a13 a14 a15 a16 a17 a18 a19 a20 a21 a22 a23 a24
  where "st = [a0, a1, a2, a3, a4, a5, a6, a7, a8, a9, a10, a11, a12, a13, a14, a15, a16, a17, a18,
               a19, a20, a21, a22, a23, a24]"
  using assms by (simp add: length_Suc_conv numeral_eq_Suc) metis

lemma turns_24: "[0..<24] = [0, 1, 2, 3, 4, 5, 6, 7, 8, 9, 10, 11, 12, 13, 14, 15, 16, 17, 18, 19, 20, 21, 22, 23]"
  by code_simp

lemma positions_25: "[0..<25] = [0, 1, 2, 3, 4, 5, 6, 7, 8, 9, 10, 11, 12, 13, 14, 15, 16, 17, 18, 19, 20, 21, 22, 23, 24]"
  by code_simp

lemma indices_5: "[0..<5] = [0, 1, 2, 3, 4]"
  by code_simp

lemmas lane_eval =
  lane_array_def lane_def turns_24 positions_25 indices_5 nth_Cons' list_update_code Let_def

lemma rho_offsets:
  "rho_offset 0 0 = 0" "rho_offset (Suc 0) 0 = 1" "rho_offset 2 0 = 62" "rho_offset 3 0 = 28" "rho_offset 4 0 = 27"
  "rho_offset 0 (Suc 0) = 36" "rho_offset (Suc 0) (Suc 0) = 44" "rho_offset 2 (Suc 0) = 6" "rho_offset 3 (Suc 0) = 55" "rho_offset 4 (Suc 0) = 20"
  "rho_offset 0 2 = 3" "rho_offset (Suc 0) 2 = 10" "rho_offset 2 2 = 43" "rho_offset 3 2 = 25" "rho_offset 4 2 = 39"
  "rho_offset 0 3 = 41" "rho_offset (Suc 0) 3 = 45" "rho_offset 2 3 = 15" "rho_offset 3 3 = 21" "rho_offset 4 3 = 8"
  "rho_offset 0 4 = 18" "rho_offset (Suc 0) 4 = 2" "rho_offset 2 4 = 61" "rho_offset 3 4 = 56" "rho_offset 4 4 = 14"
  by code_simp+


lemma theta_spec:
  assumes "length st = 25"
  shows "theta st = spec_theta st"
  using assms
  by (rule lanes_cases)
    (simp add: theta_def theta_columns_def theta_column_def KeccakF_Mod5_def spec_theta_def column_def
      lane_eval ROL64_rotl)

lemma chi_spec:
  assumes "length st = 25"
  shows "chi st = spec_chi st"
  using assms
  by (rule lanes_cases)
    (simp add: chi_def chi_plane_def KeccakF_Mod5_def spec_chi_def lane_eval)

lemma rho_pi_spec:
  assumes "length st = 25"
  shows "rho_pi st = spec_pi (spec_rho st)"
  using assms
  by (rule lanes_cases)
    (simp add: rho_pi_def rho_pi_turn_def KeccakF_PiLane_def KeccakF_RotationConstants_def
      spec_pi_def spec_rho_def lane_eval ROL64_rotl rho_offsets rotl_zero)

section \<open>Round constants\<close>

definition lfsr_bits :: "u32 \<Rightarrow> bool list" where
  "lfsr_bits w = map (bit w) [0, 1, 2, 3, 4, 5, 6, 7]"

lemma and_bit7: "(w :: u32) AND 0x80 \<noteq> 0 \<longleftrightarrow> bit w 7"
proof -
  have "(0x80 :: u32) = push_bit 7 1" by simp
  then show ?thesis by (metis and_exp_eq_0_iff_not_bit push_bit_of_1)
qed

lemma and_bit0: "(w :: u32) AND 1 \<noteq> 0 \<longleftrightarrow> bit w 0"
  by (simp add: and_one_eq bit_0 odd_iff_mod_2_eq_one)

lemma bit_doubled: "bit ((w :: u32) * 2) n \<longleftrightarrow> n < 32 \<and> n \<noteq> 0 \<and> bit w (n - 1)"
  using bit_double_iff [of w n] by (simp add: mult.commute)

lemma lfsr_bits_turn: "lfsr_bits (fst (lfsr_turn (w, rc) i)) = rc_step (lfsr_bits w)"
  by (simp add: lfsr_turn_def lfsr_bits_def rc_step_def and_bit7 bit_doubled bit_simps Let_def)

lemma constant_turn:
  "snd (lfsr_turn (w, rc) i) = (if lfsr_bits w ! 0 then rc XOR push_bit (i - 1) 1 else rc)"
  by (simp add: lfsr_turn_def lfsr_bits_def and_bit0 Let_def)

lemma lfsr_bits_cast: "lfsr_bits (ucast (ucast w :: u8)) = lfsr_bits w"
  by (simp add: lfsr_bits_def bit_simps)

lemma rc_register_Suc: "rc_register (Suc t) = rc_step (rc_register t)"
  by (simp add: rc_register_def)

lemma lfsr_turns:
  assumes "lfsr_bits w = rc_register t"
  shows "lfsr_bits (fst (foldl lfsr_turn (w, rc) is)) = rc_register (t + length is)"
  using assms
proof (induction "is" arbitrary: w rc t)
  case Nil
  then show ?case by simp
next
  case (Cons i "is")
  obtain w' rc' where n: "lfsr_turn (w, rc) i = (w', rc')" by fastforce
  with lfsr_bits_turn [of w rc i] Cons.prems have "lfsr_bits w' = rc_register (Suc t)"
    by (simp add: rc_register_Suc)
  from Cons.IH [OF this, of rc'] n show ?case by simp
qed

lemma constant_turns:
  assumes "lfsr_bits w = rc_register t"
  shows "snd (foldl lfsr_turn (w, rc) (map (\<lambda>j. 2 ^ j) [m..<n])) =
         foldl (\<lambda>c j. if rc_bit (j - m + t) then c XOR push_bit (2 ^ j - 1) 1 else c) rc [m..<n]"
  using assms
proof (induction "n - m" arbitrary: m w rc t)
  case 0
  then show ?case by simp
next
  case (Suc k)
  then have mn: "m < n" by simp
  obtain w' rc' where n: "lfsr_turn (w, rc) (2 ^ m) = (w', rc')" by fastforce
  with lfsr_bits_turn [of w rc "2 ^ m"] Suc.prems have "lfsr_bits w' = rc_register (Suc t)"
    by (simp add: rc_register_Suc)
  from Suc.hyps(1) [OF _ this, of "Suc m" rc'] Suc.hyps(2)
  have IH: "snd (foldl lfsr_turn (w', rc') (map (\<lambda>j. 2 ^ j) [Suc m..<n])) =
         foldl (\<lambda>c j. if rc_bit (j - Suc m + Suc t) then c XOR push_bit (2 ^ j - 1) 1 else c) rc' [Suc m..<n]"
    by simp
  have "rc' = (if rc_bit t then rc XOR push_bit (2 ^ m - 1) 1 else rc)"
    using constant_turn [of w rc "2 ^ m"] n Suc.prems by (simp add: rc_bit_def)
  moreover have "foldl (\<lambda>c j. if rc_bit (j - Suc m + Suc t) then c XOR push_bit (2 ^ j - 1) 1 else c) rc' [Suc m..<n]
     = foldl (\<lambda>c j. if rc_bit (j - m + t) then c XOR push_bit (2 ^ j - 1) 1 else c) rc' [Suc m..<n]"
    by (intro foldl_cong) (auto simp: Suc_diff_Suc)
  ultimately show ?case using IH n mn by (simp add: upt_conv_Cons)
qed

lemma constant_bits:
  "foldl (\<lambda>c j. if b j then c XOR push_bit (2 ^ j - 1) 1 else c) 0 [0..<7] =
   (foldl (\<lambda>c j. if b j then c OR push_bit (2 ^ j - 1) 1 else c) 0 [0..<7] :: u64)"
proof -
  have "[0..<7] = [0, 1, 2, 3, 4, 5, 6 :: nat]" by code_simp
  then show ?thesis
    by (cases "b 0"; cases "b 1"; cases "b 2"; cases "b 3"; cases "b 4"; cases "b 5"; cases "b 6") simp_all
qed

lemma next_constant:
  assumes "lfsr_bits (ucast LFSR) = rc_register (7 * r)"
  shows "\<exists>LFSR'. KeccakF1600_GetNextRoundConstant LFSR = (spec_constant r, LFSR')
           \<and> lfsr_bits (ucast LFSR') = rc_register (7 * Suc r)"
proof -
  have idx: "[1, 2, 4, 8, 16, 32, 64 :: nat] = map (\<lambda>j. 2 ^ j) [0..<7]" by code_simp
  obtain temp rc where f: "foldl lfsr_turn (ucast LFSR, 0) (map (\<lambda>j. 2 ^ j) [0..<7]) = (temp, rc)"
    by fastforce
  have "lfsr_bits temp = rc_register (7 * Suc r)"
    using lfsr_turns [OF assms, of 0 "map (\<lambda>j. 2 ^ j) [0..<7]"] by (simp add: f ac_simps)
  moreover have "rc = spec_constant r"
    using constant_turns [OF assms, of 0 0 7] constant_bits [of "\<lambda>j. rc_bit (j + 7 * r)"]
    by (simp add: f spec_constant_def)
  moreover have "KeccakF1600_GetNextRoundConstant LFSR = (rc, ucast temp)"
    by (simp only: KeccakF1600_GetNextRoundConstant_def idx f Let_def prod.case)
  ultimately show ?thesis by (simp add: lfsr_bits_cast)
qed

section \<open>Rounds\<close>

lemma length_spec_round [simp]: "length (spec_round r a) = 25"
  by (simp add: spec_round_def spec_chi_def lane_array_def Let_def)

lemma length_spec_theta [simp]: "length (spec_theta a) = 25"
  by (simp add: spec_theta_def lane_array_def)

lemma length_spec_pi [simp]: "length (spec_pi a) = 25"
  by (simp add: spec_pi_def lane_array_def)

lemma round_spec:
  assumes "length st = 25" and "lfsr_bits (ucast LFSR) = rc_register (7 * r)"
  shows "\<exists>LFSR'. keccak_round (st, LFSR) = (spec_round r st, LFSR')
           \<and> lfsr_bits (ucast LFSR') = rc_register (7 * Suc r)"
proof -
  from next_constant [OF assms(2)] obtain LFSR' where
    "KeccakF1600_GetNextRoundConstant LFSR = (spec_constant r, LFSR')"
    "lfsr_bits (ucast LFSR') = rc_register (7 * Suc r)" by blast
  then show ?thesis using assms(1)
    by (simp add: keccak_round_def spec_round_def theta_spec rho_pi_spec chi_spec Let_def)
qed

lemma rounds_spec:
  assumes "length st = 25"
  shows "\<exists>LFSR. (keccak_round ^^ n) (st, 1) = (foldl (\<lambda>a r. spec_round r a) st [0..<n], LFSR)
           \<and> lfsr_bits (ucast LFSR) = rc_register (7 * n)
           \<and> length (foldl (\<lambda>a r. spec_round r a) st [0..<n]) = 25"
proof (induction n)
  case 0
  show ?case using assms by (simp add: lfsr_bits_def rc_register_def bit_1_iff)
next
  case (Suc n)
  then obtain LFSR where
    "(keccak_round ^^ n) (st, 1) = (foldl (\<lambda>a r. spec_round r a) st [0..<n], LFSR)"
    "lfsr_bits (ucast LFSR) = rc_register (7 * n)"
    "length (foldl (\<lambda>a r. spec_round r a) st [0..<n]) = 25" by blast
  with round_spec [of "foldl (\<lambda>a r. spec_round r a) st [0..<n]" LFSR n] show ?case by auto
qed

lemma length_permute_lanes: "length st = 25 \<Longrightarrow> length (permute_lanes st) = 25"
  using rounds_spec [of st 24] by (auto simp: permute_lanes_def cKeccakNumberOfRounds_def)

lemma permute_lanes_spec: "length st = 25 \<Longrightarrow> permute_lanes st = spec_permute st"
  using rounds_spec [of st 24]
  by (auto simp: permute_lanes_def cKeccakNumberOfRounds_def spec_permute_def)

section \<open>Bytes and lanes\<close>

lemma length_lane_bytes [simp]: "length (lane_bytes w) = 8"
  by (simp add: lane_bytes_def)

lemma bit_bytes_lane:
  "bit (bytes_lane bs) n \<longleftrightarrow> n < 64 \<and> n div 8 < length bs \<and> bit (bs ! (n div 8)) (n mod 8)"
proof (induction bs arbitrary: n)
  case Nil
  then show ?case by (simp add: bytes_lane_def)
next
  case (Cons b bs)
  have c: "bytes_lane (b # bs) = ucast b OR push_bit 8 (bytes_lane bs)"
    by (simp add: bytes_lane_def)
  show ?case
  proof (cases "n < 8")
    case True
    then show ?thesis by (simp add: c bit_simps)
  next
    case False
    then have "n div 8 = Suc ((n - 8) div 8)" and "n mod 8 = (n - 8) mod 8"
      by (simp_all add: div_if mod_if)
    with False show ?thesis
      by (auto simp: c bit_simps Cons.IH dest: bit_u8_less)
  qed
qed

lemma bytes_lane_bytes [simp]: "bytes_lane (lane_bytes w) = w"
proof (rule bit_word_eqI)
  fix n assume "n < LENGTH(64)"
  then have "n div 8 < 8" by simp
  then show "bit (bytes_lane (lane_bytes w)) n = bit w n" using \<open>n < LENGTH(64)\<close>
    by (simp add: bit_bytes_lane lane_bytes_def bit_simps)
qed

lemma lane_bytes_lane [simp]:
  assumes "length bs = 8"
  shows "lane_bytes (bytes_lane bs) = bs"
proof (rule nth_equalityI)
  show "length (lane_bytes (bytes_lane bs)) = length bs" by (simp add: assms)
next
  fix i assume "i < length (lane_bytes (bytes_lane bs))"
  then have i: "i < 8" by simp
  show "lane_bytes (bytes_lane bs) ! i = bs ! i"
  proof (rule bit_word_eqI)
    fix n assume "n < LENGTH(8)"
    with i have "(8 * i + n) div 8 = i" "(8 * i + n) mod 8 = n" "8 * i + n < 64" by simp_all
    then show "bit (lane_bytes (bytes_lane bs) ! i) n = bit (bs ! i) n"
      using i assms \<open>n < LENGTH(8)\<close> by (simp add: lane_bytes_def bit_simps bit_bytes_lane)
  qed
qed

lemma length_lanes_state: "length (lanes_state st) = 8 * length st"
  by (induction st) (simp_all add: lanes_state_def)

lemma length_state_lanes [simp]: "length (state_lanes m) = 25"
  by (simp add: state_lanes_def)

lemma drop_lanes_state: "drop (8 * i) (lanes_state st) = lanes_state (drop i st)"
proof (induction st arbitrary: i)
  case Nil
  then show ?case by (simp add: lanes_state_def)
next
  case (Cons a st)
  show ?case
  proof (cases i)
    case 0
    then show ?thesis by simp
  next
    case (Suc j)
    with Cons show ?thesis by (simp add: lanes_state_def)
  qed
qed

lemma state_lanes_state [simp]:
  assumes "length st = 25"
  shows "state_lanes (lanes_state st) = st"
proof (rule nth_equalityI)
  show "length (state_lanes (lanes_state st)) = length st" by (simp add: assms)
next
  fix i assume "i < length (state_lanes (lanes_state st))"
  then have i: "i < length st" by (simp add: assms)
  then have "drop i st = st ! i # drop (Suc i) st" by (simp add: Cons_nth_drop_Suc)
  then have "take 8 (drop (8 * i) (lanes_state st)) = lane_bytes (st ! i)"
    by (simp only: drop_lanes_state) (simp add: lanes_state_def)
  with i assms show "state_lanes (lanes_state st) ! i = st ! i" by (simp add: state_lanes_def)
qed

lemma length_StatePermute [simp]: "length (KeccakF1600_StatePermute m) = 200"
  by (simp add: KeccakF1600_StatePermute_def length_lanes_state length_permute_lanes)

end
