(* ===== verification/Keccak_Absorb.thy ===== *)
theory Keccak_Absorb
  imports Keccak_Sponge Keccak_F_Spec
begin

text \<open>
  What \<open>Keccak_SpongeAbsorb\<close> computes: the bytes of the message enter the state one after the other,
  and the permutation runs whenever the rate is full. The fast lane over whole blocks, the queue of
  the normal lane and its loop over lanes all are this byte by byte absorption (\<open>absorb_bytes\<close>), as
  long as the 32 bit counter of the queue does not wrap.
\<close>

section \<open>Absorbing byte by byte\<close>

definition absorb_byte :: "nat \<Rightarrow> bytes \<times> nat \<Rightarrow> u8 \<Rightarrow> bytes \<times> nat" where
  "absorb_byte R s b =
     (let (m, pos) = s; m = m[pos := m ! pos XOR b] in
      if Suc pos = R then (KeccakF1600_StatePermute m, 0) else (m, Suc pos))"

definition absorb_bytes :: "nat \<Rightarrow> bytes \<times> nat \<Rightarrow> bytes \<Rightarrow> bytes \<times> nat" where
  "absorb_bytes R s bs = foldl (absorb_byte R) s bs"

lemma absorb_bytes_append: "absorb_bytes R s (a @ b) = absorb_bytes R (absorb_bytes R s a) b"
  by (simp add: absorb_bytes_def)

lemma absorb_bytes_Nil [simp]: "absorb_bytes R s [] = s"
  by (simp add: absorb_bytes_def)

lemma length_xor_at [simp]: "pos + length bs \<le> length m \<Longrightarrow> length (xor_at pos bs m) = length m"
  by (auto simp: xor_at_def min_def)

lemma nth_xor_at:
  assumes "pos + length bs \<le> length m" and "i < length m"
  shows "xor_at pos bs m ! i =
         (if pos \<le> i \<and> i < pos + length bs then m ! i XOR bs ! (i - pos) else m ! i)"
  using assms by (auto simp: xor_at_def nth_append min_def)

lemma xor_at_Nil [simp]: "xor_at pos [] m = m"
  by (simp add: xor_at_def)

lemma xor_at_append:
  assumes "pos + length a + length b \<le> length m"
  shows "xor_at (pos + length a) b (xor_at pos a m) = xor_at pos (a @ b) m"
  using assms by (intro nth_equalityI) (auto simp: nth_xor_at nth_append)

lemma xor_at_append_swapped:
  assumes "pos + length a + length b \<le> length m"
  shows "xor_at pos a (xor_at (pos + length a) b m) = xor_at pos (a @ b) m"
  using assms by (intro nth_equalityI) (auto simp: nth_xor_at nth_append)

lemma xor_at_Cons:
  assumes "pos + Suc (length bs) \<le> length m"
  shows "xor_at pos (b # bs) m = xor_at (Suc pos) bs (m[pos := m ! pos XOR b])"
  using assms by (intro nth_equalityI) (auto simp: nth_xor_at nth_Cons' nth_list_update)

lemma xor_state_ok:
  "n \<le> length data \<Longrightarrow> pos + n \<le> length m \<Longrightarrow> xor_state m pos data n = Inr (xor_at pos (take n data) m)"
  by (simp add: xor_state_def)

lemma absorb_run:
  assumes "pos + length bs \<le> R" and "R \<le> length m" and "pos < R"
  shows "absorb_bytes R (m, pos) bs =
         (if pos + length bs = R then (KeccakF1600_StatePermute (xor_at pos bs m), 0)
          else (xor_at pos bs m, pos + length bs))"
  using assms
proof (induction bs arbitrary: m pos)
  case Nil
  then show ?case by simp
next
  case (Cons b bs)
  show ?case
  proof (cases "Suc pos = R")
    case True
    have "length bs = 0" using Cons.prems(1) unfolding True [symmetric] by simp
    with True Cons.prems show ?thesis by (simp add: absorb_bytes_def absorb_byte_def xor_at_Cons)
  next
    case False
    let ?m = "m[pos := m ! pos XOR b]"
    from False have "absorb_bytes R (m, pos) (b # bs) = absorb_bytes R (?m, Suc pos) bs"
      by (simp add: absorb_bytes_def absorb_byte_def)
    with Cons.IH [of "Suc pos" ?m] Cons.prems False show ?thesis by (simp add: xor_at_Cons)
  qed
qed

lemma absorb_tail_ok:
  assumes "length m = 200" and "unat idx + unat pb \<le> 200" and "unat pb \<le> length cur"
  shows "absorb_tail m idx cur pb =
         Inr (xor_at (unat idx) (take (unat pb) cur) m, idx + pb, drop (unat pb) cur)"
  using assms
proof (induction m idx cur pb rule: absorb_tail.induct)
  case (1 m idx cur pb)
  show ?case
  proof (cases "pb > 0")
    case False
    then have "pb = 0" by (simp add: word_gt_0)
    then show ?thesis by (simp add: absorb_tail.simps)
  next
    case True
    define k where "k = (if 8 - idx mod 8 > pb then pb else 8 - idx mod 8)"
    note k = lane_chunk [OF True, of idx, folded k_def]
    have pos: "unat (idx div 8) * 8 + unat (idx mod 8) = unat idx"
      by (simp add: unat_div unat_mod)
    have kb: "unat k \<le> unat pb" using k(3) by (simp add: word_le_nat_alt)
    let ?m = "xor_at (unat idx) (take (unat k) cur) m"
    have x: "KeccakF1600_StateXORBytesInLane m (idx div 8) cur (idx mod 8) k = Inr ?m"
      using 1(2-4) kb by (simp add: KeccakF1600_StateXORBytesInLane_def pos xor_state_ok)
    have i: "unat (idx + k) = unat idx + unat k"
      using 1(3) kb by (subst unat_word_ariths) simp
    have p: "unat (pb - k) = unat pb - unat k" using k(3) by (simp add: unat_sub)
    have "absorb_tail m idx cur pb = absorb_tail ?m (idx + k) (drop (unat k) cur) (pb - k)"
      using True by (subst absorb_tail.simps) (simp add: Let_def k_def [symmetric] x)
    also have "\<dots> = Inr (xor_at (unat (idx + k)) (take (unat (pb - k)) (drop (unat k) cur)) ?m,
                         idx + k + (pb - k), drop (unat (pb - k)) (drop (unat k) cur))"
      using 1(2-4) kb i p x
      by (intro 1(1) [OF True refl refl]) (simp_all add: k_def)
    also have "xor_at (unat (idx + k)) (take (unat (pb - k)) (drop (unat k) cur)) ?m
        = xor_at (unat idx) (take (unat pb) cur) m"
      using xor_at_append [of "unat idx" "take (unat k) cur" "take (unat pb - unat k) (drop (unat k) cur)" m]
        1(2-4) kb by (simp add: i p min_absorb2 flip: take_add)
    finally show ?thesis using kb by (simp add: p)
  qed
qed

section \<open>Whole blocks\<close>

lemma absorb_block_ok:
  assumes "length m = 200" and "unat r \<le> 200" and "unat r \<le> length cur"
  shows "absorb_block r m cur = Inr (KeccakF1600_StatePermute (xor_at 0 (take (unat r) cur) m))"
proof -
  define q where "q = unat r div 8 * 8"
  define d where "d = unat r mod 8"
  have qd: "q + d = unat r" by (simp add: q_def d_def)
  have r8: "unat (r div 8) = unat r div 8" and d: "unat (r mod 8) = d"
    by (simp_all add: unat_div unat_mod d_def)
  have "unat r div 8 * 8 < 2 ^ 32" using assms(2) by simp
  then have q: "unat (r div 8 * 8) = q" by (simp add: unat_word_ariths r8 q_def)
  have qp: "unat (r div 8) * 8 = q" by (simp add: r8 q_def)
  let ?tail = "take d (drop q cur)"
  have "(if r mod 8 > 0
         then KeccakF1600_StateXORBytesInLane m (r div 8) (drop (unat (r div 8 * 8)) cur) 0 (r mod 8)
         else Inr m) = Inr (xor_at q ?tail m)"
  proof (cases "r mod 8 > 0")
    case True
    with assms qd show ?thesis
      by (simp add: KeccakF1600_StateXORBytesInLane_def q d qp xor_state_ok)
  next
    case False
    then have "d = 0" by (simp add: word_gt_0 flip: d)
    with False show ?thesis by simp
  qed
  moreover have "KeccakF1600_StateXORLanes (xor_at q ?tail m) cur (r div 8) =
      Inr (xor_at 0 (take q cur) (xor_at q ?tail m))"
    using assms qd by (simp add: KeccakF1600_StateXORLanes_def q xor_state_ok)
  moreover have "xor_at 0 (take q cur) (xor_at q ?tail m) = xor_at 0 (take (unat r) cur) m"
    using xor_at_append_swapped [of 0 "take q cur" ?tail m] assms qd
    by (simp add: min_absorb2 flip: take_add)
  ultimately show ?thesis
    by (simp add: absorb_block_def KeccakF1600_StateXORPermuteExtract_def
        KeccakF1600_StateExtractLanes_def vec_range_def Let_def)
qed

lemma absorb_blocks_ok:
  assumes "length m = 200" and "0 < unat r" and "unat r \<le> 200" and "unat j \<le> length cur"
  shows "absorb_blocks r m cur j =
         Some (Inr (fst (absorb_bytes (unat r) (m, 0) (take (unat j - unat j mod unat r) cur)),
                    drop (unat j - unat j mod unat r) cur, j mod ucast r))"
  using assms(1,4)
proof (induction "unat j" arbitrary: m cur j rule: less_induct)
  case less
  have r64: "unat (ucast r :: u64) = unat r" by (simp add: unat_ucast_up)
  show ?case
  proof (cases "j \<ge> ucast r")
    case False
    then have "unat j < unat r" by (simp add: word_le_nat_alt r64)
    then have "unat j mod unat r = unat j" and "j mod ucast r = j"
      by (simp_all add: word_unat_eq_iff unat_mod r64)
    with False show ?thesis by (subst absorb_blocks.simps) simp
  next
    case True
    then have rj: "unat r \<le> unat j" by (simp add: word_le_nat_alt r64)
    let ?j = "j - ucast r"
    let ?m = "KeccakF1600_StatePermute (xor_at 0 (take (unat r) cur) m)"
    have uj: "unat ?j = unat j - unat r" using True by (simp add: unat_sub r64)
    have md: "unat ?j mod unat r = unat j mod unat r"
      using rj by (simp add: uj le_mod_geq)
    have jm: "?j mod ucast r = j mod ucast r"
      by (simp add: word_unat_eq_iff unat_mod r64 md)
    have "unat j mod unat r \<le> unat j - unat r" using md uj mod_less_eq_dividend by metis
    then have eq: "unat j - unat j mod unat r = unat r + (unat ?j - unat ?j mod unat r)"
      using rj uj md by linarith
    have tk: "take (unat j - unat j mod unat r) cur =
        take (unat r) cur @ take (unat ?j - unat ?j mod unat r) (drop (unat r) cur)"
      by (simp only: eq take_add)
    have dr: "drop (unat j - unat j mod unat r) cur =
        drop (unat ?j - unat ?j mod unat r) (drop (unat r) cur)"
      by (simp only: eq drop_drop add.commute)
    have run: "absorb_bytes (unat r) (m, 0) (take (unat r) cur) = (?m, 0)"
      using less.prems rj assms absorb_run [of 0 "take (unat r) cur" "unat r" m] by simp
    have "absorb_blocks r m cur j = absorb_blocks r ?m (drop (unat r) cur) ?j"
      using True less.prems rj assms(3) by (subst absorb_blocks.simps) (simp add: absorb_block_ok)
    also have "\<dots> = Some (Inr (fst (absorb_bytes (unat r) (?m, 0)
                       (take (unat ?j - unat ?j mod unat r) (drop (unat r) cur))),
                    drop (unat ?j - unat ?j mod unat r) (drop (unat r) cur), ?j mod ucast r))"
      using less.prems rj assms(2) by (intro less.hyps) (simp_all add: uj)
    finally show ?thesis by (simp only: tk dr absorb_bytes_append run jm)
  qed
qed

lemma absorb_blocks_end:
  assumes "length m = 200" and "0 < R" and "R \<le> 200" and "n mod R = 0" and "n \<le> length cur"
  shows "snd (absorb_bytes R (m, 0) (take n cur)) = 0 \<and> length (fst (absorb_bytes R (m, 0) (take n cur))) = 200"
  using assms(1,4,5)
proof (induction n arbitrary: m cur rule: less_induct)
  case (less n)
  show ?case
  proof (cases "n = 0")
    case True
    then show ?thesis using less.prems by simp
  next
    case False
    then have R: "R \<le> n" using less.prems(2) assms(2) by (metis dvd_imp_le mod_0_imp_dvd neq0_conv)
    let ?m = "KeccakF1600_StatePermute (xor_at 0 (take R cur) m)"
    have "absorb_bytes R (m, 0) (take R cur) = (?m, 0)"
      using less.prems R assms absorb_run [of 0 "take R cur" R m] by simp
    then have "absorb_bytes R (m, 0) (take n cur) = absorb_bytes R (?m, 0) (take (n - R) (drop R cur))"
      using R take_add [of R "n - R" cur] by (simp add: absorb_bytes_append)
    moreover have "(n - R) mod R = 0" using less.prems(2) R by (simp flip: le_mod_geq)
    ultimately show ?thesis using less.IH [of "n - R" ?m "drop R cur"] less.prems R assms(2) by simp
  qed
qed

section \<open>The queue and the loop\<close>

definition sponge_ok :: "sponge \<Rightarrow> bool" where
  "sponge_ok inst \<longleftrightarrow>
     length (kstate inst) = 200 \<and> 8 \<le> unat (rate inst) \<and> unat (rate inst) \<le> 1600
     \<and> unat (rate inst) mod 8 = 0
     \<and> (if squeezing inst then unat (byteIOIndex inst) \<le> unat (rate inst) div 8
        else unat (byteIOIndex inst) < unat (rate inst) div 8)"

abbreviation rate_bytes :: "sponge \<Rightarrow> nat" where
  "rate_bytes inst \<equiv> unat (rate inst) div 8"

abbreviation place :: "sponge \<Rightarrow> bytes \<times> nat" where
  "place inst \<equiv> (kstate inst, unat (byteIOIndex inst))"

definition put_place :: "sponge \<Rightarrow> bytes \<times> nat \<Rightarrow> sponge" where
  "put_place inst s = inst\<lparr>kstate := fst s, byteIOIndex := word_of_nat (snd s)\<rparr>"

lemma sponge_okD:
  assumes "sponge_ok inst"
  shows "length (kstate inst) = 200" and "0 < rate_bytes inst" and "rate_bytes inst \<le> 200"
    and "unat (rate inst div 8) = rate_bytes inst"
  using assms by (auto simp: sponge_ok_def unat_div)

lemma absorb_partial_ok:
  assumes "length m = 200" and "unat idx + unat pb \<le> 200" and "unat pb \<le> length cur"
  shows "rbind (if idx = 0 \<and> pb \<ge> 8
           then rbind (KeccakF1600_StateXORLanes m cur (pb div 8)) (\<lambda>m.
                  Inr (m, idx + pb div 8 * 8, drop (unat (pb div 8 * 8)) cur, pb - pb div 8 * 8))
           else Inr (m, idx, cur, pb)) (\<lambda>(m, idx, cur, pb). absorb_tail m idx cur pb)
         = Inr (xor_at (unat idx) (take (unat pb) cur) m, idx + pb, drop (unat pb) cur)"
proof (cases "idx = 0 \<and> pb \<ge> 8")
  case False
  show ?thesis using absorb_tail_ok [OF assms] unfolding if_not_P [OF False] by simp
next
  case True
  define q where "q = unat pb div 8 * 8"
  have qb: "q \<le> unat pb" by (simp add: q_def)
  have r8: "unat (pb div 8) = unat pb div 8" by (simp add: unat_div)
  have "unat pb div 8 * 8 < 2 ^ 32" using assms(2) by simp
  then have q: "unat (pb div 8 * 8) = q" by (simp add: unat_word_ariths r8 q_def)
  have p: "unat (pb - pb div 8 * 8) = unat pb - q"
    using qb by (simp add: unat_sub word_le_nat_alt q)
  let ?m = "xor_at 0 (take q cur) m"
  have x: "KeccakF1600_StateXORLanes m cur (pb div 8) = Inr ?m"
    using assms qb by (simp add: KeccakF1600_StateXORLanes_def q xor_state_ok)
  have "absorb_tail ?m (idx + pb div 8 * 8) (drop q cur) (pb - pb div 8 * 8)
      = Inr (xor_at (unat (idx + pb div 8 * 8)) (take (unat (pb - pb div 8 * 8)) (drop q cur)) ?m,
             idx + pb div 8 * 8 + (pb - pb div 8 * 8), drop (unat (pb - pb div 8 * 8)) (drop q cur))"
    using True assms qb by (intro absorb_tail_ok) (simp_all add: q p)
  moreover have "xor_at q (take (unat pb - q) (drop q cur)) ?m = xor_at 0 (take (unat pb) cur) m"
    using xor_at_append [of 0 "take q cur" "take (unat pb - q) (drop q cur)" m] assms qb
    by (simp add: min_absorb2 flip: take_add)
  ultimately show ?thesis using True qb by (simp add: x q p)
qed

lemma absorb_queue_ok:
  assumes "sponge_ok inst" and "\<not> squeezing inst" and "i \<le> n"
    and "unat n - unat i \<le> length cur"
    and "unat n - unat i + rate_bytes inst < 2 ^ 32"
  defines "k \<equiv> min (unat n - unat i) (rate_bytes inst - unat (byteIOIndex inst))"
  shows "absorb_queue inst cur i n =
         Inr (put_place inst (absorb_bytes (rate_bytes inst) (place inst) (take k cur)),
              drop k cur, i + word_of_nat k)"
proof -
  note ok = sponge_okD [OF assms(1)]
  have idx: "unat (byteIOIndex inst) < rate_bytes inst"
    using assms(1,2) by (simp add: sponge_ok_def)
  have un: "unat (n - i) = unat n - unat i" using assms(3) by (simp add: unat_sub)
  define pb where "pb = (if ucast (n - i) + byteIOIndex inst > rate inst div 8
      then rate inst div 8 - byteIOIndex inst else (ucast (n - i) :: u32))"
  have u32: "unat (ucast (n - i) :: u32) = unat n - unat i"
    using assms(5) by (simp add: unsigned_ucast_eq take_bit_nat_eq_self un)
  have "unat (ucast (n - i) + byteIOIndex inst) = unat n - unat i + unat (byteIOIndex inst)"
    using assms(5) idx by (subst unat_word_ariths) (simp add: u32)
  then have pb: "unat pb = k"
    using idx by (auto simp: pb_def word_less_nat_alt ok(4) unat_sub word_le_nat_alt k_def u32)
  have k: "k \<le> length cur" "unat (byteIOIndex inst) + k \<le> rate_bytes inst"
    using assms(4) idx by (auto simp: k_def)
  have x1: "length (kstate inst) = 200" and x2: "unat (byteIOIndex inst) + k \<le> 200" and x3: "k \<le> length cur"
    using ok k by auto
  let ?m = "xor_at (unat (byteIOIndex inst)) (take k cur) (kstate inst)"
  have "absorb_queue inst cur i n =
      rbind (Inr (?m, byteIOIndex inst + pb, drop k cur)) (\<lambda>(m, idx, cur).
        Inr (if idx = rate inst div 8
             then inst\<lparr>kstate := KeccakF1600_StatePermute m, byteIOIndex := 0\<rparr>
             else inst\<lparr>kstate := m, byteIOIndex := idx\<rparr>, cur, i + ucast pb))"
    unfolding absorb_queue_def Let_def pb_def [symmetric]
      absorb_partial_ok [of "kstate inst" "byteIOIndex inst" pb cur, unfolded pb, symmetric, OF x1 x2 x3]
    by (simp only: rbind_assoc split_def)
  moreover have "byteIOIndex inst + pb = rate inst div 8 \<longleftrightarrow> unat (byteIOIndex inst) + k = rate_bytes inst"
    using k ok(3,4) by (simp add: word_unat_eq_iff unat_word_ariths pb)
  moreover have "ucast pb = (word_of_nat k :: u64)" by (simp add: pb [symmetric])
  moreover have "byteIOIndex inst + pb = word_of_nat (unat (byteIOIndex inst) + k)"
    by (simp add: pb [symmetric])
  moreover have "absorb_bytes (rate_bytes inst) (place inst) (take k cur) =
      (if unat (byteIOIndex inst) + k = rate_bytes inst then (KeccakF1600_StatePermute ?m, 0)
       else (?m, unat (byteIOIndex inst) + k))"
    using absorb_run [of "unat (byteIOIndex inst)" "take k cur" "rate_bytes inst" "kstate inst"] k ok idx
    by (simp add: min_absorb2)
  ultimately show ?thesis by (simp add: put_place_def)
qed

lemma absorb_bytes_valid:
  assumes "length (fst s) = 200" and "snd s < R"
  shows "length (fst (absorb_bytes R s bs)) = 200 \<and> snd (absorb_bytes R s bs) < R"
  using assms
proof (induction bs arbitrary: s)
  case Nil
  then show ?case by simp
next
  case (Cons b bs)
  have "absorb_bytes R s (b # bs) = absorb_bytes R (absorb_byte R s b) bs"
    by (simp add: absorb_bytes_def)
  moreover have "length (fst (absorb_byte R s b)) = 200" "snd (absorb_byte R s b) < R"
    using Cons.prems by (auto simp: absorb_byte_def Let_def split: prod.split)
  ultimately show ?case using Cons.IH by simp
qed

lemma put_place_simps [simp]:
  "rate (put_place inst s) = rate inst" "squeezing (put_place inst s) = squeezing inst"
  "put_place (put_place inst s) t = put_place inst t" "put_place inst (place inst) = inst"
  "kstate (put_place inst s) = fst s"
  by (simp_all add: put_place_def)

lemma put_place_valid:
  assumes "sponge_ok inst" and "\<not> squeezing inst" and "length (fst s) = 200" and "snd s < rate_bytes inst"
  shows "sponge_ok (put_place inst s)" and "place (put_place inst s) = s"
proof -
  have "snd s < 2 ^ 32" using assms(4) sponge_okD(3) [OF assms(1)] by simp
  then have "unat (byteIOIndex (put_place inst s)) = snd s"
    by (simp add: put_place_def unat_of_nat take_bit_nat_eq_self)
  with assms show "sponge_ok (put_place inst s)" and "place (put_place inst s) = s"
    by (simp_all add: sponge_ok_def)
qed

lemma absorb_loop_ok:
  assumes "sponge_ok inst" and "\<not> squeezing inst" and "i \<le> n" and "unat n - unat i \<le> length cur"
    and "unat n + 200 < 2 ^ 32"
  shows "absorb_loop inst cur i n =
         Some (Inr (put_place inst
           (absorb_bytes (rate_bytes inst) (place inst) (take (unat n - unat i) cur))))"
  using assms
proof (induction "unat n - unat i" arbitrary: inst cur i rule: less_induct)
  case less
  note ok = sponge_okD [OF less.prems(1)]
  let ?R = "rate_bytes inst"
  let ?J = "unat n - unat i"
  have idx: "unat (byteIOIndex inst) < ?R" using less.prems(1,2) by (simp add: sponge_ok_def)
  have un: "unat (n - i) = ?J" using less.prems(3) by (simp add: unat_sub)
  have r64: "unat (ucast (rate inst div 8) :: u64) = ?R" by (simp add: unat_ucast_up ok(4))
  have valid: "length (fst (absorb_bytes ?R (place inst) bs)) = 200"
    "snd (absorb_bytes ?R (place inst) bs) < ?R" for bs
    using absorb_bytes_valid [of "place inst" ?R bs] ok idx by auto
  show ?case
  proof (cases "i < n")
    case False
    with less.prems(3) have "i = n" by simp
    then show ?thesis by (subst absorb_loop.simps) simp
  next
    case True
    then have J: "0 < ?J" by (simp add: word_less_nat_alt)
    have "unat (i + ucast (rate inst div 8)) = unat i + ?R"
      using less.prems(3,5) ok(3) by (subst unat_word_ariths) (simp add: r64 word_le_nat_alt)
    then have full: "n \<ge> i + ucast (rate inst div 8) \<longleftrightarrow> ?R \<le> ?J"
      using less.prems(3) by (auto simp: word_le_nat_alt)
    show ?thesis
    proof (cases "byteIOIndex inst = 0 \<and> n \<ge> i + ucast (rate inst div 8)")
      case fast: True
      define k where "k = ?J - ?J mod ?R"
      define s where "s = absorb_bytes ?R (kstate inst, 0) (take k cur)"
      define j where "j = (n - i) mod ucast (rate inst div 8)"
      have um: "unat j = ?J mod ?R" by (simp add: j_def unat_mod un r64)
      have "?J mod ?R \<le> ?J" by simp
      then have kj: "k + unat j = ?J" unfolding k_def um by (rule le_add_diff_inverse2)
      then have "unat j \<le> unat n" by linarith
      then have ui: "unat (n - j) = unat n - unat j" by (simp add: unat_sub word_le_nat_alt)
      have jJ: "unat j < ?J" using mod_less_divisor [OF ok(2), of ?J] full fast um by linarith
      have rest: "unat n - unat (n - j) = unat j" using ui \<open>unat j \<le> unat n\<close> by simp
      have kl: "k \<le> length cur" using less.prems(4) kj by linarith
      have km: "k mod ?R = 0" by (simp add: k_def minus_mod_eq_mult_div)
      have blocks: "absorb_blocks (rate inst div 8) (kstate inst) cur (n - i) =
          Some (Inr (fst s, drop k cur, j))"
        using absorb_blocks_ok [of "kstate inst" "rate inst div 8" "n - i" cur] less.prems(4) ok
        unfolding un ok(4) by (simp add: j_def s_def k_def)
      have "snd s = 0" unfolding s_def by (rule absorb_blocks_end [OF ok(1-3) km kl, THEN conjunct1])
      then have put: "inst\<lparr>kstate := fst s\<rparr> = put_place inst s"
        using fast by (simp add: put_place_def)
      have at0: "place inst = (kstate inst, 0)" using fast by simp
      note pv = put_place_valid [OF less.prems(1,2) valid(1,2), of "take k cur", unfolded at0, folded s_def]
      have "absorb_loop inst cur i n = absorb_loop (put_place inst s) (drop k cur) (n - j) n"
        using True fast by (subst absorb_loop.simps) (simp add: blocks put)
      also have "\<dots> = Some (Inr (put_place (put_place inst s)
          (absorb_bytes ?R s (take (unat j) (drop k cur)))))"
        using less.hyps [of "n - j" "put_place inst s" "drop k cur"] less.prems pv jJ kj kl
        unfolding rest by (simp add: word_le_nat_alt ui)
      finally show ?thesis
        by (simp add: at0 s_def kj flip: absorb_bytes_append take_add)
    next
      case queue: False
      define k where "k = min ?J (?R - unat (byteIOIndex inst))"
      define s where "s = absorb_bytes ?R (place inst) (take k cur)"
      have k: "0 < k" "k \<le> ?J" using J idx by (auto simp: k_def)
      have nk: "unat i + k \<le> unat n" using k(2) less.prems(3) by (simp add: word_le_nat_alt)
      have "unat (word_of_nat k :: u64) = k"
        using k less.prems(5) by (simp add: unat_of_nat take_bit_nat_eq_self)
      then have ui: "unat (i + word_of_nat k) = unat i + k"
        using nk less.prems(5) by (subst unat_word_ariths) simp
      have rest: "unat n - unat (i + word_of_nat k) = ?J - k" using ui by simp
      note pv = put_place_valid [OF less.prems(1,2) valid(1,2), of "take k cur", folded s_def]
      have q: "absorb_queue inst cur i n = Inr (put_place inst s, drop k cur, i + word_of_nat k)"
        using less.prems ok(3) unfolding k_def s_def by (intro absorb_queue_ok) simp_all
      have "absorb_loop inst cur i n = absorb_loop (put_place inst s) (drop k cur) (i + word_of_nat k) n"
        using True unfolding absorb_loop.simps [of inst] if_not_P [OF queue] q by simp
      also have "\<dots> = Some (Inr (put_place (put_place inst s)
          (absorb_bytes ?R s (take (?J - k) (drop k cur)))))"
        using less.hyps [of "i + word_of_nat k" "put_place inst s" "drop k cur"] less.prems pv k J nk
        unfolding rest by (simp add: word_le_nat_alt ui)
      finally show ?thesis
        using k by (simp add: s_def flip: absorb_bytes_append take_add)
    qed
  qed
qed

end
