(* ===== verification/Keccak_Squeeze.thy ===== *)
theory Keccak_Squeeze
  imports Keccak_Absorb
begin

text \<open>
  What \<open>Keccak_SpongeSqueeze\<close> and \<open>Keccak_SpongeAbsorbLastFewBits\<close> compute: output is read from the
  state byte by byte (\<open>squeeze_bytes\<close>), with a permutation whenever the rate is exhausted, and the two
  bits of padding are added to the state as bytes (\<open>pad_state\<close>).
\<close>

section \<open>Squeezing byte by byte\<close>

definition squeeze_place :: "nat \<Rightarrow> bytes \<times> nat \<Rightarrow> bytes \<times> nat" where
  "squeeze_place R s = (if snd s = R then (KeccakF1600_StatePermute (fst s), 0) else s)"

fun squeeze_bytes :: "nat \<Rightarrow> nat \<Rightarrow> bytes \<times> nat \<Rightarrow> bytes \<times> (bytes \<times> nat)" where
  "squeeze_bytes R 0 s = ([], s)"
| "squeeze_bytes R (Suc n) s =
     (let (m, pos) = squeeze_place R s; (bs, t) = squeeze_bytes R n (m, Suc pos) in (m ! pos # bs, t))"

lemma squeeze_bytes_add:
  "squeeze_bytes R (a + b) s =
   (let (x, t) = squeeze_bytes R a s; (y, u) = squeeze_bytes R b t in (x @ y, u))"
  by (induction a arbitrary: s) (simp_all add: Let_def split_def)

lemma length_squeeze_bytes [simp]: "length (fst (squeeze_bytes R n s)) = n"
  by (induction n arbitrary: s) (simp_all add: Let_def split_def)

lemma squeeze_bytes_place: "0 < n \<Longrightarrow> 0 < R \<Longrightarrow> squeeze_bytes R n (squeeze_place R s) = squeeze_bytes R n s"
  by (cases n) (simp_all add: squeeze_place_def)

lemma squeeze_run:
  assumes "pos + n \<le> R" and "R \<le> length m"
  shows "squeeze_bytes R n (m, pos) = (take n (drop pos m), (m, pos + n))"
  using assms
proof (induction n arbitrary: pos)
  case 0
  then show ?case by simp
next
  case (Suc n)
  then have "drop pos m = m ! pos # drop (Suc pos) m" by (simp add: Cons_nth_drop_Suc)
  with Suc show ?case by (simp add: squeeze_place_def)
qed

lemma squeeze_whole:
  assumes "0 < R" and "R \<le> 200"
  shows "squeeze_bytes R R (m, R) =
         (take R (KeccakF1600_StatePermute m), (KeccakF1600_StatePermute m, R))"
  using squeeze_bytes_place [OF assms(1,1), of "(m, R)"] assms
    squeeze_run [of 0 R R "KeccakF1600_StatePermute m"]
  by (simp add: squeeze_place_def)

lemma squeeze_bytes_valid:
  assumes "length (fst s) = 200" and "snd s \<le> R" and "0 < R"
  shows "length (fst (snd (squeeze_bytes R n s))) = 200 \<and> snd (snd (squeeze_bytes R n s)) \<le> R"
  using assms
proof (induction n arbitrary: s)
  case 0
  then show ?case by simp
next
  case (Suc n)
  let ?t = "(fst (squeeze_place R s), Suc (snd (squeeze_place R s)))"
  have "length (fst ?t) = 200" and "snd ?t \<le> R"
    using Suc.prems by (auto simp: squeeze_place_def)
  from Suc.IH [OF this Suc.prems(3)] show ?case by (simp add: Let_def split_def)
qed

lemma squeeze_tail_ok:
  assumes "length m = 200" and "unat idx + unat pb \<le> 200"
  shows "squeeze_tail m idx pb out = Inr (idx + pb, out @ take (unat pb) (drop (unat idx) m))"
  using assms
proof (induction m idx pb out rule: squeeze_tail.induct)
  case (1 m idx pb out)
  show ?case
  proof (cases "pb > 0")
    case False
    then have "pb = 0" by (simp add: word_gt_0)
    then show ?thesis by (simp add: squeeze_tail.simps)
  next
    case True
    define k where "k = (if 8 - idx mod 8 > pb then pb else 8 - idx mod 8)"
    note k = lane_chunk [OF True, of idx, folded k_def]
    have pos: "unat (idx div 8) * 8 + unat (idx mod 8) = unat idx"
      by (simp add: unat_div unat_mod)
    have kb: "unat k \<le> unat pb" using k(3) by (simp add: word_le_nat_alt)
    let ?chunk = "take (unat k) (drop (unat idx) m)"
    have x: "KeccakF1600_StateExtractBytesInLane m (idx div 8) (idx mod 8) k = Inr ?chunk"
      using 1(2-3) kb vec_range_ok [of "unat idx" "unat idx + unat k" m]
      by (simp add: KeccakF1600_StateExtractBytesInLane_def pos)
    have i: "unat (idx + k) = unat idx + unat k"
      using 1(3) kb by (subst unat_word_ariths) simp
    have p: "unat (pb - k) = unat pb - unat k" using k(3) by (simp add: unat_sub)
    have "squeeze_tail m idx pb out = squeeze_tail m (idx + k) (pb - k) (out @ ?chunk)"
      using True by (subst squeeze_tail.simps) (simp add: Let_def k_def [symmetric] x)
    also have "\<dots> = Inr (idx + k + (pb - k),
        (out @ ?chunk) @ take (unat (pb - k)) (drop (unat (idx + k)) m))"
      using 1(2-3) kb i p x
      by (intro 1(1) [OF True refl refl]) (simp_all add: k_def)
    also have "(out @ ?chunk) @ take (unat (pb - k)) (drop (unat (idx + k)) m)
        = out @ take (unat pb) (drop (unat idx) m)"
      using take_add [of "unat k" "unat pb - unat k" "drop (unat idx) m"] kb
      by (simp add: i p add.commute)
    finally show ?thesis by simp
  qed
qed

lemma squeeze_block_ok:
  assumes "unat r \<le> 200"
  shows "squeeze_block r m = Inr (KeccakF1600_StatePermute m, take (unat r) (KeccakF1600_StatePermute m))"
proof -
  define q where "q = unat r div 8 * 8"
  define d where "d = unat r mod 8"
  have qd: "q + d = unat r" by (simp add: q_def d_def)
  have r8: "unat (r div 8) = unat r div 8" and d: "unat (r mod 8) = d"
    by (simp_all add: unat_div unat_mod d_def)
  have "unat r div 8 * 8 < 2 ^ 32" using assms by simp
  then have q: "unat (r div 8 * 8) = q" by (simp add: unat_word_ariths r8 q_def)
  have qp: "unat (r div 8) * 8 = q" by (simp add: r8 q_def)
  let ?m = "KeccakF1600_StatePermute m"
  have "KeccakF1600_StateExtractLanes ?m (r div 8) = Inr (take q ?m)"
    using qd assms vec_range_ok [of 0 q ?m] by (simp add: KeccakF1600_StateExtractLanes_def q)
  moreover have "(if r mod 8 > 0 then KeccakF1600_StateExtractBytesInLane ?m (r div 8) 0 (r mod 8)
      else Inr []) = Inr (take d (drop q ?m))"
  proof (cases "r mod 8 > 0")
    case True
    have "vec_range (int q) (int (q + d)) ?m = Inr (take (q + d - q) (drop q ?m))"
      using qd assms by (intro vec_range_ok) simp_all
    then have "vec_range (int q) (int q + int d) ?m = Inr (take d (drop q ?m))"
      by (simp only: of_nat_add add_diff_cancel_left')
    with True show ?thesis
      by (simp add: KeccakF1600_StateExtractBytesInLane_def d qp Let_def)
  next
    case False
    then have "d = 0" by (simp add: word_gt_0 flip: d)
    with False show ?thesis by simp
  qed
  moreover have "take q ?m @ take d (drop q ?m) = take (unat r) ?m" by (simp flip: qd take_add)
  ultimately show ?thesis
    by (simp add: squeeze_block_def KeccakF1600_StateXORPermuteExtract_def
        KeccakF1600_StateXORLanes_def xor_state_def Let_def)
qed

lemma squeeze_blocks_ok:
  assumes "0 < unat r" and "unat r \<le> 200"
  shows "\<exists>bs m1. squeeze_bytes (unat r) (unat j - unat j mod unat r) (m, unat r) = (bs, (m1, unat r))
           \<and> squeeze_blocks r m j out = Some (Inr (m1, j mod ucast r, out @ bs))"
proof (induction "unat j" arbitrary: m j out rule: less_induct)
  case less
  have r64: "unat (ucast r :: u64) = unat r" by (simp add: unat_ucast_up)
  show ?case
  proof (cases "j \<ge> ucast r")
    case False
    then have "unat j < unat r" by (simp add: word_le_nat_alt r64)
    then have "unat j mod unat r = unat j" and "j mod ucast r = j"
      by (simp_all add: word_unat_eq_iff unat_mod r64)
    with False show ?thesis by (subst squeeze_blocks.simps) simp
  next
    case True
    then have rj: "unat r \<le> unat j" by (simp add: word_le_nat_alt r64)
    let ?j = "j - ucast r"
    let ?m = "KeccakF1600_StatePermute m"
    have uj: "unat ?j = unat j - unat r" using True by (simp add: unat_sub r64)
    have md: "unat ?j mod unat r = unat j mod unat r"
      using rj by (simp add: uj le_mod_geq)
    have jm: "?j mod ucast r = j mod ucast r"
      by (simp add: word_unat_eq_iff unat_mod r64 md)
    have "unat j mod unat r \<le> unat j - unat r" using md uj mod_less_eq_dividend by metis
    then have eq: "unat j - unat j mod unat r = unat r + (unat ?j - unat ?j mod unat r)"
      using rj uj md by linarith
    have "unat ?j < unat j" using rj assms(1) uj by simp
    from less.hyps [OF this, of ?m "out @ take (unat r) ?m"] obtain bs m1 where
      IH: "squeeze_bytes (unat r) (unat ?j - unat ?j mod unat r) (?m, unat r) = (bs, (m1, unat r))"
      "squeeze_blocks r ?m ?j (out @ take (unat r) ?m) =
         Some (Inr (m1, ?j mod ucast r, (out @ take (unat r) ?m) @ bs))" by blast
    have "squeeze_blocks r m j out = squeeze_blocks r ?m ?j (out @ take (unat r) ?m)"
      using True assms(2) by (subst squeeze_blocks.simps) (simp add: squeeze_block_ok)
    moreover have "squeeze_bytes (unat r) (unat j - unat j mod unat r) (m, unat r) =
        (take (unat r) ?m @ bs, (m1, unat r))"
      unfolding eq squeeze_bytes_add squeeze_whole [OF assms] by (simp add: IH(1))
    ultimately show ?thesis using IH(2) jm by simp
  qed
qed

lemma squeeze_partial_ok:
  assumes "length m = 200" and "unat idx + unat pb \<le> 200"
  shows "rbind (if idx = 0 \<and> pb \<ge> 8
           then rbind (KeccakF1600_StateExtractLanes m (pb div 8)) (\<lambda>chunk.
                  Inr (idx + pb div 8 * 8, pb - pb div 8 * 8, out @ chunk))
           else Inr (idx, pb, out)) (\<lambda>(idx, pb, out). squeeze_tail m idx pb out)
         = Inr (idx + pb, out @ take (unat pb) (drop (unat idx) m))"
proof (cases "idx = 0 \<and> pb \<ge> 8")
  case False
  show ?thesis using squeeze_tail_ok [OF assms] unfolding if_not_P [OF False] by simp
next
  case True
  define q where "q = unat pb div 8 * 8"
  have qb: "q \<le> unat pb" by (simp add: q_def)
  have r8: "unat (pb div 8) = unat pb div 8" by (simp add: unat_div)
  have "unat pb div 8 * 8 < 2 ^ 32" using assms(2) by simp
  then have q: "unat (pb div 8 * 8) = q" by (simp add: unat_word_ariths r8 q_def)
  have p: "unat (pb - pb div 8 * 8) = unat pb - q"
    using qb by (simp add: unat_sub word_le_nat_alt q)
  have x: "KeccakF1600_StateExtractLanes m (pb div 8) = Inr (take q m)"
    using assms qb vec_range_ok [of 0 q m] by (simp add: KeccakF1600_StateExtractLanes_def q)
  have "squeeze_tail m (idx + pb div 8 * 8) (pb - pb div 8 * 8) (out @ take q m)
      = Inr (idx + pb div 8 * 8 + (pb - pb div 8 * 8),
             (out @ take q m) @ take (unat (pb - pb div 8 * 8)) (drop (unat (idx + pb div 8 * 8)) m))"
    using True assms qb by (intro squeeze_tail_ok) (simp_all add: q p)
  moreover have "take q m @ take (unat pb - q) (drop q m) = take (unat pb) m"
    using qb by (simp flip: take_add)
  ultimately show ?thesis using True by (simp add: x q p)
qed

lemma squeeze_queue_ok:
  assumes "sponge_ok inst" and "squeezing inst" and "i < n"
    and "unat n - unat i + rate_bytes inst < 2 ^ 32"
  defines "s \<equiv> squeeze_place (rate_bytes inst) (place inst)"
  defines "k \<equiv> min (unat n - unat i) (rate_bytes inst - snd s)"
  shows "squeeze_queue inst i n out =
         Inr (put_place inst (snd (squeeze_bytes (rate_bytes inst) k (place inst))),
              i + word_of_nat k, out @ fst (squeeze_bytes (rate_bytes inst) k (place inst)))
         \<and> 0 < k \<and> k \<le> unat n - unat i"
proof -
  note ok = sponge_okD [OF assms(1)]
  define inst1 where "inst1 = (if byteIOIndex inst = rate inst div 8
      then inst\<lparr>kstate := KeccakF1600_StatePermute (kstate inst), byteIOIndex := 0\<rparr> else inst)"
  have "byteIOIndex inst = rate inst div 8 \<longleftrightarrow> unat (byteIOIndex inst) = rate_bytes inst"
    by (simp add: word_unat_eq_iff ok(4))
  then have s: "place inst1 = s" and r1: "rate inst1 = rate inst"
    by (auto simp: inst1_def s_def squeeze_place_def)
  have idx: "snd s < rate_bytes inst" and len: "length (fst s) = 200"
    using assms(1,2) ok by (auto simp: s_def squeeze_place_def sponge_ok_def)
  have uidx: "unat (byteIOIndex inst1) = snd s" using s by (metis snd_conv)
  have ks: "kstate inst1 = fst s" using s by (metis fst_conv)
  have un: "unat (n - i) = unat n - unat i" using assms(3) by (simp add: unat_sub)
  have J: "0 < unat n - unat i" using assms(3) by (simp add: word_less_nat_alt)
  define pb where "pb = (if ucast (n - i) + byteIOIndex inst1 > rate inst div 8
      then rate inst div 8 - byteIOIndex inst1 else (ucast (n - i) :: u32))"
  have u32: "unat (ucast (n - i) :: u32) = unat n - unat i"
    using assms(4) by (simp add: unsigned_ucast_eq take_bit_nat_eq_self un)
  have "unat (ucast (n - i) + byteIOIndex inst1) = unat n - unat i + snd s"
    using assms(4) idx by (subst unat_word_ariths) (simp add: u32 uidx)
  then have pb: "unat pb = k"
    using idx by (auto simp: pb_def word_less_nat_alt ok(4) unat_sub word_le_nat_alt k_def u32 uidx)
  have k: "0 < k" "k \<le> unat n - unat i" "snd s + k \<le> rate_bytes inst"
    using J idx by (auto simp: k_def)
  have "squeeze_queue inst i n out =
      rbind (Inr (byteIOIndex inst1 + pb, out @ take k (drop (snd s) (fst s)))) (\<lambda>(idx, out).
        Inr (inst1\<lparr>byteIOIndex := idx\<rparr>, i + ucast pb, out))"
    using squeeze_partial_ok [of "kstate inst1" "byteIOIndex inst1" pb out] len k ok(3)
    unfolding squeeze_queue_def Let_def inst1_def [symmetric] r1 pb_def [symmetric]
    by (simp add: ks uidx pb rbind_assoc split_def flip: rbind_assoc)
  moreover have "ucast pb = (word_of_nat k :: u64)" by (simp add: pb [symmetric])
  moreover have "byteIOIndex inst1 + pb = word_of_nat (snd s + k)"
    by (simp add: pb [symmetric] uidx [symmetric])
  moreover have "squeeze_bytes (rate_bytes inst) k (place inst) =
      (take k (drop (snd s) (fst s)), (fst s, snd s + k))"
    using squeeze_bytes_place [of k "rate_bytes inst" "place inst"] k(1) ok(2,3)
      squeeze_run [of "snd s" k "rate_bytes inst" "fst s"] k(3) len
    by (simp add: s_def [symmetric])
  moreover have "inst1\<lparr>byteIOIndex := w\<rparr> = inst\<lparr>kstate := fst s, byteIOIndex := w\<rparr>" for w
    by (auto simp: inst1_def ks [symmetric])
  ultimately show ?thesis using k by (simp add: put_place_def)
qed

lemma put_place_squeezing:
  assumes "sponge_ok inst" and "squeezing inst" and "length (fst s) = 200" and "snd s \<le> rate_bytes inst"
  shows "sponge_ok (put_place inst s)" and "place (put_place inst s) = s"
proof -
  have "snd s < 2 ^ 32" using assms(4) sponge_okD(3) [OF assms(1)] by simp
  then have "unat (byteIOIndex (put_place inst s)) = snd s"
    by (simp add: put_place_def unat_of_nat take_bit_nat_eq_self)
  with assms show "sponge_ok (put_place inst s)" and "place (put_place inst s) = s"
    by (simp_all add: sponge_ok_def)
qed

lemma squeeze_loop_ok:
  assumes "sponge_ok inst" and "squeezing inst" and "i \<le> n" and "unat n + 200 < 2 ^ 32"
  shows "squeeze_loop inst i n out =
         (let (bs, s) = squeeze_bytes (rate_bytes inst) (unat n - unat i) (place inst)
          in Some (Inr (put_place inst s, out @ bs)))"
  using assms
proof (induction "unat n - unat i" arbitrary: inst i out rule: less_induct)
  case less
  note ok = sponge_okD [OF less.prems(1)]
  let ?R = "rate_bytes inst"
  let ?J = "unat n - unat i"
  have idx: "unat (byteIOIndex inst) \<le> ?R" using less.prems(1,2) by (simp add: sponge_ok_def)
  have un: "unat (n - i) = ?J" using less.prems(3) by (simp add: unat_sub)
  have r64: "unat (ucast (rate inst div 8) :: u64) = ?R" by (simp add: unat_ucast_up ok(4))
  have pv: "sponge_ok (put_place inst (snd (squeeze_bytes ?R k (place inst))))"
    "place (put_place inst (snd (squeeze_bytes ?R k (place inst)))) = snd (squeeze_bytes ?R k (place inst))" for k
    using put_place_squeezing [OF less.prems(1,2)] squeeze_bytes_valid [of "place inst" ?R k] ok idx by auto
  show ?case
  proof (cases "i < n")
    case False
    with less.prems(3) have "i = n" by simp
    then show ?thesis by (subst squeeze_loop.simps) simp
  next
    case True
    then have J: "0 < ?J" by (simp add: word_less_nat_alt)
    have "unat (i + ucast (rate inst div 8)) = unat i + ?R"
      using less.prems(3,4) ok(3) by (subst unat_word_ariths) (simp add: r64 word_le_nat_alt)
    then have full: "n \<ge> i + ucast (rate inst div 8) \<longleftrightarrow> ?R \<le> ?J"
      using less.prems(3) by (auto simp: word_le_nat_alt)
    show ?thesis
    proof (cases "byteIOIndex inst = rate inst div 8 \<and> n \<ge> i + ucast (rate inst div 8)")
      case fast: True
      define k where "k = ?J - ?J mod ?R"
      define j where "j = (n - i) mod ucast (rate inst div 8)"
      have um: "unat j = ?J mod ?R" by (simp add: j_def unat_mod un r64)
      have "?J mod ?R \<le> ?J" by simp
      then have kj: "k + unat j = ?J" unfolding k_def um by (rule le_add_diff_inverse2)
      then have "unat j \<le> unat n" by linarith
      then have ui: "unat (n - j) = unat n - unat j" by (simp add: unat_sub word_le_nat_alt)
      have jJ: "unat j < ?J" using mod_less_divisor [OF ok(2), of ?J] full fast um by linarith
      have rest: "unat n - unat (n - j) = unat j" using ui \<open>unat j \<le> unat n\<close> by simp
      have at: "place inst = (kstate inst, ?R)" using fast ok(4) by simp
      obtain bs m1 where b: "squeeze_bytes ?R k (place inst) = (bs, (m1, ?R))"
        and blocks: "squeeze_blocks (rate inst div 8) (kstate inst) (n - i) out = Some (Inr (m1, j, out @ bs))"
        using squeeze_blocks_ok [of "rate inst div 8" "n - i" "kstate inst" out] ok
        unfolding un ok(4) by (auto simp: j_def k_def at)
      have put: "inst\<lparr>kstate := m1\<rparr> = put_place inst (m1, ?R)"
        using fast by (simp add: put_place_def flip: ok(4))
      note pv = pv [of k, unfolded b snd_conv]
      have "squeeze_loop inst i n out = squeeze_loop (put_place inst (m1, ?R)) (n - j) n (out @ bs)"
        using True fast by (subst squeeze_loop.simps) (simp add: blocks put)
      also have "\<dots> = (let (bs1, s) = squeeze_bytes ?R (unat j) (m1, ?R)
          in Some (Inr (put_place (put_place inst (m1, ?R)) s, (out @ bs) @ bs1)))"
        using less.hyps [of "n - j" "put_place inst (m1, ?R)" "out @ bs"] less.prems pv jJ
        unfolding rest by (simp add: word_le_nat_alt ui)
      finally show ?thesis
        unfolding kj [symmetric] squeeze_bytes_add b by (simp add: Let_def split_def)
    next
      case queue: False
      obtain k where q: "squeeze_queue inst i n out =
          Inr (put_place inst (snd (squeeze_bytes ?R k (place inst))),
               i + word_of_nat k, out @ fst (squeeze_bytes ?R k (place inst)))" and k: "0 < k" "k \<le> ?J"
        using squeeze_queue_ok [OF less.prems(1,2) True, of out] less.prems(4) ok(3) by auto
      have nk: "unat i + k \<le> unat n" using k(2) less.prems(3) by (simp add: word_le_nat_alt)
      have "unat (word_of_nat k :: u64) = k"
        using k less.prems(4) by (simp add: unat_of_nat take_bit_nat_eq_self)
      then have ui: "unat (i + word_of_nat k) = unat i + k"
        using nk less.prems(4) by (subst unat_word_ariths) simp
      have rest: "unat n - unat (i + word_of_nat k) = ?J - k" using ui by simp
      obtain bs s where b: "squeeze_bytes ?R k (place inst) = (bs, s)" by (metis surj_pair)
      note pv = pv [of k, unfolded b snd_conv]
      have "squeeze_loop inst i n out = squeeze_loop (put_place inst s) (i + word_of_nat k) n (out @ bs)"
        using True unfolding squeeze_loop.simps [of inst] if_not_P [OF queue] q b by simp
      also have "\<dots> = (let (bs1, t) = squeeze_bytes ?R (?J - k) s
          in Some (Inr (put_place (put_place inst s) t, (out @ bs) @ bs1)))"
        using less.hyps [of "i + word_of_nat k" "put_place inst s" "out @ bs"] less.prems pv k J nk
        unfolding rest by (simp add: word_le_nat_alt ui)
      finally show ?thesis
        using squeeze_bytes_add [of ?R k "?J - k" "place inst"] k b by (simp add: Let_def split_def)
    qed
  qed
qed

section \<open>Padding\<close>

lemma nth_lane_bytes: "i < 8 \<Longrightarrow> lane_bytes w ! i = ucast (drop_bit (8 * i) w)"
  by (simp add: lane_bytes_def)

lemma flip_lane_bit:
  assumes "length bs = 8" and "k < 64"
  shows "lane_bytes (bytes_lane bs XOR push_bit k 1) =
         bs[k div 8 := bs ! (k div 8) XOR push_bit (k mod 8) 1]"
proof (rule nth_equalityI)
  show "length (lane_bytes (bytes_lane bs XOR push_bit k 1)) =
      length (bs[k div 8 := bs ! (k div 8) XOR push_bit (k mod 8) 1])" by (simp add: assms)
next
  fix i assume "i < length (lane_bytes (bytes_lane bs XOR push_bit k 1))"
  then have i: "i < 8" by simp
  show "lane_bytes (bytes_lane bs XOR push_bit k 1) ! i =
      bs[k div 8 := bs ! (k div 8) XOR push_bit (k mod 8) 1] ! i"
  proof (rule bit_word_eqI)
    fix n assume n: "n < LENGTH(8)"
    then have d: "(8 * i + n) div 8 = i" "(8 * i + n) mod 8 = n" "8 * i + n < 64" using i by simp_all
    have e: "8 * i + n = k \<longleftrightarrow> i = k div 8 \<and> n = k mod 8" using n by auto
    have "bit (lane_bytes (bytes_lane bs XOR push_bit k 1) ! i) n \<longleftrightarrow>
        bit (bs ! i) n \<noteq> (8 * i + n = k)"
      using n i d assms by (auto simp: nth_lane_bytes bit_simps bit_bytes_lane)
    also have "\<dots> \<longleftrightarrow> bit (bs[k div 8 := bs ! (k div 8) XOR push_bit (k mod 8) 1] ! i) n"
      using n i assms unfolding e by (auto simp: nth_list_update bit_simps)
    finally show "bit (lane_bytes (bytes_lane bs XOR push_bit k 1) ! i) n =
        bit (bs[k div 8 := bs ! (k div 8) XOR push_bit (k mod 8) 1] ! i) n" .
  qed
qed

lemma unat_numeral_64: "unat (64 :: u32) = 64"
  by simp

lemma complement_bit_ok:
  assumes "length m = 200" and "unat p < 1600"
  shows "KeccakF1600_StateComplementBit m p =
         Inr (m[unat p div 8 := m ! (unat p div 8) XOR push_bit (unat p mod 8) 1])"
proof -
  define l where "l = unat p div 64"
  define k where "k = unat p mod 64"
  have lk: "l < 25" "k < 64" "unat p = 64 * l + k" using assms(2) by (auto simp: l_def k_def)
  have p8: "unat p div 8 = 8 * l + k div 8" "unat p mod 8 = k mod 8" unfolding lk(3) by presburger+
  have "8 * l + k div 8 < 8 * l + 8" using lk(2) by simp
  let ?bs = "take 8 (drop (l * 8) m)"
  have bs: "length ?bs = 8" using lk(1) assms(1) by simp
  have m: "m = take (l * 8) m @ ?bs @ drop (l * 8 + 8) m"
    by (metis append_take_drop_id add.commute drop_drop)
  have at: "?bs ! (k div 8) = m ! (8 * l + k div 8)" using lk assms by (simp add: ac_simps)
  have upd: "m[8 * l + k div 8 := x] = take (l * 8) m @ ?bs[k div 8 := x] @ drop (l * 8 + 8) m" for x
    using lk assms by (subst m) (simp add: list_update_append min_def ac_simps)
  have "l * 8 + 8 \<le> length m" using lk(1) assms(1) by simp
  then have "KeccakF1600_StateComplementBit m p =
      Inr (take (l * 8) m @ lane_bytes (bytes_lane ?bs XOR push_bit k 1) @ drop (l * 8 + 8) m)"
    by (simp only: KeccakF1600_StateComplementBit_def Let_def unat_div unat_mod unat_numeral_64 l_def k_def if_True)
  then show ?thesis unfolding flip_lane_bit [OF bs lk(2)] p8 upd at .
qed

definition pad_state :: "nat \<Rightarrow> u8 \<Rightarrow> bytes \<times> nat \<Rightarrow> bytes" where
  "pad_state R d s =
     (let (m, pos) = s;
          m = m[pos := m ! pos XOR d];
          m = (if d \<ge> 0x80 \<and> Suc pos = R then KeccakF1600_StatePermute m else m)
      in KeccakF1600_StatePermute (m[R - 1 := m ! (R - 1) XOR 0x80]))"

lemma last_bits_ok:
  assumes "sponge_ok inst" and "\<not> squeezing inst" and "d \<noteq> 0"
  shows "Keccak_SpongeAbsorbLastFewBits inst d =
         Inr (0, inst\<lparr>kstate := pad_state (rate_bytes inst) d (place inst), byteIOIndex := 0, squeezing := True\<rparr>)"
proof -
  note ok = sponge_okD [OF assms(1)]
  let ?R = "rate_bytes inst"
  let ?pos = "unat (byteIOIndex inst)"
  have idx: "?pos < ?R" using assms(1,2) by (simp add: sponge_ok_def)
  have pos: "unat (byteIOIndex inst div 8) * 8 + unat (byteIOIndex inst mod 8) = ?pos"
    by (simp add: unat_div unat_mod)
  let ?m = "(kstate inst)[?pos := kstate inst ! ?pos XOR d]"
  have "xor_at ?pos [d] (kstate inst) = ?m"
    using xor_at_Cons [of ?pos "[]" "kstate inst" d] idx ok by simp
  then have x: "KeccakF1600_StateXORBytesInLane (kstate inst) (byteIOIndex inst div 8) [d]
      (byteIOIndex inst mod 8) 1 = Inr ?m"
    using idx ok by (simp add: KeccakF1600_StateXORBytesInLane_def pos xor_state_ok)
  have last: "byteIOIndex inst = rate inst div 8 - 1 \<longleftrightarrow> Suc ?pos = ?R"
  proof -
    have "unat (rate inst div 8 - 1) = ?R - 1"
      using ok(2,4) by (subst unat_sub) (simp_all add: word_le_nat_alt)
    then show ?thesis using ok(2) by (auto simp: word_unat_eq_iff)
  qed
  have "unat (rate inst div 8 * 8) = ?R * 8"
    using ok(3,4) by (simp add: unat_word_ariths)
  then have p: "unat (rate inst div 8 * 8 - 1) = ?R * 8 - 1"
    using ok(2) by (subst unat_sub) (simp_all add: word_le_nat_alt)
  have "?R * 8 - 1 = (?R - 1) * 8 + 7" using ok(2) by (cases ?R) simp_all
  then have p8: "(?R * 8 - 1) div 8 = ?R - 1" "(?R * 8 - 1) mod 8 = 7" by simp_all
  have c: "length m = 200 \<Longrightarrow> KeccakF1600_StateComplementBit m (rate inst div 8 * 8 - 1) =
      Inr (m[?R - 1 := m ! (?R - 1) XOR 0x80])" for m
    using ok(2,3) complement_bit_ok [of m "rate inst div 8 * 8 - 1"] by (simp only: p p8) simp
  show ?thesis using assms(2,3) ok(1)
    by (simp add: Keccak_SpongeAbsorbLastFewBits_def Let_def x last c pad_state_def)
qed

end
