(* ===== verification/Keccak_Spec.thy ===== *)
theory Keccak_Spec
  imports Keccak_Squeeze Keccak_Hash
begin

text \<open>
  The sponge construction of FIPS 202 on whole messages (padding, blocks, output), and the proof that
  absorbing, padding and squeezing byte by byte is that construction.
\<close>

section \<open>The sponge construction of FIPS 202\<close>

definition sponge_f :: "bytes \<Rightarrow> bytes" where
  "sponge_f m = lanes_state (spec_permute (state_lanes m))"

fun blocks :: "nat \<Rightarrow> bytes \<Rightarrow> bytes list" where
  "blocks R bs = (if bs = [] \<or> R = 0 then [] else take R bs # blocks R (drop R bs))"

declare blocks.simps [simp del]

definition sponge_pad :: "nat \<Rightarrow> u8 \<Rightarrow> nat \<Rightarrow> bytes" where
  "sponge_pad R d len =
     (let k = R - len mod R in if k = 1 then [d XOR 0x80] else d # replicate (k - 2) 0 @ [0x80])"

fun squeeze_spec :: "nat \<Rightarrow> nat \<Rightarrow> bytes \<Rightarrow> bytes" where
  "squeeze_spec R n m =
     (if n \<le> R \<or> R = 0 then take n m else take R m @ squeeze_spec R (n - R) (sponge_f m))"

declare squeeze_spec.simps [simp del]

definition sponge_digest :: "nat \<Rightarrow> u8 \<Rightarrow> nat \<Rightarrow> bytes \<Rightarrow> bytes" where
  "sponge_digest R d n msg =
     squeeze_spec R n (foldl (\<lambda>m blk. sponge_f (xor_at 0 blk m)) (replicate 200 0)
       (blocks R (msg @ sponge_pad R d (length msg))))"

lemma sponge_f_permute: "KeccakF1600_StatePermute m = sponge_f m"
  by (simp add: KeccakF1600_StatePermute_def sponge_f_def permute_lanes_spec)

lemma absorb_bytes_pos:
  "snd s < R \<Longrightarrow> snd (absorb_bytes R s bs) = (snd s + length bs) mod R"
proof (induction bs arbitrary: s)
  case Nil
  then show ?case by simp
next
  case (Cons b bs)
  have c: "absorb_bytes R s (b # bs) = absorb_bytes R (absorb_byte R s b) bs"
    by (simp add: absorb_bytes_def)
  have "snd (absorb_byte R s b) = Suc (snd s) mod R" and "snd (absorb_byte R s b) < R"
    using Cons.prems by (auto simp: absorb_byte_def Let_def split: prod.split)
  with Cons.IH [of "absorb_byte R s b"] show ?case
    by (simp add: c mod_simps)
qed

lemma absorb_bytes_blocks:
  assumes "length m = 200" and "0 < R" and "R \<le> 200" and "length bs mod R = 0"
  shows "absorb_bytes R (m, 0) bs = (foldl (\<lambda>m blk. sponge_f (xor_at 0 blk m)) m (blocks R bs), 0)"
  using assms(1,4)
proof (induction bs arbitrary: m rule: length_induct)
  case (1 bs)
  show ?case
  proof (cases "bs = []")
    case True
    then show ?thesis by (simp add: blocks.simps)
  next
    case False
    then have R: "R \<le> length bs"
      using 1(3) assms(2) by (metis dvd_imp_le length_greater_0_conv mod_0_imp_dvd)
    let ?m = "sponge_f (xor_at 0 (take R bs) m)"
    have first: "absorb_bytes R (m, 0) (take R bs) = (?m, 0)"
      using R 1(2) assms absorb_run [of 0 "take R bs" R m] by (simp add: sponge_f_permute)
    have "length (drop R bs) < length bs" and "length (drop R bs) mod R = 0"
      using R assms(2) 1(3) by (simp_all flip: le_mod_geq)
    moreover have "length ?m = 200" by (simp flip: sponge_f_permute)
    ultimately have rest: "absorb_bytes R (?m, 0) (drop R bs) =
        (foldl (\<lambda>m blk. sponge_f (xor_at 0 blk m)) ?m (blocks R (drop R bs)), 0)"
      by (intro 1(1) [rule_format])
    have "absorb_bytes R (m, 0) bs = absorb_bytes R (?m, 0) (drop R bs)"
      using absorb_bytes_append [of R "(m, 0)" "take R bs" "drop R bs"] first by simp
    moreover have "blocks R bs = take R bs # blocks R (drop R bs)"
      using False assms(2) by (subst blocks.simps) simp
    ultimately show ?thesis by (simp only: rest foldl_Cons)
  qed
qed

lemma length_sponge_pad: "0 < R \<Longrightarrow> length (sponge_pad R d len) = R - len mod R"
proof -
  assume "0 < R"
  define k where "k = R - len mod R"
  have "0 < k" using mod_less_divisor [OF \<open>0 < R\<close>, of len] by (simp add: k_def)
  then show "length (sponge_pad R d len) = R - len mod R"
    by (simp add: sponge_pad_def Let_def flip: k_def) arith
qed

lemma pad_state_pad:
  assumes "length m = 200" and "pos < R" and "R \<le> 200" and "d < 0x80" and "len mod R = pos"
  shows "pad_state R d (m, pos) = sponge_f (xor_at pos (sponge_pad R d len) m)"
proof -
  have nd: "\<not> d \<ge> 0x80" using assms(4) by simp
  let ?pad = "sponge_pad R d len"
  have len: "pos + length ?pad = R" using assms(2,5) by (simp add: length_sponge_pad)
  let ?m = "m[pos := m ! pos XOR d]"
  have "?m[R - 1 := ?m ! (R - 1) XOR 0x80] = xor_at pos ?pad m"
  proof (rule nth_equalityI)
    show "length (?m[R - 1 := ?m ! (R - 1) XOR 0x80]) = length (xor_at pos ?pad m)"
      using assms len by simp
  next
    fix i assume i: "i < length (?m[R - 1 := ?m ! (R - 1) XOR 0x80])"
    have "xor_at pos ?pad m ! i = (if pos \<le> i \<and> i < R then m ! i XOR ?pad ! (i - pos) else m ! i)"
      using i len assms by (simp add: nth_xor_at)
    moreover have "pos \<le> i \<Longrightarrow> i < R \<Longrightarrow> ?pad ! (i - pos) =
        (if i = pos then d else 0) XOR (if i = R - 1 then 0x80 else 0)"
      using assms(2,5) by (auto simp: sponge_pad_def Let_def nth_Cons' nth_append)
    ultimately show "?m[R - 1 := ?m ! (R - 1) XOR 0x80] ! i = xor_at pos ?pad m ! i"
      using i assms by (auto simp: nth_list_update ac_simps)
  qed
  then show ?thesis using nd by (simp add: pad_state_def Let_def sponge_f_permute)
qed

lemma squeeze_bytes_spec:
  assumes "0 < R" and "R \<le> 200" and "length m = 200"
  shows "fst (squeeze_bytes R n (m, 0)) = squeeze_spec R n m"
  using assms(3)
proof (induction n arbitrary: m rule: less_induct)
  case (less n)
  show ?case
  proof (cases "n \<le> R")
    case True
    then show ?thesis using less.prems assms squeeze_run [of 0 n R m] by (simp add: squeeze_spec.simps)
  next
    case False
    have "squeeze_bytes R (n - R) (m, R) = squeeze_bytes R (n - R) (sponge_f m, 0)"
      using False assms squeeze_bytes_place [of "n - R" R "(m, R)"]
      by (simp add: squeeze_place_def sponge_f_permute)
    moreover have "squeeze_bytes R R (m, 0) = (take R m, (m, R))"
      using less.prems assms squeeze_run [of 0 R R m] by simp
    ultimately have "fst (squeeze_bytes R n (m, 0)) =
        take R m @ fst (squeeze_bytes R (n - R) (sponge_f m, 0))"
      using False squeeze_bytes_add [of R R "n - R" "(m, 0)"] by (simp add: Let_def split_def)
    moreover have "length (sponge_f m) = 200" by (simp flip: sponge_f_permute)
    ultimately show ?thesis
      using less.IH [of "n - R" "sponge_f m"] False assms by (simp add: squeeze_spec.simps [of R n])
  qed
qed

text \<open>Absorbing, padding and squeezing from the zero state is the sponge construction.\<close>

lemma sponge_run_spec:
  assumes "0 < R" and "R \<le> 200" and "d < 0x80"
  shows "fst (squeeze_bytes R n (pad_state R d (absorb_bytes R (replicate 200 0, 0) msg), 0)) =
         sponge_digest R d n msg"
proof -
  obtain m pos where a: "absorb_bytes R (replicate 200 0, 0) msg = (m, pos)" by fastforce
  have v: "length m = 200" "pos < R"
    using absorb_bytes_valid [of "(replicate 200 0, 0)" R msg] assms(1) a by auto
  have pos: "pos = length msg mod R"
    using absorb_bytes_pos [of "(replicate 200 0, 0)" R msg] assms(1) a by simp
  let ?pad = "sponge_pad R d (length msg)"
  have len: "pos + length ?pad = R" using v(2) pos assms(1) by (simp add: length_sponge_pad)
  have "absorb_bytes R (m, pos) ?pad = (sponge_f (xor_at pos ?pad m), 0)"
    using absorb_run [of pos ?pad R m] len v assms by (simp add: sponge_f_permute)
  then have "absorb_bytes R (replicate 200 0, 0) (msg @ ?pad) = (pad_state R d (m, pos), 0)"
    using pad_state_pad [OF v(1,2) assms(2,3) pos [symmetric]] by (simp add: absorb_bytes_append a)
  moreover have "length (msg @ ?pad) mod R = 0"
  proof -
    have "length (msg @ ?pad) = R * (length msg div R) + (pos + length ?pad)"
      using pos by simp
    then show ?thesis by (simp add: len)
  qed
  ultimately have "pad_state R d (m, pos) = foldl (\<lambda>m blk. sponge_f (xor_at 0 blk m)) (replicate 200 0)
      (blocks R (msg @ ?pad))"
    using absorb_bytes_blocks [of "replicate 200 0" R "msg @ ?pad"] assms by simp
  moreover have "length (pad_state R d (m, pos)) = 200" by (simp add: pad_state_def Let_def)
  ultimately show ?thesis using squeeze_bytes_spec [OF assms(1,2)] by (simp add: a sponge_digest_def)
qed

end
