(* ===== verification/Skein_Spec.thy ===== *)
theory Skein_Spec
  imports Skein Keccak_Spec
begin

text \<open>
  What Skein computes on a whole message: the chaining of the specification (\<open>ubi\<close>) and the counter
  mode output. The locale \<open>block_function\<close> is what the buffered code relies on of a block function;
  its lemmas hold for the three sizes by the interpretations at the end.
\<close>

section \<open>The specification\<close>

text \<open>
  Unique block iteration: every block is counted in \<open>t0\<close>, the first one carries the flag \<open>FIRST\<close> in
  \<open>t1\<close>, the last one, padded with zeros, the flag \<open>FINAL\<close>.
\<close>

function ubi ::
  "(u64 list \<Rightarrow> u64 \<Rightarrow> u64 \<Rightarrow> bytes \<Rightarrow> u64 list) \<Rightarrow> nat \<Rightarrow> u64 list \<Rightarrow> u64 \<Rightarrow> u64 \<Rightarrow> bytes \<Rightarrow> u64 list" where
  "ubi f bb X t0 t1 msg =
     (if length msg \<le> bb \<or> bb = 0
      then f X (t0 + word_of_nat (length msg)) (t1 OR SKEIN_T1_FLAG_FINAL)
             (msg @ replicate (bb - length msg) 0)
      else ubi f bb (f X (t0 + word_of_nat bb) t1 (take bb msg)) (t0 + word_of_nat bb)
             (t1 AND NOT SKEIN_T1_FLAG_FIRST) (drop bb msg))"
  by pat_completeness auto
termination
  by (relation "measure (\<lambda>(f, bb, X, t0, t1, msg). length msg)") auto

declare ubi.simps [simp del]

definition output_block ::
  "(u64 list \<Rightarrow> u64 \<Rightarrow> u64 \<Rightarrow> bytes \<Rightarrow> u64 list) \<Rightarrow> nat \<Rightarrow> u64 list \<Rightarrow> nat \<Rightarrow> bytes" where
  "output_block f bb X i =
     concat (map lane_bytes
       (f X 8 (SKEIN_T1_FLAG_FIRST OR SKEIN_T1_BLK_TYPE_OUT_FINAL)
          (lane_bytes (word_of_nat i) @ replicate (bb - 8) 0)))"

definition skein_digest ::
  "(u64 list \<Rightarrow> u64 \<Rightarrow> u64 \<Rightarrow> bytes \<Rightarrow> u64 list) \<Rightarrow> nat \<Rightarrow> u64 list \<Rightarrow> nat \<Rightarrow> bytes \<Rightarrow> bytes" where
  "skein_digest f bb iv n msg =
     (let X = ubi f bb iv 0 (SKEIN_T1_FLAG_FIRST OR SKEIN_T1_BLK_TYPE_MSG) msg
      in take n (concat (map (output_block f bb X) [0..<(n + bb - 1) div bb])))"

section \<open>Chaining over whole blocks\<close>

definition chain_block ::
  "(u64 list \<Rightarrow> u64 \<Rightarrow> u64 \<Rightarrow> bytes \<Rightarrow> u64 list) \<Rightarrow> nat \<Rightarrow> u64 list \<times> u64 \<times> u64 \<Rightarrow> bytes \<Rightarrow> u64 list \<times> u64 \<times> u64" where
  "chain_block f bb s blk =
     (let (X, t0, t1) = s; t0 = t0 + word_of_nat bb in (f X t0 t1 blk, t0, t1 AND NOT SKEIN_T1_FLAG_FIRST))"

lemma blocks_append:
  assumes "0 < bb" and "length a mod bb = 0"
  shows "blocks bb (a @ b) = blocks bb a @ blocks bb b"
  using assms(2)
proof (induction a rule: length_induct)
  case (1 a)
  show ?case
  proof (cases "a = []")
    case True
    then show ?thesis by (simp add: blocks.simps [of bb "[]"])
  next
    case False
    then have bb: "bb \<le> length a"
      using 1(2) by (metis dvd_imp_le length_greater_0_conv mod_0_imp_dvd)
    then have "length (drop bb a) < length a" and "length (drop bb a) mod bb = 0"
      using assms(1) 1(2) False by (simp_all flip: le_mod_geq)
    then have "blocks bb (drop bb a @ b) = blocks bb (drop bb a) @ blocks bb b"
      by (intro 1(1) [rule_format])
    moreover have "blocks bb (a @ b) = take bb a # blocks bb (drop bb a @ b)"
      using False assms(1) bb by (subst blocks.simps) simp
    moreover have "blocks bb a = take bb a # blocks bb (drop bb a)"
      using False assms(1) by (subst blocks.simps) simp
    ultimately show ?thesis by simp
  qed
qed

lemma blocks_whole: "0 < bb \<Longrightarrow> length a = bb \<Longrightarrow> blocks bb a = [a]"
  by (subst blocks.simps) (auto simp: blocks.simps [of bb "[]"])

lemma process_loop_ok:
  assumes "0 < bb" and "0 < n" and "n * bb \<le> length blk"
  shows "process_loop f bb n (word_of_nat bb) blk s =
         Inr (foldl (chain_block f bb) s (blocks bb (take (n * bb) blk)))"
  using assms(2,3)
proof (induction n arbitrary: blk s)
  case 0
  then show ?case by simp
next
  case (Suc n)
  obtain X t0 t1 where s: "s = (X, t0, t1)" by (cases s)
  have "take (Suc n * bb) blk = take bb blk @ take (n * bb) (drop bb blk)"
    by (simp add: take_add)
  moreover have "length (take bb blk) = bb" using Suc.prems by simp
  ultimately have "blocks bb (take (Suc n * bb) blk) = take bb blk # blocks bb (take (n * bb) (drop bb blk))"
    using assms(1) by (simp only: blocks_append blocks_whole mod_self append_Cons append_Nil)
  then show ?case using Suc s by (auto simp: chain_block_def Let_def blocks.simps [of bb "[]"])
qed

lemma process_one: "length blk = bb \<Longrightarrow> process_loop f bb 1 add blk (X, t0, t1) =
    Inr (f X (t0 + add) t1 blk, t0 + add, t1 AND NOT SKEIN_T1_FLAG_FIRST)"
  by (simp add: Let_def One_nat_def)

lemma ubi_blocks:
  assumes "0 < bb"
  shows "ubi f bb X t0 t1 msg =
    (let k = (length msg - 1) div bb;
         (X, t0, t1) = foldl (chain_block f bb) (X, t0, t1) (blocks bb (take (k * bb) msg));
         rest = drop (k * bb) msg
     in f X (t0 + word_of_nat (length rest)) (t1 OR SKEIN_T1_FLAG_FINAL)
          (rest @ replicate (bb - length rest) 0))"
proof (induction "length msg" arbitrary: X t0 t1 msg rule: less_induct)
  case less
  show ?case
  proof (cases "length msg \<le> bb")
    case True
    then have "(length msg - 1) div bb = 0" using assms by (cases msg) simp_all
    with True show ?thesis by (simp add: ubi.simps Let_def blocks.simps [of bb "[]"])
  next
    case False
    let ?rest = "drop bb msg"
    have "length msg - 1 = bb + (length ?rest - 1)" using False by simp
    then have k: "(length msg - 1) div bb = Suc ((length ?rest - 1) div bb)"
      using assms by (simp only: div_add_self1)
    define k where "k = (length ?rest - 1) div bb"
    have "take (Suc k * bb) msg = take bb msg @ take (k * bb) ?rest" by (simp add: take_add)
    moreover have "length (take bb msg) = bb" using False by simp
    ultimately have b: "blocks bb (take (Suc k * bb) msg) = take bb msg # blocks bb (take (k * bb) ?rest)"
      using assms by (simp only: blocks_append blocks_whole mod_self append_Cons append_Nil)
    have d: "drop (Suc k * bb) msg = drop (k * bb) ?rest" by (simp add: add.commute)
    have c: "chain_block f bb (X, t0, t1) (take bb msg) =
        (f X (t0 + word_of_nat bb) t1 (take bb msg), t0 + word_of_nat bb, t1 AND NOT SKEIN_T1_FLAG_FIRST)"
      by (simp add: chain_block_def Let_def)
    have "length ?rest < length msg" using False assms by simp
    from less [OF this, of "f X (t0 + word_of_nat bb) t1 (take bb msg)" "t0 + word_of_nat bb"
        "t1 AND NOT SKEIN_T1_FLAG_FIRST", folded k_def, unfolded Let_def]
    show ?thesis using False assms
      unfolding ubi.simps [of f bb X] k k_def [symmetric] Let_def b d foldl_Cons c by simp
  qed
qed

section \<open>The buffered operations\<close>

text \<open>
  \<open>holds_message\<close>: a context in the middle of a message has chained the blocks before the last, possibly
  incomplete one, which is in its buffer.
\<close>

definition whole_blocks :: "nat \<Rightarrow> bytes \<Rightarrow> nat" where
  "whole_blocks bb M = (length M - 1) div bb"

definition chained ::
  "(u64 list \<Rightarrow> u64 \<Rightarrow> u64 \<Rightarrow> bytes \<Rightarrow> u64 list) \<Rightarrow> nat \<Rightarrow> u64 list \<times> u64 \<times> u64 \<Rightarrow> nat \<Rightarrow> bytes \<Rightarrow> u64 list \<times> u64 \<times> u64" where
  "chained f bb s k M = foldl (chain_block f bb) s (blocks bb (take (k * bb) M))"

definition holds_message ::
  "(u64 list \<Rightarrow> u64 \<Rightarrow> u64 \<Rightarrow> bytes \<Rightarrow> u64 list) \<Rightarrow> nat \<Rightarrow> u64 list \<times> u64 \<times> u64 \<Rightarrow> bytes \<Rightarrow> skein \<Rightarrow> bool" where
  "holds_message f bb s M ctx \<longleftrightarrow>
     (chain ctx, tweak0 ctx, tweak1 ctx) = chained f bb s (whole_blocks bb M) M
     \<and> bCnt ctx = length M - whole_blocks bb M * bb
     \<and> take (bCnt ctx) (buffer ctx) = drop (whole_blocks bb M * bb) M
     \<and> length (buffer ctx) = bb"

lemma whole_blocks_rest:
  assumes "0 < bb"
  shows "whole_blocks bb M * bb \<le> length M" and "length M - whole_blocks bb M * bb \<le> bb"
    and "M \<noteq> [] \<Longrightarrow> 0 < length M - whole_blocks bb M * bb"
proof -
  have q: "whole_blocks bb M * bb + (length M - 1) mod bb = length M - 1"
    by (simp add: whole_blocks_def)
  have r: "(length M - 1) mod bb < bb" using assms by simp
  from q show "whole_blocks bb M * bb \<le> length M" by linarith
  from q r show "length M - whole_blocks bb M * bb \<le> bb" by linarith
  assume "M \<noteq> []"
  then have "0 < length M" by simp
  with q show "0 < length M - whole_blocks bb M * bb" by linarith
qed

lemma whole_blocks_unique:
  assumes "length M = k * bb + r" and "0 < r" and "r \<le> bb"
  shows "whole_blocks bb M = k"
proof -
  have "length M - 1 = k * bb + (r - 1)" using assms by simp
  moreover have "(k * bb + (r - 1)) div bb = k"
    using assms by (subst div_mult_self3) simp_all
  ultimately show ?thesis by (simp only: whole_blocks_def)
qed

lemma chained_add:
  assumes "0 < bb" and "(k + n) * bb \<le> length M"
  shows "chained f bb s (k + n) M = chained f bb (chained f bb s k M) n (drop (k * bb) M)"
proof -
  have "take ((k + n) * bb) M = take (k * bb) M @ take (n * bb) (drop (k * bb) M)"
    by (simp add: take_add add_mult_distrib)
  moreover have "length (take (k * bb) M) mod bb = 0"
    using assms(2) by (simp add: add_mult_distrib min_absorb2)
  ultimately show ?thesis using assms(1) by (simp add: chained_def blocks_append)
qed

lemma chained_zero [simp]: "chained f bb s 0 M = s"
  by (simp add: chained_def blocks.simps [of bb "[]"])

lemma chained_prefix: "k * bb \<le> length M \<Longrightarrow> chained f bb s k (M @ N) = chained f bb s k M"
  by (simp add: chained_def)

text \<open>
  The empty buffer at a block boundary: what remains of the message is chained up to its last block
  and buffered.
\<close>

lemma update_rest:
  assumes "0 < bb" and "msg \<noteq> []" and "bCnt ctx = 0" and "length (buffer ctx) = bb"
    and "(chain ctx, tweak0 ctx, tweak1 ctx) = chained f bb s k M" and "msg = drop (k * bb) M"
  shows "\<exists>ctx1. rbind (if length msg > bb
            then let n = (length msg - 1) div bb in
                 rbind (process_blocks f bb ctx msg n bb) (\<lambda>ctx. Inr (ctx, drop (n * bb) msg))
            else Inr (ctx, msg)) (\<lambda>(ctx, msg).
              if msg \<noteq> [] then buffer_message ctx msg (length msg) else Inr ctx) = Inr ctx1
         \<and> holds_message f bb s M ctx1 \<and> hashBitLen ctx1 = hashBitLen ctx"
proof -
  define n where "n = whole_blocks bb msg"
  note w = whole_blocks_rest [OF assms(1), of msg, folded n_def]
  have n0: "\<not> length msg > bb \<Longrightarrow> n = 0"
    using assms(1,2) by (cases msg) (auto simp: n_def whole_blocks_def)
  have n1: "length msg > bb \<Longrightarrow> 0 < n"
    using assms(1) by (auto simp: n_def whole_blocks_def div_greater_zero_iff)
  have km: "k * bb \<le> length M" using assms(2,6) by (cases "k * bb \<le> length M") auto
  have len: "length M = k * bb + length msg" using km assms(6) by simp
  define ctx1 where "ctx1 = (let (X, t0, t1) = chained f bb s (k + n) M in ctx\<lparr>chain := X, tweak0 := t0, tweak1 := t1\<rparr>)"
  have c1: "(chain ctx1, tweak0 ctx1, tweak1 ctx1) = chained f bb s (k + n) M"
    "bCnt ctx1 = 0" "buffer ctx1 = buffer ctx" "hashBitLen ctx1 = hashBitLen ctx"
    by (simp_all add: ctx1_def Let_def split_def assms(3))
  have add: "chained f bb s (k + n) M = chained f bb (chain ctx, tweak0 ctx, tweak1 ctx) n msg"
    unfolding assms(5,6) using assms(1) w(1) len by (intro chained_add) (simp_all add: add_mult_distrib)
  have step: "(if length msg > bb
            then let n = (length msg - 1) div bb in
                 rbind (process_blocks f bb ctx msg n bb) (\<lambda>ctx. Inr (ctx, drop (n * bb) msg))
            else Inr (ctx, msg)) = Inr (ctx1, drop (n * bb) msg)"
  proof (cases "length msg > bb")
    case True
    have "process_blocks f bb ctx msg n bb = Inr ctx1"
      unfolding process_blocks_def process_loop_ok [OF assms(1) n1 [OF True] w(1)] rbind_Inr ctx1_def add
        chained_def [symmetric]
      by (simp add: split_def Let_def)
    with True show ?thesis by (simp add: Let_def n_def whole_blocks_def)
  next
    case False
    with n0 have n0: "n = 0" by simp
    from False show ?thesis by (simp add: n0 ctx1_def flip: assms(5))
  qed
  let ?rest = "drop (n * bb) msg"
  have r: "?rest \<noteq> []" "length ?rest \<le> bb" "0 < length ?rest" using w assms(2) by simp_all
  have k: "whole_blocks bb M = k + n"
    using r(2,3) len w(1) by (intro whole_blocks_unique [of _ _ _ "length ?rest"]) (simp_all add: add_mult_distrib)
  have d: "drop ((k + n) * bb) M = ?rest" by (simp add: assms(6) add_mult_distrib add.commute)
  let ?buf = "?rest @ drop (length ?rest) (buffer ctx)"
  have "buffer_message ctx1 ?rest (length ?rest) = Inr (ctx1\<lparr>buffer := ?buf, bCnt := length ?rest\<rparr>)"
    using r(2) assms(4) by (simp add: buffer_message_def buffer_write_def c1)
  moreover have "holds_message f bb s M (ctx1\<lparr>buffer := ?buf, bCnt := length ?rest\<rparr>)"
    using c1(1) r(2) assms(4) len w(1) d by (simp add: holds_message_def k add_mult_distrib)
  ultimately show ?thesis unfolding step using r(1) c1(4) by simp
qed

lemma update_ok:
  assumes "0 < bb" and "holds_message f bb s M ctx"
  shows "\<exists>ctx1. skein_update (process_blocks f bb) bb ctx msg = Inr ctx1
           \<and> holds_message f bb s (M @ msg) ctx1 \<and> hashBitLen ctx1 = hashBitLen ctx"
proof -
  define k where "k = whole_blocks bb M"
  note w = whole_blocks_rest [OF assms(1), of M, folded k_def]
  note h = assms(2) [unfolded holds_message_def, folded k_def]
  have cnt: "bCnt ctx \<le> bb" "length M = k * bb + bCnt ctx" using h w by auto
  show ?thesis
  proof (cases "length msg + bCnt ctx > bb")
    case False
    show ?thesis
    proof (cases "msg = []")
      case True
      with False assms(2) show ?thesis by (simp add: skein_update_def)
    next
      case msg: False
      let ?buf = "take (bCnt ctx) (buffer ctx) @ msg @ drop (bCnt ctx + length msg) (buffer ctx)"
      have k: "whole_blocks bb (M @ msg) = k"
        using False msg cnt by (intro whole_blocks_unique [of _ _ _ "bCnt ctx + length msg"]) simp_all
      have "skein_update (process_blocks f bb) bb ctx msg =
          Inr (ctx\<lparr>buffer := ?buf, bCnt := bCnt ctx + length msg\<rparr>)"
        using False msg h by (simp add: skein_update_def buffer_message_def buffer_write_def)
      moreover have "holds_message f bb s (M @ msg) (ctx\<lparr>buffer := ?buf, bCnt := bCnt ctx + length msg\<rparr>)"
        unfolding holds_message_def k
      proof (intro conjI)
        let ?new = "ctx\<lparr>buffer := ?buf, bCnt := bCnt ctx + length msg\<rparr>"
        show "(chain ?new, tweak0 ?new, tweak1 ?new) = chained f bb s k (M @ msg)"
          using h w(1) by (simp add: chained_prefix)
        show "bCnt ?new = length (M @ msg) - k * bb" using cnt by simp
        show "take (bCnt ?new) (buffer ?new) = drop (k * bb) (M @ msg)"
          using h cnt by simp
        show "length (buffer ?new) = bb" using False h by simp
      qed
      ultimately show ?thesis by simp
    qed
  next
    case big: True
    show ?thesis
    proof (cases "bCnt ctx = 0")
      case True
      then have "M = []" using h w(3) by auto
      then have "k = 0" by (simp add: k_def whole_blocks_def)
      moreover have "msg \<noteq> []" using big True assms(1) by auto
      ultimately show ?thesis
        using update_rest [OF assms(1), of msg ctx f s 0 msg] h True big \<open>M = []\<close>
        by (simp add: skein_update_def)
    next
      case False
      define n where "n = bb - bCnt ctx"
      have n: "n < length msg" using big cnt(1) by (simp add: n_def)
      let ?blk = "drop (k * bb) M @ take n msg"
      have blk: "length ?blk = bb" using n cnt by (simp add: n_def)
      define ctx1 where "ctx1 = ctx\<lparr>buffer := ?blk, bCnt := bb\<rparr>"
      have fill: "(if n \<noteq> 0 then buffer_message ctx msg n else Inr ctx) = Inr ctx1"
      proof (cases "n = 0")
        case True
        then have "bCnt ctx = bb" using cnt by (simp add: n_def)
        moreover have "buffer ctx = drop (k * bb) M" using h \<open>bCnt ctx = bb\<close> by auto
        ultimately have "ctx1 = ctx" by (cases ctx) (simp add: ctx1_def True)
        with True show ?thesis by simp
      next
        case False
        have "bCnt ctx + n = bb" "length (buffer ctx) = bb" "take (bCnt ctx) (buffer ctx) = drop (k * bb) M"
          using h cnt by (simp_all add: n_def)
        with False n show ?thesis
          by (simp add: buffer_message_def buffer_write_def ctx1_def min_absorb2)
      qed
      define ctx2 where "ctx2 = (let (X, t0, t1) = chain_block f bb (chain ctx, tweak0 ctx, tweak1 ctx) ?blk
          in ctx1\<lparr>chain := X, tweak0 := t0, tweak1 := t1, bCnt := 0\<rparr>)"
      have proc: "rbind (process_blocks f bb ctx1 (buffer ctx1) 1 bb) (\<lambda>ctx. Inr (ctx\<lparr>bCnt := 0\<rparr>, drop n msg))
          = Inr (ctx2, drop n msg)"
        unfolding process_blocks_def using blk
        by (simp add: process_one ctx1_def ctx2_def chain_block_def Let_def flip: One_nat_def)
      have c2: "(chain ctx2, tweak0 ctx2, tweak1 ctx2) = chain_block f bb (chain ctx, tweak0 ctx, tweak1 ctx) ?blk"
        "bCnt ctx2 = 0" "buffer ctx2 = ?blk" "hashBitLen ctx2 = hashBitLen ctx"
        by (simp_all add: ctx2_def ctx1_def Let_def split_def)
      have lenk: "(k + 1) * bb = length M + n" using cnt by (simp add: n_def)
      have "take bb (drop (k * bb) (M @ msg)) = ?blk" using cnt n by (simp add: n_def)
      then have "chained f bb (chained f bb s k (M @ msg)) 1 (drop (k * bb) (M @ msg)) =
          chain_block f bb (chained f bb s k M) ?blk"
        using blk assms(1) w(1) by (simp add: chained_prefix) (simp add: chained_def blocks_whole)
      then have st: "(chain ctx2, tweak0 ctx2, tweak1 ctx2) = chained f bb s (k + 1) (M @ msg)"
        using chained_add [OF assms(1), of k 1 "M @ msg" f s] lenk n h c2(1) by simp
      have dr: "drop n msg = drop ((k + 1) * bb) (M @ msg)" by (simp only: lenk) simp
      have ne: "drop n msg \<noteq> []" and bl: "length (buffer ctx2) = bb" using n blk c2(3) by simp_all
      from update_rest [OF assms(1) ne c2(2) bl st dr] obtain ctx3 where
        "rbind (if length (drop n msg) > bb
            then let m = (length (drop n msg) - 1) div bb in
                 rbind (process_blocks f bb ctx2 (drop n msg) m bb) (\<lambda>ctx. Inr (ctx, drop (m * bb) (drop n msg)))
            else Inr (ctx2, drop n msg)) (\<lambda>(ctx, msg).
              if msg \<noteq> [] then buffer_message ctx msg (length msg) else Inr ctx) = Inr ctx3"
        "holds_message f bb s (M @ msg) ctx3" "hashBitLen ctx3 = hashBitLen ctx2" by blast
      moreover have "skein_update (process_blocks f bb) bb ctx msg =
        rbind (if length (drop n msg) > bb
            then let m = (length (drop n msg) - 1) div bb in
                 rbind (process_blocks f bb ctx2 (drop n msg) m bb) (\<lambda>ctx. Inr (ctx, drop (m * bb) (drop n msg)))
            else Inr (ctx2, drop n msg)) (\<lambda>(ctx, msg).
              if msg \<noteq> [] then buffer_message ctx msg (length msg) else Inr ctx)"
        unfolding skein_update_def if_P [OF big] Let_def n_def [symmetric] fill rbind_Inr if_P [OF False] proc
        by (simp only: prod.case)
      ultimately show ?thesis using c2(4) by metis
    qed
  qed
qed

section \<open>Block functions\<close>

text \<open>\<open>init_iv\<close>: the chaining words \<open>Init\<close> starts a message with.\<close>

definition init_iv ::
  "(u64 list \<Rightarrow> u64 \<Rightarrow> u64 \<Rightarrow> bytes \<Rightarrow> u64 list) \<Rightarrow> nat \<Rightarrow> (u64 \<Rightarrow> u64 list option) \<Rightarrow> u64 \<Rightarrow> u64 list" where
  "init_iv f bb precomputed bitlen =
     (case precomputed bitlen of
        Some iv \<Rightarrow> iv
      | None \<Rightarrow> f (replicate (bb div 8) 0) (word_of_nat SKEIN_CFG_STR_LEN)
                  (SKEIN_T1_FLAG_FIRST OR SKEIN_T1_BLK_TYPE_CFG_FINAL) (skein_config bb bitlen 0))"

definition skein_hash ::
  "block_processor \<Rightarrow> nat \<Rightarrow> (u64 \<Rightarrow> u64 list option) \<Rightarrow> skein \<Rightarrow> u64 \<Rightarrow> bytes list \<Rightarrow> (skein \<times> bytes) res" where
  "skein_hash pb bb precomputed ctx bitlen parts =
     rbind (skein_init pb bb precomputed ctx bitlen) (\<lambda>ctx.
     rbind (rfold (\<lambda>msg ctx. skein_update pb bb ctx msg) parts ctx) (skein_final pb bb))"

locale block_function =
  fixes f :: "u64 list \<Rightarrow> u64 \<Rightarrow> u64 \<Rightarrow> bytes \<Rightarrow> u64 list" and bb :: nat
  assumes block_words: "length (f X t0 t1 blk) = bb div 8"
    and block_size: "24 \<le> bb" "bb mod 8 = 0"
begin

lemma block_pos: "0 < bb"
  using block_size by simp

lemma process_single:
  "length blk = bb \<Longrightarrow> process_blocks f bb ctx blk 1 n =
     Inr (ctx\<lparr>chain := f (chain ctx) (tweak0 ctx + word_of_nat n) (tweak1 ctx) blk,
              tweak0 := tweak0 ctx + word_of_nat n, tweak1 := tweak1 ctx AND NOT SKEIN_T1_FLAG_FIRST\<rparr>)"
  unfolding process_blocks_def by (simp add: process_one flip: One_nat_def)

lemma init_ok:
  assumes "length (buffer ctx) = bb"
  shows "\<exists>ctx1. skein_init (process_blocks f bb) bb precomputed ctx bitlen = Inr ctx1
           \<and> holds_message f bb (init_iv f bb precomputed bitlen, 0, SKEIN_T1_FLAG_FIRST OR SKEIN_T1_BLK_TYPE_MSG) [] ctx1
           \<and> hashBitLen ctx1 = bitlen"
proof -
  have "length (skein_config bb bitlen 0) = bb" using block_size by (simp add: skein_config_def)
  then show ?thesis using assms
    by (simp add: skein_init_def skein_init_computed_def Skein_Start_New_Type_def holds_message_def
        whole_blocks_def init_iv_def process_single Let_def split: option.split flip: One_nat_def)
qed

lemma updates_ok:
  assumes "holds_message f bb s M ctx"
  shows "\<exists>ctx1. rfold (\<lambda>msg ctx. skein_update (process_blocks f bb) bb ctx msg) parts ctx = Inr ctx1
           \<and> holds_message f bb s (M @ concat parts) ctx1 \<and> hashBitLen ctx1 = hashBitLen ctx"
  using assms
proof (induction parts arbitrary: M ctx)
  case Nil
  then show ?case by simp
next
  case (Cons msg parts)
  from update_ok [OF block_pos Cons.prems, of msg] obtain ctx1 where
    u: "skein_update (process_blocks f bb) bb ctx msg = Inr ctx1"
    "holds_message f bb s (M @ msg) ctx1" "hashBitLen ctx1 = hashBitLen ctx" by blast
  from Cons.IH [OF u(2)] u(1,3) show ?case by simp
qed

lemma last_block_ok:
  assumes "holds_message f bb (X, t0, t1) M ctx"
  shows "\<exists>ctx1. skein_last_block (process_blocks f bb) bb ctx = Inr ctx1
           \<and> chain ctx1 = ubi f bb X t0 t1 M \<and> hashBitLen ctx1 = hashBitLen ctx"
proof -
  define k where "k = whole_blocks bb M"
  define rest where "rest = drop (k * bb) M"
  note h = assms [unfolded holds_message_def, folded k_def rest_def]
  have r: "length rest \<le> bb" "bCnt ctx = length rest"
    using whole_blocks_rest(2) [OF block_pos, of M] h by (simp_all add: k_def rest_def)
  let ?blk = "rest @ replicate (bb - length rest) 0"
  have t: "take (bCnt ctx) (buffer ctx) = rest" and lb: "length (buffer ctx) = bb"
    using h unfolding rest_def by blast+
  have d: "bb - length rest = bb - bCnt ctx" by (simp only: r(2))
  have w: "(if bCnt ctx < bb then buffer_write (bCnt ctx) (replicate (bb - bCnt ctx) 0) (buffer ctx)
      else Inr (buffer ctx)) = Inr ?blk"
  proof (cases "bCnt ctx < bb")
    case True
    then show ?thesis by (simp add: buffer_write_def t lb d)
  next
    case False
    then have "take (bCnt ctx) (buffer ctx) = buffer ctx" by (simp add: lb)
    with False show ?thesis by (simp add: t d lb)
  qed
  have "length ?blk = bb" using r by simp
  moreover obtain X1 u0 u1 where c: "chained f bb (X, t0, t1) k M = (X1, u0, u1)" by (cases "chained f bb (X, t0, t1) k M")
  moreover have "ubi f bb X t0 t1 M = f X1 (u0 + word_of_nat (length rest)) (u1 OR SKEIN_T1_FLAG_FINAL) ?blk"
    using c by (simp add: ubi_blocks [OF block_pos] Let_def chained_def rest_def k_def whole_blocks_def)
  moreover have "(chain ctx, tweak0 ctx, tweak1 ctx) = chained f bb (X, t0, t1) k M" using h by blast
  moreover have "skein_last_block (process_blocks f bb) bb ctx =
      rbind (if bCnt ctx < bb then buffer_write (bCnt ctx) (replicate (bb - bCnt ctx) 0) (buffer ctx)
             else Inr (buffer ctx)) (\<lambda>buf.
        process_blocks f bb (ctx\<lparr>tweak1 := tweak1 ctx OR SKEIN_T1_FLAG_FINAL, buffer := buf\<rparr>) buf 1 (bCnt ctx))"
    by (simp add: skein_last_block_def Let_def)
  ultimately show ?thesis unfolding w rbind_Inr by (simp add: process_single r(2) del: One_nat_def)
qed

lemma length_output_block: "length (output_block f bb X i) = bb"
proof -
  have "length (output_block f bb X i) = 8 * (bb div 8)"
    using length_lanes_state by (simp add: output_block_def lanes_state_def block_words)
  with block_size show ?thesis by presburger
qed

lemma counter_mode_ok:
  assumes "length (buffer ctx) = bb" and "drop 8 (buffer ctx) = replicate (bb - 8) 0" and "chain ctx = X"
  shows "\<exists>ctx1. counter_mode (process_blocks f bb) bb n X i ctx =
           Inr (ctx1, take (n - i * bb) (concat (map (output_block f bb X) [i..<(n + bb - 1) div bb])))"
  using assms
proof (induction "n - i * bb" arbitrary: i ctx rule: less_induct)
  case less
  show ?case
  proof (cases "i * bb < n")
    case False
    then show ?thesis by (simp add: counter_mode.simps)
  next
    case True
    let ?blk = "lane_bytes (word_of_nat i) @ replicate (bb - 8) 0"
    have blk: "length ?blk = bb" using block_size by simp
    have w: "buffer_write 0 (lane_bytes (word_of_nat i)) (buffer ctx) = Inr ?blk"
      using less.prems block_size by (simp add: buffer_write_def)
    define ctx1 where "ctx1 = Skein_Start_New_Type SKEIN_T1_BLK_TYPE_OUT_FINAL (ctx\<lparr>buffer := ?blk\<rparr>)"
    have c1: "buffer ctx1 = ?blk" "chain ctx1 = X" "tweak0 ctx1 = 0"
      "tweak1 ctx1 = SKEIN_T1_FLAG_FIRST OR SKEIN_T1_BLK_TYPE_OUT_FINAL"
      using less.prems by (simp_all add: ctx1_def Skein_Start_New_Type_def)
    obtain ctx2 where p: "process_blocks f bb ctx1 (buffer ctx1) 1 8 = Inr ctx2"
      and c2: "concat (map lane_bytes (chain ctx2)) = output_block f bb X i" "buffer ctx2 = ?blk"
      "length (chain ctx2) = bb div 8"
      using process_single [of ?blk ctx1 8] blk c1 by (auto simp: output_block_def block_words)
    note lb = length_output_block [of X]
    let ?n = "n - i * bb"
    have chunk: "Skein_Put64_LSB_First (chain ctx2) (if bb \<le> ?n then bb else ?n) = take ?n (output_block f bb X i)"
      using lb [of i] by (simp add: Skein_Put64_LSB_First_def c2)
    have "i * bb + 1 * bb \<le> n + bb - 1" using True by simp
    then have "(i + 1) * bb \<le> n + bb - 1" by (simp only: add_mult_distrib)
    then have up: "i < (n + bb - 1) div bb"
      using block_pos by (simp add: less_eq_div_iff_mult_less_eq Suc_le_eq [symmetric])
    have "n - Suc i * bb < n - i * bb" using True block_pos by simp
    from less.hyps [OF this, of "ctx2\<lparr>chain := X\<rparr>"] c2 blk obtain ctx3 where
      "counter_mode (process_blocks f bb) bb n X (Suc i) (ctx2\<lparr>chain := X\<rparr>) =
         Inr (ctx3, take (n - Suc i * bb) (concat (map (output_block f bb X) [Suc i..<(n + bb - 1) div bb])))"
      by auto
    moreover have "n - Suc i * bb = ?n - bb" by simp
    ultimately show ?thesis
      using True block_pos up lb [of i]
      unfolding counter_mode.simps [of _ _ _ _ i]
      by (simp add: w Let_def ctx1_def [symmetric] p [unfolded c1(1) One_nat_def] c1 chunk upt_conv_Cons)
  qed
qed

lemma output_ok:
  "\<exists>ctx1. skein_output (process_blocks f bb) bb ctx =
     Inr (ctx1, take (unat (drop_bit 3 (hashBitLen ctx + 7)))
       (concat (map (output_block f bb (chain ctx)) [0..<(unat (drop_bit 3 (hashBitLen ctx + 7)) + bb - 1) div bb])))"
  using counter_mode_ok [of "ctx\<lparr>buffer := replicate bb 0\<rparr>" "chain ctx" "unat (drop_bit 3 (hashBitLen ctx + 7))" 0]
  by (simp add: skein_output_def)

lemma hash_ok:
  assumes "length (buffer ctx) = bb"
  shows "\<exists>ctx1. skein_hash (process_blocks f bb) bb precomputed ctx bitlen parts =
     Inr (ctx1, skein_digest f bb (init_iv f bb precomputed bitlen) (unat (drop_bit 3 (bitlen + 7))) (concat parts))"
proof -
  from init_ok [OF assms] obtain c1 where
    1: "skein_init (process_blocks f bb) bb precomputed ctx bitlen = Inr c1"
    "holds_message f bb (init_iv f bb precomputed bitlen, 0, SKEIN_T1_FLAG_FIRST OR SKEIN_T1_BLK_TYPE_MSG) [] c1"
    "hashBitLen c1 = bitlen" by blast
  from updates_ok [OF 1(2), of parts] obtain c2 where
    2: "rfold (\<lambda>msg ctx. skein_update (process_blocks f bb) bb ctx msg) parts c1 = Inr c2"
    "holds_message f bb (init_iv f bb precomputed bitlen, 0, SKEIN_T1_FLAG_FIRST OR SKEIN_T1_BLK_TYPE_MSG) ([] @ concat parts) c2"
    "hashBitLen c2 = bitlen" using 1(3) by auto
  from last_block_ok [OF 2(2)] obtain c3 where
    3: "skein_last_block (process_blocks f bb) bb c2 = Inr c3" "hashBitLen c3 = bitlen"
    "chain c3 = ubi f bb (init_iv f bb precomputed bitlen) 0 (SKEIN_T1_FLAG_FIRST OR SKEIN_T1_BLK_TYPE_MSG) (concat parts)"
    using 2(3) by auto
  from output_ok [of c3] show ?thesis
    by (simp add: skein_hash_def 1(1) 2(1) skein_final_def 3 skein_digest_def Let_def)
qed

lemma digest_length: "length (skein_digest f bb iv n msg) = n"
proof -
  have "length (concat (map (output_block f bb X) [0..<k])) = k * bb" for X k
    by (induction k) (simp_all add: length_output_block)
  moreover have "n \<le> (n + bb - 1) div bb * bb"
  proof -
    have "n + bb - 1 = (n + bb - 1) div bb * bb + (n + bb - 1) mod bb" by simp
    moreover have "(n + bb - 1) mod bb < bb" using block_pos by simp
    ultimately show ?thesis by linarith
  qed
  ultimately show ?thesis by (simp add: skein_digest_def Let_def)
qed

end

interpretation skein_256: block_function Skein_256_block 32
  by unfold_locales (simp_all add: Skein_256_block_def Let_def)

interpretation skein_512: block_function Skein_512_block 64
  by unfold_locales (simp_all add: Skein_512_block_def Let_def)

interpretation skein_1024: block_function Skein1024_block 128
  by unfold_locales (simp_all add: Skein1024_block_def Let_def split_def)

end
