(* ===== verification/Hash_Runs.thy ===== *)
theory Hash_Runs
  imports Hash_Templates Skein_Spec
begin

text \<open>
  Whole runs of the hash functions: a Keccak instance that is initialised, updated and finished, and
  the two stages of the templates. Each is the digest of its specification.
\<close>

section \<open>Keccak hashing of a message in parts\<close>

fun hash_updates :: "keccak_instance \<Rightarrow> bytes list \<Rightarrow> (HashReturn \<times> keccak_instance) res option" where
  "hash_updates inst [] = Some (Inr (SUCCESS, inst))"
| "hash_updates inst (p # ps) =
     Option.bind (Keccak_HashUpdate inst p (word_of_nat (8 * length p))) (\<lambda>r.
       case r of
         Inl e \<Rightarrow> Some (Inl e)
       | Inr (ret, inst1) \<Rightarrow> if ret = SUCCESS then hash_updates inst1 ps else Some (Inr (ret, inst1)))"

text \<open>An instance that has absorbed the message \<open>M\<close> at the rate of \<open>R\<close> bytes.\<close>

definition absorbed :: "nat \<Rightarrow> bytes \<Rightarrow> sponge \<Rightarrow> bool" where
  "absorbed R M sp \<longleftrightarrow>
     sponge_ok sp \<and> \<not> squeezing sp \<and> rate_bytes sp = R
     \<and> place sp = absorb_bytes R (replicate 200 0, 0) M"

lemma initialize_ok:
  assumes "r + c = (1600 :: u32)" and "8 \<le> r" and "r \<le> 1600" and "r mod 8 = 0" and "d \<noteq> 0"
  shows "\<exists>sp. Keccak_HashInitialize inst r c n d =
           (SUCCESS, inst\<lparr>hsponge := sp, fixedOutputLength := n, delimitedSuffix := d\<rparr>)
         \<and> absorbed (unat r div 8) [] sp"
proof -
  define sp where "sp = (hsponge inst)\<lparr>kstate := KeccakF1600_StateInitialize, rate := r, byteIOIndex := 0,
      squeezing := False\<rparr>"
  have r0: "\<not> r \<le> 0" using assms(2) by (auto simp: word_le_nat_alt)
  have "Keccak_SpongeInitialize (hsponge inst) r c = (0, sp)"
    using assms r0 by (simp add: Keccak_SpongeInitialize_def sp_def not_less)
  moreover have "absorbed (unat r div 8) [] sp"
  proof -
    have "8 \<le> unat r" "unat r \<le> 1600" using assms(2,3) by (simp_all add: word_le_nat_alt)
    moreover have "unat r mod 8 = 0" using assms(4) by (simp add: word_unat_eq_iff unat_mod)
    moreover have "0 < unat r div 8" using \<open>8 \<le> unat r\<close> by simp
    ultimately show ?thesis
      by (simp add: absorbed_def sp_def sponge_ok_def KeccakF1600_StateInitialize_def)
  qed
  ultimately show ?thesis using assms(5)
    by (intro exI [of _ sp]) (simp add: Keccak_HashInitialize_def hash_return_def)
qed

lemma absorb_more:
  assumes "absorbed R M sp" and "length p + 200 < 2 ^ 32" and "n = word_of_nat (length p)"
  shows "\<exists>sp1. Keccak_SpongeAbsorb sp p n = Some (Inr (0, sp1)) \<and> absorbed R (M @ p) sp1"
proof -
  note a = assms(1) [unfolded absorbed_def]
  have n: "unat n = length p" using assms(2,3) by (simp add: unat_of_nat take_bit_nat_eq_self)
  let ?s = "absorb_bytes R (place sp) p"
  have "absorb_loop sp p 0 n = Some (Inr (put_place sp ?s))"
    using absorb_loop_ok [of sp 0 n p] a assms(2) n by simp
  moreover have "length (kstate sp) = 200" "unat (byteIOIndex sp) < R"
    using a by (auto simp: sponge_ok_def)
  then have "length (fst ?s) = 200 \<and> snd ?s < R" by (intro absorb_bytes_valid) simp_all
  then have "absorbed R (M @ p) (put_place sp ?s)"
    using a put_place_valid [of sp ?s] by (simp add: absorbed_def absorb_bytes_append)
  ultimately show ?thesis using a by (simp add: Keccak_SpongeAbsorb_def)
qed

lemma unat_of_small: "k < 2 ^ 64 \<Longrightarrow> unat (word_of_nat k :: u64) = k"
  by (simp add: unat_of_nat take_bit_nat_eq_self)

lemma update_absorbs:
  assumes "absorbed R M (hsponge inst)" and "length p + 200 < 2 ^ 32"
  shows "\<exists>sp1. Keccak_HashUpdate inst p (word_of_nat (8 * length p)) =
           Some (Inr (SUCCESS, inst\<lparr>hsponge := sp1\<rparr>)) \<and> absorbed R (M @ p) sp1"
proof -
  have u: "unat (word_of_nat (8 * length p) :: u64) = 8 * length p"
    using assms(2) by (intro unat_of_small) simp
  then have "(word_of_nat (8 * length p) :: u64) mod 8 = 0"
    by (simp add: word_unat_eq_iff unat_mod)
  moreover have "(word_of_nat (8 * length p) :: u64) div 8 = word_of_nat (length p)"
    using assms(2) unat_of_small [of "length p"] by (simp only: word_unat_eq_iff unat_div u) simp
  ultimately show ?thesis using absorb_more [OF assms refl]
    by (auto simp: Keccak_HashUpdate_def hash_absorb_def hash_return_def)
qed

lemma updates_absorb:
  assumes "absorbed R M (hsponge inst)" and "\<forall>p \<in> set ps. length p + 200 < 2 ^ 32"
  shows "\<exists>sp1. hash_updates inst ps = Some (Inr (SUCCESS, inst\<lparr>hsponge := sp1\<rparr>))
           \<and> absorbed R (M @ concat ps) sp1"
  using assms
proof (induction ps arbitrary: M inst)
  case Nil
  then show ?case by (intro exI [of _ "hsponge inst"]) simp
next
  case (Cons p ps)
  from update_absorbs [OF Cons.prems(1)] Cons.prems(2) obtain sp1 where
    u: "Keccak_HashUpdate inst p (word_of_nat (8 * length p)) = Some (Inr (SUCCESS, inst\<lparr>hsponge := sp1\<rparr>))"
    "absorbed R (M @ p) sp1" by auto
  from Cons.IH [of "M @ p" "inst\<lparr>hsponge := sp1\<rparr>"] u(2) Cons.prems(2) obtain sp2 where
    "hash_updates (inst\<lparr>hsponge := sp1\<rparr>) ps = Some (Inr (SUCCESS, inst\<lparr>hsponge := sp2\<rparr>))"
    "absorbed R (M @ p @ concat ps) sp2" by auto
  with u(1) show ?case by auto
qed

lemma final_ok:
  assumes "absorbed R M (hsponge inst)" and "delimitedSuffix inst \<noteq> 0" and "delimitedSuffix inst < 0x80"
  shows "\<exists>sp1. Keccak_HashFinal inst = Some (Inr (SUCCESS, inst\<lparr>hsponge := sp1\<rparr>,
           sponge_digest R (delimitedSuffix inst) (unat (fixedOutputLength inst) div 8) M))
           \<and> squeezing sp1"
proof -
  let ?d = "delimitedSuffix inst"
  note a = assms(1) [unfolded absorbed_def]
  have R: "0 < R" "R \<le> 200" using a sponge_okD [of "hsponge inst"] by auto
  let ?m = "pad_state R ?d (absorb_bytes R (replicate 200 0, 0) M)"
  define sp where "sp = (hsponge inst)\<lparr>kstate := ?m, byteIOIndex := 0, squeezing := True\<rparr>"
  have last: "Keccak_SpongeAbsorbLastFewBits (hsponge inst) ?d = Inr (0, sp)"
    using last_bits_ok [of "hsponge inst" ?d] a assms(2) by (simp add: sp_def)
  have ok: "sponge_ok sp" "squeezing sp" "rate_bytes sp = R" "place sp = (?m, 0)"
    using a R by (auto simp: sponge_ok_def sp_def pad_state_def Let_def split_def)
  define n where "n = (ucast (fixedOutputLength inst div 8) :: u64)"
  have n: "unat n = unat (fixedOutputLength inst) div 8"
    by (simp add: n_def unat_ucast_up unat_div)
  have nb: "unat n + 200 < 2 ^ 32" using unat_u32_less [of "fixedOutputLength inst"] n by simp
  obtain out s where sq: "squeeze_bytes R (unat n) (?m, 0) = (out, s)" by (metis surj_pair)
  have "squeeze_loop sp 0 n [] = Some (Inr (put_place sp s, out))"
    using squeeze_loop_ok [OF ok(1,2) _ nb, of 0 "[]"] ok sq by simp
  then have "Keccak_SpongeSqueeze sp n = Some (Inr (0, put_place sp s, out))"
    using ok(2) by (simp add: Keccak_SpongeSqueeze_def)
  moreover have "out = sponge_digest R ?d (unat n) M"
    using sponge_run_spec [OF R assms(3), of "unat n" M] sq by simp
  ultimately show ?thesis using ok(2)
    by (intro exI [of _ "put_place sp s"])
      (simp add: Keccak_HashFinal_def last hash_return_def hash_squeeze_def Let_def n_def [symmetric] n)
qed

lemma keccak_stage_ok:
  assumes "r + c = (1600 :: u32)" and "8 \<le> r" and "r \<le> 1600" and "r mod 8 = 0" and "d \<noteq> 0" and "d < 0x80"
    and "length data + 200 < 2 ^ 32" and "bits = word_of_nat (8 * length data)"
  shows "keccak_stage r c n d bits data = Some (Inr (sponge_digest (unat r div 8) d (unat n div 8) data))"
proof -
  from initialize_ok [OF assms(1-5), of raw_keccak n] obtain sp where
    i: "Keccak_HashInitialize raw_keccak r c n d =
       (SUCCESS, raw_keccak\<lparr>hsponge := sp, fixedOutputLength := n, delimitedSuffix := d\<rparr>)"
    "absorbed (unat r div 8) [] sp" by blast
  let ?inst = "raw_keccak\<lparr>hsponge := sp, fixedOutputLength := n, delimitedSuffix := d\<rparr>"
  from update_absorbs [of "unat r div 8" "[]" ?inst data] i(2) assms(7) obtain sp1 where
    u: "Keccak_HashUpdate ?inst data bits = Some (Inr (SUCCESS, ?inst\<lparr>hsponge := sp1\<rparr>))"
    "absorbed (unat r div 8) data sp1" by (auto simp: assms(8))
  from final_ok [of "unat r div 8" data "?inst\<lparr>hsponge := sp1\<rparr>"] u(2) assms(5,6)
  show ?thesis by (auto simp: keccak_stage_def i(1) u(1))
qed

section \<open>The stages of the templates\<close>

lemma skein_stage_256:
  "skein_stage Skein_256_Init Skein_256_Update Skein_256_Final 32 bits ranges =
     Inr (skein_digest Skein_256_block 32 (init_iv Skein_256_block 32 precomputed_256 bits)
            (unat (drop_bit 3 (bits + 7))) (concat ranges))"
  using skein_256.hash_ok [of "raw_skein 32" precomputed_256 bits ranges]
  by (auto simp: skein_stage_def skein_hash_def Skein_256_Init_def Skein_256_Update_def Skein_256_Final_def
      Skein_256_Process_Block_def raw_skein_def rbind_eq_Inr)

lemma skein_stage_512:
  "skein_stage Skein_512_Init Skein_512_Update Skein_512_Final 64 bits ranges =
     Inr (skein_digest Skein_512_block 64 (init_iv Skein_512_block 64 precomputed_512 bits)
            (unat (drop_bit 3 (bits + 7))) (concat ranges))"
  using skein_512.hash_ok [of "raw_skein 64" precomputed_512 bits ranges]
  by (auto simp: skein_stage_def skein_hash_def Skein_512_Init_def Skein_512_Update_def Skein_512_Final_def
      Skein_512_Process_Block_def raw_skein_def rbind_eq_Inr)

lemma skein_stage_1024:
  "skein_stage Skein1024_Init Skein1024_Update Skein1024_Final 128 bits ranges =
     Inr (skein_digest Skein1024_block 128 (init_iv Skein1024_block 128 precomputed_1024 bits)
            (unat (drop_bit 3 (bits + 7))) (concat ranges))"
  using skein_1024.hash_ok [of "raw_skein 128" precomputed_1024 bits ranges]
  by (auto simp: skein_stage_def skein_hash_def Skein1024_Init_def Skein1024_Update_def Skein1024_Final_def
      Skein1024_Process_Block_def raw_skein_def rbind_eq_Inr)

lemma length_squeeze_spec: "length m = 200 \<Longrightarrow> 0 < R \<Longrightarrow> R \<le> 200 \<Longrightarrow> length (squeeze_spec R n m) = n"
  by (metis length_squeeze_bytes squeeze_bytes_spec)

lemma length_foldl_sponge:
  "length m = 200 \<Longrightarrow> length (foldl (\<lambda>m blk. sponge_f (xor_at 0 blk m)) m bs) = 200"
  by (induction bs arbitrary: m) (simp_all flip: sponge_f_permute)

lemma length_sponge_digest: "0 < R \<Longrightarrow> R \<le> 200 \<Longrightarrow> length (sponge_digest R d n msg) = n"
  by (simp add: sponge_digest_def length_squeeze_spec length_foldl_sponge)

lemma width_uint_of_memory: "width (uint_of_memory bs) = length bs div 4"
  by (simp add: uint_of_memory_def)

end
