(* ===== verification/Skein_Schedule.thy ===== *)
theory Skein_Schedule
  imports Skein_Block
begin

text \<open>
  The key schedule of the 1024 bit block function. The source has it twice: unrolled, with indices
  modulo 17 and 3, and, by default, as a loop that moves the key and tweak words along in one array,
  where the tweak words overwrite key words already used. Both compute the same block.
\<close>

section \<open>The unrolled macros\<close>

definition I1024_unrolled :: "u64 list \<Rightarrow> nat \<Rightarrow> u64 list \<Rightarrow> u64 list" where
  "I1024_unrolled kw R X =
     [X ! 0 + kw ! (3 + (R + 1) mod 17),
      X ! 1 + kw ! (3 + (R + 2) mod 17),
      X ! 2 + kw ! (3 + (R + 3) mod 17),
      X ! 3 + kw ! (3 + (R + 4) mod 17),
      X ! 4 + kw ! (3 + (R + 5) mod 17),
      X ! 5 + kw ! (3 + (R + 6) mod 17),
      X ! 6 + kw ! (3 + (R + 7) mod 17),
      X ! 7 + kw ! (3 + (R + 8) mod 17),
      X ! 8 + kw ! (3 + (R + 9) mod 17),
      X ! 9 + kw ! (3 + (R + 10) mod 17),
      X ! 10 + kw ! (3 + (R + 11) mod 17),
      X ! 11 + kw ! (3 + (R + 12) mod 17),
      X ! 12 + kw ! (3 + (R + 13) mod 17),
      X ! 13 + (kw ! (3 + (R + 14) mod 17) + kw ! ((R + 1) mod 3)),
      X ! 14 + (kw ! (3 + (R + 15) mod 17) + kw ! ((R + 2) mod 3)),
      X ! 15 + (kw ! (3 + (R + 16) mod 17) + word_of_nat R + 1)]"

definition R1024_8_rounds_unrolled :: "u64 list \<Rightarrow> u64 list \<Rightarrow> nat \<Rightarrow> u64 list" where
  "R1024_8_rounds_unrolled kw X R =
     I1024_unrolled kw (2 * R + 1) (skein_rounds (drop 4 R1024_table)
       (I1024_unrolled kw (2 * R) (skein_rounds (take 4 R1024_table) X)))"

definition Skein1024_block_unrolled :: "u64 list \<Rightarrow> u64 \<Rightarrow> u64 \<Rightarrow> bytes \<Rightarrow> u64 list" where
  "Skein1024_block_unrolled c t0 t1 blk =
     (let parity = c ! 0 XOR c ! 1 XOR c ! 2 XOR c ! 3 XOR c ! 4 XOR c ! 5 XOR c ! 6 XOR c ! 7 XOR
               c ! 8 XOR c ! 9 XOR c ! 10 XOR c ! 11 XOR c ! 12 XOR c ! 13 XOR c ! 14 XOR c ! 15 XOR SKEIN_KS_PARITY;
          kw = [t0, t1, t0 XOR t1] @ take 16 c @ [parity];
          w = Skein_Get64_LSB_First 16 blk;
          X = [w ! 0 + kw ! 3, w ! 1 + kw ! 4,
               w ! 2 + kw ! 5, w ! 3 + kw ! 6,
               w ! 4 + kw ! 7, w ! 5 + kw ! 8,
               w ! 6 + kw ! 9, w ! 7 + kw ! 10,
               w ! 8 + kw ! 11, w ! 9 + kw ! 12,
               w ! 10 + kw ! 13, w ! 11 + kw ! 14,
               w ! 12 + kw ! 15, w ! 13 + kw ! 16 + kw ! 0,
               w ! 14 + kw ! 17 + kw ! 1, w ! 15 + kw ! 18];
          X = foldl (R1024_8_rounds_unrolled kw) X [0..<10]
      in map (\<lambda>i. X ! i XOR w ! i) [0..<16])"

section \<open>The loop follows the schedule\<close>

text \<open>Before the injection \<open>s\<close> the array \<open>kw\<close> holds the words that it and the later ones need.\<close>

definition follows :: "u64 list \<Rightarrow> nat \<Rightarrow> u64 list \<Rightarrow> bool" where
  "follows kw0 s kw \<longleftrightarrow>
     length kw = 40
     \<and> (\<forall>j. s \<le> Suc j \<and> j \<le> s + 15 \<longrightarrow> kw ! (3 + j) = kw0 ! (3 + j mod 17))
     \<and> (\<forall>j. s \<le> Suc j \<and> j \<le> s + 1 \<longrightarrow> kw ! j = kw0 ! (j mod 3))"

lemma follows_key: "follows kw0 s kw \<Longrightarrow> s \<le> Suc j \<Longrightarrow> j \<le> s + 15 \<Longrightarrow> kw ! (3 + j) = kw0 ! (3 + j mod 17)"
  by (simp add: follows_def)

lemma follows_tweak: "follows kw0 s kw \<Longrightarrow> s \<le> Suc j \<Longrightarrow> j \<le> s + 1 \<Longrightarrow> kw ! j = kw0 ! (j mod 3)"
  by (simp add: follows_def)

lemma follows_start:
  assumes "length kw0 = 20"
  shows "follows kw0 1 (kw0 @ replicate 20 0)"
  using assms by (auto simp: follows_def nth_append)

lemma key_at:
  "follows kw0 (Suc R) kw \<Longrightarrow> i \<le> 15 \<Longrightarrow> n = Suc i \<Longrightarrow> kw ! (3 + (Suc R + i)) = kw0 ! (3 + (R + n) mod 17)"
  using follows_key [of kw0 "Suc R" kw "Suc R + i"] by simp

lemma tweak_at:
  "follows kw0 (Suc R) kw \<Longrightarrow> i \<le> 1 \<Longrightarrow> n = Suc i \<Longrightarrow> kw ! (Suc R + i) = kw0 ! ((R + n) mod 3)"
  using follows_tweak [of kw0 "Suc R" kw "Suc R + i"] by simp

lemma injection_keys:
  assumes "follows kw0 (Suc R) kw"
  shows "fst (I1024 (Suc R) (X, kw)) = I1024_unrolled kw0 R X"
proof -
  have keys: "kw ! (3 + (Suc R + 0)) = kw0 ! (3 + (R + 1) mod 17)"
    "kw ! (3 + (Suc R + 1)) = kw0 ! (3 + (R + 2) mod 17)"
    "kw ! (3 + (Suc R + 2)) = kw0 ! (3 + (R + 3) mod 17)"
    "kw ! (3 + (Suc R + 3)) = kw0 ! (3 + (R + 4) mod 17)"
    "kw ! (3 + (Suc R + 4)) = kw0 ! (3 + (R + 5) mod 17)"
    "kw ! (3 + (Suc R + 5)) = kw0 ! (3 + (R + 6) mod 17)"
    "kw ! (3 + (Suc R + 6)) = kw0 ! (3 + (R + 7) mod 17)"
    "kw ! (3 + (Suc R + 7)) = kw0 ! (3 + (R + 8) mod 17)"
    "kw ! (3 + (Suc R + 8)) = kw0 ! (3 + (R + 9) mod 17)"
    "kw ! (3 + (Suc R + 9)) = kw0 ! (3 + (R + 10) mod 17)"
    "kw ! (3 + (Suc R + 10)) = kw0 ! (3 + (R + 11) mod 17)"
    "kw ! (3 + (Suc R + 11)) = kw0 ! (3 + (R + 12) mod 17)"
    "kw ! (3 + (Suc R + 12)) = kw0 ! (3 + (R + 13) mod 17)"
    "kw ! (3 + (Suc R + 13)) = kw0 ! (3 + (R + 14) mod 17)"
    "kw ! (3 + (Suc R + 14)) = kw0 ! (3 + (R + 15) mod 17)"
    "kw ! (3 + (Suc R + 15)) = kw0 ! (3 + (R + 16) mod 17)"
    by (rule key_at [OF assms]; simp)+
  have tweaks: "kw ! (Suc R + 0) = kw0 ! ((R + 1) mod 3)" "kw ! (Suc R + 1) = kw0 ! ((R + 2) mod 3)"
    by (rule tweak_at [OF assms]; simp)+
  have count: "(word_of_nat (Suc R) :: u64) = word_of_nat R + 1" by simp
  show ?thesis
    by (simp only: I1024_def I1024_unrolled_def Let_def prod.case fst_conv keys tweaks count add.assoc)
qed

lemma injection_moves:
  assumes "follows kw0 (Suc R) kw" and "R < 20"
  shows "follows kw0 (Suc (Suc R)) (snd (I1024 (Suc R) (X, kw)))"
proof -
  let ?kw1 = "kw[3 + (Suc R + 16) := kw ! (3 + R)]"
  let ?kw2 = "?kw1[Suc R + 2 := ?kw1 ! R]"
  have len: "length kw = 40" using assms(1) by (simp add: follows_def)
  have new: "snd (I1024 (Suc R) (X, kw)) = ?kw2"
    unfolding I1024_def Let_def prod.case snd_conv diff_Suc_1 by (rule refl)
  have "Suc R + 2 = R + 3" and "Suc R + 16 = R + 17" by simp_all
  then have "(Suc R + 2) mod 3 = R mod 3" and m17: "(Suc R + 16) mod 17 = R mod 17"
    by (simp_all only: mod_add_self2)
  then have ts: "?kw1 ! R = kw0 ! ((Suc R + 2) mod 3)"
    using follows_tweak [OF assms(1), of R] by simp
  have ks: "kw ! (3 + R) = kw0 ! (3 + (Suc R + 16) mod 17)"
    using follows_key [OF assms(1), of R] m17 by simp
  have "?kw2 ! (3 + j) = kw0 ! (3 + j mod 17)" if "Suc (Suc R) \<le> Suc j" "j \<le> Suc (Suc R) + 15" for j
  proof (cases "j = Suc R + 16")
    case True
    then show ?thesis using ks len assms(2) by simp
  next
    case False
    then show ?thesis using follows_key [OF assms(1), of j] that len by simp
  qed
  moreover have "?kw2 ! j = kw0 ! (j mod 3)" if "Suc (Suc R) \<le> Suc j" "j \<le> Suc (Suc R) + 1" for j
  proof (cases "j = Suc R + 2")
    case True
    then show ?thesis using ts len assms(2) by simp
  next
    case False
    then show ?thesis using follows_tweak [OF assms(1), of j] that len by simp
  qed
  ultimately show ?thesis unfolding new by (simp add: follows_def len)
qed

lemma eight_rounds:
  assumes "follows kw0 (1 + 2 * k) kw" and "k < 10"
  shows "\<exists>kw1. R1024_8_rounds (X, kw) (1 + 2 * k) = (R1024_8_rounds_unrolled kw0 X k, kw1)
           \<and> follows kw0 (1 + 2 * Suc k) kw1"
proof -
  let ?X = "skein_rounds (take 4 R1024_table) X"
  have f: "follows kw0 (Suc (2 * k)) kw" using assms(1) by simp
  obtain X1 kw1 where i1: "I1024 (Suc (2 * k)) (?X, kw) = (X1, kw1)" by (metis surj_pair)
  have 1: "X1 = I1024_unrolled kw0 (2 * k) ?X" "follows kw0 (Suc (Suc (2 * k))) kw1"
    using injection_keys [OF f, of ?X] injection_moves [OF f, of ?X] assms(2) i1 by simp_all
  let ?Y = "skein_rounds (drop 4 R1024_table) X1"
  obtain X2 kw2 where i2: "I1024 (Suc (Suc (2 * k))) (?Y, kw1) = (X2, kw2)" by (metis surj_pair)
  have 2: "X2 = I1024_unrolled kw0 (Suc (2 * k)) ?Y" "follows kw0 (Suc (Suc (Suc (2 * k)))) kw2"
    using injection_keys [OF 1(2), of ?Y] injection_moves [OF 1(2), of ?Y] assms(2) i2 by simp_all
  from 1 2 i1 i2 show ?thesis
    by (simp add: R1024_8_rounds_def R1024_8_rounds_unrolled_def)
qed

lemma rounds_follow:
  assumes "length kw0 = 20" and "n \<le> 10"
  shows "\<exists>kw. foldl R1024_8_rounds (X, kw0 @ replicate 20 0) (map (\<lambda>k. 1 + 2 * k) [0..<n]) =
            (foldl (R1024_8_rounds_unrolled kw0) X [0..<n], kw)
          \<and> follows kw0 (1 + 2 * n) kw"
  using assms(2)
proof (induction n)
  case 0
  then show ?case using follows_start [OF assms(1)] by simp
next
  case (Suc n)
  then obtain kw where
    "foldl R1024_8_rounds (X, kw0 @ replicate 20 0) (map (\<lambda>k. 1 + 2 * k) [0..<n]) =
       (foldl (R1024_8_rounds_unrolled kw0) X [0..<n], kw)"
    "follows kw0 (1 + 2 * n) kw" by auto
  with eight_rounds [of kw0 n kw] Suc.prems show ?case by auto
qed

lemma loop_is_unrolled:
  assumes "length c = 16"
  shows "Skein1024_block c t0 t1 blk = Skein1024_block_unrolled c t0 t1 blk"
proof -
  define kw0 where "kw0 = [t0, t1, t0 XOR t1] @ take 16 c @ [c ! 0 XOR c ! 1 XOR c ! 2 XOR c ! 3 XOR
      c ! 4 XOR c ! 5 XOR c ! 6 XOR c ! 7 XOR c ! 8 XOR c ! 9 XOR c ! 10 XOR c ! 11 XOR c ! 12 XOR
      c ! 13 XOR c ! 14 XOR c ! 15 XOR SKEIN_KS_PARITY]"
  have len: "length kw0 = 20" using assms by (simp add: kw0_def)
  have same: "(kw0 @ replicate 20 0) ! 0 = kw0 ! 0"
    "(kw0 @ replicate 20 0) ! 1 = kw0 ! 1"
    "(kw0 @ replicate 20 0) ! 3 = kw0 ! 3"
    "(kw0 @ replicate 20 0) ! 4 = kw0 ! 4"
    "(kw0 @ replicate 20 0) ! 5 = kw0 ! 5"
    "(kw0 @ replicate 20 0) ! 6 = kw0 ! 6"
    "(kw0 @ replicate 20 0) ! 7 = kw0 ! 7"
    "(kw0 @ replicate 20 0) ! 8 = kw0 ! 8"
    "(kw0 @ replicate 20 0) ! 9 = kw0 ! 9"
    "(kw0 @ replicate 20 0) ! 10 = kw0 ! 10"
    "(kw0 @ replicate 20 0) ! 11 = kw0 ! 11"
    "(kw0 @ replicate 20 0) ! 12 = kw0 ! 12"
    "(kw0 @ replicate 20 0) ! 13 = kw0 ! 13"
    "(kw0 @ replicate 20 0) ! 14 = kw0 ! 14"
    "(kw0 @ replicate 20 0) ! 15 = kw0 ! 15"
    "(kw0 @ replicate 20 0) ! 16 = kw0 ! 16"
    "(kw0 @ replicate 20 0) ! 17 = kw0 ! 17"
    "(kw0 @ replicate 20 0) ! 18 = kw0 ! 18"
    by (simp_all add: nth_append len)
  have kws: "[t0, t1, t0 XOR t1] @ take 16 c @ [c ! 0 XOR c ! 1 XOR c ! 2 XOR c ! 3 XOR
      c ! 4 XOR c ! 5 XOR c ! 6 XOR c ! 7 XOR c ! 8 XOR c ! 9 XOR c ! 10 XOR c ! 11 XOR c ! 12 XOR
      c ! 13 XOR c ! 14 XOR c ! 15 XOR SKEIN_KS_PARITY] @ replicate 20 0 = kw0 @ replicate 20 0"
    by (simp only: kw0_def append_assoc)
  have run: "(case foldl R1024_8_rounds (X, kw0 @ replicate 20 0) (map (\<lambda>k. 1 + 2 * k) [0..<10]) of
      (X, kw) \<Rightarrow> G X) = G (foldl (R1024_8_rounds_unrolled kw0) X [0..<10])" for X and G :: "u64 list \<Rightarrow> u64 list"
    using rounds_follow [OF len, of 10 X] by auto
  show ?thesis
    unfolding Skein1024_block_def Skein1024_block_unrolled_def Let_def kws kw0_def [symmetric]
    by (simp only: run same)
qed

end
