(* ===== verification/Skein_IV.thy ===== *)
theory Skein_IV
  imports Skein
begin

text \<open>
  The precomputed chaining values of \<open>skein_iv.h\<close> that the pool's 256 and 512 bit hashes start with,
  recomputed: the block function is evaluated on the configuration block, eight rounds at a time.
\<close>

lemma nine_turns: "[0..<9] = [0, 1, 2, 3, 4, 5, 6, 7, 8 :: nat]"
  by code_simp

section \<open>256 bits\<close>

definition iv256_schedule :: "u64 list" where
  "iv256_schedule =
    [32, 14123288431433875456, 14123288431433875488, 0,
     0, 0, 0, 6148914691236517205]"

lemmas iv256_eval = R256_8_rounds_def R256_table_def skein_rounds_def skein_mix_def I256_def iv256_schedule_def RotL_64_def

lemma iv256_rounds_0:
  "R256_8_rounds iv256_schedule
    [5154883667, 288, 14123288431433875456, 0] 0 =
    [16127002067467600405, 9995081592820713103, 16695267256453654855, 806785489129147606]"
  by (simp add: iv256_eval)

lemma iv256_rounds_1:
  "R256_8_rounds iv256_schedule
    [16127002067467600405, 9995081592820713103, 16695267256453654855, 806785489129147606] (Suc 0) =
    [10615576784513206678, 6574871784008453587, 14378795245459825434, 3311614417353821159]"
  by (simp add: iv256_eval)

lemma iv256_rounds_2:
  "R256_8_rounds iv256_schedule
    [10615576784513206678, 6574871784008453587, 14378795245459825434, 3311614417353821159] 2 =
    [14974229467962127192, 2805189211373188754, 11668946565711169164, 1032623752978522835]"
  by (simp add: iv256_eval)

lemma iv256_rounds_3:
  "R256_8_rounds iv256_schedule
    [14974229467962127192, 2805189211373188754, 11668946565711169164, 1032623752978522835] 3 =
    [4262224946526881146, 8943004362971068576, 16600578094482132009, 1151763012024488775]"
  by (simp add: iv256_eval)

lemma iv256_rounds_4:
  "R256_8_rounds iv256_schedule
    [4262224946526881146, 8943004362971068576, 16600578094482132009, 1151763012024488775] 4 =
    [17318002230979745897, 6684550802956237552, 7943022966040776474, 3521414766355505893]"
  by (simp add: iv256_eval)

lemma iv256_rounds_5:
  "R256_8_rounds iv256_schedule
    [17318002230979745897, 6684550802956237552, 7943022966040776474, 3521414766355505893] 5 =
    [17801079391141853613, 5017943165210375464, 9930819863476055282, 1684144350719755936]"
  by (simp add: iv256_eval)

lemma iv256_rounds_6:
  "R256_8_rounds iv256_schedule
    [17801079391141853613, 5017943165210375464, 9930819863476055282, 1684144350719755936] 6 =
    [16582829462479183689, 12028681889796114120, 5232123700122098198, 2021374320466330497]"
  by (simp add: iv256_eval)

lemma iv256_rounds_7:
  "R256_8_rounds iv256_schedule
    [16582829462479183689, 12028681889796114120, 5232123700122098198, 2021374320466330497] 7 =
    [16070912334286108314, 14297833292753244085, 14337824915232254818, 16946321853388855744]"
  by (simp add: iv256_eval)

lemma iv256_rounds_8:
  "R256_8_rounds iv256_schedule
    [16070912334286108314, 14297833292753244085, 14337824915232254818, 16946321853388855744] 8 =
    [4072681681233332245, 5436642852965252609, 2889783295839482789, 6109786322067550404]"
  by (simp add: iv256_eval)

lemma iv256_config:
  "Skein_Get64_LSB_First 4 (skein_config 32 256 0) = [5154883667, 256, 0, 0]"
  by code_simp

lemma iv256_block:
  "Skein_256_block (replicate 4 0) 32 (SKEIN_T1_FLAG_FIRST OR SKEIN_T1_BLK_TYPE_CFG_FINAL) (skein_config 32 256 0) =
   SKEIN_256_IV_256"
proof -
  have parity: "replicate 4 0 ! 0 XOR replicate 4 0 ! 1 XOR replicate 4 0 ! 2 XOR replicate 4 0 ! 3 XOR SKEIN_KS_PARITY = SKEIN_KS_PARITY"
    by simp
  have keys: "[32, SKEIN_T1_FLAG_FIRST OR SKEIN_T1_BLK_TYPE_CFG_FINAL,
      32 XOR (SKEIN_T1_FLAG_FIRST OR SKEIN_T1_BLK_TYPE_CFG_FINAL)] @ take 4 (replicate 4 0) @ [SKEIN_KS_PARITY] =
      iv256_schedule"
    by code_simp
  have start: "[[5154883667, 256, 0, 0] ! 0 + iv256_schedule ! 3, [5154883667, 256, 0, 0] ! 1 + iv256_schedule ! 4 + iv256_schedule ! 0, [5154883667, 256, 0, 0] ! 2 + iv256_schedule ! 5 + iv256_schedule ! 1, [5154883667, 256, 0, 0] ! 3 + iv256_schedule ! 6] =
      [5154883667, 288, 14123288431433875456, 0]"
    by code_simp
  have turns: "foldl (R256_8_rounds iv256_schedule) [5154883667, 288, 14123288431433875456, 0] [0..<9] =
      [4072681681233332245, 5436642852965252609, 2889783295839482789, 6109786322067550404]"
    by (simp only: nine_turns foldl_Cons foldl_Nil One_nat_def iv256_rounds_0 iv256_rounds_1 iv256_rounds_2 iv256_rounds_3 iv256_rounds_4 iv256_rounds_5 iv256_rounds_6 iv256_rounds_7 iv256_rounds_8)
  show ?thesis
    unfolding Skein_256_block_def Let_def parity keys iv256_config start turns by code_simp
qed

section \<open>512 bits\<close>

definition iv512_schedule :: "u64 list" where
  "iv512_schedule =
    [32, 14123288431433875456, 14123288431433875488, 0,
     0, 0, 0, 0,
     0, 0, 0, 6148914691236517205]"

lemmas iv512_eval = R512_8_rounds_def R512_table_def skein_rounds_def skein_mix_def I512_def iv512_schedule_def RotL_64_def

lemma iv512_rounds_0:
  "R512_8_rounds iv512_schedule
    [5154883667, 512, 0, 0,
     0, 32, 14123288431433875456, 0] 0 =
    [10906325377349676658, 10105750876033302140, 11214409719024315873, 9568765454826680446,
     1235402282984513707, 14877191668146808541, 3666717290481823794, 12873112675196067665]"
  by (simp add: iv512_eval)

lemma iv512_rounds_1:
  "R512_8_rounds iv512_schedule
    [10906325377349676658, 10105750876033302140, 11214409719024315873, 9568765454826680446,
     1235402282984513707, 14877191668146808541, 3666717290481823794, 12873112675196067665] (Suc 0) =
    [8186291304558047076, 2856233037449839373, 17813003462938779975, 10299021992877309270,
     3131469756020056050, 12870691062726284317, 16407276566700404207, 7705979692634509392]"
  by (simp add: iv512_eval)

lemma iv512_rounds_2:
  "R512_8_rounds iv512_schedule
    [8186291304558047076, 2856233037449839373, 17813003462938779975, 10299021992877309270,
     3131469756020056050, 12870691062726284317, 16407276566700404207, 7705979692634509392] 2 =
    [10926062697393002669, 5958310741443644463, 13635827833309506725, 8621421015601601968,
     8255384880731230708, 389408306335576570, 5364839085127473008, 10824162700487385639]"
  by (simp add: iv512_eval)

lemma iv512_rounds_3:
  "R512_8_rounds iv512_schedule
    [10926062697393002669, 5958310741443644463, 13635827833309506725, 8621421015601601968,
     8255384880731230708, 389408306335576570, 5364839085127473008, 10824162700487385639] 3 =
    [7229724206974141041, 3881602230775275677, 7358283432292685880, 15240608797562486538,
     1855975405781325225, 15639876424395594206, 6877188082849570198, 701899984113858448]"
  by (simp add: iv512_eval)

lemma iv512_rounds_4:
  "R512_8_rounds iv512_schedule
    [7229724206974141041, 3881602230775275677, 7358283432292685880, 15240608797562486538,
     1855975405781325225, 15639876424395594206, 6877188082849570198, 701899984113858448] 4 =
    [11358563801426135679, 7514836217177149365, 16768068802785738583, 9639026806488066266,
     6229197878235022970, 1436972334374672921, 137638051334085195, 16339310318611307981]"
  by (simp add: iv512_eval)

lemma iv512_rounds_5:
  "R512_8_rounds iv512_schedule
    [11358563801426135679, 7514836217177149365, 16768068802785738583, 9639026806488066266,
     6229197878235022970, 1436972334374672921, 137638051334085195, 16339310318611307981] 5 =
    [17034493254798975361, 12032170830786896682, 14685541196858234161, 2579288899054439176,
     12647803652851641543, 17863104352911465311, 4018894182313618546, 18160979198353538796]"
  by (simp add: iv512_eval)

lemma iv512_rounds_6:
  "R512_8_rounds iv512_schedule
    [17034493254798975361, 12032170830786896682, 14685541196858234161, 2579288899054439176,
     12647803652851641543, 17863104352911465311, 4018894182313618546, 18160979198353538796] 6 =
    [9501943791257583939, 14578105175254823601, 2020305203738016020, 634256779908519581,
     11519586648583173817, 16284715233185443298, 13565811419183243602, 5287227843716269416]"
  by (simp add: iv512_eval)

lemma iv512_rounds_7:
  "R512_8_rounds iv512_schedule
    [9501943791257583939, 14578105175254823601, 2020305203738016020, 634256779908519581,
     11519586648583173817, 16284715233185443298, 13565811419183243602, 5287227843716269416] 7 =
    [9316112985709202810, 838555162913097775, 4828145732321996663, 5455942982623558199,
     12438931920491730963, 5165331861063291400, 15347448388256572090, 16681099752613999339]"
  by (simp add: iv512_eval)

lemma iv512_rounds_8:
  "R512_8_rounds iv512_schedule
    [9316112985709202810, 838555162913097775, 4828145732321996663, 5455942982623558199,
     12438931920491730963, 5165331861063291400, 15347448388256572090, 16681099752613999339] 8 =
    [12165482090121078369, 9544554034511943818, 8047625155530725888, 6390847387796340626,
     11221844723062920425, 13205929260709701578, 10922162557864926963, 238710960456891341]"
  by (simp add: iv512_eval)

lemma iv512_config:
  "Skein_Get64_LSB_First 8 (skein_config 64 512 0) = [5154883667, 512, 0, 0,
     0, 0, 0, 0]"
  by code_simp

lemma iv512_block:
  "Skein_512_block (replicate 8 0) 32 (SKEIN_T1_FLAG_FIRST OR SKEIN_T1_BLK_TYPE_CFG_FINAL) (skein_config 64 512 0) =
   SKEIN_512_IV_512"
proof -
  have parity: "replicate 8 0 ! 0 XOR replicate 8 0 ! 1 XOR replicate 8 0 ! 2 XOR replicate 8 0 ! 3 XOR replicate 8 0 ! 4 XOR replicate 8 0 ! 5 XOR replicate 8 0 ! 6 XOR replicate 8 0 ! 7 XOR SKEIN_KS_PARITY = SKEIN_KS_PARITY"
    by simp
  have keys: "[32, SKEIN_T1_FLAG_FIRST OR SKEIN_T1_BLK_TYPE_CFG_FINAL,
      32 XOR (SKEIN_T1_FLAG_FIRST OR SKEIN_T1_BLK_TYPE_CFG_FINAL)] @ take 8 (replicate 8 0) @ [SKEIN_KS_PARITY] =
      iv512_schedule"
    by code_simp
  have start: "[[5154883667, 512, 0, 0,
     0, 0, 0, 0] ! 0 + iv512_schedule ! 3, [5154883667, 512, 0, 0,
     0, 0, 0, 0] ! 1 + iv512_schedule ! 4, [5154883667, 512, 0, 0,
     0, 0, 0, 0] ! 2 + iv512_schedule ! 5, [5154883667, 512, 0, 0,
     0, 0, 0, 0] ! 3 + iv512_schedule ! 6, [5154883667, 512, 0, 0,
     0, 0, 0, 0] ! 4 + iv512_schedule ! 7, [5154883667, 512, 0, 0,
     0, 0, 0, 0] ! 5 + iv512_schedule ! 8 + iv512_schedule ! 0, [5154883667, 512, 0, 0,
     0, 0, 0, 0] ! 6 + iv512_schedule ! 9 + iv512_schedule ! 1, [5154883667, 512, 0, 0,
     0, 0, 0, 0] ! 7 + iv512_schedule ! 10] =
      [5154883667, 512, 0, 0,
     0, 32, 14123288431433875456, 0]"
    by code_simp
  have turns: "foldl (R512_8_rounds iv512_schedule) [5154883667, 512, 0, 0,
     0, 32, 14123288431433875456, 0] [0..<9] =
      [12165482090121078369, 9544554034511943818, 8047625155530725888, 6390847387796340626,
     11221844723062920425, 13205929260709701578, 10922162557864926963, 238710960456891341]"
    by (simp only: nine_turns foldl_Cons foldl_Nil One_nat_def iv512_rounds_0 iv512_rounds_1 iv512_rounds_2 iv512_rounds_3 iv512_rounds_4 iv512_rounds_5 iv512_rounds_6 iv512_rounds_7 iv512_rounds_8)
  show ?thesis
    unfolding Skein_512_block_def Let_def parity keys iv512_config start turns by code_simp
qed

end
