(* ===== verification/Hash_Properties.thy ===== *)
theory Hash_Properties
  imports Hash_Runs Skein_Schedule Skein_IV
begin

text \<open>
  The properties of the hash functions: Keccak and Skein against their specifications, the hash
  templates, and what the sponge does with a message its counters cannot hold.
\<close>

section \<open>Keccak\<close>

text \<open>
  C22: Keccak computes the sponge construction of FIPS 202. With a rate and a capacity of 1600 bits
  together, a rate in whole lanes or bytes and a suffix below 0x80, initialising, updating with any
  parts of a message and finishing returns SUCCESS three times and the digest of the whole message:
  padded, cut into blocks of the rate, permuted by Keccak-f[1600] as the standard states it by
  coordinates, and read out to the requested length.
\<close>

theorem keccak_hash_is_sponge:
  assumes "r + c = (1600 :: u32)" and "8 \<le> r" and "r \<le> 1600" and "r mod 8 = 0"
    and "d \<noteq> 0" and "d < 0x80" and "\<forall>p \<in> set parts. length p + 200 < 2 ^ 32"
  shows "\<exists>inst0 inst1 inst2.
    Keccak_HashInitialize inst r c n d = (SUCCESS, inst0)
    \<and> hash_updates inst0 parts = Some (Inr (SUCCESS, inst1))
    \<and> Keccak_HashFinal inst1 =
        Some (Inr (SUCCESS, inst2, sponge_digest (unat r div 8) d (unat n div 8) (concat parts)))"
proof -
  from initialize_ok [OF assms(1-5), of inst n] obtain sp where
    i: "Keccak_HashInitialize inst r c n d =
       (SUCCESS, inst\<lparr>hsponge := sp, fixedOutputLength := n, delimitedSuffix := d\<rparr>)"
    "absorbed (unat r div 8) [] sp" by blast
  let ?inst = "inst\<lparr>hsponge := sp, fixedOutputLength := n, delimitedSuffix := d\<rparr>"
  from updates_absorb [of "unat r div 8" "[]" ?inst parts] i(2) assms(7) obtain sp1 where
    u: "hash_updates ?inst parts = Some (Inr (SUCCESS, ?inst\<lparr>hsponge := sp1\<rparr>))"
    "absorbed (unat r div 8) (concat parts) sp1" by auto
  from final_ok [of "unat r div 8" "concat parts" "?inst\<lparr>hsponge := sp1\<rparr>"] u(2) assms(5,6) obtain sp2 where
    "Keccak_HashFinal (?inst\<lparr>hsponge := sp1\<rparr>) =
       Some (Inr (SUCCESS, ?inst\<lparr>hsponge := sp2\<rparr>, sponge_digest (unat r div 8) d (unat n div 8) (concat parts)))"
    by auto
  with i(1) u(1) show ?thesis by blast
qed

theorem keccak_hash_is_sponge_witness:
  "\<exists>inst0 inst1 inst2.
    Keccak_HashInitialize raw_keccak 1088 512 256 0x06 = (SUCCESS, inst0)
    \<and> hash_updates inst0 [[1, 2], [], [3]] = Some (Inr (SUCCESS, inst1))
    \<and> Keccak_HashFinal inst1 =
        Some (Inr (SUCCESS, inst2, sponge_digest (unat (1088 :: u32) div 8) 0x06 (unat (256 :: u32) div 8)
          (concat [[1, 2], [], [3]])))"
  by (rule keccak_hash_is_sponge) simp_all

section \<open>Oversized messages\<close>

lemma absorb_tail_overrun:
  assumes "length m = 200" and "unat idx \<le> 200" and "200 < unat idx + unat pb" and "unat pb \<le> length cur"
  shows "absorb_tail m idx cur pb = Inl Out_of_range"
  using assms
proof (induction m idx cur pb rule: absorb_tail.induct)
  case (1 m idx cur pb)
  have pos: "pb > 0" using 1(3,4) by (auto simp: word_gt_0)
  define k where "k = (if 8 - idx mod 8 > pb then pb else 8 - idx mod 8)"
  note k = lane_chunk [OF pos, of idx, folded k_def]
  have place: "unat (idx div 8) * 8 + unat (idx mod 8) = unat idx"
    by (simp add: unat_div unat_mod)
  have kb: "unat k \<le> unat pb" using k(3) by (simp add: word_le_nat_alt)
  show ?case
  proof (cases "unat idx + unat k \<le> 200")
    case False
    then have "KeccakF1600_StateXORBytesInLane m (idx div 8) cur (idx mod 8) k = Inl Out_of_range"
      using k(2) 1(2) by (simp add: KeccakF1600_StateXORBytesInLane_def place xor_state_def)
    with pos show ?thesis by (subst absorb_tail.simps) (simp add: Let_def k_def [symmetric])
  next
    case True
    let ?m = "xor_at (unat idx) (take (unat k) cur) m"
    have x: "KeccakF1600_StateXORBytesInLane m (idx div 8) cur (idx mod 8) k = Inr ?m"
      using 1(2,5) kb True by (simp add: KeccakF1600_StateXORBytesInLane_def place xor_state_ok)
    have i: "unat (idx + k) = unat idx + unat k" using True by (subst unat_word_ariths) simp
    have p: "unat (pb - k) = unat pb - unat k" using k(3) by (simp add: unat_sub)
    have "absorb_tail m idx cur pb = absorb_tail ?m (idx + k) (drop (unat k) cur) (pb - k)"
      using pos by (subst absorb_tail.simps) (simp add: Let_def k_def [symmetric] x)
    also have "\<dots> = Inl Out_of_range"
      using 1(2-5) kb i p x True by (intro 1(1) [OF pos refl refl]) (simp_all add: k_def)
    finally show ?thesis .
  qed
qed

lemma queue_wraps:
  assumes "sponge_ok sp" and "\<not> squeezing sp" and "0 < byteIOIndex sp"
    and "unat n = 2 ^ 32 - unat (byteIOIndex sp)" and "length data = unat n"
  shows "absorb_queue sp data 0 n = Inl Out_of_range"
proof -
  note ok = sponge_okD [OF assms(1)]
  have idx: "0 < unat (byteIOIndex sp)" "unat (byteIOIndex sp) < 200"
    using assms(1-3) ok by (auto simp: sponge_ok_def word_less_nat_alt)
  have u: "unat (ucast n :: u32) = 2 ^ 32 - unat (byteIOIndex sp)"
    using idx assms(4) by (simp add: unsigned_ucast_eq take_bit_nat_eq_self)
  then have "ucast n + byteIOIndex sp = 0"
    using idx by (simp add: word_unat_eq_iff unat_word_ariths)
  moreover have "\<not> 0 > rate sp div 8" by simp
  moreover have "absorb_tail (kstate sp) (byteIOIndex sp) data (ucast n) = Inl Out_of_range"
    using idx u ok assms(4,5) by (intro absorb_tail_overrun) simp_all
  moreover have "byteIOIndex sp \<noteq> 0" using assms(3) by (simp add: word_gt_0)
  ultimately show ?thesis by (simp add: absorb_queue_def Let_def)
qed

lemma queue_stalls:
  assumes "sponge_ok sp" and "\<not> squeezing sp" and "0 < byteIOIndex sp" and "unat n = 2 ^ 32"
  shows "absorb_queue sp data 0 n = Inr (sp, data, 0)"
proof -
  have "(ucast n :: u32) = 0"
    by (simp add: word_unat_eq_iff unsigned_ucast_eq take_bit_eq_mod assms(4))
  moreover have "byteIOIndex sp < rate sp div 8" using assms(1,2) sponge_okD(4) [OF assms(1)]
    by (simp add: sponge_ok_def word_less_nat_alt)
  then have "\<not> rate sp div 8 < byteIOIndex sp" "byteIOIndex sp \<noteq> rate sp div 8" by auto
  moreover have "absorb_tail (kstate sp) (byteIOIndex sp) data 0 = Inr (kstate sp, byteIOIndex sp, data)"
    by (simp add: absorb_tail.simps)
  moreover have "byteIOIndex sp \<noteq> 0" using assms(3) by (simp add: word_gt_0)
  ultimately show ?thesis by (simp add: absorb_queue_def Let_def)
qed

lemma stalled_loop:
  assumes "i < n" and "byteIOIndex sp \<noteq> 0" and "absorb_queue sp cur i n = Inr (sp, cur, i)"
  shows "absorb_loop sp cur i n = None"
proof (rule ccontr)
  assume "absorb_loop sp cur i n \<noteq> None"
  then obtain r where r: "absorb_loop sp cur i n = Some r" by blast
  have "\<not> (sp' = sp \<and> cur' = cur \<and> i' = i \<and> n' = n)" if "absorb_loop sp' cur' i' n' = Some r'"
    for sp' cur' i' n' r'
  proof (rule absorb_loop.raw_induct [OF _ that], goal_cases)
    case (1 f sp' cur' i' n' r')
    show ?case
    proof
      assume e: "sp' = sp \<and> cur' = cur \<and> i' = i \<and> n' = n"
      with 1(2) assms have "f sp cur i n = Some r'" by simp
      from 1(1) [OF this] show False by simp
    qed
  qed
  from this [OF r] show False by simp
qed

text \<open>
  C27: The message queue of the sponge counts with 32 bits. With bytes already in the queue, a message of
  exactly 2 to the 32 bytes makes \<open>Keccak_SpongeAbsorb\<close> loop for ever, and one that is shorter by
  the queued bytes makes it write outside the state.
\<close>

theorem oversized_message_breaks_sponge:
  assumes "sponge_ok sp" and "\<not> squeezing sp" and "0 < byteIOIndex sp"
    and "length stalling = 2 ^ 32" and "length overrunning = 2 ^ 32 - unat (byteIOIndex sp)"
  shows "Keccak_SpongeAbsorb sp stalling (word_of_nat (length stalling)) = None
    \<and> Keccak_SpongeAbsorb sp overrunning (word_of_nat (length overrunning)) = Some (Inl Out_of_range)"
proof
  let ?n = "word_of_nat (length stalling) :: u64"
  have n: "unat ?n = 2 ^ 32" using assms(4) by (simp add: unat_of_nat take_bit_nat_eq_self)
  then have "0 < ?n" by (simp add: word_less_nat_alt)
  then have "absorb_loop sp stalling 0 ?n = None"
    using queue_stalls [OF assms(1-3) n] assms(3) by (intro stalled_loop) (simp_all add: word_gt_0)
  then show "Keccak_SpongeAbsorb sp stalling ?n = None"
    using assms(2) by (simp add: Keccak_SpongeAbsorb_def)
next
  let ?n = "word_of_nat (length overrunning) :: u64"
  have idx: "unat (byteIOIndex sp) < 200"
    using assms(1,2) sponge_okD [OF assms(1)] by (auto simp: sponge_ok_def)
  have n: "unat ?n = length overrunning" using assms(5) by (simp add: unat_of_nat take_bit_nat_eq_self)
  then have "0 < ?n" using idx assms(5) by (simp add: word_less_nat_alt)
  moreover have "absorb_queue sp overrunning 0 ?n = Inl Out_of_range"
    using n assms(5) by (intro queue_wraps [OF assms(1-3)]) simp_all
  moreover have "byteIOIndex sp \<noteq> 0" using assms(3) by (simp add: word_gt_0)
  ultimately have "absorb_loop sp overrunning 0 ?n = Some (Inl Out_of_range)"
    by (subst absorb_loop.simps) simp
  then show "Keccak_SpongeAbsorb sp overrunning ?n = Some (Inl Out_of_range)"
    using assms(2) by (simp add: Keccak_SpongeAbsorb_def)
qed

definition one_byte_queued :: sponge where
  "one_byte_queued =
     \<lparr>kstate = 1 # replicate 199 0, rate = 1088, byteIOIndex = 1, squeezing = False\<rparr>"

theorem oversized_message_breaks_sponge_witness:
  "Keccak_SpongeAbsorb one_byte_queued (replicate (2 ^ 32) 0) (word_of_nat (length (replicate (2 ^ 32) (0 :: u8)))) = None
    \<and> Keccak_SpongeAbsorb one_byte_queued (replicate (2 ^ 32 - 1) 0)
        (word_of_nat (length (replicate (2 ^ 32 - 1) (0 :: u8)))) = Some (Inl Out_of_range)"
  by (rule oversized_message_breaks_sponge)
    (simp_all only: length_replicate, simp_all add: one_byte_queued_def sponge_ok_def)

section \<open>Skein\<close>

text \<open>
  C23: Skein hashes the whole message whatever its parts: initialising, updating with any list of byte
  ranges and finishing never faults and yields the output blocks of the unique block iteration over
  the concatenated ranges, for each of the three sizes and every output length.
\<close>

theorem skein_hash_is_iteration:
  "skein_stage Skein_256_Init Skein_256_Update Skein_256_Final 32 bits ranges =
     Inr (skein_digest Skein_256_block 32 (init_iv Skein_256_block 32 precomputed_256 bits)
            (unat (drop_bit 3 (bits + 7))) (concat ranges))
   \<and> skein_stage Skein_512_Init Skein_512_Update Skein_512_Final 64 bits ranges =
     Inr (skein_digest Skein_512_block 64 (init_iv Skein_512_block 64 precomputed_512 bits)
            (unat (drop_bit 3 (bits + 7))) (concat ranges))
   \<and> skein_stage Skein1024_Init Skein1024_Update Skein1024_Final 128 bits ranges =
     Inr (skein_digest Skein1024_block 128 (init_iv Skein1024_block 128 precomputed_1024 bits)
            (unat (drop_bit 3 (bits + 7))) (concat ranges))"
  by (intro conjI skein_stage_256 skein_stage_512 skein_stage_1024)

text \<open>
  C24: The looping block function of 1024 bits, which overwrites the key schedule with tweak words while it
  runs, computes the same block as the unrolled macros with their indices modulo 17 and 3.
\<close>

theorem skein_loop_is_unrolled:
  assumes "length c = 16"
  shows "Skein1024_block c t0 t1 blk = Skein1024_block_unrolled c t0 t1 blk"
  using assms by (rule loop_is_unrolled)

theorem skein_loop_is_unrolled_witness:
  "Skein1024_block SKEIN1024_IV_1024 8 0 [] = Skein1024_block_unrolled SKEIN1024_IV_1024 8 0 []"
  by (rule skein_loop_is_unrolled) (simp add: SKEIN1024_IV_1024_def)

lemma init_computed:
  assumes "block_function f bb"
  shows "\<exists>ctx1. skein_init_computed (process_blocks f bb) bb bits ctx = Inr ctx1
    \<and> chain ctx1 = f (replicate (bb div 8) 0) 32 (SKEIN_T1_FLAG_FIRST OR SKEIN_T1_BLK_TYPE_CFG_FINAL)
        (skein_config bb bits 0)"
proof -
  have "length (skein_config bb bits 0) = bb"
    using block_function.block_size(1) [OF assms] by (simp add: skein_config_def)
  then show ?thesis
    by (simp add: skein_init_computed_def block_function.process_single [OF assms] Skein_Start_New_Type_def
        SKEIN_CFG_STR_LEN_def del: One_nat_def)
qed

text \<open>
  C25: The precomputed chaining values of \<open>SK256\<close> and \<open>SK512\<close> are those the configuration block yields:
  initialising with the table or with the block function is the same.
\<close>

theorem skein_iv_is_computed:
  "\<exists>c256 c512.
     skein_init_computed Skein_256_Process_Block 32 256 ctx = Inr c256
     \<and> precomputed_256 256 = Some (chain c256)
     \<and> skein_init_computed Skein_512_Process_Block 64 512 ctx = Inr c512
     \<and> precomputed_512 512 = Some (chain c512)"
  using init_computed [OF skein_256.block_function_axioms, of 256 ctx]
    init_computed [OF skein_512.block_function_axioms, of 512 ctx] iv256_block iv512_block
  by (auto simp: Skein_256_Process_Block_def Skein_512_Process_Block_def precomputed_256_def precomputed_512_def)

section \<open>The templates\<close>

lemma init_ivs:
  "init_iv Skein_256_block 32 precomputed_256 256 = SKEIN_256_IV_256"
  "init_iv Skein_512_block 64 precomputed_512 512 = SKEIN_512_IV_512"
  "init_iv Skein1024_block 128 precomputed_1024 1024 = SKEIN1024_IV_1024"
  by (simp_all add: init_iv_def precomputed_256_def precomputed_512_def precomputed_1024_def)

lemma sk512_ok:
  "sk512 ranges = Some (Inr (uint_of_memory
     (sponge_digest 72 6 64 (skein_digest Skein_512_block 64 SKEIN_512_IV_512 64 (concat ranges)))))"
  using skein_512.digest_length
  by (simp add: sk512_def hash_result_def then_keccak_def skein_stage_512 init_ivs keccak_stage_ok)

lemma SK256_ok:
  "SK256 msg = Some (Inr (uint_of_memory
     (sponge_digest 136 6 32 (skein_digest Skein_256_block 32 SKEIN_256_IV_256 32 msg))))"
  using skein_256.digest_length
  by (simp add: SK256_def hash_result_def then_keccak_def skein_stage_256 init_ivs keccak_stage_ok)

lemma SK1024_ok:
  "SK1024 msg = Some (Inr (uint_of_memory
     (sponge_digest 72 5 128 (skein_digest Skein1024_block 128 SKEIN1024_IV_1024 128 msg))))"
  using skein_1024.digest_length
  by (simp add: SK1024_def hash_result_def then_keccak_def skein_stage_1024 init_ivs keccak_stage_ok)

text \<open>
  C26: The hash templates return for every message: \<open>SK64\<close>, \<open>SK256\<close>, \<open>SK512\<close>, \<open>SK576\<close> and \<open>SK1024\<close>
  are the Keccak sponge over the Skein digest, with the rates, suffixes and chaining values of the
  source and results of 64 bits and of 8, 16, 18 and 32 words, and the overloads of \<open>SK512\<close> hash the
  concatenation of their ranges. Only the overload of \<open>SK256\<close> for an empty vector is undefined.
\<close>

theorem hash_templates_total:
  "SK64 msg = Some (Inr (bytes_lane
       (sponge_digest 168 6 8 (skein_digest Skein_256_block 32 (init_iv Skein_256_block 32 precomputed_256 64) 8 msg))))
   \<and> SK256 msg = Some (Inr (uint_of_memory
       (sponge_digest 136 6 32 (skein_digest Skein_256_block 32 SKEIN_256_IV_256 32 msg))))
   \<and> SK512 msg = Some (Inr (uint_of_memory
       (sponge_digest 72 6 64 (skein_digest Skein_512_block 64 SKEIN_512_IV_512 64 msg))))
   \<and> SK576 msg = Some (Inr (uint_of_memory
       (sponge_digest 128 6 72 (skein_digest Skein1024_block 128
          (init_iv Skein1024_block 128 precomputed_1024 576) 72 msg))))
   \<and> SK1024 msg = Some (Inr (uint_of_memory
       (sponge_digest 72 5 128 (skein_digest Skein1024_block 128 SKEIN1024_IV_1024 128 msg))))
   \<and> SK512_2 p1 p2 = SK512 (p1 @ p2) \<and> SK512_3 p1 p2 p3 = SK512 (p1 @ p2 @ p3)
   \<and> SK256_vector msg = (if msg = [] then Some (Inl Out_of_range) else SK256 msg)
   \<and> width (uint_of_memory (sponge_digest 136 d 32 data)) = 8
   \<and> width (uint_of_memory (sponge_digest 72 d 64 data)) = 16
   \<and> width (uint_of_memory (sponge_digest 128 d 72 data)) = 18
   \<and> width (uint_of_memory (sponge_digest 72 d 128 data)) = 32"
proof (intro conjI)
  show "SK64 msg = Some (Inr (bytes_lane (sponge_digest 168 6 8
       (skein_digest Skein_256_block 32 (init_iv Skein_256_block 32 precomputed_256 64) 8 msg))))"
    using skein_256.digest_length
    by (simp add: SK64_def hash_result_def then_keccak_def skein_stage_256 keccak_stage_ok)
  show "SK576 msg = Some (Inr (uint_of_memory (sponge_digest 128 6 72 (skein_digest Skein1024_block 128
          (init_iv Skein1024_block 128 precomputed_1024 576) 72 msg))))"
    using skein_1024.digest_length
    by (simp add: SK576_def hash_result_def then_keccak_def skein_stage_1024 keccak_stage_ok)
qed (simp_all add: SK256_ok SK1024_ok SK512_def SK512_2_def SK512_3_def SK256_vector_def sk512_ok width_uint_of_memory
    length_sponge_digest)

end
