(* ===== verification/Hash_Platform.thy ===== *)
theory Hash_Platform
  imports Hash_Properties Server_Properties
begin

text \<open>
  The server over the hash functions of the source. The theories of the server and of the addresses take
  \<open>SK256\<close> and \<open>SK1024\<close> as arguments and ask only for the sizes of their results; here the arguments are
  the templates of \<open>src/src/hash/templates.h\<close>. An address is hashed with its version byte in front, so that
  the overload for vectors is never given an empty one.
\<close>

definition uses_source_hashes :: "platform \<Rightarrow> bool" where
  "uses_source_hashes pf \<longleftrightarrow>
     (\<forall>bs. SK256 bs = Some (Inr (pf_SK256 pf bs)) \<and> SK1024 bs = Some (Inr (pf_SK1024 pf bs)))"

lemma source_hashes_width:
  assumes "uses_source_hashes pf"
  shows "width (pf_SK256 pf bs) = 8" and "width (pf_SK1024 pf bs) = 32"
proof -
  have "pf_SK256 pf bs = uint_of_memory
      (sponge_digest 136 6 32 (skein_digest Skein_256_block 32 SKEIN_256_IV_256 32 bs))"
    and "pf_SK1024 pf bs = uint_of_memory
      (sponge_digest 72 5 128 (skein_digest Skein1024_block 128 SKEIN1024_IV_1024 128 bs))"
    using assms unfolding uses_source_hashes_def SK256_ok SK1024_ok by simp_all
  then show "width (pf_SK256 pf bs) = 8" and "width (pf_SK1024 pf bs) = 32"
    by (simp_all add: width_uint_of_memory length_sponge_digest)
qed

lemma source_hash_ok: "uses_source_hashes pf \<Longrightarrow> hash_ok pf"
  by (simp add: hash_ok_def source_hashes_width)

definition with_source_hashes :: "platform \<Rightarrow> platform" where
  "with_source_hashes pf = pf
     \<lparr>pf_SK256 := \<lambda>bs. uint_of_memory
        (sponge_digest 136 6 32 (skein_digest Skein_256_block 32 SKEIN_256_IV_256 32 bs)),
      pf_SK1024 := \<lambda>bs. uint_of_memory
        (sponge_digest 72 5 128 (skein_digest Skein1024_block 128 SKEIN1024_IV_1024 128 bs))\<rparr>"

lemma with_source_hashes_uses: "uses_source_hashes (with_source_hashes pf)"
  unfolding uses_source_hashes_def with_source_hashes_def SK256_ok SK1024_ok by simp

text \<open>
  C11: The server with the hash functions of the source. With \<open>SK256\<close> and \<open>SK1024\<close> as the source defines
  them, every state the server reaches has the form its code relies on, the hash of every block is a 1024
  bit number, and the address made from any 256 bit key hash passes the check of a login and gives the key
  hash back. Nothing is assumed of the hash functions.
\<close>

theorem server_with_source_hashes:
  assumes "uses_source_hashes pf"
  shows "(\<forall>api fs uninit w v. started pf api fs uninit w \<longrightarrow> reach pf w v \<longrightarrow> world_typed pf v)
    \<and> (\<forall>b. width (GetHash (pf_SK1024 pf) b) = 32)
    \<and> (\<forall>h. width h = 8 \<longrightarrow> (\<exists>s. Base58Data_ToString (pf_SK256 pf) (SetHash256 h) = Inr s
          \<and> valid_address (pf_SK256 pf) s = Inr True
          \<and> NexusAddress (pf_SK256 pf) s = Inr (SetHash256 h) \<and> GetHash256 (SetHash256 h) = Inr h))"
proof (intro conjI allI impI)
  fix api fs uninit w v assume "started pf api fs uninit w" "reach pf w v"
  then show "world_typed pf v" using source_hash_ok [OF assms] by (intro server_state_typed)
next
  fix b show "width (GetHash (pf_SK1024 pf) b) = 32" by (rule GetHash_width [OF source_hash_ok [OF assms]])
next
  fix h :: base_uint assume "width h = 8"
  from address_of_hash [OF this, of "pf_SK256 pf"] source_hashes_width(1) [OF assms]
  show "\<exists>s. Base58Data_ToString (pf_SK256 pf) (SetHash256 h) = Inr s
          \<and> valid_address (pf_SK256 pf) s = Inr True
          \<and> NexusAddress (pf_SK256 pf) s = Inr (SetHash256 h) \<and> GetHash256 (SetHash256 h) = Inr h" by auto
qed

lemma server_with_source_hashes_witness:
  "\<exists>s. valid_address (pf_SK256 (with_source_hashes example_platform)) s = Inr True
     \<and> NexusAddress (pf_SK256 (with_source_hashes example_platform)) s = Inr (SetHash256 (bu_assign64 8 77))"
proof -
  have "width (bu_assign64 8 77) = 8" by simp
  with server_with_source_hashes [OF with_source_hashes_uses, of example_platform] show ?thesis by blast
qed

end
