(* ===== verification/Keccak_Duplex.thy ===== *)
theory Keccak_Duplex
  imports Keccak_Spec
begin

text \<open>
  The duplex object of \<open>src/src/hash/KeccakDuplex.cpp\<close> over the permutation, and the duplex construction it
  implements: one call takes up to \<open>rate - 2\<close> bits, adds the padding \<open>pad10*1\<close>, runs the permutation and gives
  the first bits of the state. Results are those of \<open>Keccak_Sponge\<close>; the output is the list of the bytes
  written through \<open>Z\<close>.
\<close>

section \<open>The operations\<close>

record duplex =
  dstate :: bytes
  drate :: u32

definition Keccak_DuplexInitialize :: "duplex \<Rightarrow> u32 \<Rightarrow> u32 \<Rightarrow> int \<times> duplex" where
  "Keccak_DuplexInitialize inst r capacity =
     (if r + capacity \<noteq> 1600 then (1, inst)
      else if r \<le> 2 \<or> r > 1600 then (1, inst)
      else (0, inst\<lparr>drate := r, dstate := KeccakF1600_StateInitialize\<rparr>))"

text \<open>The checks of the arguments, before anything is written.\<close>

definition duplex_refuses :: "duplex \<Rightarrow> u32 \<Rightarrow> u32 \<Rightarrow> u8 \<Rightarrow> bool" where
  "duplex_refuses inst sigmaBeginByteLen ZByteLen delimitedSigmaEnd =
     (let rho_max = drate inst - 2 in
      delimitedSigmaEnd = 0
      \<or> sigmaBeginByteLen * 8 > rho_max
      \<or> (rho_max - sigmaBeginByteLen * 8 < 7
          \<and> unat delimitedSigmaEnd \<ge> 2 ^ unat (rho_max - sigmaBeginByteLen * 8 + 1))
      \<or> ZByteLen > (drate inst + 7) div 8)"

definition Keccak_Duplexing :: "duplex \<Rightarrow> bytes \<Rightarrow> u32 \<Rightarrow> u32 \<Rightarrow> u8 \<Rightarrow> (int \<times> duplex \<times> bytes) res" where
  "Keccak_Duplexing inst sigmaBegin sigmaBeginByteLen ZByteLen delimitedSigmaEnd =
     (if duplex_refuses inst sigmaBeginByteLen ZByteLen delimitedSigmaEnd then Inr (1, inst, [])
      else
        rbind (if sigmaBeginByteLen mod 8 > 0
               then KeccakF1600_StateXORBytesInLane (dstate inst) (sigmaBeginByteLen div 8)
                      (drop (unat (sigmaBeginByteLen div 8 * 8)) sigmaBegin) 0 (sigmaBeginByteLen mod 8)
               else Inr (dstate inst)) (\<lambda>m.
        rbind (KeccakF1600_StateXORBytesInLane m (sigmaBeginByteLen div 8) [delimitedSigmaEnd]
                 (sigmaBeginByteLen mod 8) 1) (\<lambda>m.
        rbind (KeccakF1600_StateComplementBit m (drate inst - 1)) (\<lambda>m.
        rbind (KeccakF1600_StateXORPermuteExtract m sigmaBegin (sigmaBeginByteLen div 8) (ZByteLen div 8))
          (\<lambda>(m, Z1).
        rbind (if ZByteLen mod 8 > 0
               then KeccakF1600_StateExtractBytesInLane m (ZByteLen div 8) 0 (ZByteLen mod 8)
               else Inr []) (\<lambda>Z2.
          let Z = Z1 @ Z2; mask = push_bit (unat (drate inst mod 8)) 1 - 1; last = unat (ZByteLen - 1) in
          Inr (0, inst\<lparr>dstate := m\<rparr>,
               if ZByteLen * 8 > drate inst then Z[last := Z ! last AND mask] else Z)))))))"

section \<open>The duplex construction\<close>

definition bits_byte :: "bool list \<Rightarrow> u8" where
  "bits_byte bs = foldr (\<lambda>b w. of_bool b OR push_bit 1 w) bs 0"

definition byte_of :: "bool list \<Rightarrow> nat \<Rightarrow> u8" where
  "byte_of bs i = bits_byte (take 8 (drop (8 * i) bs))"

definition bits_of :: "bytes \<Rightarrow> bool list" where
  "bits_of bs = concat (map (\<lambda>b. map (bit b) [0..<8]) bs)"

definition pad10star1 :: "nat \<Rightarrow> bool list \<Rightarrow> bool list" where
  "pad10star1 r sigma = sigma @ True # replicate (r - 2 - length sigma) False @ [True]"

definition duplex_spec :: "nat \<Rightarrow> bytes \<Rightarrow> bool list \<Rightarrow> bytes" where
  "duplex_spec r m sigma =
     sponge_f (map (\<lambda>i. m ! i XOR byte_of (pad10star1 r sigma) i) [0..<length m])"

text \<open>How a caller hands over a bit string: whole bytes, and the rest with a delimiting bit.\<close>

definition sigma_begin :: "bool list \<Rightarrow> bytes" where
  "sigma_begin sigma = map (byte_of sigma) [0..<length sigma div 8]"

definition delimited_end :: "bool list \<Rightarrow> u8" where
  "delimited_end sigma = bits_byte (drop (8 * (length sigma div 8)) sigma @ [True])"

lemma bit_bits_byte: "bit (bits_byte bs) j \<longleftrightarrow> j < 8 \<and> j < length bs \<and> bs ! j"
proof (induction bs arbitrary: j)
  case (Cons b bs)
  have "bits_byte (b # bs) = of_bool b OR push_bit 1 (bits_byte bs)" by (simp add: bits_byte_def)
  then have "bit (bits_byte (b # bs)) j \<longleftrightarrow> (j = 0 \<and> b) \<or> (1 \<le> j \<and> j < 8 \<and> bit (bits_byte bs) (j - 1))"
    by (simp only: bit_or_iff bit_of_bool_iff bit_push_bit_iff possible_bit_word) (auto simp: bit_1_0)
  then show ?case using Cons.IH [of "j - 1"] by (cases j) auto
qed (simp add: bits_byte_def)

lemma bit_single: "j < 8 \<Longrightarrow> bit (push_bit k 1 :: u8) j \<longleftrightarrow> j = k"
  by (simp only: bit_push_bit_iff bit_1_iff possible_bit_word) auto

lemma byte_index: "j < 8 \<Longrightarrow> 8 * i + j = q \<longleftrightarrow> i = q div 8 \<and> j = q mod (8 :: nat)"
  by (metis add.commute div_mod_decomp_int div_mult_self2 div_less mod_less mod_mult_self2 mult.commute
      mult_div_mod_eq add_0 zero_neq_numeral)

lemma bit_byte_of: "bit (byte_of bs i) j \<longleftrightarrow> j < 8 \<and> 8 * i + j < length bs \<and> bs ! (8 * i + j)"
  by (auto simp: byte_of_def bit_bits_byte)

lemma bits_byte_less: "unat (bits_byte bs) < 2 ^ length bs"
proof (cases "length bs < 8")
  case True
  have "take_bit (length bs) (bits_byte bs) = bits_byte bs"
    by (rule bit_word_eqI) (auto simp: bit_simps bit_bits_byte)
  then have "unat (bits_byte bs) = take_bit (length bs) (unat (bits_byte bs))"
    by (metis unsigned_take_bit_eq)
  then show ?thesis by (metis take_bit_nat_less_exp)
next
  case False
  then have "(2 :: nat) ^ 8 \<le> 2 ^ length bs" by (intro power_increasing) simp_all
  then show ?thesis using unat_u8_less [of "bits_byte bs"] by simp
qed

lemma length_bits_of [simp]: "length (bits_of bs) = 8 * length bs"
  by (induction bs) (simp_all add: bits_of_def)

lemma nth_bits_of: "p < 8 * length bs \<Longrightarrow> bits_of bs ! p \<longleftrightarrow> bit (bs ! (p div 8)) (p mod 8)"
proof (induction bs arbitrary: p)
  case (Cons b bs)
  have "bits_of (b # bs) = map (bit b) [0..<8] @ bits_of bs" by (simp add: bits_of_def)
  moreover have "\<not> p < 8 \<Longrightarrow> p div 8 = Suc ((p - 8) div 8) \<and> p mod 8 = (p - 8) mod 8"
    by (metis le_div_geq le_mod_geq not_less zero_less_numeral)
  ultimately show ?case using Cons by (auto simp: nth_append)
qed simp

lemma nth_pad:
  "length sigma + 2 \<le> r \<Longrightarrow> p < r \<Longrightarrow>
   pad10star1 r sigma ! p \<longleftrightarrow> (if p < length sigma then sigma ! p else p = length sigma \<or> p = r - 1)"
  by (auto simp: pad10star1_def nth_append nth_Cons')

lemma length_pad [simp]: "length sigma + 2 \<le> r \<Longrightarrow> length (pad10star1 r sigma) = r"
  by (simp add: pad10star1_def)

lemma delimited_end_bit:
  assumes "j < 8" and "length sigma div 8 = i"
  shows "bit (delimited_end sigma) j \<longleftrightarrow> 8 * i + j \<le> length sigma \<and> (8 * i + j < length sigma \<longrightarrow> sigma ! (8 * i + j))"
proof -
  have "8 * i \<le> length sigma" using assms(2) by auto
  then have "8 * i + j \<le> length sigma \<longleftrightarrow> j \<le> length sigma - 8 * i"
    and "8 * i + j < length sigma \<longleftrightarrow> j < length sigma - 8 * i" by arith+
  with assms(1) show ?thesis
    unfolding delimited_end_def assms(2) bit_bits_byte
    by (cases "j < length sigma - 8 * i") (auto simp: nth_append not_less)
qed

text \<open>The byte that is absorbed at place \<open>i\<close>: message, delimiter and second bit of padding.\<close>

lemma pad_byte:
  assumes "length sigma + 2 \<le> r"
  shows "byte_of (pad10star1 r sigma) i =
     (if i < length sigma div 8 then byte_of sigma i else 0) XOR
     (if i = length sigma div 8 then delimited_end sigma else 0) XOR
     (if i = (r - 1) div 8 then push_bit ((r - 1) mod 8) 1 else 0)"
    (is "_ = ?a XOR ?b XOR ?c")
proof (rule bit_word_eqI)
  fix j assume "j < LENGTH(8)"
  then have j: "j < 8" by simp
  let ?n = "length sigma" and ?p = "8 * i + j"
  note e = byte_index [OF j, of i "r - 1"]
  have c: "bit ?c j \<longleftrightarrow> ?p = r - 1" using bit_single [OF j] unfolding e by simp
  have a: "bit ?a j \<longleftrightarrow> i < ?n div 8 \<and> sigma ! ?p"
    using j by (auto simp: bit_byte_of)
  have b: "bit ?b j \<longleftrightarrow> i = ?n div 8 \<and> ?p \<le> ?n \<and> (?p < ?n \<longrightarrow> sigma ! ?p)"
    using delimited_end_bit [OF j, of sigma] by simp
  have lt: "i < ?n div 8 \<Longrightarrow> ?p < ?n"
    using j less_eq_div_iff_mult_less_eq [of 8 "Suc i" ?n] by simp
  have gt: "\<not> i < ?n div 8 \<Longrightarrow> i \<noteq> ?n div 8 \<Longrightarrow> ?n < ?p"
    using div_less_iff_less_mult [of 8 ?n i] by simp
  have "bit (byte_of (pad10star1 r sigma) i) j \<longleftrightarrow>
      (if ?p < ?n then sigma ! ?p else ?p = ?n \<or> ?p = r - 1)"
    using assms j by (auto simp: bit_byte_of nth_pad)
  then show "bit (byte_of (pad10star1 r sigma) i) j = bit (?a XOR ?b XOR ?c) j"
    using assms lt gt unfolding bit_xor_iff a b c
    by (cases "i < ?n div 8"; cases "i = ?n div 8") auto
qed

section \<open>One call\<close>

lemma refuses_not:
  assumes "length sigma + 2 \<le> unat (drate inst)" and "drate inst \<le> 1600" and "zlen \<le> (drate inst + 7) div 8"
  shows "\<not> duplex_refuses inst (of_nat (length sigma div 8)) zlen (delimited_end sigma)"
proof -
  let ?n = "length sigma"
  define rest where "rest = drop (8 * (?n div 8)) sigma"
  have r: "unat (drate inst) \<le> 1600" using assms(2) by (simp add: word_le_nat_alt)
  have n: "?n = 8 * (?n div 8) + length rest" by (simp add: rest_def)
  have k: "length rest < 8" by (simp add: rest_def minus_mult_div_eq_mod)
  have rho: "unat (drate inst - 2) = unat (drate inst) - 2"
    using assms(1) by (subst unat_sub) (simp_all add: word_le_nat_alt)
  have u: "unat (of_nat (?n div 8) * 8 :: u32) = 8 * (?n div 8)"
    using assms(1) r by (simp add: unat_word_ariths unat_of_nat)
  have le: "of_nat (?n div 8) * 8 \<le> drate inst - 2"
    using assms(1) n by (simp add: word_le_nat_alt rho u)
  let ?room = "drate inst - 2 - of_nat (?n div 8) * 8"
  have room: "unat ?room = unat (drate inst) - 2 - 8 * (?n div 8)"
    using le by (simp add: unat_sub rho u)
  have "unat (w + 1) = Suc (unat w)" if "unat w \<le> 1600" for w :: u32
    using that by (simp add: unat_word_ariths)
  moreover have "unat ?room \<le> 1600" unfolding room using r by simp
  ultimately have room1: "unat (?room + 1) = Suc (unat ?room)" by blast
  have "unat (delimited_end sigma) < 2 ^ Suc (length rest)"
    using bits_byte_less [of "rest @ [True]"] by (simp add: delimited_end_def rest_def)
  also have "\<dots> \<le> 2 ^ unat (?room + 1)"
    using assms(1) n unfolding room1 room by (intro power_increasing) simp_all
  finally have small: "unat (delimited_end sigma) < 2 ^ unat (?room + 1)" .
  have "bit (delimited_end sigma) (length rest)"
    using k n by (subst delimited_end_bit [OF k refl]) simp
  then have "delimited_end sigma \<noteq> 0" by auto
  with le small assms(3) show ?thesis by (simp add: duplex_refuses_def Let_def not_less not_le)
qed

text \<open>The state after the message bytes, the delimiter and the second bit of padding.\<close>

definition absorbed :: "bytes \<Rightarrow> nat \<Rightarrow> bool list \<Rightarrow> bytes" where
  "absorbed m r sigma =
     (let n = length sigma div 8; w = 8 * (n div 8);
          m = xor_at w (drop w (sigma_begin sigma)) m;
          m = xor_at n [delimited_end sigma] m;
          m = m[(r - 1) div 8 := m ! ((r - 1) div 8) XOR push_bit ((r - 1) mod 8) 1]
      in xor_at 0 (take w (sigma_begin sigma)) m)"

lemma absorbed_spec:
  assumes "length m = 200" and "length sigma + 2 \<le> r" and "r \<le> 1600"
  shows "absorbed m r sigma = map (\<lambda>i. m ! i XOR byte_of (pad10star1 r sigma) i) [0..<length m]"
proof (rule nth_equalityI)
  let ?n = "length sigma div 8"
  let ?w = "8 * (?n div 8)"
  have n: "?n < 200" "?w \<le> ?n" "(r - 1) div 8 < 200" using assms(2,3) by auto
  have s: "length (sigma_begin sigma) = ?n" "i < ?n \<Longrightarrow> sigma_begin sigma ! i = byte_of sigma i" for i
    by (simp_all add: sigma_begin_def)
  show "length (absorbed m r sigma) = length (map (\<lambda>i. m ! i XOR byte_of (pad10star1 r sigma) i) [0..<length m])"
    using n assms by (simp add: absorbed_def Let_def s)
  fix i assume "i < length (absorbed m r sigma)"
  then have i: "i < 200" using n assms by (simp add: absorbed_def Let_def s)
  have "absorbed m r sigma ! i =
      m ! i XOR (if i < ?n then byte_of sigma i else 0) XOR (if i = ?n then delimited_end sigma else 0)
      XOR (if i = (r - 1) div 8 then push_bit ((r - 1) mod 8) 1 else 0)"
  proof -
    obtain w where w: "?w = w" "w \<le> ?n" using n(2) by blast
    show ?thesis
      using i n(1,3) w(2) assms unfolding absorbed_def Let_def w(1)
      by (auto simp: nth_xor_at nth_list_update s ac_simps)
  qed
  then show "absorbed m r sigma ! i = map (\<lambda>i. m ! i XOR byte_of (pad10star1 r sigma) i) [0..<length m] ! i"
    using i assms by (simp add: pad_byte ac_simps)
qed

lemma extract_first:
  assumes "length m = 200" and "unat zlen \<le> 200"
  shows "KeccakF1600_StateExtractLanes m (zlen div 8) = Inr (take (8 * (unat zlen div 8)) m)"
    and "zlen mod 8 > 0 \<Longrightarrow> KeccakF1600_StateExtractBytesInLane m (zlen div 8) 0 (zlen mod 8) =
         Inr (take (unat zlen mod 8) (drop (8 * (unat zlen div 8)) m))"
proof -
  have w: "8 * (unat zlen div 8) \<le> unat zlen" "unat (zlen div 8 * 8) = 8 * (unat zlen div 8)"
    using assms(2) by (simp_all add: unat_div unat_word_ariths)
  then show "KeccakF1600_StateExtractLanes m (zlen div 8) = Inr (take (8 * (unat zlen div 8)) m)"
    using assms vec_range_ok [of 0 "8 * (unat zlen div 8)" m]
    by (simp add: KeccakF1600_StateExtractLanes_def)
  have "8 * (unat zlen div 8) + unat zlen mod 8 \<le> 200" using assms(2) by simp
  moreover obtain q k where qk: "unat zlen div 8 = q" "unat zlen mod 8 = k" by blast
  ultimately show "KeccakF1600_StateExtractBytesInLane m (zlen div 8) 0 (zlen mod 8) =
         Inr (take (unat zlen mod 8) (drop (8 * (unat zlen div 8)) m))"
    using assms(1) vec_range_ok [of "8 * q" "8 * q + k" m]
    by (simp add: KeccakF1600_StateExtractBytesInLane_def Let_def unat_div unat_mod qk mult.commute)
qed

lemma xor_message:
  assumes "length m = 200" and "length bs = unat len" and "unat len < 200"
  defines "w \<equiv> 8 * (unat len div 8)"
  shows "(if len mod 8 > 0
          then KeccakF1600_StateXORBytesInLane m (len div 8) (drop (unat (len div 8 * 8)) bs) 0 (len mod 8)
          else Inr m) = Inr (xor_at w (drop w bs) m)"
    and "KeccakF1600_StateXORBytesInLane m (len div 8) [d] (len mod 8) 1 = Inr (xor_at (unat len) [d] m)"
    and "KeccakF1600_StateXORLanes m bs (len div 8) = Inr (xor_at 0 (take w bs) m)"
proof -
  have lane: "unat (len div 8 * 8) = w" "unat (len div 8) = unat len div 8" "unat (len mod 8) = unat len mod 8"
    using assms(3) by (simp_all add: w_def unat_div unat_mod unat_word_ariths)
  obtain a b c where abc: "len div 8 * 8 = c" "len div 8 = a" "len mod 8 = b" by blast
  obtain k where k: "unat len = w + k" "unat len mod 8 = k" by (metis w_def mult_div_mod_eq)
  have u: "unat c = w" "unat a * 8 = w" "unat b = k"
    using lane(1) [unfolded abc(1)] lane(2,3) [unfolded abc(2,3)] k(2) by (simp_all add: w_def)
  show "(if len mod 8 > 0
          then KeccakF1600_StateXORBytesInLane m (len div 8) (drop (unat (len div 8 * 8)) bs) 0 (len mod 8)
          else Inr m) = Inr (xor_at w (drop w bs) m)"
    unfolding abc(1) unfolding abc(2,3) using assms(1-3) k u
    by (auto simp: KeccakF1600_StateXORBytesInLane_def xor_state_def word_less_nat_alt)
  show "KeccakF1600_StateXORBytesInLane m (len div 8) [d] (len mod 8) 1 = Inr (xor_at (unat len) [d] m)"
    unfolding abc using assms(1-3) k u
    by (simp add: KeccakF1600_StateXORBytesInLane_def xor_state_def)
  show "KeccakF1600_StateXORLanes m bs (len div 8) = Inr (xor_at 0 (take w bs) m)"
    unfolding KeccakF1600_StateXORLanes_def abc(1) using assms(1-3) k u
    by (simp add: xor_state_def)
qed

lemma duplexing_state:
  assumes "length (dstate inst) = 200" and "length sigma + 2 \<le> unat (drate inst)" and "drate inst \<le> 1600"
    and "zlen \<le> (drate inst + 7) div 8"
  defines "m \<equiv> duplex_spec (unat (drate inst)) (dstate inst) sigma"
  shows "\<exists>Z. Keccak_Duplexing inst (sigma_begin sigma) (of_nat (length sigma div 8)) zlen (delimited_end sigma) =
      Inr (0, inst\<lparr>dstate := m\<rparr>, Z)
    \<and> Z = (let Z = take (unat zlen) m; mask = push_bit (unat (drate inst mod 8)) 1 - 1 in
           if zlen * 8 > drate inst then Z[unat (zlen - 1) := Z ! unat (zlen - 1) AND mask] else Z)"
proof -
  let ?n = "length sigma div 8" and ?r = "unat (drate inst)"
  let ?w = "8 * (?n div 8)"
  let ?len = "of_nat ?n :: u32"
  have r: "?r \<le> 1600" using assms(3) by (simp add: word_le_nat_alt)
  have n: "unat ?len = ?n" "?n < 200" using assms(2) r by (simp_all add: unat_of_nat)
  have s: "length (sigma_begin sigma) = unat ?len" "unat ?len < 200" using n by (simp_all add: sigma_begin_def)
  let ?m0 = "dstate inst"
  let ?m1 = "xor_at ?w (drop ?w (sigma_begin sigma)) ?m0"
  let ?m2 = "xor_at ?n [delimited_end sigma] ?m1"
  let ?m3 = "?m2[(?r - 1) div 8 := ?m2 ! ((?r - 1) div 8) XOR push_bit ((?r - 1) mod 8) 1]"
  have "?w \<le> ?n" by simp
  then have l: "length ?m1 = 200" "length ?m2 = 200" "length ?m3 = 200"
    using n s assms(1) by simp_all
  note s1 = xor_message(1) [OF assms(1) s, unfolded n(1)]
    and s2 = xor_message(2) [OF l(1) s, unfolded n(1)]
    and s4 = xor_message(3) [OF l(3) s, unfolded n(1)]
  have "unat (drate inst - 1) = ?r - 1"
    using assms(2) by (subst unat_sub) (simp_all add: word_le_nat_alt)
  then have s3: "KeccakF1600_StateComplementBit ?m2 (drate inst - 1) = Inr ?m3"
    using complement_bit_ok [OF l(2), of "drate inst - 1"] assms(2) r by simp
  have m: "KeccakF1600_StatePermute (xor_at 0 (take ?w (sigma_begin sigma)) ?m3) = m"
    using absorbed_spec [OF assms(1,2) r]
    by (simp add: m_def duplex_spec_def absorbed_def Let_def sponge_f_permute)
  have lm: "length m = 200" unfolding m [symmetric] by simp
  have z: "unat zlen \<le> 200"
    using assms(4) r by (simp add: word_le_nat_alt unat_div unat_word_ariths)
  note e = extract_first [OF lm z]
  let ?Z1 = "take (8 * (unat zlen div 8)) m"
  obtain Z2 where Z2: "(if zlen mod 8 > 0 then KeccakF1600_StateExtractBytesInLane m (zlen div 8) 0 (zlen mod 8)
      else Inr []) = Inr Z2" and joined: "?Z1 @ Z2 = take (unat zlen) m"
  proof (cases "zlen mod 8 > 0")
    case True
    have "8 * (unat zlen div 8) + unat zlen mod 8 = unat zlen" by simp
    then show ?thesis using that True e(2) by (metis take_add)
  next
    case False
    then have "unat zlen mod 8 = 0" by (simp add: word_less_nat_alt unat_mod)
    then have "8 * (unat zlen div 8) = unat zlen" by presburger
    then show ?thesis using that False by simp
  qed
  have "KeccakF1600_StateXORPermuteExtract ?m3 (sigma_begin sigma) (?len div 8) (zlen div 8) = Inr (m, ?Z1)"
    unfolding KeccakF1600_StateXORPermuteExtract_def s4 rbind_Inr m Let_def e(1) by simp
  then show ?thesis
    unfolding Keccak_Duplexing_def if_not_P [OF refuses_not [OF assms(2-4)]] s1 rbind_Inr s2 s3
    by (simp only: rbind_Inr prod.case Z2 joined Let_def) simp
qed

lemma bits_of_take: "bits_of (take n bs) = take (8 * n) (bits_of bs)"
proof (induction bs arbitrary: n)
  case (Cons b bs)
  have "bits_of (b # xs) = map (bit b) [0..<8] @ bits_of xs" for xs by (simp add: bits_of_def)
  with Cons show ?case by (cases n) (simp_all add: bits_of_def)
qed (simp add: bits_of_def)

text \<open>Masking the last byte of an output that is longer than the rate.\<close>

lemma masked_output:
  assumes "length Z = z" and "r < 8 * z" and "8 * z \<le> r + 7"
  shows "bits_of (Z[z - 1 := Z ! (z - 1) AND (push_bit (r mod 8) 1 - 1)]) =
         take r (bits_of Z) @ replicate (8 * z - r) False"
proof (rule nth_equalityI)
  let ?mask = "push_bit (r mod 8) 1 - 1 :: u8"
  have q: "r div 8 = z - 1" "r mod 8 < 8" using assms(2,3) by auto
  have mask: "?mask = mask (r mod 8)" by (simp add: mask_eq_exp_minus_1 push_bit_eq_mult)
  show "length (bits_of (Z[z - 1 := Z ! (z - 1) AND ?mask])) =
      length (take r (bits_of Z) @ replicate (8 * z - r) False)" using assms by simp
  fix p assume "p < length (bits_of (Z[z - 1 := Z ! (z - 1) AND ?mask]))"
  then have p: "p < 8 * z" using assms(1) by simp
  have split: "p = 8 * (p div 8) + p mod 8" "r = 8 * (r div 8) + r mod 8" "p mod 8 < 8" by simp_all
  have "p div 8 < z" using p by (simp add: div_less_iff_less_mult mult.commute)
  then have at: "Z[z - 1 := x] ! (p div 8) = (if p div 8 = z - 1 then x else Z ! (p div 8))" for x
    using assms(1) by (auto simp: nth_list_update)
  have new: "bits_of (Z[z - 1 := Z ! (z - 1) AND ?mask]) ! p \<longleftrightarrow>
      bit (if p div 8 = z - 1 then Z ! (z - 1) AND mask (r mod 8) else Z ! (p div 8)) (p mod 8)"
    using p assms(1) unfolding mask at [symmetric] by (subst nth_bits_of) simp_all
  have old: "(take r (bits_of Z) @ replicate (8 * z - r) False) ! p \<longleftrightarrow>
      p < r \<and> bit (Z ! (p div 8)) (p mod 8)"
    using p assms(1,2) by (auto simp: nth_append nth_bits_of)
  show "bits_of (Z[z - 1 := Z ! (z - 1) AND ?mask]) ! p =
      (take r (bits_of Z) @ replicate (8 * z - r) False) ! p"
  proof (cases "p div 8 = z - 1")
    case True
    then have "p mod 8 < r mod 8 \<longleftrightarrow> p < r" using q(1) split by linarith
    with True show ?thesis
      unfolding new old if_P [OF True] bit_and_iff bit_mask_iff possible_bit_word by auto
  next
    case False
    with \<open>p div 8 < z\<close> have "p div 8 < r div 8" using q(1) by linarith
    then have "p < r" using split by linarith
    with False show ?thesis unfolding new old by simp
  qed
qed

text \<open>
  C28: Duplexing. On an instance with a rate of 3 to 1600 bits, for every bit string that leaves room for two
  bits of padding and every output of at most the rate rounded up to bytes, a call with the whole bytes of the
  string and its delimited end is not refused and stays inside the state. The new state is that of the duplex
  construction: the string with the padding \<open>pad10*1\<close> enters the first \<open>rate\<close> bits and the permutation runs.
  The output is the first bits of the new state, the bits of its last byte beyond the rate 0.
\<close>

theorem duplexing_is_duplex:
  assumes "length (dstate inst) = 200" and "length sigma + 2 \<le> unat (drate inst)" and "drate inst \<le> 1600"
    and "zlen \<le> (drate inst + 7) div 8"
  shows "\<exists>Z. Keccak_Duplexing inst (sigma_begin sigma) (of_nat (length sigma div 8)) zlen (delimited_end sigma) =
      Inr (0, inst\<lparr>dstate := duplex_spec (unat (drate inst)) (dstate inst) sigma\<rparr>, Z)
    \<and> bits_of Z = take (min (8 * unat zlen) (unat (drate inst)))
                    (bits_of (duplex_spec (unat (drate inst)) (dstate inst) sigma))
                  @ replicate (8 * unat zlen - unat (drate inst)) False"
proof -
  let ?r = "unat (drate inst)" and ?z = "unat zlen"
  let ?m = "duplex_spec ?r (dstate inst) sigma"
  let ?mask = "push_bit (unat (drate inst mod 8)) 1 - 1 :: u8"
  let ?Z = "take ?z ?m"
  let ?out = "if zlen * 8 > drate inst then ?Z[unat (zlen - 1) := ?Z ! unat (zlen - 1) AND ?mask] else ?Z"
  have r: "?r \<le> 1600" using assms(3) by (simp add: word_le_nat_alt)
  have z: "?z \<le> (?r + 7) div 8" using assms(4) r by (simp add: word_le_nat_alt unat_div unat_word_ariths)
  have z8: "8 * ?z \<le> ?r + 7" using z by auto
  then have more: "zlen * 8 > drate inst \<longleftrightarrow> ?r < 8 * ?z"
    using r by (simp add: word_less_nat_alt unat_word_ariths mult.commute)
  have len: "length ?Z = ?z"
    using z r assms(1) by (simp add: duplex_spec_def flip: sponge_f_permute)
  have "bits_of ?out = take (min (8 * ?z) ?r) (bits_of ?m) @ replicate (8 * ?z - ?r) False"
  proof (cases "?r < 8 * ?z")
    case True
    then have "zlen \<noteq> 0" by auto
    then have last: "unat (zlen - 1) = ?z - 1" by (simp add: unat_minus_one)
    show ?thesis
      using masked_output [OF len True z8] True
      by (simp add: more last unat_mod bits_of_take min.commute)
  next
    case False
    then show ?thesis by (simp add: more bits_of_take min_def)
  qed
  then show ?thesis using duplexing_state [OF assms] by (auto simp: Let_def)
qed

theorem duplexing_is_duplex_witness:
  "\<exists>Z. Keccak_Duplexing \<lparr>dstate = replicate 200 0, drate = 1027\<rparr> (sigma_begin (replicate 9 True))
        (of_nat (length (replicate 9 True) div 8)) 129 (delimited_end (replicate 9 True)) =
      Inr (0, \<lparr>dstate = replicate 200 0, drate = 1027\<rparr>\<lparr>dstate := duplex_spec (unat (1027 :: u32))
        (replicate 200 0) (replicate 9 True)\<rparr>, Z)"
  using duplexing_is_duplex [of "\<lparr>dstate = replicate 200 0, drate = 1027\<rparr>" "replicate 9 True" 129]
  by auto

end
