(* ===== verification/Tcp_Socket.thy ===== *)
theory Tcp_Socket
  imports Tcp_Calls
begin

text \<open>
  The sockets of \<open>src/src/network/tcp/socket_impl.hpp\<close> with \<open>protocol_description.hpp\<close>: connecting, listening and
  accepting. The answers of asio are arguments, as in \<open>Tcp_Connection\<close>; \<open>ts_accepting\<close> counts the
  asynchronous accepts under way, \<open>ts_accepted\<close> are the connections handed to the user.
\<close>

section \<open>State\<close>

record tcp_socket =
  ts_local :: endpoint
  ts_acceptor_open :: bool
  ts_accepting :: nat
  ts_accepted :: "tcp_connection list"

definition Socket_new :: "endpoint \<Rightarrow> tcp_socket" where
  "Socket_new local_endpoint =
     \<lparr>ts_local = local_endpoint, ts_acceptor_open = False, ts_accepting = 0, ts_accepted = []\<rparr>"

section \<open>Connecting\<close>

text \<open>\<open>None\<close> is the null pointer.\<close>

definition Socket_connect ::
  "bool \<Rightarrow> socket_answers \<Rightarrow> endpoint \<Rightarrow> tcp_socket \<Rightarrow> (tcp_connection option \<times> tcp_socket) res" where
  "Socket_connect handler a destination s =
     assert_that handler (assert_that (Endpoint_is_valid destination)
       (rbind (Connection_connect a (Connection_connecting destination (ts_local s))) (\<lambda>(result, c).
        if result = result_ok
        then rbind (get_tcp_base (tn_local c)) (\<lambda>b.
             rbind (update_port b (ts_local s)) (\<lambda>local_endpoint.
               Inr (Some c, s\<lparr>ts_local := local_endpoint\<rparr>)))
        else Inr (None, s))))"

section \<open>Listening\<close>

definition close_acceptor :: "tcp_socket \<Rightarrow> tcp_socket" where
  "close_acceptor s = (if ts_acceptor_open s then s\<lparr>ts_acceptor_open := False\<rparr> else s)"

definition stop_listen :: "tcp_socket \<Rightarrow> tcp_socket" where
  "stop_listen s = close_acceptor s"

definition bind_acceptor :: "bool \<Rightarrow> tcp_socket \<Rightarrow> (result_code \<times> tcp_socket) res" where
  "bind_acceptor bind_error s =
     rbind (get_tcp_base (ts_local s)) (\<lambda>_.
       if bind_error then Inr (socket_error, close_acceptor s) else Inr (result_ok, s))"

definition accept_next :: "tcp_socket \<Rightarrow> tcp_socket" where
  "accept_next s = s\<lparr>ts_accepting := ts_accepting s + 1\<rparr>"

record listen_answers = socket_answers +
  la_listen_error :: bool

definition listen :: "bool \<Rightarrow> listen_answers \<Rightarrow> tcp_socket \<Rightarrow> (result_code \<times> tcp_socket) res" where
  "listen handler a s =
     assert_that handler
       (if ts_acceptor_open s then Inr (socket_error, s)
        else rbind (get_tcp_base (ts_local s)) (\<lambda>_.
          if sa_open_error a then Inr (socket_error, s)
          else rbind (bind_acceptor (sa_bind_error a) (s\<lparr>ts_acceptor_open := True\<rparr>)) (\<lambda>(result, s).
            if result \<noteq> result_ok then Inr (socket_error, close_acceptor s)
            else case sa_local a of
                   None \<Rightarrow> Inl Exception_thrown
                 | Some e \<Rightarrow> rbind (update_port e (ts_local s)) (\<lambda>local_endpoint.
                     let s = s\<lparr>ts_local := local_endpoint\<rparr> in
                     if la_listen_error a then Inr (socket_error, close_acceptor s)
                     else Inr (socket_ok, accept_next s)))))"

section \<open>Accepting\<close>

text \<open>
  The completion of an accept: its error, the remote and the local endpoint of the new socket, unless
  asking for them throws, and whether the user gave a handler for the connection.
\<close>

record accept_answer =
  aa_error :: bool
  aa_remote :: "asio_endpoint option"
  aa_handler :: bool
  aa_local :: "asio_endpoint option"
  aa_reaction :: reaction

definition on_accept :: "bool \<Rightarrow> accept_answer \<Rightarrow> tcp_socket \<Rightarrow> tcp_socket res" where
  "on_accept alive a s =
     (let s = s\<lparr>ts_accepting := ts_accepting s - 1\<rparr> in
      if alive \<and> \<not> aa_error a
      then case aa_remote a of
             None \<Rightarrow> Inl Exception_thrown
           | Some e \<Rightarrow>
               rbind (handle_accept (aa_handler a) (aa_local a) (aa_reaction a)
                        (Connection_accepted (Endpoint_of_tcp e 0))) (\<lambda>c.
                 Inr (accept_next (s\<lparr>ts_accepted := ts_accepted s @ [c]\<rparr>)))
      else Inr s)"

section \<open>Events\<close>

datatype socket_event =
    Accept_completes accept_answer
  | User_listens bool listen_answers
  | User_connects bool socket_answers endpoint
  | User_stops

fun socket_enabled :: "socket_event \<Rightarrow> tcp_socket \<Rightarrow> bool" where
  "socket_enabled (Accept_completes a) s = (0 < ts_accepting s \<and> (\<not> ts_acceptor_open s \<longrightarrow> aa_error a))"
| "socket_enabled _ s = True"

fun socket_handle :: "socket_event \<Rightarrow> tcp_socket \<Rightarrow> tcp_socket res" where
  "socket_handle (Accept_completes a) s = on_accept True a s"
| "socket_handle (User_listens handler a) s = rbind (listen handler a s) (\<lambda>(_, s). Inr s)"
| "socket_handle (User_connects handler a e) s = rbind (Socket_connect handler a e s) (\<lambda>(_, s). Inr s)"
| "socket_handle User_stops s = Inr (stop_listen s)"

inductive socket_run :: "tcp_socket \<Rightarrow> socket_event list \<Rightarrow> tcp_socket \<Rightarrow> bool" where
  nothing: "socket_run s [] s"
| event: "socket_enabled ev s \<Longrightarrow> socket_handle ev s = Inr s1 \<Longrightarrow> socket_run s1 evs s2 \<Longrightarrow>
    socket_run s (ev # evs) s2"

inductive_simps socket_run_simps: "socket_run s [] t" "socket_run s (ev # evs) t"

section \<open>Endpoints stay usable\<close>

definition socket_ok_inv :: "tcp_socket \<Rightarrow> bool" where
  "socket_ok_inv s \<longleftrightarrow> endpoint_ok (ts_local s) \<and> ne_protocol (ts_local s) = tcp"

lemma update_port_tcp:
  assumes "endpoint_ok e" and "ne_protocol e = tcp"
  shows "\<exists>e'. update_port b e = Inr e' \<and> endpoint_ok e' \<and> ne_protocol e' = tcp"
proof -
  have "Endpoint_is_valid e" using assms(2) by (simp add: Endpoint_is_valid_def)
  from Endpoint_set_port_ok [OF assms(1) this, of "asio_port b"] assms(2) show ?thesis
    by (metis update_port_def)
qed

lemma tcp_base:
  assumes "endpoint_ok e" and "ne_protocol e = tcp"
  shows "\<exists>b. get_tcp_base e = Inr b"
  using assms by (auto simp: get_tcp_base_def endpoint_simps endpoint_ok_def split: option.splits)

lemma update_portD:
  assumes "update_port b e = Inr e'" and "endpoint_ok e"
  shows "endpoint_ok e' \<and> ne_protocol e' = ne_protocol e"
  using assms
  by (auto simp: update_port_def Endpoint_set_port_def endpoint_simps endpoint_ok_def
      split: if_splits option.splits)

text \<open>What \<open>listen\<close> does on a closed acceptor, whose local endpoint is a TCP endpoint.\<close>

lemma listen_result:
  assumes "socket_ok_inv s" and "\<not> ts_acceptor_open s" and "sa_local a \<noteq> None"
  shows "\<exists>result s'. listen True a s = Inr (result, s')
    \<and> (result = socket_ok) = (\<not> sa_open_error a \<and> \<not> sa_bind_error a \<and> \<not> la_listen_error a)
    \<and> (result \<noteq> socket_ok \<longrightarrow> result = socket_error)
    \<and> ts_acceptor_open s' = (result = socket_ok)
    \<and> ts_accepting s' = ts_accepting s + (if result = socket_ok then 1 else 0)
    \<and> socket_ok_inv s'"
proof -
  have t: "endpoint_ok (ts_local s)" "ne_protocol (ts_local s) = tcp"
    using assms(1) by (simp_all add: socket_ok_inv_def)
  obtain e where e: "sa_local a = Some e" using assms(3) by blast
  obtain b where b: "get_tcp_base (ts_local s) = Inr b" using tcp_base [OF t] by blast
  obtain l where l: "update_port e (ts_local s) = Inr l" "endpoint_ok l" "ne_protocol l = tcp"
    using update_port_tcp [OF t] by blast
  show ?thesis using assms(2) t b e l
    by (auto simp: listen_def assert_that_def bind_acceptor_def close_acceptor_def accept_next_def
        socket_ok_inv_def Let_def)
qed

section \<open>A failed accept\<close>

text \<open>With an open acceptor and no accept under way, nothing but closing the acceptor changes the connections.\<close>

definition deaf :: "tcp_socket \<Rightarrow> bool" where
  "deaf s \<longleftrightarrow> ts_acceptor_open s \<and> ts_accepting s = 0"

lemma deaf_event:
  assumes "deaf s" and "socket_enabled ev s" and "socket_handle ev s = Inr s'" and "ev \<noteq> User_stops"
  shows "deaf s' \<and> ts_accepted s' = ts_accepted s"
  using assms
  by (cases ev) (auto simp: deaf_def listen_def assert_that_def Socket_connect_def rbind_eq_Inr
      split: if_splits prod.splits)

lemma deaf_run:
  assumes "socket_run s evs s'" and "deaf s" and "User_stops \<notin> set evs"
  shows "deaf s' \<and> ts_accepted s' = ts_accepted s"
  using assms
proof (induction rule: socket_run.induct)
  case (event ev s s1 evs s2)
  with deaf_event [of s ev s1] show ?case by auto
qed simp

lemma failed_accept_is_deaf:
  assumes "ts_acceptor_open s" and "ts_accepting s = 1" and "aa_error a"
  shows "\<exists>s'. on_accept True a s = Inr s' \<and> deaf s'"
  using assms by (simp add: on_accept_def deaf_def)

section \<open>At most one accept\<close>

lemma accepting_step:
  assumes "ts_accepting s \<le> 1" and "ts_acceptor_open s \<or> ts_accepting s = 0"
    and "socket_enabled ev s" and "socket_handle ev s = Inr s'" and "ev \<noteq> User_stops"
  shows "ts_accepting s' \<le> 1 \<and> (ts_acceptor_open s' \<or> ts_accepting s' = 0)"
  using assms
  by (cases ev) (auto simp: listen_def assert_that_def bind_acceptor_def close_acceptor_def accept_next_def
      Socket_connect_def on_accept_def Let_def rbind_eq_Inr split: if_splits prod.splits option.splits)

end
