(* ===== verification/Network_Properties.thy ===== *)
theory Network_Properties
  imports Tcp_Socket
begin

text \<open>
  The properties of the network layer: what its endpoints keep and how they compare, the contract of the
  calls it makes, and what happens to the listening socket when an accept fails.
\<close>

section \<open>Endpoints\<close>

text \<open>
  An endpoint built from the bytes of an address is valid and gives back protocol, port, scope and the
  bytes; asking for the bytes of the other version throws, and writing and reading its port agree. Only TCP
  with a multicast address is refused.
\<close>

theorem endpoint_reads_back:
  assumes "protocol \<noteq> none" and "ip_ok a"
  shows "if protocol = tcp \<and> ip_is_multicast a
    then \<exists>e. Endpoint_of_range protocol (ip_bytes a) p (ip_scope a) = Inr e \<and> \<not> Endpoint_is_valid e
    else \<exists>e e'. Endpoint_of_range protocol (ip_bytes a) p (ip_scope a) = Inr e \<and> Endpoint_is_valid e
      \<and> ne_protocol e = protocol \<and> Endpoint_port e = Inr p \<and> Endpoint_scope_id e = Inr (ip_scope a)
      \<and> Endpoint_address_v4 e = (if ip_is_v4 a then Inr (ip_bytes a) else Inl Bad_cast)
      \<and> Endpoint_address_v6 e = (if ip_is_v6 a then Inr (ip_bytes a) else Inl Bad_cast)
      \<and> Endpoint_set_port q e = Inr e' \<and> Endpoint_port e' = Inr q \<and> Endpoint_address_v4 e' = Endpoint_address_v4 e"
proof (cases "protocol = tcp \<and> ip_is_multicast a")
  case True
  then show ?thesis using assms
    by (cases a) (auto simp: Endpoint_of_range_def Let_def init_ip_range_def init_ip_endpoint_def ip_bytes_def
        ip_scope_def ip_ok_def v4_of_v4_bytes endpoint_simps)
next
  case False
  let ?e = "\<lparr>ne_protocol = protocol, ne_base = Some (Asio_endpoint a p)\<rparr>"
  have "Endpoint_of_range protocol (ip_bytes a) p (ip_scope a) = Inr ?e"
    using False assms usable_cases [of "\<lparr>ne_protocol = protocol, ne_base = None\<rparr>"] init_ip_range_reads [of protocol a p]
    by (auto simp: Endpoint_of_range_def Let_def endpoint_simps)
  moreover have "Endpoint_set_port q ?e = Inr (?e\<lparr>ne_base := Some (Asio_endpoint a q)\<rparr>)"
    using assms(1) by (cases protocol) (simp_all add: Endpoint_set_port_def endpoint_simps)
  moreover have "Endpoint_is_valid ?e \<and> Endpoint_port ?e = Inr p \<and> Endpoint_scope_id ?e = Inr (ip_scope a)
      \<and> Endpoint_address_v4 ?e = (if ip_is_v4 a then Inr (ip_bytes a) else Inl Bad_cast)
      \<and> Endpoint_address_v6 ?e = (if ip_is_v6 a then Inr (ip_bytes a) else Inl Bad_cast)
      \<and> Endpoint_port (?e\<lparr>ne_base := Some (Asio_endpoint a q)\<rparr>) = Inr q
      \<and> Endpoint_address_v4 (?e\<lparr>ne_base := Some (Asio_endpoint a q)\<rparr>) = Endpoint_address_v4 ?e"
    using assms(1)
    by (cases protocol; cases a) (simp_all add: Endpoint_port_def Endpoint_scope_id_def Endpoint_is_v6_def
        Endpoint_address_v4_def Endpoint_address_v6_def ip_bytes_def ip_scope_def endpoint_simps)
  ultimately show ?thesis using False by (simp del: endpoint.update_convs) force
qed

theorem endpoint_reads_back_witness:
  "if udp = tcp \<and> ip_is_multicast (V4 0x7F000001)
    then \<exists>e. Endpoint_of_range udp (ip_bytes (V4 0x7F000001)) 9549 (ip_scope (V4 0x7F000001)) = Inr e \<and> \<not> Endpoint_is_valid e
    else \<exists>e e'. Endpoint_of_range udp (ip_bytes (V4 0x7F000001)) 9549 (ip_scope (V4 0x7F000001)) = Inr e \<and> Endpoint_is_valid e
      \<and> ne_protocol e = udp \<and> Endpoint_port e = Inr 9549 \<and> Endpoint_scope_id e = Inr (ip_scope (V4 0x7F000001))
      \<and> Endpoint_address_v4 e = (if ip_is_v4 (V4 0x7F000001) then Inr (ip_bytes (V4 0x7F000001)) else Inl Bad_cast)
      \<and> Endpoint_address_v6 e = (if ip_is_v6 (V4 0x7F000001) then Inr (ip_bytes (V4 0x7F000001)) else Inl Bad_cast)
      \<and> Endpoint_set_port 80 e = Inr e' \<and> Endpoint_port e' = Inr 80 \<and> Endpoint_address_v4 e' = Endpoint_address_v4 e"
  by (rule endpoint_reads_back) simp_all

text \<open>
  The comparisons of endpoints never fault on well formed endpoints; \<open>==\<close> is an equality of the valid
  ones, and \<open>operator<\<close> a strict weak order in which two endpoints are equivalent exactly when they are equal or
  both invalid, with every valid endpoint before the invalid ones, TCP before UDP.
\<close>

theorem endpoint_order:
  assumes "endpoint_ok a" and "endpoint_ok b" and "endpoint_ok c"
  shows "is_ok_res (Endpoint_less a b) \<and> is_ok_res (Endpoint_eq a b)
    \<and> Endpoint_less a a = Inr False \<and> Endpoint_eq a a = Inr (Endpoint_is_valid a)
    \<and> (Endpoint_less a b = Inr True \<and> Endpoint_less b c = Inr True \<longrightarrow> Endpoint_less a c = Inr True)
    \<and> (Endpoint_less a b = Inr False \<and> Endpoint_less b a = Inr False \<longleftrightarrow>
         Endpoint_eq a b = Inr True \<or> \<not> Endpoint_is_valid a \<and> \<not> Endpoint_is_valid b)
    \<and> (Endpoint_is_valid a \<and> \<not> Endpoint_is_valid b \<longrightarrow> Endpoint_less a b = Inr True)
    \<and> (Endpoint_is_tcp a \<and> Endpoint_is_udp b \<longrightarrow> Endpoint_less a b = Inr True)"
proof -
  have base: "ne_base x = ne_base y \<longleftrightarrow> the (ne_base x) = the (ne_base y)"
    if "endpoint_ok x" "endpoint_ok y" "ne_protocol x \<noteq> none" "ne_protocol y \<noteq> none" for x y
    using that by (auto simp: endpoint_ok_def split: option.splits)
  have "Endpoint_less a b = Inr False \<and> Endpoint_less b a = Inr False \<longleftrightarrow>
      Endpoint_eq a b = Inr True \<or> \<not> Endpoint_is_valid a \<and> \<not> Endpoint_is_valid b"
    using base [OF assms(1,2)] unfolding Endpoint_compare [OF assms(1,2)] Endpoint_compare [OF assms(2,1)]
      Endpoint_is_valid_def
    by (cases "protocol_number (ne_protocol a)" "protocol_number (ne_protocol b)" rule: linorder_cases)
      (auto simp: protocol_number_inj)
  moreover have "Endpoint_is_valid a \<and> \<not> Endpoint_is_valid b \<longrightarrow> Endpoint_less a b = Inr True"
    "Endpoint_is_tcp a \<and> Endpoint_is_udp b \<longrightarrow> Endpoint_less a b = Inr True"
    unfolding Endpoint_compare [OF assms(1,2)] Endpoint_is_valid_def Endpoint_is_tcp_def Endpoint_is_udp_def
    by (cases "ne_protocol a"; simp add: protocol_number_def)+
  moreover have "Endpoint_less a b = Inr True \<and> Endpoint_less b c = Inr True \<longrightarrow> Endpoint_less a c = Inr True"
    unfolding Endpoint_compare(2) [OF assms(1,2)] Endpoint_compare(2) [OF assms(2,3)]
      Endpoint_compare(2) [OF assms(1,3)] by auto
  ultimately show ?thesis by (simp add: Endpoint_compare assms Endpoint_is_valid_def)
qed

theorem endpoint_order_witness:
  "is_ok_res (Endpoint_less (Endpoint_of_udp (Asio_endpoint (V4 1) 80) 0) Endpoint_default)
    \<and> is_ok_res (Endpoint_eq (Endpoint_of_udp (Asio_endpoint (V4 1) 80) 0) Endpoint_default)"
  using endpoint_order [of "Endpoint_of_udp (Asio_endpoint (V4 1) 80) 0" Endpoint_default Endpoint_default]
  by (simp add: endpoint_ok_def Endpoint_default_def Endpoint_of_udp_def with_scope_def)

section \<open>Connections\<close>

text \<open>
  C9: The handler of a connection is called as its contract says, whatever asio answers and whatever the
  handler does with the connection: first that the connection is up or declined, then for every receipt
  with at least one byte, at last once that it was closed or aborted, and never again. While the object lives
  exactly the awaited completion is under way, so an established connection always receives; once it is
  gone its socket is closed and its handler is not called. A completion faults only when asking how many
  bytes wait throws.
\<close>

theorem handler_calls_keep_contract:
  assumes "connection_run c"
  shows "(\<exists>ph. calls_phase Opening (tn_calls c) = Some ph
      \<and> (living c \<longrightarrow> tn_connecting c = (ph = Opening) \<and> tn_receiving c = (ph = Established)))
    \<and> (\<not> living c \<longrightarrow> \<not> tn_open c \<and>
         (\<forall>ev c'. connection_step c ev c' \<longrightarrow> \<not> living c' \<and> tn_calls c' = tn_calls c))
    \<and> (\<forall>ev e. connection_enabled ev c \<and> connection_handle ev c = Inl e \<longrightarrow> e = Exception_thrown \<and>
         (\<exists>a r. ev = Receive_completes a r \<and> ra_error a = None \<and> ra_available a = None))"
proof (intro conjI)
  note contract = contract_run [OF assms]
  from contract obtain ph where ph: "tn_handler c" "calls_phase Opening (tn_calls c) = Some ph"
    "living c \<Longrightarrow> (ph = Opening) = tn_connecting c" "living c \<Longrightarrow> (ph = Established) = tn_receiving c"
    "\<not> living c \<Longrightarrow> \<not> tn_open c" by (elim contractE) blast
  then show "\<exists>ph. calls_phase Opening (tn_calls c) = Some ph \<and>
      (living c \<longrightarrow> tn_connecting c = (ph = Opening) \<and> tn_receiving c = (ph = Established))"
    by auto
  show "\<not> living c \<longrightarrow> \<not> tn_open c \<and> (\<forall>ev c'. connection_step c ev c' \<longrightarrow> \<not> living c' \<and> tn_calls c' = tn_calls c)"
    using ph(5) dead_step [of c] by blast
  show "\<forall>ev e. connection_enabled ev c \<and> connection_handle ev c = Inl e \<longrightarrow> e = Exception_thrown \<and>
         (\<exists>a r. ev = Receive_completes a r \<and> ra_error a = None \<and> ra_available a = None)"
    using handle_faults [OF ph(1)] by blast
qed

definition example_peer :: endpoint where
  "example_peer = Endpoint_of_tcp (Asio_endpoint (V4 0x7F000001) 50000) 0"

definition quiet :: reaction where
  "quiet = \<lparr>re_releases = False, re_transmits = []\<rparr>"

definition example_connection :: tcp_connection where
  "example_connection = (Connection_accepted example_peer)
     \<lparr>tn_handler := True, tn_local := Endpoint_of_tcp (Asio_endpoint (V4 0x7F000001) 9549) 0, tn_receiving := True,
      tn_calls := [(connection_ok, None)]\<rparr>"

theorem handler_calls_keep_contract_witness:
  "\<exists>ph. calls_phase Opening (tn_calls example_connection) = Some ph"
proof -
  have "handle_accept True (Some (Asio_endpoint (V4 0x7F000001) 9549)) quiet (Connection_accepted example_peer) =
      Inr example_connection"
    by (simp add: handle_accept_def assert_that_def call_handler_def quiet_def receive_def let_go_def living_def
        example_connection_def Connection_accepted_def)
  then have "connection_run example_connection"
    by (intro connection_run.start connection_start.incoming)
  from handler_calls_keep_contract [OF this] show ?thesis by blast
qed

section \<open>The listening socket\<close>

text \<open>
  C15: When one accept fails, the socket stays open and never accepts again: after the failure of the only
  accept under way every later sequence of events that does not stop listening leaves the connections as they
  were, and a new call of \<open>listen\<close> is refused.
\<close>

theorem failed_accept_stops_accepting:
  assumes "ts_acceptor_open s" and "ts_accepting s = 1" and "aa_error a" and "socket_enabled (Accept_completes a) s"
  shows "\<exists>s1. socket_handle (Accept_completes a) s = Inr s1 \<and>
    (\<forall>evs s2. socket_run s1 evs s2 \<and> User_stops \<notin> set evs \<longrightarrow>
       ts_accepted s2 = ts_accepted s \<and> ts_acceptor_open s2 \<and> ts_accepting s2 = 0 \<and>
       (\<forall>answers. listen True answers s2 = Inr (socket_error, s2)))"
proof -
  let ?s1 = "s\<lparr>ts_accepting := 0\<rparr>"
  have "socket_handle (Accept_completes a) s = Inr ?s1"
    using assms by (simp add: on_accept_def)
  moreover have "deaf ?s1" using assms by (simp add: deaf_def)
  then have "deaf s2 \<and> ts_accepted s2 = ts_accepted s"
    if "socket_run ?s1 evs s2" "User_stops \<notin> set evs" for evs s2
    using deaf_run [OF that(1)] that(2) by simp
  ultimately show ?thesis
    by (intro exI [of _ ?s1] conjI allI impI) (auto simp: deaf_def listen_def assert_that_def)
qed

definition listening_socket :: tcp_socket where
  "listening_socket = (Socket_new example_peer)\<lparr>ts_acceptor_open := True, ts_accepting := 1\<rparr>"

definition failed_accept :: accept_answer where
  "failed_accept = \<lparr>aa_error = True, aa_remote = None, aa_handler = True, aa_local = None, aa_reaction = quiet\<rparr>"

theorem failed_accept_stops_accepting_witness:
  "\<exists>s1. socket_handle (Accept_completes failed_accept) listening_socket = Inr s1 \<and>
    (\<forall>evs s2. socket_run s1 evs s2 \<and> User_stops \<notin> set evs \<longrightarrow>
       ts_accepted s2 = ts_accepted listening_socket \<and> ts_acceptor_open s2 \<and> ts_accepting s2 = 0 \<and>
       (\<forall>answers. listen True answers s2 = Inr (socket_error, s2)))"
  by (rule failed_accept_stops_accepting) (simp_all add: listening_socket_def failed_accept_def)

end
