(* ===== verification/System_Executor.thy ===== *)
theory System_Executor
  imports Connection_User
begin

text \<open>
  The system executor of asio, to which the connections post their transmissions: the queue of its scheduler
  is first-in first-out, and a fixed number of threads takes from it (\<open>asio/impl/system_context.ipp\<close> and
  \<open>asio/detail/impl/scheduler.ipp\<close>). A schedule says which thread moves next; the lemmas characterise the
  orders in which waiting transmissions can leave.
\<close>

section \<open>The pool of threads\<close>

definition system_context_threads :: "nat \<Rightarrow> nat" where
  "system_context_threads hardware_concurrency =
     (let num_threads = hardware_concurrency * 2 in if num_threads \<noteq> 0 then num_threads else 2)"

text \<open>A free thread takes the front of the queue, or the \<open>k\<close>-th of the functions that run sends its payload.\<close>

datatype thread_move = Takes | Sends nat

fun executor_runs :: "nat \<Rightarrow> thread_move list \<Rightarrow> tcp_connection \<Rightarrow> tcp_connection option" where
  "executor_runs threads [] c = Some c"
| "executor_runs threads (Takes # moves) c =
     (if tn_posted c \<noteq> [] \<and> List.length (tn_running c) < threads then executor_runs threads moves (post_taken c)
      else None)"
| "executor_runs threads (Sends k # moves) c =
     (if k < List.length (tn_running c) then executor_runs threads moves (on_posted k c) else None)"

lemma system_context_threads_ge: "2 \<le> system_context_threads hardware_concurrency"
  by (simp add: system_context_threads_def Let_def)

text \<open>What the threads do are steps of the connection.\<close>

lemma executor_runs_steps:
  "executor_runs threads moves c = Some c' \<Longrightarrow> connection_run c \<Longrightarrow> connection_run c'"
proof (induction threads moves c rule: executor_runs.induct)
  case (2 threads moves c)
  then have "connection_step c Post_taken (post_taken c)" by (simp add: connection_step_simps split: if_splits)
  with 2 show ?case by (auto intro: connection_run.more split: if_splits)
next
  case (3 threads k moves c)
  then have "connection_step c (Post_runs k) (on_posted k c)" by (simp add: connection_step_simps split: if_splits)
  with 3 show ?case by (auto intro: connection_run.more split: if_splits)
qed simp

section \<open>The orders of the transmissions\<close>

text \<open>
  The transmissions that wait are numbered in the order of the queue. An order of them is possible with a
  number of threads when none leaves before all but fewer than \<open>threads\<close> of its predecessors have left.
\<close>

definition possible_order :: "nat \<Rightarrow> nat \<Rightarrow> nat list \<Rightarrow> bool" where
  "possible_order threads s order \<longleftrightarrow> (\<forall>k < List.length order. order ! k < s + k + threads)"

lemma possible_order_simps [simp]:
  "possible_order threads s []"
  "possible_order threads s (i # order) \<longleftrightarrow> i < s + threads \<and> possible_order threads (Suc s) order"
  by (simp_all add: possible_order_def All_less_Suc2)

lemma possible_order_id: "possible_order 1 0 [0 ..< n]"
  by (simp add: possible_order_def)

text \<open>One thread keeps the order.\<close>

lemma possible_order_one:
  assumes "mset order = mset [0 ..< n]" and "possible_order 1 0 order"
  shows "order = [0 ..< n]"
proof (rule nth_equalityI)
  show len: "List.length order = List.length [0 ..< n]" using assms(1) by (rule mset_eq_length)
  have d: "distinct order" using assms(1) by (metis distinct_upt mset_eq_imp_distinct_iff)
  show "order ! k = [0 ..< n] ! k" if "k < List.length order" for k
    using that
  proof (induction k rule: less_induct)
    case (less k)
    have "order ! k \<le> k" using less(2) assms(2) by (auto simp: possible_order_def)
    moreover have "order ! k \<noteq> j" if "j < k" for j
    proof -
      have "order ! j = j" using less(1) [OF that] less(2) that len by simp
      then show ?thesis using d less(2) that nth_eq_iff_index_eq [OF d, of j k] by simp
    qed
    ultimately have "order ! k = k" using nat_less_le by blast
    then show ?case using less(2) len by simp
  qed
qed

text \<open>
  Of the transmissions \<open>xs\<close> the threads have taken the first \<open>s + List.length rs\<close> and sent \<open>s\<close>; the numbers of
  the others, which run, are \<open>rs\<close>.
\<close>

definition at_work :: "bytes list \<Rightarrow> nat \<Rightarrow> nat list \<Rightarrow> tcp_connection \<Rightarrow> bool" where
  "at_work xs s rs c \<longleftrightarrow> tn_posted c = drop (s + List.length rs) xs \<and> tn_running c = map ((!) xs) rs
     \<and> s + List.length rs \<le> List.length xs \<and> (\<forall>i \<in> set rs. i < s + List.length rs)"

lemma at_work_taken:
  assumes "at_work xs s rs c" and "tn_posted c \<noteq> []"
  shows "at_work xs s (rs @ [s + List.length rs]) (post_taken c)" "s + List.length rs < List.length xs"
proof -
  show less: "s + List.length rs < List.length xs" using assms by (simp add: at_work_def)
  with assms(1) have p: "tn_posted c = xs ! (s + List.length rs) # drop (Suc (s + List.length rs)) xs"
    by (simp add: at_work_def Cons_nth_drop_Suc)
  from assms(1) less show "at_work xs s (rs @ [s + List.length rs]) (post_taken c)"
    unfolding at_work_def post_taken_eq(1) [OF p] by auto
qed

lemma at_work_sent:
  assumes "at_work xs s rs c" and "k < List.length rs"
  shows "at_work xs (Suc s) (take k rs @ drop (Suc k) rs) (on_posted k c)"
    "tn_sent (on_posted k c) = tn_sent c @ [xs ! (rs ! k)]"
proof -
  have len: "Suc s + List.length (take k rs @ drop (Suc k) rs) = s + List.length rs" using assms(2) by simp
  from assms show "at_work xs (Suc s) (take k rs @ drop (Suc k) rs) (on_posted k c)"
    unfolding at_work_def len
    by (auto simp: on_posted_def take_map drop_map let_go_def Connection_close_def dest: in_set_takeD in_set_dropD)
  from assms show "tn_sent (on_posted k c) = tn_sent c @ [xs ! (rs ! k)]"
    by (simp add: at_work_def on_posted_def let_go_def Connection_close_def)
qed

lemma orders_of_runs:
  assumes "executor_runs threads moves c = Some c'" and "tn_posted c' = []" and "tn_running c' = []"
    and "at_work xs s rs c" and "List.length rs \<le> threads"
  shows "\<exists>order. mset order = mset rs + mset [s + List.length rs ..< List.length xs]
    \<and> possible_order threads s order \<and> tn_sent c' = tn_sent c @ map ((!) xs) order"
  using assms
proof (induction threads moves c arbitrary: s rs rule: executor_runs.induct)
  case (1 threads c)
  then show ?case by (auto simp: at_work_def intro!: exI [of _ "[]"])
next
  case (2 threads moves c)
  then have t: "tn_posted c \<noteq> []" "List.length rs < threads" by (auto simp: at_work_def split: if_splits)
  note w = at_work_taken [OF 2(5) t(1)]
  from 2 t w(1) obtain order where "mset order = mset (rs @ [s + List.length rs])
      + mset [s + List.length (rs @ [s + List.length rs]) ..< List.length xs]"
    "possible_order threads s order" "tn_sent c' = tn_sent c @ map ((!) xs) order"
    by (fastforce split: if_splits)
  with w(2) show ?case by (intro exI [of _ order]) (simp add: upt_conv_Cons)
next
  case (3 threads k moves c)
  then have k: "k < List.length rs" by (auto simp: at_work_def split: if_splits)
  let ?rs = "take k rs @ drop (Suc k) rs"
  note w = at_work_sent [OF 3(5) k]
  have len: "Suc s + List.length ?rs = s + List.length rs" using k by simp
  have "executor_runs threads moves (on_posted k c) = Some c'" "List.length ?rs \<le> threads"
    using 3(2,6) by (auto split: if_splits)
  from 3(1) [OF _ this(1) 3(3,4) w(1) this(2)] 3(2) obtain order
    where o: "mset order = mset ?rs + mset [s + List.length rs ..< List.length xs]"
      "possible_order threads (Suc s) order" "tn_sent c' = tn_sent (on_posted k c) @ map ((!) xs) order"
    unfolding len by (auto split: if_splits)
  have "rs ! k < s + List.length rs" using 3(5) nth_mem [OF k] by (simp add: at_work_def)
  then have "rs ! k < s + threads" using 3(6) by simp
  with o w(2) mset_without [OF k] show ?case by (intro exI [of _ "rs ! k # order"]) simp
qed

lemma threads_take:
  assumes "at_work xs s rs c"
  shows "s + List.length rs + d \<le> List.length xs \<Longrightarrow> List.length rs + d \<le> threads \<Longrightarrow>
    \<exists>c'. (\<forall>moves. executor_runs threads (replicate d Takes @ moves) c = executor_runs threads moves c')
      \<and> at_work xs s (rs @ [s + List.length rs ..< s + List.length rs + d]) c' \<and> tn_sent c' = tn_sent c"
proof (induction d)
  case 0
  then show ?case using assms by (intro exI [of _ c]) simp
next
  case (Suc d)
  then obtain c' where c': "\<And>moves. executor_runs threads (replicate d Takes @ moves) c = executor_runs threads moves c'"
    "at_work xs s (rs @ [s + List.length rs ..< s + List.length rs + d]) c'" "tn_sent c' = tn_sent c" by auto
  have more: "tn_posted c' \<noteq> []" "List.length (tn_running c') < threads" using c'(2) Suc.prems by (auto simp: at_work_def)
  have "executor_runs threads (replicate (Suc d) Takes @ moves) c = executor_runs threads moves (post_taken c')" for moves
    using c'(1) [of "Takes # moves"] more by (simp add: replicate_app_Cons_same)
  with at_work_taken(1) [OF c'(2) more(1)] c'(3) show ?case
    by (intro exI [of _ "post_taken c'"] conjI) (simp_all add: add.assoc del: replicate_Suc)
qed

lemma runs_of_orders:
  assumes "mset order = mset rs + mset [s + List.length rs ..< List.length xs]" and "possible_order threads s order"
    and "at_work xs s rs c" and "List.length rs \<le> threads"
  shows "\<exists>moves c'. executor_runs threads moves c = Some c' \<and> tn_posted c' = [] \<and> tn_running c' = []
    \<and> tn_sent c' = tn_sent c @ map ((!) xs) order"
  using assms
proof (induction order arbitrary: s rs c)
  case Nil
  then have "mset (rs @ [s + List.length rs ..< List.length xs]) = {#}" by (simp only: mset_append mset.simps(1))
  then have "rs @ [s + List.length rs ..< List.length xs] = []" by (simp only: mset_zero_iff)
  then have "rs = []" "List.length xs \<le> s" by auto
  with Nil show ?case by (intro exI [of _ "[]"]) (simp add: at_work_def)
next
  case (Cons i order)
  let ?n = "s + List.length rs" and ?d = "Suc i - (s + List.length rs)"
  have i: "i \<in> set rs \<or> ?n \<le> i \<and> i < List.length xs"
    using Cons.prems(1) [THEN arg_cong [of _ _ set_mset]] by auto
  have small: "i < s + threads" using Cons.prems(2) by simp
  have le: "?n + ?d \<le> List.length xs" using i Cons.prems(3) by (auto simp: at_work_def)
  have "List.length rs + ?d \<le> threads" using small Cons.prems(4) by simp
  from threads_take [OF Cons.prems(3) le this] obtain c1 where
    c1: "\<And>moves. executor_runs threads (replicate ?d Takes @ moves) c = executor_runs threads moves c1"
      "at_work xs s (rs @ [?n ..< ?n + ?d]) c1" "tn_sent c1 = tn_sent c" by blast
  let ?rs = "rs @ [?n ..< ?n + ?d]"
  have "i \<in> set ?rs" using i by auto
  then obtain k where k: "k < List.length ?rs" "?rs ! k = i" by (auto simp only: in_set_conv_nth)
  let ?rs' = "take k ?rs @ drop (Suc k) ?rs"
  note w = at_work_sent [OF c1(2) k(1)]
  have len: "Suc s + List.length ?rs' = ?n + ?d" using k(1) by simp
  have split: "[?n ..< List.length xs] = [?n ..< ?n + ?d] @ [?n + ?d ..< List.length xs]"
    using upt_add_eq_append [of ?n "?n + ?d" "List.length xs - (?n + ?d)"] le by simp
  have "mset (i # order) = mset ?rs + mset [?n + ?d ..< List.length xs]"
    using Cons.prems(1) by (simp only: split mset_append add.assoc)
  also have "mset ?rs = add_mset i (mset ?rs')" using mset_without [OF k(1)] by (simp only: k(2))
  finally have "mset order = mset ?rs' + mset [Suc s + List.length ?rs' ..< List.length xs]"
    unfolding len by (simp only: mset.simps union_mset_add_mset_left add_mset_add_mset_same_iff)
  moreover have "List.length ?rs' \<le> threads" using k(1) small Cons.prems(4) by simp
  ultimately obtain moves c' where m: "executor_runs threads moves (on_posted k c1) = Some c'"
    "tn_posted c' = []" "tn_running c' = []" "tn_sent c' = tn_sent (on_posted k c1) @ map ((!) xs) order"
    using Cons.IH [OF _ _ w(1)] Cons.prems(2) by auto
  have "List.length (tn_running c1) = List.length ?rs" using c1(2) by (simp add: at_work_def)
  with m(1) k(1) c1(1) [of "Sends k # moves"]
  have "executor_runs threads (replicate ?d Takes @ Sends k # moves) c = Some c'" by simp
  with m w(2) k(2) c1(3) show ?case by (intro exI [of _ "replicate ?d Takes @ Sends k # moves"] exI [of _ c']) simp
qed

end
