(* ===== verification/Network_Component.thy ===== *)
theory Network_Component
  imports Tcp_Socket
begin

text \<open>
  The network component (\<open>src/src/network/create_component.cpp\<close>, \<open>component_impl.hpp\<close>, \<open>socket_factory.hpp\<close>,
  \<open>socket_factory_impl.hpp\<close>): the factory that makes sockets for endpoints. It keeps nothing but the event loop,
  so its state is whether it has one. \<open>None\<close> is the null pointer.
\<close>

section \<open>Operations\<close>

record network_component =
  nc_io_context :: bool

definition create_component :: "bool \<Rightarrow> network_component res" where
  "create_component io_context = assert_that io_context (Inr \<lparr>nc_io_context = io_context\<rparr>)"

definition create_socket_impl :: "endpoint \<Rightarrow> tcp_socket option" where
  "create_socket_impl local_endpoint =
     (if ne_protocol local_endpoint = udp then None
      else if ne_protocol local_endpoint = tcp then Some (Socket_new local_endpoint)
      else None)"

definition create_socket :: "endpoint \<Rightarrow> tcp_socket option res" where
  "create_socket local_endpoint =
     assert_that (Endpoint_is_valid local_endpoint)
       (rbind (Endpoint_is_multicast local_endpoint) (\<lambda>multicast.
          assert_that (\<not> multicast) (Inr (create_socket_impl local_endpoint))))"

section \<open>What the factory makes\<close>

text \<open>
  A socket for every well formed TCP endpoint, in a usable state; a null pointer for a UDP endpoint; a failed
  assertion for an invalid one or a multicast address.
\<close>

lemma create_socket_cases:
  assumes "endpoint_ok e"
  shows "create_socket e =
    (if \<not> Endpoint_is_valid e \<or> Endpoint_is_multicast e = Inr True then Inl Assert_failed
     else Inr (if Endpoint_is_tcp e then Some (Socket_new e) else None))"
proof (cases "Endpoint_is_valid e")
  case True
  then obtain b where "ne_base e = Some b" using assms by (auto simp: endpoint_ok_def Endpoint_is_valid_def split: option.splits)
  with True show ?thesis
    by (auto simp: create_socket_def create_socket_impl_def assert_that_def Endpoint_is_multicast_def
        call_on_base_address_def base_of_def Endpoint_is_tcp_def Endpoint_is_valid_def split: transport_protocol.splits)
next
  case False
  then show ?thesis by (simp add: create_socket_def assert_that_def)
qed

lemma create_socket_ok: "create_socket e = Inr (Some s) \<Longrightarrow> s = Socket_new e \<and> ne_protocol e = tcp"
  by (auto simp: create_socket_def create_socket_impl_def assert_that_def rbind_eq_Inr split: if_splits)

lemma create_socket_inv:
  "create_socket e = Inr (Some s) \<Longrightarrow> endpoint_ok e \<Longrightarrow> socket_ok_inv s \<and> \<not> ts_acceptor_open s \<and> ts_accepting s = 0"
  by (drule create_socket_ok) (simp add: socket_ok_inv_def Socket_new_def)

end
