(* ===== verification/Networked_Server.thy ===== *)
theory Networked_Server
  imports Server_Links Server_Runs Network_Component
begin

text \<open>
  The server on the network: the state of the server with its listening socket and the TCP connections of
  its peers. A completion of a connection calls the handler of its user, which is a handler of the
  server; what this handler does to any connection is what \<open>Server_Links\<close> calls the user's part. The events of
  \<open>Server\<close> are what the network and the timers make the server see.

  \<open>to_string\<close> is asio's way to write an address. The number of a new miner connection is one without a link.
\<close>

section \<open>The composition\<close>

record network_server =
  ns_world :: world
  ns_socket :: tcp_socket
  ns_links :: "peer \<Rightarrow> tcp_connection option"

definition reaction_to :: "world \<Rightarrow> world \<Rightarrow> peer \<Rightarrow> reaction" where
  "reaction_to w w' q = react (holds w' q) (frames_to w q) (frames_to w' q)"

text \<open>What a handler did to the other connections, those outside \<open>qs\<close>.\<close>

definition deliver ::
  "peer set \<Rightarrow> world \<Rightarrow> world \<Rightarrow> (peer \<Rightarrow> tcp_connection option) \<Rightarrow> peer \<Rightarrow> tcp_connection option" where
  "deliver qs w w' links = (\<lambda>q. if q \<in> qs then links q else map_option (user_acts (reaction_to w w' q)) (links q))"

definition payload_bytes :: "bytes option \<Rightarrow> bytes" where
  "payload_bytes payload = (case payload of None \<Rightarrow> [] | Some bs \<Rightarrow> bs)"

inductive net_step :: "platform \<Rightarrow> (ip_address \<Rightarrow> string) \<Rightarrow> network_server \<Rightarrow> network_server \<Rightarrow> bool"
  for pf to_string where
  accepts: "socket_enabled (Accept_completes a) (ns_socket s) \<Longrightarrow> ns_links s (Miner i) = None \<Longrightarrow>
    aa_remote a = Some e \<Longrightarrow> Endpoint_address_string to_string (Endpoint_of_tcp e 0) = Inr address \<Longrightarrow>
    step pf (Accept i address uninit) (ns_world s) w' \<Longrightarrow>
    aa_reaction a = reaction_to (ns_world s) w' (Miner i) \<Longrightarrow>
    on_accept True a (ns_socket s) = Inr sock \<Longrightarrow> ts_accepted sock = ts_accepted (ns_socket s) @ [c] \<Longrightarrow>
    net_step pf to_string s \<lparr>ns_world = w', ns_socket = sock,
      ns_links = (deliver {Miner i} (ns_world s) w' (ns_links s))(Miner i \<mapsto> c)\<rparr>"
| accept_fails: "socket_enabled (Accept_completes a) (ns_socket s) \<Longrightarrow> aa_error a \<Longrightarrow>
    on_accept True a (ns_socket s) = Inr sock \<Longrightarrow> net_step pf to_string s (s\<lparr>ns_socket := sock\<rparr>)"
| calls: "ns_links s q = Some c \<Longrightarrow> living c \<Longrightarrow> completes (reaction_to (ns_world s) w' q) c c' \<Longrightarrow>
    tn_calls c' = tn_calls c @ [(result, payload)] \<Longrightarrow>
    handle pf now (peer_event q result (payload_bytes payload)) (ns_world s) = Some (Inr w') \<Longrightarrow>
    net_step pf to_string s (s\<lparr>ns_world := w',
      ns_links := (deliver {q} (ns_world s) w' (ns_links s))(q \<mapsto> c')\<rparr>)"
| late: "ns_links s q = Some c \<Longrightarrow> \<not> living c \<Longrightarrow> completes r c c' \<Longrightarrow>
    net_step pf to_string s (s\<lparr>ns_links := (ns_links s)(q \<mapsto> c')\<rparr>)"
| takes: "ns_links s q = Some c \<Longrightarrow> net_step pf to_string s (s\<lparr>ns_links := (ns_links s)(q \<mapsto> post_taken c)\<rparr>)"
| posts: "ns_links s q = Some c \<Longrightarrow> net_step pf to_string s (s\<lparr>ns_links := (ns_links s)(q \<mapsto> on_posted k c)\<rparr>)"
| serves: "internal ev \<Longrightarrow> step pf ev (ns_world s) w' \<Longrightarrow>
    net_step pf to_string s (s\<lparr>ns_world := w', ns_links := deliver {} (ns_world s) w' (ns_links s)\<rparr>)"

inductive net_reach :: "platform \<Rightarrow> (ip_address \<Rightarrow> string) \<Rightarrow> network_server \<Rightarrow> network_server \<Rightarrow> bool"
  for pf to_string s where
  start: "net_reach pf to_string s s"
| more: "net_reach pf to_string s t \<Longrightarrow> net_step pf to_string t u \<Longrightarrow> net_reach pf to_string s u"

text \<open>
  \<open>Server::run\<close>: the wallet connection is being made, and the socket listens; the result of \<open>listen\<close> is not
  looked at.
\<close>

definition net_start :: "world \<Rightarrow> network_server \<Rightarrow> bool" where
  "net_start w s \<longleftrightarrow> ns_world s = w \<and>
     (\<exists>listen_endpoint s0 a result. create_socket listen_endpoint = Inr (Some s0)
        \<and> listen True a s0 = Inr (result, ns_socket s)) \<and>
     (\<exists>local_ep s0 a remote c sock. create_socket local_ep = Inr (Some s0)
        \<and> Socket_connect True a remote s0 = Inr (Some c, sock) \<and> ns_links s = (\<lambda>_. None)(Wallet \<mapsto> c))"

section \<open>The invariant\<close>

definition net_inv :: "network_server \<Rightarrow> bool" where
  "net_inv s \<longleftrightarrow> links_inv (ns_world s)
     \<and> (\<forall>q. link_ok (holds (ns_world s) q) (frames_to (ns_world s) q) (ns_links s q))
     \<and> (\<forall>i c. ns_links s (Miner i) = Some c \<longrightarrow> tn_calls c \<noteq> [])"

lemma user_acts_calls [simp]: "tn_calls (user_acts r c) = tn_calls c"
  by (simp add: user_acts_def fold_transmit)

lemma net_inv_linked:
  "net_inv s \<Longrightarrow> ns_links s q = Some c \<Longrightarrow> linked (holds (ns_world s) q) (frames_to (ns_world s) q) c"
  unfolding net_inv_def by (metis link_ok.simps(2))

lemma net_inv_start:
  assumes "started pf api fs uninit w" and "net_start w s"
  shows "net_inv s"
proof -
  from assms(2) obtain s0 a remote c sock where w: "ns_world s = w"
    and c: "Socket_connect True a remote s0 = Inr (Some c, sock)"
    and l: "ns_links s = (\<lambda>_. None)(Wallet \<mapsto> c)" by (auto simp: net_start_def)
  from c have "linked True [] c"
    by (auto simp: Socket_connect_def assert_that_def rbind_eq_Inr split: if_splits prod.splits intro: linked_connecting)
  moreover have "\<not> holds w q" if "w_pools w = (\<lambda>_. None)" "q \<noteq> Wallet" for q
    using that by (cases q) (simp_all add: holds_Miner)
  ultimately show ?thesis using started_state [OF assms(1)] l
    by (auto simp: net_inv_def w links_inv_def frames_to_def Daemon_connection_new_def)
qed

text \<open>The laws of the user carry the links over a handler: of \<open>qs\<close> the network layer takes care.\<close>

lemma deliver_ok:
  assumes "net_inv s" and "server_change pf ev (ns_world s) w'" and "\<And>q. concerns ev q \<longleftrightarrow> q \<in> qs" and "q \<notin> qs"
  shows "link_ok (holds w' q) (frames_to w' q) (deliver qs (ns_world s) w' (ns_links s) q)"
proof -
  have "links_inv (ns_world s)" "link_ok (holds (ns_world s) q) (frames_to (ns_world s) q) (ns_links s q)"
    using assms(1) by (simp_all add: net_inv_def)
  moreover have "\<not> concerns ev q" using assms(3,4) by simp
  ultimately show ?thesis using server.other_link_ok [OF _ assms(2)] assms(4) by (simp add: deliver_def reaction_to_def)
qed

lemma deliver_calls:
  assumes "net_inv s" and "deliver qs (ns_world s) w' (ns_links s) (Miner i) = Some c"
  shows "tn_calls c \<noteq> []"
  using assms by (auto simp: deliver_def net_inv_def split: if_splits)

lemma net_inv_changed:
  assumes "net_inv s" and "server_change pf ev (ns_world s) w'" and "\<And>p. concerns ev p \<longleftrightarrow> p = q"
    and "linked (holds w' q) (frames_to w' q) c" and "tn_calls c \<noteq> []"
    and "ns_world s' = w'" and "ns_links s' = (deliver {q} (ns_world s) w' (ns_links s))(q \<mapsto> c)"
  shows "net_inv s'"
proof -
  have "links_inv w'" using assms(1) server.keeps_inv [OF _ assms(2)] by (simp add: net_inv_def)
  moreover have "link_ok (holds w' p) (frames_to w' p) (((deliver {q} (ns_world s) w' (ns_links s))(q \<mapsto> c)) p)" for p
    using assms(3,4) deliver_ok [OF assms(1,2), of "{q}" p] by simp
  moreover have "tn_calls d \<noteq> []" if "((deliver {q} (ns_world s) w' (ns_links s))(q \<mapsto> c)) (Miner i) = Some d" for i d
    using that assms(5) deliver_calls [OF assms(1)] by (auto split: if_splits)
  ultimately show ?thesis by (simp add: net_inv_def assms(6,7))
qed

lemma net_inv_link:
  assumes "net_inv s" and "ns_links s q = Some c" and "linked (holds (ns_world s) q) (frames_to (ns_world s) q) c'"
    and "tn_calls c' = tn_calls c"
  shows "net_inv (s\<lparr>ns_links := (ns_links s)(q \<mapsto> c')\<rparr>)"
  using assms by (auto simp: net_inv_def)

section \<open>Every step of the network is a step of the server\<close>

lemma on_posted_calls [simp]: "tn_calls (on_posted k c) = tn_calls c"
  by (simp add: on_posted_def)

lemma late_calls: "completes r c c' \<Longrightarrow> \<not> living c \<Longrightarrow> tn_calls c' = tn_calls c"
  by (erule completes.cases) (auto simp: on_connect_def on_receive_def)

lemma accepted_link:
  assumes "net_inv s" and "ns_links s (Miner i) = None" and "step pf (Accept i address uninit) (ns_world s) w'"
    and r: "aa_reaction a = reaction_to (ns_world s) w' (Miner i)"
    and sock: "on_accept True a (ns_socket s) = Inr sock" "ts_accepted sock = ts_accepted (ns_socket s) @ [c]"
  shows "linked (holds w' (Miner i)) (frames_to w' (Miner i)) c \<and> tn_calls c \<noteq> []"
proof -
  have ch: "server_change pf (Opened (Miner i)) (ns_world s) w'" using assms(3) by (rule server_change.opened)
  have w: "links_inv (ns_world s)" using assms(1) by (simp add: net_inv_def)
  have "link_ok (holds (ns_world s) (Miner i)) (frames_to (ns_world s) (Miner i)) None"
    using assms(1,2) unfolding net_inv_def by metis
  then have none: "frames_to (ns_world s) (Miner i) = []" by simp
  from sock obtain remote where c: "handle_accept (aa_handler a) (aa_local a) (aa_reaction a)
      (Connection_accepted remote) = Inr c"
    by (auto simp: on_accept_def Let_def rbind_eq_Inr accept_next_def split: if_splits option.splits)
  then have "linked (holds w' (Miner i)) (frames_to w' (Miner i)) c"
    unfolding r reaction_to_def by (rule server.opened_link_ok [OF w ch none])
  moreover have "tn_calls c \<noteq> []"
    using c by (auto simp: handle_accept_def assert_that_def rbind_eq_Inr call_handler_def Let_def fold_transmit
        split: if_splits option.splits)
  ultimately show ?thesis ..
qed

text \<open>The handler the network calls is the handler of an event that is enabled.\<close>

lemma called_enabled:
  assumes "net_inv s" and c: "ns_links s q = Some c" "living c" "completes r c c'"
    and calls: "tn_calls c' = tn_calls c @ [(result, payload)]"
  shows "enabled (peer_event q result buffer) (ns_world s)"
proof -
  from net_inv_linked [OF assms(1) c(1)] have l: "linked (holds (ns_world s) q) (frames_to (ns_world s) q) c" .
  with c linked_awaits(1) [OF l] have h: "holds (ns_world s) q" by (auto elim: completes.cases)
  show ?thesis
  proof (cases q)
    case (Miner i)
    with assms(1) c(1) have first: "tn_calls c \<noteq> []" by (simp add: net_inv_def)
    have "contract c'" using l by (intro completes_contract [OF c(3)]) (simp add: linked_def)
    from later_call [OF this calls first] h Miner show ?thesis by (auto simp: holds_Miner)
  qed (use h in simp)
qed

lemma net_step_sound:
  assumes "net_step pf to_string s s'" and i: "net_inv s"
  shows "net_inv s' \<and> (ns_world s' = ns_world s \<or> (\<exists>ev. step pf ev (ns_world s) (ns_world s')))"
  using assms(1)
proof cases
  case (accepts a i e address uninit w' sock c)
  have "server_change pf (Opened (Miner i)) (ns_world s) w'" using accepts(6) by (rule server_change.opened)
  with accepted_link [OF assms(2) accepts(3,6-9)] have "net_inv s'"
    by (intro net_inv_changed [OF i, where q = "Miner i" and c = c and s' = s']) (auto simp: accepts(1))
  with accepts show ?thesis by auto
next
  case (calls q c w' c' result payload now)
  let ?ev = "peer_event q result (payload_bytes payload)"
  have ch: "server_change pf (Called q result) (ns_world s) w'" using calls(6) by (rule server_change.called)
  have "linked (holds w' q) (frames_to w' q) c'"
    using server.called_link_ok [OF _ ch net_inv_linked [OF i calls(2)] calls(3) _ calls(5)] calls(4) i
    by (simp add: net_inv_def reaction_to_def)
  with ch calls(5) have "net_inv s'"
    by (intro net_inv_changed [OF i, where q = q and c = c' and s' = s']) (auto simp: calls(1))
  moreover have "step pf ?ev (ns_world s) w'"
    using called_enabled [OF i calls(2-5)] calls(6) by (rule step.event)
  ultimately show ?thesis using calls(1) by auto
next
  case (late q c r c')
  with i show ?thesis
    by (simp add: net_inv_link [OF i] linked_late [OF net_inv_linked [OF i]] late_calls)
next
  case (takes q c)
  with i show ?thesis by (simp add: net_inv_link [OF i] linked_taken [OF net_inv_linked [OF i]])
next
  case (posts q c k)
  with i show ?thesis by (simp add: net_inv_link [OF i] linked_posted [OF net_inv_linked [OF i]])
next
  case (serves ev w')
  have ch: "server_change pf Acts (ns_world s) w'" using serves(2,3) by (rule server_change.internal)
  have "net_inv s'"
    using i server.keeps_inv [OF _ ch] deliver_ok [OF i ch, of "{}"] deliver_calls [OF i]
    by (auto simp: serves(1) net_inv_def)
  with serves show ?thesis by auto
qed (use i in \<open>auto simp: net_inv_def\<close>)

lemma net_reach_sound:
  assumes "net_reach pf to_string s s'" and "net_inv s"
  shows "net_inv s' \<and> reach pf (ns_world s) (ns_world s')"
  using assms(1)
proof induction
  case start
  then show ?case using assms(2) by (simp add: reach.start)
next
  case (more t u)
  then show ?case using net_step_sound [OF more(2)] by (metis reach.more)
qed

section \<open>The timers of the wallet connection\<close>

text \<open>Before the handler of the wallet connection is called for the first time no timer of it waits.\<close>

definition timers_idle :: "network_server \<Rightarrow> bool" where
  "timers_idle s \<longleftrightarrow> (\<forall>c. ns_links s Wallet = Some c \<and> tn_calls c = [] \<longrightarrow>
     timers_of (w_daemon (ns_world s)) = (None, None, None, None))"

lemma accept_timers:
  assumes "step pf (Accept i address uninit) w w'"
  shows "timers_of (w_daemon w') = timers_of (w_daemon w)"
  using assms
proof (rule stepE)
  fix now
  assume "enabled (Accept i address uninit) w" and "handle pf now (Accept i address uninit) w = Some (Inr w')"
  with accept_connection_ticks [of uninit now i address w w'] obtain u
    where "micros pf u w'" "w_daemon u = w_daemon w" by auto
  then show ?thesis by (auto dest: micros_timers)
qed

lemma miner_timers:
  assumes "handle pf now (Miner_event i result buffer) w = Some (Inr w')"
  shows "timers_of (w_daemon w') = timers_of (w_daemon w)"
proof -
  have c: "connection_handler pf now i result '''' buffer w = Some (Inr w')" using assms by simp
  show ?thesis
  proof (cases "ends_connection result")
    case True
    with connection_handler_ends [OF c] show ?thesis by auto
  next
    case False
    from micros_timers [OF connection_handler_micros [OF c False]] show ?thesis .
  qed
qed

lemma internal_timers:
  assumes "internal ev" and "step pf ev w w'" and "timers_of (w_daemon w) = (None, None, None, None)"
  shows "timers_of (w_daemon w') = (None, None, None, None)"
  using assms(2)
proof (rule stepE)
  fix now
  assume "enabled ev w" and "handle pf now ev w = Some (Inr w')"
  with assms(1,3) show ?thesis by (cases ev) (auto simp: timers_of_def rbind_eq_Inr)
qed

lemma timers_idle_step:
  assumes "net_step pf to_string s s'" and "timers_idle s"
  shows "timers_idle s'"
  using assms(1)
proof cases
  case (accepts a i e address uninit w' sock c)
  with assms(2) show ?thesis by (auto simp: timers_idle_def deliver_def accept_timers)
next
  case (calls q c w' c' result payload now)
  show ?thesis
  proof (cases q)
    case (Miner i)
    with calls have "handle pf now (Miner_event i result (payload_bytes payload)) (ns_world s) = Some (Inr w')" by simp
    from miner_timers [OF this] Miner calls(1) assms(2) show ?thesis by (auto simp: timers_idle_def deliver_def)
  next
    case Wallet
    with calls(1,5) show ?thesis by (simp add: timers_idle_def)
  qed
next
  case (late q c r c')
  with assms(2) late_calls [OF late(4,3)] show ?thesis by (auto simp: timers_idle_def)
next
  case (serves ev w')
  with assms(2) internal_timers [OF serves(2,3)] show ?thesis by (auto simp: timers_idle_def deliver_def)
qed (use assms(2) in \<open>auto simp: timers_idle_def\<close>)

lemma timers_idle_reach: "net_reach pf to_string s s' \<Longrightarrow> timers_idle s \<Longrightarrow> timers_idle s'"
  by (induction rule: net_reach.induct) (auto intro: timers_idle_step)

lemma timers_idle_start:
  assumes "started pf api fs uninit w" and "net_start w s"
  shows "timers_idle s"
  using started_state [OF assms(1)] assms(2)
  by (auto simp: timers_idle_def net_start_def timers_of_def Daemon_connection_new_def)

end
