(* ===== verification/Networked_Properties.thy ===== *)
theory Networked_Properties
  imports System_Executor Networked_Server Network_Properties
begin

text \<open>
  The properties of the server on the network: the network makes the server see exactly the events of its
  model, and what it hands to a connection leaves in any order.
\<close>

section \<open>The network drives the server\<close>

text \<open>
  C10: Whatever asio answers, and in whatever order completions, transmissions and timers run, the server on
  the network is the server: its state is reachable by events of the server alone, each enabled when the
  network raises it. A connection object is held exactly while the server has its \<open>m_connection\<close>; then it is
  alive and open and awaits its next completion, and afterwards no handler of it is called again. Every
  frame the server gave it has been sent or waits to be sent, once.
\<close>

theorem network_drives_server:
  assumes "started pf api fs uninit w" and "net_start w s" and "net_reach pf to_string s s'"
  shows "reach pf w (ns_world s') \<and>
    (\<forall>q. case ns_links s' q of
       None \<Rightarrow> \<not> holds (ns_world s') q \<and> frames_to (ns_world s') q = []
     | Some c \<Rightarrow> tn_held c = holds (ns_world s') q
         \<and> (living c \<and> (tn_connecting c \<or> tn_receiving c)) = holds (ns_world s') q
         \<and> (holds (ns_world s') q \<longrightarrow> tn_open c)
         \<and> mset (tn_sent c @ tn_running c @ tn_posted c) = mset (frames_to (ns_world s') q))"
proof (intro conjI allI)
  note net_inv_start [OF assms(1,2)]
  from net_reach_sound [OF assms(3) this] have i: "net_inv s'" and r: "reach pf (ns_world s) (ns_world s')" by blast+
  show "reach pf w (ns_world s')" using r assms(2) by (simp add: net_start_def)
  fix q
  have "link_ok (holds (ns_world s') q) (frames_to (ns_world s') q) (ns_links s' q)"
    using i by (simp add: net_inv_def)
  then show "case ns_links s' q of
       None \<Rightarrow> \<not> holds (ns_world s') q \<and> frames_to (ns_world s') q = []
     | Some c \<Rightarrow> tn_held c = holds (ns_world s') q
         \<and> (living c \<and> (tn_connecting c \<or> tn_receiving c)) = holds (ns_world s') q
         \<and> (holds (ns_world s') q \<longrightarrow> tn_open c)
         \<and> mset (tn_sent c @ tn_running c @ tn_posted c) = mset (frames_to (ns_world s') q)"
    using linked_awaits by (cases "ns_links s' q") (auto simp: linked_def)
qed

text \<open>A server that listens, and whose wallet connection is being made; then a miner connects.\<close>

definition example_wallet_link :: tcp_connection where
  "example_wallet_link =
     (Connection_connecting example_peer example_peer)\<lparr>tn_open := True, tn_connecting := True\<rparr>"

definition example_network :: network_server where
  "example_network = \<lparr>ns_world = example_start, ns_socket = listening_socket, ns_links = (\<lambda>_. None)(Wallet \<mapsto> example_wallet_link)\<rparr>"

definition example_joined :: network_server where
  "example_joined = \<lparr>ns_world = example_world, ns_socket = listening_socket\<lparr>ts_accepted := [example_connection]\<rparr>,
     ns_links = (deliver {Miner 1} example_start example_world (ns_links example_network))(Miner 1 \<mapsto> example_connection)\<rparr>"

lemma example_peer_simps:
  "example_peer = \<lparr>ne_protocol = tcp, ne_base = Some (Asio_endpoint (V4 0x7F000001) 50000)\<rparr>"
  "update_port (Asio_endpoint (V4 0x7F000001) 50000) example_peer = Inr example_peer"
  "get_tcp_base example_peer = Inr (Asio_endpoint (V4 0x7F000001) 50000)"
  by (simp_all add: example_peer_def Endpoint_of_tcp_def with_scope_def update_port_def Endpoint_set_port_def
      endpoint_simps get_tcp_base_def)

lemma example_net_start: "net_start example_start example_network"
proof -
  let ?a = "\<lparr>sa_open_error = False, sa_bind_error = False, sa_local = Some (Asio_endpoint (V4 0x7F000001) 50000)\<rparr>"
  let ?l = "\<lparr>sa_open_error = False, sa_bind_error = False, sa_local = Some (Asio_endpoint (V4 0x7F000001) 50000),
    la_listen_error = False\<rparr>"
  have factory: "create_socket example_peer = Inr (Some (Socket_new example_peer))"
    by (simp add: example_peer_simps(1) create_socket_def create_socket_impl_def assert_that_def Endpoint_is_valid_def
        Endpoint_is_multicast_def call_on_base_address_def base_of_def ip_is_multicast_def)
  have "listen True ?l (Socket_new example_peer) = Inr (socket_ok, listening_socket)"
    by (simp add: listen_def assert_that_def bind_acceptor_def accept_next_def Socket_new_def listening_socket_def
        example_peer_simps(2,3) Let_def)
  moreover have "Endpoint_is_valid example_peer" by (simp add: example_peer_simps(1) Endpoint_is_valid_def)
  then have "Socket_connect True ?a example_peer (Socket_new example_peer) =
      Inr (Some example_wallet_link, Socket_new example_peer)"
    by (simp add: Socket_connect_def assert_that_def Connection_connect_def initialise_socket_def
        Connection_connecting_def Socket_new_def example_wallet_link_def example_peer_simps(2,3) Let_def)
  ultimately show ?thesis using factory unfolding net_start_def example_network_def by force
qed

lemma example_net_step: "net_step example_platform (\<lambda>_. ''10.0.0.1'') example_network example_joined"
proof -
  let ?e = "Asio_endpoint (V4 0x7F000001) 50000"
  define r where "r = reaction_to example_start example_world (Miner 1)"
  let ?a = "\<lparr>aa_error = False, aa_remote = Some ?e, aa_handler = True,
    aa_local = Some (Asio_endpoint (V4 0x7F000001) 9549), aa_reaction = r\<rparr>"
  have r: "re_releases r = False" "re_transmits r = []"
    by (simp_all add: r_def reaction_to_def react_def holds_Miner frames_to_def example_world_def example_miner_def
        Pool_connection_new_def)
  have "on_accept True ?a listening_socket = Inr (listening_socket\<lparr>ts_accepted := [example_connection]\<rparr>)"
    by (simp add: on_accept_def handle_accept_def assert_that_def call_handler_def r receive_def let_go_def
        living_def accept_next_def listening_socket_def Socket_new_def example_connection_def
        Connection_accepted_def example_peer_def)
  then show ?thesis unfolding example_joined_def
    using net_step.accepts [where a = ?a and s = example_network and i = 1 and e = ?e and address = "''10.0.0.1''"
        and uninit = 0 and w' = example_world and pf = example_platform and to_string = "\<lambda>_. ''10.0.0.1''"
        and c = example_connection and sock = "listening_socket\<lparr>ts_accepted := [example_connection]\<rparr>"]
      example_accept
    by (simp add: r_def example_network_def Endpoint_address_string_def endpoint_simps Endpoint_of_tcp_def with_scope_def
        call_on_base_address_def listening_socket_def Socket_new_def)
qed

theorem network_drives_server_witness:
  "net_reach example_platform (\<lambda>_. ''10.0.0.1'') example_network example_joined
   \<and> reach example_platform example_start (ns_world example_joined)
   \<and> tn_held example_connection = holds (ns_world example_joined) (Miner 1)"
proof -
  have n: "net_reach example_platform (\<lambda>_. ''10.0.0.1'') example_network example_joined"
    by (rule net_reach.more [OF net_reach.start example_net_step])
  have "ns_links example_joined (Miner 1) = Some example_connection" by (simp add: example_joined_def)
  with network_drives_server [OF example_started example_net_start n] n show ?thesis
    by (auto dest: spec [of _ "Miner 1"])
qed

text \<open>
  The answer that the wallet connection is up finds all timers of it idle. Every other start is made by the
  handler of the timer itself, which has just fired, so the timers are started only while nothing is pending.
\<close>

theorem timers_start_idle:
  assumes "started pf api fs uninit w" and "net_start w s" and "net_reach pf to_string s s'"
    and "ns_links s' Wallet = Some c" and "completes r c c'" and "tn_calls c' = tn_calls c @ [(connection_ok, payload)]"
  shows "timers_of (w_daemon (ns_world s')) = (None, None, None, None)"
proof -
  have "net_inv s'" using net_reach_sound [OF assms(3) net_inv_start [OF assms(1,2)]] by blast
  then have "contract c" using net_inv_linked assms(4) by (simp add: linked_def)
  with assms(5) have "contract c'" by (rule completes_contract)
  then have "tn_calls c = []" using later_call [OF _ assms(6)] by blast
  moreover have "timers_idle s'" using assms(3) timers_idle_start [OF assms(1,2)] by (rule timers_idle_reach)
  ultimately show ?thesis using assms(4) by (simp add: timers_idle_def)
qed

section \<open>The order of transmissions\<close>

text \<open>
  Whatever is handed to \<open>transmit\<close> is posted to the threads of the system executor. The frames that wait can
  all be sent, in the order \<open>fs\<close>, by some schedule of the threads.
\<close>

definition can_leave :: "nat \<Rightarrow> tcp_connection \<Rightarrow> bytes list \<Rightarrow> bool" where
  "can_leave threads c fs \<longleftrightarrow> (\<exists>moves c'. executor_runs threads moves c = Some c' \<and> connection_run c'
     \<and> tn_posted c' = [] \<and> tn_running c' = [] \<and> tn_sent c' = tn_sent c @ fs)"

lemma can_leave_iff:
  assumes "connection_run c" and "tn_running c = []"
  shows "can_leave threads c fs \<longleftrightarrow> (\<exists>order. mset order = mset [0 ..< List.length (tn_posted c)]
    \<and> possible_order threads 0 order \<and> fs = map ((!) (tn_posted c)) order)"
proof -
  have w: "at_work (tn_posted c) 0 [] c" using assms(2) by (simp add: at_work_def)
  show ?thesis
  proof
    assume "can_leave threads c fs"
    then obtain moves c' where "executor_runs threads moves c = Some c'" "tn_posted c' = []" "tn_running c' = []"
      "tn_sent c' = tn_sent c @ fs" by (auto simp: can_leave_def)
    with orders_of_runs [OF this(1-3) w] show "\<exists>order. mset order = mset [0 ..< List.length (tn_posted c)]
      \<and> possible_order threads 0 order \<and> fs = map ((!) (tn_posted c)) order" by auto
  next
    assume "\<exists>order. mset order = mset [0 ..< List.length (tn_posted c)]
      \<and> possible_order threads 0 order \<and> fs = map ((!) (tn_posted c)) order"
    then obtain order where o: "mset order = mset ([] :: nat list) + mset [0 + List.length ([] :: nat list) ..< List.length (tn_posted c)]"
      "possible_order threads 0 order" "fs = map ((!) (tn_posted c)) order" by auto
    from runs_of_orders [OF o(1,2) w] o(3) executor_runs_steps [OF _ assms(1)] show "can_leave threads c fs"
      by (fastforce simp: can_leave_def)
  qed
qed

text \<open>
  C16: The system executor does not keep the frames of a connection in order. Of the frames that wait, with
  all threads free, exactly those orders are possible in which no frame leaves \<open>threads\<close> or more places before
  its turn; on one thread they would leave in order. As the pool has at least two threads, on any machine,
  the frame given first can leave after all the others.
\<close>

theorem transmissions_overtake:
  assumes "connection_run c" and "tn_running c = []"
  shows "(can_leave threads c fs \<longleftrightarrow> (\<exists>order. mset order = mset [0 ..< List.length (tn_posted c)]
      \<and> (\<forall>k < List.length order. order ! k < k + threads) \<and> fs = map ((!) (tn_posted c)) order))
    \<and> (can_leave 1 c fs \<longleftrightarrow> fs = tn_posted c)
    \<and> (\<forall>f later. tn_posted c = f # later \<longrightarrow> can_leave (system_context_threads hardware_concurrency) c (later @ [f]))"
proof (intro conjI allI impI)
  show "can_leave threads c fs \<longleftrightarrow> (\<exists>order. mset order = mset [0 ..< List.length (tn_posted c)]
      \<and> (\<forall>k < List.length order. order ! k < k + threads) \<and> fs = map ((!) (tn_posted c)) order)"
    using can_leave_iff [OF assms] by (simp add: possible_order_def)
  show "can_leave 1 c fs \<longleftrightarrow> fs = tn_posted c"
    unfolding can_leave_iff [OF assms] using possible_order_one possible_order_id by (metis map_nth)
  fix f later
  assume p: "tn_posted c = f # later"
  have "map ((!) (f # later)) (map Suc [0 ..< List.length later]) = later" 
    by (simp add: comp_def map_nth del: map_Suc_upt)
  then have "map ((!) (f # later)) ([1 ..< Suc (List.length later)] @ [0]) = later @ [f]"
    by (simp add: map_Suc_upt del: upt_Suc)
  moreover have "possible_order (system_context_threads hardware_concurrency) 0 ([1 ..< Suc (List.length later)] @ [0])"
    using system_context_threads_ge [of hardware_concurrency] by (auto simp: possible_order_def nth_append)
  moreover have "mset ([1 ..< Suc (List.length later)] @ [0]) = mset [0 ..< List.length (tn_posted c)]"
    by (simp add: p upt_conv_Cons del: upt_Suc mset_upt)
  ultimately show "can_leave (system_context_threads hardware_concurrency) c (later @ [f])"
    unfolding can_leave_iff [OF assms] p by metis
qed

theorem transmissions_overtake_witness:
  "can_leave 2 (transmit [2] (transmit [1] example_connection)) [[2], [1]]
   \<and> \<not> can_leave 1 (transmit [2] (transmit [1] example_connection)) [[2], [1]]
   \<and> can_leave (system_context_threads 0) (transmit [2] (transmit [1] example_connection)) [[2], [1]]"
proof -
  have "connection_start example_connection"
    by (rule connection_start.incoming [where handler = True and answer = "Some (Asio_endpoint (V4 0x7F000001) 9549)"
          and r = quiet and remote = example_peer])
      (simp add: handle_accept_def assert_that_def call_handler_def quiet_def receive_def let_go_def living_def
        example_connection_def Connection_accepted_def)
  then have "connection_run example_connection" by (rule connection_run.start)
  moreover have "tn_held example_connection" by (simp add: example_connection_def Connection_accepted_def)
  ultimately have "connection_run (transmit [1] example_connection)"
    and held: "tn_held (transmit [1] example_connection)"
    using connection_run.more [of example_connection "User_transmits [1]" "transmit [1] example_connection"]
    by (simp_all add: connection_step_simps transmit_def)
  then have run: "connection_run (transmit [2] (transmit [1] example_connection))"
    using connection_run.more [of "transmit [1] example_connection" "User_transmits [2]"
        "transmit [2] (transmit [1] example_connection)"]
    by (simp add: connection_step_simps)
  have p: "tn_posted (transmit [2] (transmit [1] example_connection)) = [[1], [2]]"
    "tn_running (transmit [2] (transmit [1] example_connection)) = []"
    by (simp_all add: transmit_def example_connection_def Connection_accepted_def)
  note t = transmissions_overtake [OF run p(2), unfolded p]
  have "\<not> can_leave 1 (transmit [2] (transmit [1] example_connection)) [[2], [1]]"
    using t [of 2 "[[2], [1]]" 0] by simp
  moreover have "can_leave (system_context_threads 0) (transmit [2] (transmit [1] example_connection)) ([[2]] @ [[1]])"
    using t [of 2 "[[2], [1]]" 0] by blast
  ultimately show ?thesis by (simp add: system_context_threads_def)
qed

end
