(* ===== verification/Chrono_Timer.thy ===== *)
theory Chrono_Timer
  imports "HOL-Library.Multiset" Pool_State
begin

text \<open>
  The timer of \<open>src/src/chrono/timer.hpp\<close> on the waitable timer of asio (\<open>network/asio/detail/\<close>), in more detail
  than \<open>chrono_timer\<close> of \<open>Pool_State\<close>: waits under way, handlers that are ready to be called, and the clock.
  The second half shows what a timer promises to its user, and that a user who starts a timer only when
  nothing is pending sees a \<open>chrono_timer\<close>.
\<close>

section \<open>State\<close>

text \<open>
  A wait has the number of its start; \<open>tm_started\<close> records the handler, the period and the end of every
  start, in milliseconds. A ready handler has the error code of its operation: aborted or not. \<open>tm_called\<close>
  are the calls made, with the argument \<open>canceled\<close>.
\<close>

record 'h waitable_timer =
  tm_now :: nat
  tm_expiry :: nat
  tm_waiting :: "nat list"
  tm_ready :: "(nat \<times> bool) list"
  tm_called :: "(nat \<times> bool) list"
  tm_started :: "('h \<times> nat \<times> nat) list"

definition Chrono_timer_new :: "'h waitable_timer" where
  "Chrono_timer_new = \<lparr>tm_now = 0, tm_expiry = 0, tm_waiting = [], tm_ready = [], tm_called = [], tm_started = []\<rparr>"

section \<open>The waitable timer of asio\<close>

definition asio_cancel_timer :: "'h waitable_timer \<Rightarrow> 'h waitable_timer" where
  "asio_cancel_timer t =
     t\<lparr>tm_waiting := [], tm_ready := tm_ready t @ map (\<lambda>op. (op, True)) (tm_waiting t)\<rparr>"

definition asio_expires_after :: "nat \<Rightarrow> 'h waitable_timer \<Rightarrow> 'h waitable_timer" where
  "asio_expires_after expiry_time t = (asio_cancel_timer t)\<lparr>tm_expiry := tm_now t + expiry_time\<rparr>"

definition asio_async_wait :: "nat \<Rightarrow> 'h waitable_timer \<Rightarrow> 'h waitable_timer" where
  "asio_async_wait op t = t\<lparr>tm_waiting := tm_waiting t @ [op]\<rparr>"

definition asio_get_ready_timers :: "'h waitable_timer \<Rightarrow> 'h waitable_timer" where
  "asio_get_ready_timers t =
     (if \<not> tm_now t < tm_expiry t
      then t\<lparr>tm_waiting := [], tm_ready := tm_ready t @ map (\<lambda>op. (op, False)) (tm_waiting t)\<rparr>
      else t)"

section \<open>The timer\<close>

definition Timer_cancel :: "'h waitable_timer \<Rightarrow> 'h waitable_timer" where
  "Timer_cancel t = asio_cancel_timer t"

definition Timer_start_int :: "nat \<Rightarrow> 'h \<Rightarrow> 'h waitable_timer \<Rightarrow> 'h waitable_timer" where
  "Timer_start_int expires_in handler t =
     (let n = List.length (tm_started t);
          t = asio_async_wait n (asio_expires_after expires_in (Timer_cancel t))
      in t\<lparr>tm_started := tm_started t @ [(handler, expires_in, tm_expiry t)]\<rparr>)"

definition Timer_start_seconds :: "nat \<Rightarrow> 'h \<Rightarrow> 'h waitable_timer \<Rightarrow> 'h waitable_timer" where
  "Timer_start_seconds expires_in = Timer_start_int (1000 * expires_in)"

text \<open>The lambda given to \<open>async_wait\<close>, run by a thread of the event loop.\<close>

definition Timer_wait_handler :: "bool \<Rightarrow> bool" where
  "Timer_wait_handler error = (if error then True else False)"

definition Timer_handler_runs :: "nat \<Rightarrow> 'h waitable_timer \<Rightarrow> 'h waitable_timer" where
  "Timer_handler_runs k t =
     (if k < List.length (tm_ready t)
      then case tm_ready t ! k of
             (n, error) \<Rightarrow> t\<lparr>tm_ready := take k (tm_ready t) @ drop (Suc k) (tm_ready t),
                            tm_called := tm_called t @ [(n, Timer_wait_handler error)]\<rparr>
      else t)"

section \<open>Events\<close>

datatype 'h timer_event =
    User_starts nat 'h
  | User_cancels
  | Clock nat
  | Reactor
  | Handler_runs nat

fun timer_step :: "'h timer_event \<Rightarrow> 'h waitable_timer \<Rightarrow> 'h waitable_timer" where
  "timer_step (User_starts expires_in handler) t = Timer_start_int expires_in handler t"
| "timer_step User_cancels t = Timer_cancel t"
| "timer_step (Clock n) t = t\<lparr>tm_now := tm_now t + n\<rparr>"
| "timer_step Reactor t = asio_get_ready_timers t"
| "timer_step (Handler_runs k) t = Timer_handler_runs k t"

definition timer_run :: "'h timer_event list \<Rightarrow> 'h waitable_timer" where
  "timer_run evs = fold timer_step evs Chrono_timer_new"

lemma timer_run_snoc: "timer_run (evs @ [ev]) = timer_step ev (timer_run evs)"
  by (simp add: timer_run_def)

lemmas timer_defs = Timer_start_int_def Timer_cancel_def asio_cancel_timer_def asio_expires_after_def
  asio_async_wait_def asio_get_ready_timers_def Timer_handler_runs_def Timer_wait_handler_def

section \<open>Every start is called once\<close>

definition waits :: "'h waitable_timer \<Rightarrow> nat list" where
  "waits t = tm_waiting t @ map fst (tm_ready t) @ map fst (tm_called t)"

abbreviation due :: "'h waitable_timer \<Rightarrow> nat \<Rightarrow> nat" where
  "due t n \<equiv> snd (snd (tm_started t ! n))"

definition timer_inv :: "'h waitable_timer \<Rightarrow> bool" where
  "timer_inv t \<longleftrightarrow> mset (waits t) = mset [0..<List.length (tm_started t)]
     \<and> (tm_waiting t \<noteq> [] \<longrightarrow> tm_waiting t = [List.length (tm_started t) - 1]
          \<and> tm_expiry t = due t (List.length (tm_started t) - 1))
     \<and> (\<forall>n. (n, False) \<in> set (tm_ready t) \<union> set (tm_called t) \<longrightarrow> due t n \<le> tm_now t)"

lemma timer_inv_waits:
  assumes "timer_inv t" and "n \<in> set (waits t)"
  shows "n < List.length (tm_started t)"
proof -
  have "set_mset (mset (waits t)) = set_mset (mset [0..<List.length (tm_started t)])"
    using assms(1) by (simp only: timer_inv_def)
  then have "set (waits t) = {0..<List.length (tm_started t)}" by (simp only: set_mset_mset set_upt)
  with assms(2) show ?thesis by simp
qed

lemma mset_pair_moved:
  assumes "k < List.length xs"
  shows "mset (take k xs @ drop (Suc k) xs @ [xs ! k]) = mset xs"
  by (subst (4) id_take_nth_drop [OF assms]) simp

lemma timer_inv_new: "timer_inv Chrono_timer_new"
  by (simp add: timer_inv_def waits_def Chrono_timer_new_def)

text \<open>The events that start nothing move waits only.\<close>

lemma timer_inv_moved:
  assumes i: "timer_inv t" and "mset (waits t') = mset (waits t)" and s: "tm_started t' = tm_started t"
    and "tm_waiting t' = [] \<or> tm_waiting t' = tm_waiting t \<and> tm_expiry t' = tm_expiry t" and "tm_now t \<le> tm_now t'"
    and new: "\<And>n. (n, False) \<in> set (tm_ready t') \<union> set (tm_called t') \<Longrightarrow>
      (n, False) \<in> set (tm_ready t) \<union> set (tm_called t) \<or> due t n \<le> tm_now t"
  shows "timer_inv t'"
proof -
  have "due t' n \<le> tm_now t'" if "(n, False) \<in> set (tm_ready t') \<union> set (tm_called t')" for n
    using new [OF that] i assms(5) unfolding s timer_inv_def by (meson le_trans)
  note due = this
  show ?thesis using assms(4)
    by (elim disjE conjE) (use assms(1-3) due in \<open>simp_all add: timer_inv_def\<close>)
qed

lemma runs_moves:
  assumes "k < List.length (tm_ready t)"
  shows "mset (waits (Timer_handler_runs k t)) = mset (waits t)"
    and "set (tm_ready (Timer_handler_runs k t)) \<union> set (tm_called (Timer_handler_runs k t)) =
      set (tm_ready t) \<union> set (tm_called t)"
proof -
  let ?t = "Timer_handler_runs k t"
  obtain n c where r: "tm_ready t ! k = (n, c)" by force
  have t: "tm_ready ?t = take k (tm_ready t) @ drop (Suc k) (tm_ready t)" "tm_called ?t = tm_called t @ [(n, c)]"
    "tm_waiting ?t = tm_waiting t"
    using assms r by (simp_all add: Timer_handler_runs_def Timer_wait_handler_def)
  have m: "mset (tm_ready ?t @ [(n, c)]) = mset (tm_ready t)"
    using mset_pair_moved [OF assms] r t(1) by simp
  then have "mset (map fst (tm_ready ?t @ [(n, c)])) = mset (map fst (tm_ready t))" by (simp only: mset_map)
  then show "mset (waits ?t) = mset (waits t)" by (simp add: waits_def t(2,3))
  have "set (tm_ready ?t @ [(n, c)]) = set (tm_ready t)" using m by (metis set_mset_mset)
  then show "set (tm_ready ?t) \<union> set (tm_called ?t) = set (tm_ready t) \<union> set (tm_called t)"
    by (simp only: t(2) set_append) auto
qed

lemma runs_same [simp]:
  "tm_waiting (Timer_handler_runs k t) = tm_waiting t" "tm_started (Timer_handler_runs k t) = tm_started t"
  "tm_now (Timer_handler_runs k t) = tm_now t" "tm_expiry (Timer_handler_runs k t) = tm_expiry t"
  by (simp_all add: Timer_handler_runs_def split: prod.splits)

lemma timer_inv_runs:
  assumes "timer_inv t" and "k < List.length (tm_ready t)"
  shows "timer_inv (Timer_handler_runs k t)"
  using assms(1) runs_moves(1) [OF assms(2)]
  by (rule timer_inv_moved) (simp_all only: runs_moves(2) [OF assms(2)] runs_same simp_thms order_refl)

lemma timer_inv_cancel: "timer_inv t \<Longrightarrow> timer_inv (asio_cancel_timer t)"
  by (erule timer_inv_moved) (auto simp: waits_def asio_cancel_timer_def comp_def)

lemma timer_inv_reactor:
  assumes i: "timer_inv t"
  shows "timer_inv (asio_get_ready_timers t)"
proof (cases "tm_now t < tm_expiry t")
  case False
  have "due t n \<le> tm_now t" if "n \<in> set (tm_waiting t)" for n
  proof -
    from that i have "n = List.length (tm_started t) - 1 \<and> tm_expiry t = due t n"
      by (cases "tm_waiting t") (auto simp: timer_inv_def)
    with False show ?thesis by simp
  qed
  then show ?thesis using False
    by (intro timer_inv_moved [OF i]) (auto simp: waits_def asio_get_ready_timers_def comp_def)
qed (use i in \<open>simp add: asio_get_ready_timers_def\<close>)

lemma timer_inv_start:
  assumes "timer_inv t"
  shows "timer_inv (Timer_start_int d h t)"
proof -
  let ?n = "List.length (tm_started t)"
  let ?u = "asio_cancel_timer t"
  have u: "timer_inv ?u" "tm_waiting ?u = []" "tm_started ?u = tm_started t" "tm_now ?u = tm_now t"
    using assms timer_inv_cancel by (simp_all add: asio_cancel_timer_def)
  let ?t = "Timer_start_int d h t"
  have "asio_cancel_timer ?u = ?u" by (simp add: asio_cancel_timer_def)
  then have t: "?t = ?u\<lparr>tm_expiry := tm_now t + d, tm_waiting := [?n], tm_started := tm_started t @ [(h, d, tm_now t + d)]\<rparr>"
    by (simp add: Timer_start_int_def asio_async_wait_def asio_expires_after_def Timer_cancel_def u(2-4) Let_def)
  have "mset (waits ?t) = mset [0..<List.length (tm_started ?t)]"
    using u(1-3) by (simp add: timer_inv_def t waits_def)
  moreover have "due ?t m \<le> tm_now ?t" if "(m, False) \<in> set (tm_ready ?t) \<union> set (tm_called ?t)" for m
  proof -
    have old: "(m, False) \<in> set (tm_ready ?u) \<union> set (tm_called ?u)" using that by (simp add: t)
    then have "m \<in> set (waits ?u)" by (force simp: waits_def)
    then have "m < ?n" using timer_inv_waits [OF u(1)] u(3) by simp
    then have "due ?t m = due ?u m" using u(3) by (simp add: t nth_append)
    moreover have "due ?u m \<le> tm_now ?u" using u(1) old unfolding timer_inv_def by blast
    moreover have "tm_now ?t = tm_now ?u" by (simp add: t)
    ultimately show ?thesis by (simp only:)
  qed
  ultimately show ?thesis unfolding timer_inv_def by (simp add: t)
qed

lemma timer_inv_step: "timer_inv t \<Longrightarrow> timer_inv (timer_step ev t)"
proof (cases ev)
  case (Handler_runs k)
  then show "timer_inv t \<Longrightarrow> ?thesis"
    using timer_inv_runs [of t k] by (cases "k < List.length (tm_ready t)") (simp_all add: Timer_handler_runs_def)
next
  case (Clock n)
  assume "timer_inv t"
  then have "timer_inv (t\<lparr>tm_now := tm_now t + n\<rparr>)" by (rule timer_inv_moved) (simp_all add: waits_def)
  with Clock show ?thesis by simp
qed (simp_all add: timer_inv_start timer_inv_cancel timer_inv_reactor Timer_cancel_def)

lemma timer_run_inv: "timer_inv (timer_run evs)"
proof (induction evs rule: rev_induct)
  case Nil
  then show ?case by (simp add: timer_run_def timer_inv_new)
qed (simp add: timer_run_snoc timer_inv_step)

section \<open>The last start\<close>

text \<open>Only a cancellation aborts the last start.\<close>

definition last_kept :: "'h waitable_timer \<Rightarrow> bool" where
  "last_kept t \<longleftrightarrow> (\<forall>n. (n, True) \<in> set (tm_ready t) \<union> set (tm_called t) \<longrightarrow> Suc n < List.length (tm_started t))"

lemma last_kept_step:
  assumes "timer_inv t" and "last_kept t" and "ev \<noteq> User_cancels"
  shows "last_kept (timer_step ev t)"
proof (cases ev)
  case (User_starts d h)
  have "n < List.length (tm_started t)" if "(n, True) \<in> set (tm_ready t) \<union> set (tm_called t)" for n
    using assms(2) that unfolding last_kept_def by (meson Suc_lessD)
  moreover have "n < List.length (tm_started t)" if "n \<in> set (tm_waiting t)" for n
    using timer_inv_waits [OF assms(1)] that by (simp add: waits_def)
  ultimately show ?thesis using User_starts
    by (auto simp: last_kept_def Timer_start_int_def Timer_cancel_def asio_cancel_timer_def asio_expires_after_def
        asio_async_wait_def Let_def)
next
  case (Handler_runs k)
  then show ?thesis using assms(2) runs_moves(2) [of k t]
    by (cases "k < List.length (tm_ready t)") (simp_all only: last_kept_def timer_step.simps runs_same,
      simp add: Timer_handler_runs_def)
qed (use assms in \<open>auto simp: last_kept_def asio_get_ready_timers_def\<close>)

lemma timer_run_last_kept: "User_cancels \<notin> set evs \<Longrightarrow> last_kept (timer_run evs)"
proof (induction evs rule: rev_induct)
  case Nil
  then show ?case by (simp add: timer_run_def Chrono_timer_new_def last_kept_def)
next
  case (snoc ev evs)
  then show ?case using last_kept_step [OF timer_run_inv, of evs ev] by (auto simp: timer_run_snoc)
qed

section \<open>What the user sees\<close>

text \<open>The waits that will call their handler with \<open>canceled\<close> false, and the \<open>chrono_timer\<close> they stand for.\<close>

definition pending :: "'h waitable_timer \<Rightarrow> nat list" where
  "pending t = tm_waiting t @ map fst (filter (\<lambda>r. \<not> snd r) (tm_ready t))"

definition timer_view :: "'h waitable_timer \<Rightarrow> chrono_timer" where
  "timer_view t = (if pending t = [] then None else Some (fst (snd (tm_started t ! hd (pending t)))))"

text \<open>Every start happens while nothing is pending, as in the handlers of the server.\<close>

fun idle_starts :: "'h timer_event list \<Rightarrow> 'h waitable_timer \<Rightarrow> bool" where
  "idle_starts [] t \<longleftrightarrow> True"
| "idle_starts (ev # evs) t \<longleftrightarrow> (case ev of User_starts d h \<Rightarrow> pending t = [] | _ \<Rightarrow> True) \<and> idle_starts evs (timer_step ev t)"

lemma idle_starts_append:
  "idle_starts (evs @ evs') t \<longleftrightarrow> idle_starts evs t \<and> idle_starts evs' (fold timer_step evs t)"
  by (induction evs arbitrary: t) auto

lemma filter_moved:
  "k < List.length xs \<Longrightarrow> List.length (filter P xs) = List.length (filter P (take k xs @ drop (Suc k) xs)) + (if P (xs ! k) then 1 else 0)"
  by (subst (1) id_take_nth_drop [of k xs]) simp_all

lemma pending_step:
  assumes "timer_inv t" and "List.length (pending t) \<le> 1" and "case ev of User_starts d h \<Rightarrow> pending t = [] | _ \<Rightarrow> True"
  shows "List.length (pending (timer_step ev t)) \<le> 1"
proof (cases ev)
  case (Handler_runs k)
  then show ?thesis using assms(2) filter_moved [of k "tm_ready t" "\<lambda>r. \<not> snd r"]
    by (cases "k < List.length (tm_ready t)")
      (auto simp: pending_def Timer_handler_runs_def split: prod.splits if_splits)
next
  case (User_starts d h)
  then have "tm_waiting t = []" "filter (\<lambda>r. \<not> snd r) (tm_ready t) = []"
    using assms(3) by (simp_all add: pending_def)
  with User_starts show ?thesis
    by (simp add: pending_def Timer_start_int_def Timer_cancel_def asio_cancel_timer_def asio_expires_after_def
        asio_async_wait_def Let_def)
qed (use assms(2) in \<open>auto simp: pending_def Timer_cancel_def asio_cancel_timer_def asio_get_ready_timers_def
      comp_def filter_map\<close>)

lemma pending_run: "idle_starts evs Chrono_timer_new \<Longrightarrow> List.length (pending (timer_run evs)) \<le> 1"
proof (induction evs rule: rev_induct)
  case Nil
  then show ?case by (simp add: timer_run_def Chrono_timer_new_def pending_def)
next
  case (snoc ev evs)
  then have i: "idle_starts evs Chrono_timer_new" "case ev of User_starts d h \<Rightarrow> pending (timer_run evs) = [] | _ \<Rightarrow> True"
    by (auto simp: idle_starts_append timer_run_def split: timer_event.splits)
  show ?case unfolding timer_run_snoc by (rule pending_step [OF timer_run_inv snoc.IH [OF i(1)] i(2)])
qed

text \<open>One event of such a user, seen on the abstract timer.\<close>

lemma view_start:
  assumes "pending t = []"
  shows "timer_view (Timer_start_int d h t) = timer_start_milliseconds d"
proof -
  have "tm_waiting t = []" "filter (\<lambda>r. \<not> snd r) (tm_ready t) = []" using assms by (simp_all add: pending_def)
  then show ?thesis
    by (simp add: timer_view_def pending_def Timer_start_int_def Timer_cancel_def asio_cancel_timer_def
        asio_expires_after_def asio_async_wait_def timer_start_milliseconds_def Let_def)
qed

lemma view_clock: "timer_view (t\<lparr>tm_now := n\<rparr>) = timer_view t"
  by (simp add: timer_view_def pending_def)

lemma view_cancel:
  assumes "List.length (pending t) \<le> 1"
  shows "timer_view (Timer_cancel t) = (if tm_waiting t \<noteq> [] then timer_cancel (timer_view t) else timer_view t)"
proof (cases "tm_waiting t")
  case (Cons n ns)
  with assms have "filter (\<lambda>r. \<not> snd r) (tm_ready t) = []" by (simp add: pending_def)
  with Cons show ?thesis
    by (simp add: timer_view_def pending_def Timer_cancel_def asio_cancel_timer_def timer_cancel_def filter_map comp_def)
qed (simp add: timer_view_def pending_def Timer_cancel_def asio_cancel_timer_def)

lemma view_reactor:
  assumes "List.length (pending t) \<le> 1"
  shows "timer_view (asio_get_ready_timers t) = timer_view t"
proof (cases "tm_waiting t")
  case (Cons n ns)
  with assms have "filter (\<lambda>r. \<not> snd r) (tm_ready t) = []" by (simp add: pending_def)
  with Cons show ?thesis
    by (simp add: timer_view_def pending_def asio_get_ready_timers_def filter_map comp_def)
qed (simp add: timer_view_def pending_def asio_get_ready_timers_def)

lemma view_runs:
  assumes "List.length (pending t) \<le> 1" and k: "k < List.length (tm_ready t)" "tm_ready t ! k = (n, canceled)"
  shows "timer_view (Timer_handler_runs k t) = (if canceled then timer_view t else None)"
    and "\<not> canceled \<Longrightarrow> timer_view t = Some (fst (snd (tm_started t ! n)))"
proof -
  let ?P = "\<lambda>r :: nat \<times> bool. \<not> snd r" and ?xs = "tm_ready t"
  have xs: "?xs = take k ?xs @ (n, canceled) # drop (Suc k) ?xs" using id_take_nth_drop [OF k(1)] k(2) by simp
  have f: "filter ?P ?xs = filter ?P (take k ?xs) @ filter ?P [(n, canceled)] @ filter ?P (drop (Suc k) ?xs)"
    by (subst (1) xs) simp
  have t: "tm_ready (Timer_handler_runs k t) = take k ?xs @ drop (Suc k) ?xs"
    "tm_waiting (Timer_handler_runs k t) = tm_waiting t" "tm_started (Timer_handler_runs k t) = tm_started t"
    using k by (simp_all add: Timer_handler_runs_def)
  show "timer_view (Timer_handler_runs k t) = (if canceled then timer_view t else None)"
    using assms(1) by (cases canceled) (simp_all add: timer_view_def pending_def t f)
  show "\<not> canceled \<Longrightarrow> timer_view t = Some (fst (snd (tm_started t ! n)))"
    using assms(1) by (simp add: timer_view_def pending_def f)
qed

end
