(* ===== verification/Timer_Properties.thy ===== *)
theory Timer_Properties
  imports Chrono_Timer
begin

text \<open>
  What a timer promises, and that the timers of the server's model are timers. That the server starts its
  timers only while nothing is pending is \<open>timers_start_idle\<close> of \<open>Networked_Properties\<close>.
\<close>

text \<open>
  C17: A timer calls the handler of every start exactly once, in any run: each start is waiting, ready or
  called, at most one waits, and it is called with \<open>canceled\<close> false only when its time is up. Without a call
  of \<open>cancel\<close> the last start is never aborted. A user who starts the timer only while nothing is pending, as the
  handlers of the server do, sees a \<open>chrono_timer\<close>: starting sets it to the period, time and the event
  loop do not change it, the call of the handler that was not cancelled clears it, and \<open>cancel\<close> clears it
  unless the wait has already ended.
\<close>

theorem timer_keeps_promises:
  assumes t_def: "t = timer_run evs"
  shows "mset (waits t) = mset [0..<List.length (tm_started t)] \<and> List.length (tm_waiting t) \<le> 1
    \<and> (\<forall>n. (n, False) \<in> set (tm_called t) \<longrightarrow> due t n \<le> tm_now t)
    \<and> (\<forall>n. User_cancels \<notin> set evs \<and> (n, True) \<in> set (tm_called t) \<longrightarrow> Suc n < List.length (tm_started t))
    \<and> (idle_starts (evs @ [ev]) Chrono_timer_new \<longrightarrow>
        timer_view (timer_step ev t) =
          (case ev of
             User_starts d h \<Rightarrow> timer_start_milliseconds d
           | User_cancels \<Rightarrow> if tm_waiting t \<noteq> [] then timer_cancel (timer_view t) else timer_view t
           | Handler_runs k \<Rightarrow> if k < List.length (tm_ready t) \<and> \<not> snd (tm_ready t ! k) then None else timer_view t
           | Clock n \<Rightarrow> timer_view t
           | Reactor \<Rightarrow> timer_view t)
        \<and> (\<forall>k n. ev = Handler_runs k \<and> k < List.length (tm_ready t) \<and> tm_ready t ! k = (n, False) \<longrightarrow>
             timer_view t = Some (fst (snd (tm_started t ! n)))
             \<and> tm_called (timer_step ev t) = tm_called t @ [(n, False)]))"
proof (intro conjI impI allI)
  have inv: "timer_inv t" unfolding t_def by (rule timer_run_inv)
  show "mset (waits t) = mset [0..<List.length (tm_started t)]" using inv unfolding timer_inv_def by blast
  show "List.length (tm_waiting t) \<le> 1" using inv unfolding timer_inv_def by (cases "tm_waiting t = []") auto
  show "(n, False) \<in> set (tm_called t) \<Longrightarrow> due t n \<le> tm_now t" for n using inv unfolding timer_inv_def by blast
  show "User_cancels \<notin> set evs \<and> (n, True) \<in> set (tm_called t) \<Longrightarrow> Suc n < List.length (tm_started t)" for n
    using timer_run_last_kept [of evs] unfolding last_kept_def t_def by blast
  assume idle: "idle_starts (evs @ [ev]) Chrono_timer_new"
  then have one: "List.length (pending t) \<le> 1"
    and start: "case ev of User_starts d h \<Rightarrow> pending t = [] | _ \<Rightarrow> True"
    using pending_run [of evs] unfolding t_def idle_starts_append by (auto simp: timer_run_def split: timer_event.splits)
  show "timer_view (timer_step ev t) =
          (case ev of
             User_starts d h \<Rightarrow> timer_start_milliseconds d
           | User_cancels \<Rightarrow> if tm_waiting t \<noteq> [] then timer_cancel (timer_view t) else timer_view t
           | Handler_runs k \<Rightarrow> if k < List.length (tm_ready t) \<and> \<not> snd (tm_ready t ! k) then None else timer_view t
           | Clock n \<Rightarrow> timer_view t
           | Reactor \<Rightarrow> timer_view t)"
  proof (cases ev)
    case (User_starts d h)
    then show ?thesis using start view_start by simp
  next
    case (Handler_runs k)
    obtain n canceled where r: "tm_ready t ! k = (n, canceled)" by force
    show ?thesis
    proof (cases "k < List.length (tm_ready t)")
      case True
      with view_runs(1) [OF one True r] Handler_runs r show ?thesis by simp
    qed (simp add: Handler_runs Timer_handler_runs_def)
  qed (simp_all add: view_cancel [OF one] view_reactor [OF one] view_clock)
  fix k n
  assume k: "ev = Handler_runs k \<and> k < List.length (tm_ready t) \<and> tm_ready t ! k = (n, False)"
  then show "timer_view t = Some (fst (snd (tm_started t ! n)))" using view_runs(2) [OF one, of k n False] by simp
  show "tm_called (timer_step ev t) = tm_called t @ [(n, False)]"
    using k by (simp add: Timer_handler_runs_def Timer_wait_handler_def)
qed

text \<open>The block timer of the server waits 50 ms and calls its handler.\<close>

theorem timer_keeps_promises_witness:
  "timer_view (timer_run [User_starts 50 (), Clock 50, Reactor]) = Some 50
   \<and> timer_view (timer_step (Handler_runs 0) (timer_run [User_starts 50 (), Clock 50, Reactor])) = None
   \<and> tm_called (timer_step (Handler_runs 0) (timer_run [User_starts 50 (), Clock 50, Reactor])) = [(0, False)]"
proof -
  let ?evs = "[User_starts 50 (), Clock 50, Reactor]"
  have r: "tm_ready (timer_run ?evs) = [(0, False)]" "tm_called (timer_run ?evs) = []"
    "tm_started (timer_run ?evs) = [((), 50, 50)]"
    by (simp_all add: timer_run_def timer_defs Chrono_timer_new_def Let_def)
  have "idle_starts (?evs @ [Handler_runs 0]) Chrono_timer_new" by (simp add: pending_def Chrono_timer_new_def)
  with timer_keeps_promises [OF refl, of ?evs "Handler_runs 0"] r show ?thesis by simp
qed

text \<open>
  A wait that has ended cannot be taken back: when the timer is started again before the handler of the ended
  wait has run, both handlers run with \<open>canceled\<close> false.
\<close>

lemma restart_after_the_end:
  "tm_called (timer_run [User_starts 50 (), Clock 50, Reactor, User_starts 50 (), Handler_runs 0, Clock 50, Reactor,
     Handler_runs 0]) = [(0, False), (1, False)]"
  by (simp add: timer_run_def timer_defs Chrono_timer_new_def Let_def)

end
