(* ===== verification/Statistics_Database.thy ===== *)
theory Statistics_Database
  imports Double
begin

text \<open>
  The statistics database of \<open>src/src/database/\<close> over SQLite. SQLite is an argument: \<open>'s\<close> is its state, which
  includes the connection \<open>m_handle\<close>, and a statement is a number, 0 the null pointer. The result codes
  are those of SQLite. The ten prepared statements are the field \<open>sd_stmt\<close>; the constructor leaves them
  uninitialised, which is \<open>None\<close>: to pass such a pointer to SQLite is the fault \<open>Uninitialised\<close>. Log lines are
  not modelled. The pause between two attempts on a busy database is left out, so that a database that stays
  busy makes the operation not return, which is the outer \<open>None\<close> of a result.
\<close>

section \<open>SQLite\<close>

record 's sqlite =
  sq_initialize :: "'s \<Rightarrow> 's"
  sq_open :: "string \<Rightarrow> 's \<Rightarrow> int \<times> 's"
  sq_prepare :: "string \<Rightarrow> 's \<Rightarrow> int \<times> nat \<times> 's"
  sq_step :: "nat \<Rightarrow> 's \<Rightarrow> int \<times> 's"
  sq_finalize :: "nat \<Rightarrow> 's \<Rightarrow> 's"
  sq_parameter_index :: "nat \<Rightarrow> string \<Rightarrow> 's \<Rightarrow> int"
  sq_bind_text :: "nat \<Rightarrow> int \<Rightarrow> string \<Rightarrow> 's \<Rightarrow> 's"
  sq_bind_int :: "nat \<Rightarrow> int \<Rightarrow> int \<Rightarrow> 's \<Rightarrow> 's"
  sq_bind_int64 :: "nat \<Rightarrow> int \<Rightarrow> int \<Rightarrow> 's \<Rightarrow> 's"
  sq_bind_double :: "nat \<Rightarrow> int \<Rightarrow> double \<Rightarrow> 's \<Rightarrow> 's"
  sq_close :: "'s \<Rightarrow> 's"
  sq_shutdown :: "'s \<Rightarrow> 's"

definition SQLITE_OK :: int where
  "SQLITE_OK = 0"

definition SQLITE_BUSY :: int where
  "SQLITE_BUSY = 5"

definition SQLITE_DONE :: int where
  "SQLITE_DONE = 101"

section \<open>Data\<close>

record pool_data =
  pd_round :: u32
  pd_block_number :: u32
  pd_round_reward :: u64
  pd_total_shares :: u64
  pd_connection_count :: u32

record round_data =
  rd_round :: u32
  rd_block_number :: u32
  rd_hash_block :: string
  rd_round_reward :: u64
  rd_total_shares :: u64
  rd_block_finder :: string
  rd_orphan :: bool
  rd_block_found_time :: int

record connection_miner_data =
  cm_pps :: double
  cm_wps :: double
  cm_guid :: string

record connection_data =
  cd_address :: string
  cd_miner_data :: "(string \<times> connection_miner_data) list"

definition connection_miner_data_new :: "string \<Rightarrow> connection_miner_data" where
  "connection_miner_data_new guid = \<lparr>cm_pps = fl 0, cm_wps = fl 0, cm_guid = guid\<rparr>"

definition GetTotalPPS :: "connection_data \<Rightarrow> double" where
  "GetTotalPPS d = foldl (\<lambda>PPS (_, m). d_add PPS (cm_pps m)) (fl 0) (cd_miner_data d)"

definition GetTotalWPS :: "connection_data \<Rightarrow> double" where
  "GetTotalWPS d = foldl (\<lambda>WPS (_, m). d_add WPS (cm_wps m)) (fl 0) (cd_miner_data d)"

section \<open>The database object\<close>

datatype statement =
    Update_pool_data | Save_connection_data | Add_round_data | Flag_round_as_orphan | Update_account_data
  | Clear_account_round_shares | Add_account_earnings | Delete_account_earnings | Add_account_payment
  | Delete_account_payment

record sqlite_database =
  sd_init_complete :: bool
  sd_name :: string
  sd_stmt :: "statement \<Rightarrow> nat option"

definition Sqlite_database_new :: "string \<Rightarrow> sqlite_database" where
  "Sqlite_database_new db_name = \<lparr>sd_init_complete = False, sd_name = db_name, sd_stmt = (\<lambda>_. None)\<rparr>"

text \<open>The value of one of the ten members, as it is passed to SQLite.\<close>

definition read_stmt :: "statement \<Rightarrow> sqlite_database \<Rightarrow> nat res" where
  "read_stmt st d = (case sd_stmt d st of None \<Rightarrow> Inl Uninitialised | Some stmt \<Rightarrow> Inr stmt)"

text \<open>The destructor calls \<open>close\<close> as well.\<close>

definition Sqlite_close :: "'s sqlite \<Rightarrow> sqlite_database \<Rightarrow> 's \<Rightarrow> (sqlite_database \<times> 's) res" where
  "Sqlite_close api d s =
     (let d = d\<lparr>sd_init_complete := False\<rparr> in
      rbind (rfold (\<lambda>st s. rbind (read_stmt st d) (\<lambda>stmt. Inr (sq_finalize api stmt s)))
               [Update_pool_data, Save_connection_data, Add_round_data, Flag_round_as_orphan, Update_account_data,
                Clear_account_round_shares, Add_account_earnings, Delete_account_earnings, Add_account_payment,
                Delete_account_payment] s)
        (\<lambda>s. Inr (d, sq_shutdown api (sq_close api s))))"

section \<open>Statements\<close>

text \<open>The loop steps \<open>m_update_pool_data_stmt\<close>, whatever statement it is called with.\<close>

partial_function (option) step_until_free :: "'s sqlite \<Rightarrow> nat \<Rightarrow> 's \<Rightarrow> 's option" where
  "step_until_free api stmt s =
     (case sq_step api stmt s of (ret, s) \<Rightarrow> if ret = SQLITE_BUSY then step_until_free api stmt s else Some s)"

definition exec_statement :: "'s sqlite \<Rightarrow> nat \<Rightarrow> sqlite_database \<Rightarrow> 's \<Rightarrow> 's res option" where
  "exec_statement api stmt d s =
     (if \<not> sd_init_complete d then Some (Inr s)
      else case read_stmt Update_pool_data d of
             Inl e \<Rightarrow> Some (Inl e)
           | Inr update_pool_data_stmt \<Rightarrow> map_option Inr (step_until_free api update_pool_data_stmt s))"

definition tbl_query :: string where
  "tbl_query = ''CREATE TABLE tbl ( str TEXT )''"

definition run_simple_query :: "'s sqlite \<Rightarrow> string \<Rightarrow> 's \<Rightarrow> bool \<times> 's" where
  "run_simple_query api query s =
     (case sq_prepare api tbl_query s of (rc, stmt, s) \<Rightarrow>
        if rc \<noteq> SQLITE_OK then (False, s)
        else case sq_step api stmt s of (rc, s) \<Rightarrow>
          if rc \<noteq> SQLITE_DONE then (False, s) else (True, sq_finalize api stmt s))"

definition bind_param ::
  "'s sqlite \<Rightarrow> (nat \<Rightarrow> int \<Rightarrow> 'v \<Rightarrow> 's \<Rightarrow> 's) \<Rightarrow> nat \<Rightarrow> string \<Rightarrow> 'v \<Rightarrow> 's \<Rightarrow> 's" where
  "bind_param api bind stmt name v s =
     (let index = sq_parameter_index api stmt name s in if index = 0 then s else bind stmt index v s)"

definition bind_param_text :: "'s sqlite \<Rightarrow> nat \<Rightarrow> string \<Rightarrow> string \<Rightarrow> 's \<Rightarrow> 's" where
  "bind_param_text api = bind_param api (sq_bind_text api)"

definition bind_param_int :: "'s sqlite \<Rightarrow> nat \<Rightarrow> string \<Rightarrow> int \<Rightarrow> 's \<Rightarrow> 's" where
  "bind_param_int api = bind_param api (sq_bind_int api)"

definition bind_param_int64 :: "'s sqlite \<Rightarrow> nat \<Rightarrow> string \<Rightarrow> int \<Rightarrow> 's \<Rightarrow> 's" where
  "bind_param_int64 api = bind_param api (sq_bind_int64 api)"

definition bind_param_double :: "'s sqlite \<Rightarrow> nat \<Rightarrow> string \<Rightarrow> double \<Rightarrow> 's \<Rightarrow> 's" where
  "bind_param_double api = bind_param api (sq_bind_double api)"

section \<open>Initialisation\<close>

text \<open>The texts of the source, with the blanks of a line continuation as one space.\<close>

definition schema_queries :: "string list" where
  "schema_queries =
    [''CREATE DATABASE IF NOT EXISTS nxspool;'',
     ''CREATE TABLE IF NOT EXISTS pool_data (id INTEGER PRIMARY KEY AUTOINCREMENT, round_number INTEGER NOT NULL, block_number INTEGER DEFAULT NULL, round_reward INTEGER DEFAULT NULL, total_shares INTEGER DEFAULT NULL, connection_count INTEGER DEFAULT NULL);'',
     ''CREATE TABLE IF NOT EXISTS round_history ( round_number INTEGER PRIMARY KEY, block_number INTEGER DEFAULT NULL, block_hash TEXT NOT NULL, round_reward INTEGER DEFAULT NULL, total_shares INTEGER DEFAULT NULL, block_finder TEXT NOT NULL, orphan INTEGER DEFAULT NULL, block_found_time TEXT NOT NULL);'',
     ''CREATE TABLE IF NOT EXISTS connection_history ( account_address TEXT NOT NULL, series_time TEXT NOT NULL, last_save_time TEXT NOT NULL, connection_count INTEGER DEFAULT NULL, pps REAL DEFAULT NULL, wps REAL DEFAULT NULL, PRIMARY KEY (account_address, series_time));'',
     ''CREATE TABLE IF NOT EXISTS account_data ( account_address TEXT PRIMARY KEY, last_save_time TEXT NOT NULL, connection_count INTEGER DEFAULT NULL, round_shares INTEGER DEFAULT NULL, balance INTEGER DEFAULT NULL, pending_payout INTEGER DEFAULT NULL);'',
     ''CREATE TABLE IF NOT EXISTS earnings_history ( account_address TEXT PRIMARY KEY, round_number INTEGER NOT NULL , block_number INTEGER DEFAULT NULL, round_shares INTEGER DEFAULT NULL, amount_earned INTEGER DEFAULT NULL, datetime TEXT NOT NULL);'',
     ''CREATE INDEX idx_earnings_history ON earnings_history (account_address, round_number);'',
     ''CREATE TABLE IF NOT EXISTS payment_history ( account_address TEXT PRIMARY KEY, round_number INTEGER NOT NULL , block_number INTEGER DEFAULT NULL, amount_paid INTEGER DEFAULT NULL, datetime TEXT NOT NULL);'',
     ''CREATE INDEX idx_payment_history ON payment_history (account_address, block_number);'']"

text \<open>A quotation mark of SQL is the character \<open>CHR 39\<close>.\<close>

definition quoted :: "string \<Rightarrow> string" where
  "quoted s = CHR 39 # s @ [CHR 39]"

definition prepared_queries :: "(statement \<times> string) list" where
  "prepared_queries =
    [(Update_pool_data, ''REPLACE INTO nxspool.pool_data VALUES (:round, :blocknumber, :roundreward, :totalshares, :connectioncount);''),
     (Save_connection_data, ''REPLACE INTO nxspool.connection_history VALUES ('' @ quoted '':address'' @ '', '' @ quoted '':seriestime'' @ '', '' @ quoted '':time'' @ '', :connectioncount, :pps, :wps);''),
     (Add_round_data, ''INSERT INTO nxspool.round_history VALUES (:round, :blocknumber, '' @ quoted '':hashblock'' @ '', :roundrewards, :totalshares, '' @ quoted '':blockfinder'' @ '', :orphan, '' @ quoted '':blockfoundtime'' @ '');''),
     (Flag_round_as_orphan, ''UPDATE nxspool.round_history SET orphan = 1 WHERE round_number = :round;''),
     (Update_account_data, ''INSERT INTO nxspool.account_data (account_address, last_save_time, connection_count, round_shares, balance, pending_payout) VALUES ('' @ quoted '':accountaddress'' @ '', :currenttime, :connections, :shares, :balance, :pendingpayouts) ON CONFLICT(account_address) DO UPDATE SET last_save_time = excluded.last_save_time, connection_count = excluded.connection_count, round_shares = excluded.round_shares, balance = excluded.balance, pending_payout = excluded.pending_payout; ''),
     (Clear_account_round_shares, ''UPDATE nxspool.account_data SET round_shares = 0 ;''),
     (Add_account_earnings, ''INSERT INTO nxspool.earnings_history VALUES ('' @ quoted '':accountaddress'' @ '', :round, :blocknumber, :shares, :amountearned, '' @ quoted '':time'' @ '';''),
     (Delete_account_earnings, ''DELETE FROM nxspool.earnings_history WHERE account_address='' @ quoted '':accountaddress'' @ '' AND round_number= :round;''),
     (Add_account_payment, ''INSERT INTO nxspool.payment_history VALUES ('' @ quoted '':accountaddress'' @ '', :round, :blocknumber, :amountpaid, '' @ quoted '':time'' @ '');''),
     (Delete_account_payment, ''DELETE FROM nxspool.payment_history WHERE account_address='' @ quoted '':accountaddress'' @ '' AND round_number= :round;'')]"

fun run_queries :: "'s sqlite \<Rightarrow> string list \<Rightarrow> 's \<Rightarrow> bool \<times> 's" where
  "run_queries api [] s = (True, s)"
| "run_queries api (q # qs) s =
     (case run_simple_query api q s of (ok, s) \<Rightarrow> if \<not> ok then (False, s) else run_queries api qs s)"

fun prepare_queries ::
  "'s sqlite \<Rightarrow> (statement \<times> string) list \<Rightarrow> sqlite_database \<Rightarrow> 's \<Rightarrow> bool \<times> sqlite_database \<times> 's" where
  "prepare_queries api [] d s = (True, d, s)"
| "prepare_queries api ((st, q) # qs) d s =
     (case sq_prepare api q s of (ret, stmt, s) \<Rightarrow>
        let d = d\<lparr>sd_stmt := (sd_stmt d)(st \<mapsto> stmt)\<rparr> in
        if ret \<noteq> SQLITE_OK then (False, d, s) else prepare_queries api qs d s)"

definition Sqlite_init :: "'s sqlite \<Rightarrow> sqlite_database \<Rightarrow> 's \<Rightarrow> bool \<times> sqlite_database \<times> 's" where
  "Sqlite_init api d s =
     (case sq_open api (sd_name d) (sq_initialize api s) of (result, s) \<Rightarrow>
        if result \<noteq> 0 then (False, d, s)
        else case run_queries api schema_queries s of (ok, s) \<Rightarrow>
          if \<not> ok then (False, d, s)
          else case prepare_queries api prepared_queries d s of (ok, d, s) \<Rightarrow>
            if \<not> ok then (False, d, s) else (True, d\<lparr>sd_init_complete := True\<rparr>, s))"

section \<open>Writing\<close>

definition update_pool_data :: "'s sqlite \<Rightarrow> pool_data \<Rightarrow> sqlite_database \<Rightarrow> 's \<Rightarrow> 's res option" where
  "update_pool_data api p d s =
     (case read_stmt Update_pool_data d of
        Inl e \<Rightarrow> Some (Inl e)
      | Inr stmt \<Rightarrow>
          let s = bind_param_int api stmt ''round'' (sint (pd_round p)) s;
              s = bind_param_int api stmt ''blocknumber'' (sint (pd_block_number p)) s;
              s = bind_param_int64 api stmt ''roundreward'' (sint (pd_round_reward p)) s;
              s = bind_param_int64 api stmt ''totalshares'' (sint (pd_total_shares p)) s;
              s = bind_param_int api stmt ''connectioncount'' (sint (pd_connection_count p)) s
          in exec_statement api stmt d s)"

text \<open>
  \<open>std::time(&nTime)\<close> writes the current time \<open>now\<close> into the parameter and returns it, so that the time given
  is lost; \<open>put_time\<close> is the text of a point in time in the local time zone.
\<close>

definition time_to_string :: "(int \<Rightarrow> string) \<Rightarrow> int \<Rightarrow> int \<Rightarrow> string" where
  "time_to_string put_time now nTime = (let nTime = now; t = nTime in put_time t)"

definition add_round_data ::
  "'s sqlite \<Rightarrow> (int \<Rightarrow> string) \<Rightarrow> int \<Rightarrow> round_data \<Rightarrow> sqlite_database \<Rightarrow> 's \<Rightarrow> 's res option" where
  "add_round_data api put_time now r d s =
     (case read_stmt Save_connection_data d of
        Inl e \<Rightarrow> Some (Inl e)
      | Inr stmt \<Rightarrow>
          let s = bind_param_int api stmt ''round'' (sint (rd_round r)) s;
              s = bind_param_int api stmt ''blocknumber'' (sint (rd_block_number r)) s;
              s = bind_param_text api stmt ''hashblock'' (rd_hash_block r) s;
              s = bind_param_int64 api stmt ''roundrewards'' (sint (rd_round_reward r)) s;
              s = bind_param_int64 api stmt ''totalshares'' (sint (rd_total_shares r)) s;
              s = bind_param_text api stmt ''blockfinder'' (rd_block_finder r) s;
              s = bind_param_int api stmt ''orphan'' (if rd_orphan r then 1 else 0) s;
              s = bind_param_text api stmt ''blockfoundtime'' (time_to_string put_time now (rd_block_found_time r)) s
          in exec_statement api stmt d s)"

text \<open>A round is written at a point in time. The remaining operations of the interface have empty bodies.\<close>

datatype database_operation =
    Write_pool_data pool_data
  | Write_round_data int round_data
  | Empty_operation

definition run_operation ::
  "'s sqlite \<Rightarrow> (int \<Rightarrow> string) \<Rightarrow> sqlite_database \<Rightarrow> database_operation \<Rightarrow> 's \<Rightarrow> 's res option" where
  "run_operation api put_time d op s =
     (case op of
        Write_pool_data p \<Rightarrow> update_pool_data api p d s
      | Write_round_data now r \<Rightarrow> add_round_data api put_time now r d s
      | Empty_operation \<Rightarrow> Some (Inr s))"

fun run_operations ::
  "'s sqlite \<Rightarrow> (int \<Rightarrow> string) \<Rightarrow> sqlite_database \<Rightarrow> database_operation list \<Rightarrow> 's \<Rightarrow> 's res option" where
  "run_operations api put_time d [] s = Some (Inr s)"
| "run_operations api put_time d (op # ops) s =
     (case run_operation api put_time d op s of
        None \<Rightarrow> None
      | Some (Inl e) \<Rightarrow> Some (Inl e)
      | Some (Inr s) \<Rightarrow> run_operations api put_time d ops s)"

section \<open>What SQLite documents\<close>

text \<open>
  A table is created once: preparing \<open>CREATE TABLE\<close> for a table that exists is an error, stepping the
  statement to its end creates the table, and finalising a statement drops no table.
\<close>

definition creates_once :: "'s sqlite \<Rightarrow> ('s \<Rightarrow> bool) \<Rightarrow> bool" where
  "creates_once api has_tbl \<longleftrightarrow>
     (\<forall>s. has_tbl s \<longrightarrow> fst (sq_prepare api tbl_query s) \<noteq> SQLITE_OK) \<and>
     (\<forall>s stmt s1 s2. sq_prepare api tbl_query s = (SQLITE_OK, stmt, s1) \<longrightarrow>
        sq_step api stmt s1 = (SQLITE_DONE, s2) \<longrightarrow> has_tbl s2) \<and>
     (\<forall>s stmt. has_tbl s \<longrightarrow> has_tbl (sq_finalize api stmt s))"

text \<open>
  The parameters of a statement that was prepared with success: a name starts with the character that
  introduces the parameter, which is part of the name.
\<close>

definition parameters_have_prefix :: "'s sqlite \<Rightarrow> nat \<Rightarrow> bool" where
  "parameters_have_prefix api stmt \<longleftrightarrow>
     (\<forall>name s. sq_parameter_index api stmt name s \<noteq> 0 \<longrightarrow> name \<noteq> [] \<and> hd name \<in> set '':@$?'')"

section \<open>Laws\<close>

lemma run_simple_query_creates:
  assumes "creates_once api has_tbl" and "run_simple_query api q s = (True, s')"
  shows "has_tbl s'"
  using assms by (auto simp: run_simple_query_def creates_once_def split: prod.splits if_splits)

lemma run_simple_query_fails:
  assumes "creates_once api has_tbl" and "has_tbl s"
  shows "\<exists>s'. run_simple_query api q s = (False, s')"
  using assms by (cases "sq_prepare api tbl_query s") (auto simp: run_simple_query_def creates_once_def)

lemma two_queries_fail:
  assumes "creates_once api has_tbl"
  shows "\<exists>s'. run_queries api (q1 # q2 # qs) s = (False, s')"
proof (cases "run_simple_query api q1 s")
  case (Pair ok s1)
  show ?thesis
  proof (cases ok)
    case True
    with Pair run_simple_query_creates [OF assms, of q1 s s1] have "has_tbl s1" by simp
    from run_simple_query_fails [OF assms this, of q2] Pair True show ?thesis by auto
  next
    case False
    with Pair show ?thesis by simp
  qed
qed

lemma init_fails:
  assumes "creates_once api has_tbl"
  shows "\<exists>s'. Sqlite_init api d s = (False, d, s')"
proof -
  obtain result s1 where o: "sq_open api (sd_name d) (sq_initialize api s) = (result, s1)" by fastforce
  obtain q1 q2 qs where q: "schema_queries = q1 # q2 # qs" by (simp add: schema_queries_def)
  from two_queries_fail [OF assms, of q1 q2 qs s1] o q show ?thesis by (auto simp: Sqlite_init_def)
qed

lemma bind_param_nothing:
  assumes "parameters_have_prefix api stmt" and "hd name \<notin> set '':@$?''"
  shows "bind_param api bind stmt name v s = s"
proof -
  from assms have "sq_parameter_index api stmt name s = 0"
    unfolding parameters_have_prefix_def by blast
  then show ?thesis by (simp add: bind_param_def)
qed

text \<open>
  Even with statements that were prepared nothing would be written: the names lack their prefix, so that no
  parameter is bound, and only the statement of the pool data is executed.
\<close>

lemma prepared_writes_bind_nothing:
  assumes "sd_stmt d Update_pool_data = Some stmt" and "parameters_have_prefix api stmt"
    and "sd_stmt d Save_connection_data = Some stmt'" and "parameters_have_prefix api stmt'"
  shows "update_pool_data api p d s = exec_statement api stmt d s"
    and "add_round_data api put_time now r d s = exec_statement api stmt d s"
  using assms
  by (simp_all add: update_pool_data_def add_round_data_def read_stmt_def bind_param_text_def bind_param_int_def
      bind_param_int64_def bind_param_nothing exec_statement_def Let_def)

lemma new_operations:
  "run_operations api put_time (Sqlite_database_new db_name) ops s =
     Some (if \<forall>op \<in> set ops. op = Empty_operation then Inr s else Inl Uninitialised)"
proof (induction ops)
  case (Cons op ops)
  then show ?case
    by (cases op) (simp_all add: run_operation_def update_pool_data_def add_round_data_def read_stmt_def
        Sqlite_database_new_def)
qed simp

section \<open>The database cannot be used\<close>

text \<open>
  C18: The statistics database never works, and cannot be used safely. With tables that SQLite creates only
  once, as it documents, \<open>init\<close> of a new database returns false for every file, because every one of its
  queries creates the same table, and it leaves the ten statements uninitialised. After that the operations
  with empty bodies do nothing, the first one that writes passes an uninitialised pointer to SQLite, and so
  does \<open>close\<close>, which the destructor calls.
\<close>

theorem statistics_database_unusable:
  assumes "creates_once api has_tbl"
  shows "\<exists>s1. Sqlite_init api (Sqlite_database_new db_name) s = (False, Sqlite_database_new db_name, s1)
    \<and> (\<forall>ops. run_operations api put_time (Sqlite_database_new db_name) ops s1 =
          Some (if \<forall>op \<in> set ops. op = Empty_operation then Inr s1 else Inl Uninitialised))
    \<and> Sqlite_close api (Sqlite_database_new db_name) s1 = Inl Uninitialised"
proof -
  from init_fails [OF assms, of "Sqlite_database_new db_name" s] obtain s1
    where "Sqlite_init api (Sqlite_database_new db_name) s = (False, Sqlite_database_new db_name, s1)" by blast
  moreover have "Sqlite_close api (Sqlite_database_new db_name) s1 = Inl Uninitialised"
    by (simp add: Sqlite_close_def Sqlite_database_new_def read_stmt_def Let_def)
  ultimately show ?thesis by (intro exI [of _ s1] conjI allI new_operations)
qed

text \<open>A database whose state is whether \<open>tbl\<close> exists and the values bound so far.\<close>

definition example_sqlite :: "(bool \<times> int list) sqlite" where
  "example_sqlite =
     \<lparr>sq_initialize = (\<lambda>s. s), sq_open = (\<lambda>_ s. (0, s)),
      sq_prepare = (\<lambda>q s. if q = tbl_query \<and> fst s then (1, 0, s) else (0, if q = tbl_query then 1 else 2, s)),
      sq_step = (\<lambda>stmt s. (101, if stmt = 1 then (True, snd s) else s)),
      sq_finalize = (\<lambda>_ s. s),
      sq_parameter_index = (\<lambda>_ name _. if name \<noteq> [] \<and> hd name = CHR '':'' then 1 else 0),
      sq_bind_text = (\<lambda>_ i _ s. (fst s, i # snd s)), sq_bind_int = (\<lambda>_ i _ s. (fst s, i # snd s)),
      sq_bind_int64 = (\<lambda>_ i _ s. (fst s, i # snd s)), sq_bind_double = (\<lambda>_ i _ s. (fst s, i # snd s)),
      sq_close = (\<lambda>s. s), sq_shutdown = (\<lambda>s. s)\<rparr>"

theorem statistics_database_unusable_witness:
  "\<exists>s1. Sqlite_init example_sqlite (Sqlite_database_new ''stats.db'') (False, []) =
      (False, Sqlite_database_new ''stats.db'', s1)
    \<and> run_operations example_sqlite (\<lambda>_. ''2021-01-01'') (Sqlite_database_new ''stats.db'')
        [Empty_operation, Write_pool_data \<lparr>pd_round = 1, pd_block_number = 2, pd_round_reward = 3, pd_total_shares = 4,
          pd_connection_count = 5\<rparr>] s1 = Some (Inl Uninitialised)
    \<and> Sqlite_close example_sqlite (Sqlite_database_new ''stats.db'') s1 = Inl Uninitialised"
proof -
  have "creates_once example_sqlite fst"
    by (auto simp: creates_once_def example_sqlite_def SQLITE_OK_def SQLITE_DONE_def split: if_splits)
  from statistics_database_unusable [OF this, of "''stats.db''" "(False, [])" "\<lambda>_. ''2021-01-01''"] obtain s1 where
    s1: "Sqlite_init example_sqlite (Sqlite_database_new ''stats.db'') (False, []) =
      (False, Sqlite_database_new ''stats.db'', s1)"
    "\<And>ops. run_operations example_sqlite (\<lambda>_. ''2021-01-01'') (Sqlite_database_new ''stats.db'') ops s1 =
      Some (if \<forall>op \<in> set ops. op = Empty_operation then Inr s1 else Inl Uninitialised)"
    "Sqlite_close example_sqlite (Sqlite_database_new ''stats.db'') s1 = Inl Uninitialised" by blast
  show ?thesis by (intro exI [of _ s1]) (simp add: s1 del: run_operations.simps)
qed

end
