(* ===== verification/Stats_Collector.thy ===== *)
theory Stats_Collector
  imports Pool_State
begin

text \<open>
  The collector of statistics (\<open>src/src/stats_collector.hpp\<close>, \<open>stats_collector.cpp\<close>). The registry makes one and
  calls none of its operations. In this commit most of them have empty bodies; the model says so, with the
  arguments each takes, and that the others reach nothing either.

  Weak pointers to miner connections are the numbers of \<open>Pool_State\<close>; the map \<open>CONNECTIONS_BY_ADDRESS\<close> is never
  used.
\<close>

section \<open>State\<close>

record stats_collector =
  sc_pool_connections :: "nat list"
  sc_persistance_timer :: bool

definition Stats_collector_default :: stats_collector where
  "Stats_collector_default = \<lparr>sc_pool_connections = [], sc_persistance_timer = False\<rparr>"

definition Stats_collector_new :: "bool \<Rightarrow> stats_collector" where
  "Stats_collector_new persistance_timer =
     \<lparr>sc_pool_connections = [], sc_persistance_timer = persistance_timer\<rparr>"

section \<open>Operations\<close>

text \<open>
  \<open>init\<close> goes through the timer, which the default constructor leaves null, and takes a shared pointer to
  itself. The base \<open>enable_shared_from_this\<close> is private, so no shared pointer ever sets it up, and
  \<open>shared_from_this\<close> throws.
\<close>

definition stats_init :: "stats_collector \<Rightarrow> stats_collector res" where
  "stats_init s = (if \<not> sc_persistance_timer s then Inl Null_deref else Inl Exception_thrown)"

definition stats_add_pool_connection :: "nat \<Rightarrow> stats_collector \<Rightarrow> stats_collector" where
  "stats_add_pool_connection i s = s\<lparr>sc_pool_connections := sc_pool_connections s @ [i]\<rparr>"

definition increment_connection_count :: "string \<Rightarrow> string \<Rightarrow> stats_collector \<Rightarrow> stats_collector" where
  "increment_connection_count address GUID s = s"

definition decrement_connection_count :: "string \<Rightarrow> string \<Rightarrow> stats_collector \<Rightarrow> stats_collector" where
  "decrement_connection_count address GUID s = s"

definition get_connectoin_count :: "string \<Rightarrow> stats_collector \<Rightarrow> int" where
  "get_connectoin_count address s = 0"

text \<open>The updates of connections, pool, accounts and rounds.\<close>

datatype stats_update =
    Update_connection_data string string double double
  | Update_pool_data
  | Update_account_data bool
  | Clear_account_round_shares
  | Save_current_round
  | Flag_round_as_orphan u32
  | Add_account_earnings string u32 u32 u64 u64 u64
  | DeleteAccountEarnings string u32
  | AddAccountPayment string u32 u32 u64 u64
  | DeleteAccountPayment string u32

fun collect :: "stats_update \<Rightarrow> stats_collector \<Rightarrow> stats_collector" where
  "collect (Update_connection_data address guid PPS WPS) s = s"
| "collect Update_pool_data s = s"
| "collect (Update_account_data update_all) s = s"
| "collect Clear_account_round_shares s = s"
| "collect Save_current_round s = s"
| "collect (Flag_round_as_orphan orphan_round) s = s"
| "collect (Add_account_earnings account_address acc_round block_number shares amount_earned time) s = s"
| "collect (DeleteAccountEarnings account_address acc_round) s = s"
| "collect (AddAccountPayment account_address acc_round block_number amount_paid time) s = s"
| "collect (DeleteAccountPayment account_address acc_round) s = s"

section \<open>Nothing is collected\<close>

text \<open>No operation but the registration of a connection changes the collector, and the timer is never started.\<close>

lemma stats_collect_nothing:
  "\<not> is_ok_res (stats_init s)" "collect u s = s"
  "increment_connection_count a g s = s" "decrement_connection_count a g s = s"
  "get_connectoin_count a (stats_add_pool_connection i s) = get_connectoin_count a s"
  by (simp_all add: stats_init_def increment_connection_count_def decrement_connection_count_def
      get_connectoin_count_def)
    (cases u; simp)

end
