(* ===== verification/Uint_Text.thy ===== *)
theory Uint_Text
  imports Address_Properties
begin

text \<open>
  The hexadecimal text of the integers of \<open>src/src/hash/uint1024.h\<close> and the conversions between their four
  sizes. The text lists the bytes of the object from its last to its first, which on a little endian machine
  is the number from its most significant digit on. A C string ends at its first character 0.
\<close>

section \<open>Digits\<close>

definition c_isspace :: "char \<Rightarrow> bool" where
  "c_isspace c \<longleftrightarrow> c \<in> {CHR 0x20, CHR 0x09, CHR 0x0A, CHR 0x0B, CHR 0x0C, CHR 0x0D}"

definition phexdigit :: "char \<Rightarrow> u8" where
  "phexdigit c =
     (let n = of_char c :: nat in
      if 48 \<le> n \<and> n < 58 then of_nat (n - 48)
      else if 65 \<le> n \<and> n < 71 then of_nat (n - 55)
      else if 97 \<le> n \<and> n < 103 then of_nat (n - 87) else 0)"

definition hex_digit :: "nat \<Rightarrow> char" where
  "hex_digit n = ''0123456789abcdef'' ! n"

definition hex_byte :: "u8 \<Rightarrow> string" where
  "hex_byte b = [hex_digit (unat (drop_bit 4 b)), hex_digit (unat (b AND 0xF))]"

section \<open>Writing and reading\<close>

definition GetHex :: "base_uint \<Rightarrow> string" where
  "GetHex a = concat (map hex_byte (rev (hash_memory a)))"

text \<open>The characters of the digits, from \<open>psz\<close> down to \<open>pbegin\<close>, into the bytes from \<open>p1\<close> up to \<open>pend\<close>.\<close>

fun hex_bytes :: "string \<Rightarrow> nat \<Rightarrow> bytes" where
  "hex_bytes ds 0 = []"
| "hex_bytes [] (Suc n) = replicate (Suc n) 0"
| "hex_bytes [d] (Suc n) = phexdigit d # replicate n 0"
| "hex_bytes (d # e # ds) (Suc n) = (phexdigit d OR push_bit 4 (phexdigit e)) # hex_bytes ds n"

definition skip_prefix :: "string \<Rightarrow> string" where
  "skip_prefix s =
     (case s of c # d # rest \<Rightarrow> if c = CHR ''0'' \<and> (d = CHR ''x'' \<or> d = CHR ''X'') then rest else s | _ \<Rightarrow> s)"

definition is_hex :: "char \<Rightarrow> bool" where
  "is_hex c \<longleftrightarrow> phexdigit c \<noteq> 0 \<or> c = CHR ''0''"

definition SetHex :: "nat \<Rightarrow> string \<Rightarrow> base_uint" where
  "SetHex w s =
     (let digits = takeWhile is_hex (skip_prefix (dropWhile c_isspace (c_str s)))
      in BaseUint (mem_words (hex_bytes (rev digits) (w * 4))))"

section \<open>Conversions\<close>

text \<open>From a vector: its memory when the size fits, otherwise 0; the vector of \<open>uint512\<close> is read by \<open>SetBytes\<close>.\<close>

definition uint_of_vector :: "nat \<Rightarrow> bytes \<Rightarrow> base_uint" where
  "uint_of_vector w vch = (if length vch = 4 * w then BaseUint (mem_words vch) else bu_assign64 w 0)"

definition uint512_of_vector :: "bytes \<Rightarrow> base_uint res" where
  "uint512_of_vector vch = SetBytes 16 vch"

definition uint1024_of_narrow :: "base_uint \<Rightarrow> base_uint" where
  "uint1024_of_narrow b = BaseUint (map (\<lambda>i. if i < width b then pn b ! i else 0) [0..<32])"

definition getuint256 :: "base_uint \<Rightarrow> base_uint" where
  "getuint256 a = BaseUint (map (\<lambda>i. pn a ! i) [0..<8])"

definition getuint512 :: "base_uint \<Rightarrow> base_uint" where
  "getuint512 a = BaseUint (map (\<lambda>i. pn a ! i) [0..<16])"

definition high_bits :: "base_uint \<Rightarrow> u32 \<Rightarrow> u32" where
  "high_bits a m = pn a ! (width a - 1) AND m"

section \<open>One byte\<close>

lemma phexdigit_hex_digit: "n < 16 \<Longrightarrow> phexdigit (hex_digit n) = of_nat n"
proof -
  assume "n < 16"
  then have "n \<in> set [0..<16]" by simp
  moreover have "\<forall>n \<in> set [0..<16]. phexdigit (hex_digit n) = of_nat n"
    by (simp add: upt_rec hex_digit_def phexdigit_def)
  ultimately show ?thesis by blast
qed

lemma is_hex_hex_digit: "n < 16 \<Longrightarrow> is_hex (hex_digit n)"
proof -
  assume "n < 16"
  then have "n \<in> set [0..<16]" by simp
  moreover have "\<forall>n \<in> set [0..<16]. is_hex (hex_digit n)"
    by (simp add: upt_rec hex_digit_def phexdigit_def is_hex_def)
  ultimately show ?thesis by blast
qed

lemma low_half: "b AND 0xF = take_bit 4 (b :: u8)"
  by (simp add: take_bit_eq_mask mask_eq_exp_minus_1)

lemma unat_halves: "unat (drop_bit 4 (b :: u8)) < 16" "unat (b AND 0xF) < 16"
proof -
  have "unat b < 2 ^ 4 * 16" using unat_u8_less [of b] by simp
  then have "unat b div 2 ^ 4 < 16" by (simp add: less_mult_imp_div_less del: power_numeral)
  then show "unat (drop_bit 4 b) < 16" unfolding unat_drop_bit_eq by (simp only: drop_bit_eq_div)
  have "unat (take_bit 4 b) = take_bit 4 (unat b)" by (simp only: unsigned_take_bit_eq)
  moreover have "take_bit 4 (unat b) < 16" by (simp add: take_bit_eq_mod)
  ultimately show "unat (b AND 0xF) < 16" by (simp only: low_half)
qed

lemma halves_join: "(b AND 0xF) OR push_bit 4 (drop_bit 4 b) = (b :: u8)"
  unfolding low_half
proof (rule bit_word_eqI)
  fix n assume "n < LENGTH(8)"
  then show "bit (take_bit 4 b OR push_bit 4 (drop_bit 4 b)) n = bit b n"
    by (cases "n < 4") (simp_all add: bit_simps)
qed

lemma byte_of_hex:
  "hex_byte b = [d, e] \<Longrightarrow> phexdigit e OR push_bit 4 (phexdigit d) = b"
  by (auto simp: hex_byte_def phexdigit_hex_digit unat_halves halves_join)

lemma hex_bytes_write: "hex_bytes (concat (map (rev \<circ> hex_byte) bs)) (length bs) = bs"
  by (induction bs) (simp_all add: hex_byte_def phexdigit_hex_digit unat_halves halves_join)

lemma rev_GetHex: "rev (GetHex a) = concat (map (rev \<circ> hex_byte) (hash_memory a))"
  by (simp add: GetHex_def rev_concat rev_map comp_def)

lemma GetHex_hex: "\<forall>c \<in> set (GetHex a). is_hex c"
  by (auto simp: GetHex_def hex_byte_def is_hex_hex_digit unat_halves)

section \<open>Numbers\<close>

text \<open>The value of a digit sequence from its last digit on, and of memory from its first byte on.\<close>

definition digits_value :: "string \<Rightarrow> nat" where
  "digits_value rds = foldr (\<lambda>c v. unat (phexdigit c) + 16 * v) rds 0"

definition memory_value :: "bytes \<Rightarrow> nat" where
  "memory_value bs = foldr (\<lambda>b v. unat b + 256 * v) bs 0"

lemma value_simps [simp]:
  "digits_value [] = 0" "digits_value (c # cs) = unat (phexdigit c) + 16 * digits_value cs"
  "memory_value [] = 0" "memory_value (b # bs) = unat b + 256 * memory_value bs"
  by (simp_all add: digits_value_def memory_value_def)

lemma memory_value_zeros [simp]: "memory_value (replicate n 0) = 0"
  by (induction n) simp_all

lemma phexdigit_less: "unat (phexdigit c) < 16"
proof -
  have small: "n < 16 \<Longrightarrow> unat (of_nat n :: u8) < 16" for n
    by (simp add: unat_of_nat)
  show ?thesis
    unfolding phexdigit_def Let_def
    by (auto simp del: of_nat_diff intro!: small)
qed

lemma join_digits: "unat (phexdigit d OR push_bit 4 (phexdigit e)) = unat (phexdigit d) + 16 * unat (phexdigit e)"
proof -
  have "unat (push_bit 4 (phexdigit e)) = 16 * unat (phexdigit e)"
    using phexdigit_less [of e] by (simp add: push_bit_eq_mult unat_word_ariths)
  moreover have "phexdigit d = take_bit 4 (phexdigit d)"
    using phexdigit_less [of d] by (simp add: word_unat_eq_iff unsigned_take_bit_eq take_bit_nat_eq_self)
  then have "bit (phexdigit d) i \<Longrightarrow> i < 4" for i by (metis bit_take_bit_iff)
  then have "phexdigit d AND push_bit 4 (phexdigit e) = 0"
    by (intro bit_word_eqI) (auto simp: bit_simps not_less [symmetric])
  ultimately show ?thesis
    using phexdigit_less [of d] phexdigit_less [of e]
    by (simp add: disjunctive_add_eq_or [symmetric] unat_word_ariths)
qed

lemma mod_by_byte:
  fixes h v n :: nat
  assumes "h < 256"
  shows "(h + 256 * v) mod 256 ^ Suc n = h + 256 * (v mod 256 ^ n)"
proof -
  have "(h + 256 * v) mod (256 * 256 ^ n) = 256 * ((h + 256 * v) div 256 mod 256 ^ n) + (h + 256 * v) mod 256"
    by (rule mod_mult2_eq)
  with assms show ?thesis by simp
qed

lemma value_hex_bytes: "memory_value (hex_bytes rds n) = digits_value rds mod 256 ^ n"
proof (induction rds n rule: hex_bytes.induct)
  case (3 d n)
  have "unat (phexdigit d) < 256" using phexdigit_less [of d] by simp
  then show ?case using mod_by_byte [of "unat (phexdigit d)" 0 n] by simp
next
  case (4 d e ds n)
  have "unat (phexdigit d) + 16 * unat (phexdigit e) < 256"
    using phexdigit_less [of d] phexdigit_less [of e] by simp
  from mod_by_byte [OF this, of "digits_value ds" n] 4 show ?case
    by (simp add: join_digits algebra_simps)
qed simp_all

lemma length_hex_bytes [simp]: "length (hex_bytes rds n) = n"
  by (induction rds n rule: hex_bytes.induct) simp_all

lemma words_val_memory: "words_val (mem_words bs) = memory_value bs" if "4 dvd length bs"
  using that
proof (induction bs rule: mem_words.induct)
  case (1 a b c d bs)
  have "length (a # b # c # d # bs) = length bs + 4" by simp
  with 1(2) have "4 dvd length bs" by (metis dvd_add_triv_right_iff)
  then have IH: "words_val (mem_words bs) = memory_value bs" by (rule 1(1))
  have u: "unat a < 256" "unat b < 256" "unat c < 256" "unat d < 256" by (simp_all add: unat_u8_less)
  have "unat (bytes2uint [d, c, b, a] 0) = unat d * 2 ^ 24 + unat c * 2 ^ 16 + unat b * 2 ^ 8 + unat a"
    using u by (simp add: bytes2uint_def push_bit_eq_mult unat_word_ariths unat_ucast_up)
  then show ?case using IH by simp
qed (simp_all add: dvd_def, presburger+)

section \<open>Text to number\<close>

lemma uval_SetHex:
  "uval (SetHex w s) =
     digits_value (rev (takeWhile is_hex (skip_prefix (dropWhile c_isspace (c_str s))))) mod 2 ^ (32 * w)"
proof -
  have "(2 :: nat) ^ (32 * w) = (2 ^ 8) ^ (4 * w)" by (simp only: power_mult [symmetric]) simp
  then have "(256 :: nat) ^ (w * 4) = 2 ^ (32 * w)" by (simp add: mult.commute)
  then show ?thesis
    by (simp add: SetHex_def uval_def Let_def words_val_memory value_hex_bytes)
qed

lemma c_str_append: "CHR 0x00 \<notin> set xs \<Longrightarrow> c_str (xs @ ys) = xs @ c_str ys"
  by (induction xs) (auto simp: c_str_def)

lemma dropWhile_spaces: "\<forall>c \<in> set xs. P c \<Longrightarrow> (ys \<noteq> [] \<Longrightarrow> \<not> P (hd ys)) \<Longrightarrow> dropWhile P (xs @ ys) = ys"
  by (cases ys) (auto simp: dropWhile_append3)

lemma takeWhile_digits: "\<forall>c \<in> set xs. P c \<Longrightarrow> (ys \<noteq> [] \<Longrightarrow> \<not> P (hd ys)) \<Longrightarrow> takeWhile P (xs @ ys) = xs"
  by (cases ys) auto

lemma is_hex_no_mark: "is_hex c \<Longrightarrow> c \<noteq> CHR 0x00 \<and> \<not> c_isspace c \<and> c \<noteq> CHR ''x'' \<and> c \<noteq> CHR ''X''"
  by (auto simp: is_hex_def phexdigit_def c_isspace_def)

lemma spaces_no_nul: "\<forall>c \<in> set xs. c_isspace c \<Longrightarrow> CHR 0x00 \<notin> set xs"
proof -
  have "\<not> c_isspace CHR 0x00" by (simp add: c_isspace_def)
  then show "\<forall>c \<in> set xs. c_isspace c \<Longrightarrow> CHR 0x00 \<notin> set xs" by blast
qed

lemma hex_no_nul: "\<forall>c \<in> set xs. is_hex c \<Longrightarrow> CHR 0x00 \<notin> set xs"
  by (meson is_hex_no_mark)

lemma SetHex_GetHex_written:
  "mem_words (hex_bytes (rev (GetHex a)) (width a * 4)) = pn a"
  using hex_bytes_write [of "hash_memory a"]
  by (simp add: rev_GetHex length_hash_memory mult.commute) (simp add: hash_memory_def mem_words_memory)

lemma GetHex_not_empty: "0 < width a \<Longrightarrow> \<exists>c d ds. GetHex a = c # d # ds"
  using length_hash_memory [of a]
  by (cases "hash_memory a" rule: rev_cases) (auto simp: GetHex_def hex_byte_def)

text \<open>
  C37: Printing and reading agree. \<open>SetHex\<close> on the text that \<open>GetHex\<close> gives, preceded by any white space
  and one of the prefixes \<open>0x\<close> and \<open>0X\<close> or none, and followed by any characters the first of which is not a
  hexadecimal digit (in particular by the end of the C string), gives back the number, whatever its width.
  And \<open>SetHex\<close> on any text is the number of its hexadecimal digits modulo the size of the integer.
\<close>

theorem hex_text_reads_back:
  assumes "\<forall>c \<in> set spaces. c_isspace c" and "prefix \<in> {[], ''0x'', ''0X''}"
    and "0 < width a" and "rest \<noteq> [] \<Longrightarrow> \<not> is_hex (hd rest)"
  shows "SetHex (width a) (spaces @ prefix @ GetHex a @ rest) = a
    \<and> (\<forall>w s. uval (SetHex w s) =
          digits_value (rev (takeWhile is_hex (skip_prefix (dropWhile c_isspace (c_str s))))) mod 2 ^ (32 * w))"
proof -
  obtain c d ds where hex: "GetHex a = c # d # ds" using GetHex_not_empty [OF assms(3)] by blast
  have digit: "is_hex c" "is_hex d" using GetHex_hex [of a] by (simp_all add: hex)
  have nul: "CHR 0x00 \<notin> set (spaces @ prefix @ GetHex a)"
    using assms(2) spaces_no_nul [OF assms(1)] hex_no_nul [OF GetHex_hex [of a]] by auto
  have str: "c_str (spaces @ prefix @ GetHex a @ rest) = spaces @ prefix @ GetHex a @ c_str rest"
    using c_str_append [OF nul, of rest] by simp
  have first: "\<not> c_isspace (hd (prefix @ GetHex a @ c_str rest))"
    using assms(2) is_hex_no_mark [OF digit(1)] by (auto simp: hex c_isspace_def)
  have skip: "skip_prefix (prefix @ GetHex a @ c_str rest) = GetHex a @ c_str rest"
    using assms(2) is_hex_no_mark [OF digit(2)] by (auto simp: hex skip_prefix_def)
  have stop: "c_str rest \<noteq> [] \<Longrightarrow> \<not> is_hex (hd (c_str rest))"
    using assms(4) by (cases rest) (auto simp: c_str_def split: if_splits)
  have "takeWhile is_hex (skip_prefix (dropWhile c_isspace (c_str (spaces @ prefix @ GetHex a @ rest)))) = GetHex a"
    unfolding str dropWhile_spaces [OF assms(1) first] skip
    by (rule takeWhile_digits [OF GetHex_hex stop])
  then have "SetHex (width a) (spaces @ prefix @ GetHex a @ rest) = a"
    by (cases a) (use SetHex_GetHex_written [of a] in \<open>simp add: SetHex_def\<close>)
  then show ?thesis by (simp only: uval_SetHex) simp
qed

lemma hex_text_reads_back_witness:
  "SetHex (width (BaseUint [0xBEEF])) ('' '' @ ''0x'' @ GetHex (BaseUint [0xBEEF]) @ ''; next'') = BaseUint [0xBEEF]"
  by (rule hex_text_reads_back [THEN conjunct1]) (simp_all add: c_isspace_def is_hex_def phexdigit_def)

end
