(* ===== verification/Spec2Isabelle.thy ===== *)
theory Spec2Isabelle
  imports Payout_Rounds Store_Properties Wire_Properties Guard_Properties Prime_Properties
    Server_Properties Hash_Properties Hash_Platform Keccak_Duplex
    Network_Properties Networked_Properties Timer_Properties
    Statistics_Database Stats_Collector Uint_Text
begin

text \<open>
  \<^bold>\<open>The program.\<close> NexusPool is a mining pool server for the Nexus network (\<open>src/src\<close>). It accepts miners over
  TCP, hands them blocks it fetched from a wallet, checks the shares they submit, keeps an account for every
  miner address, and pays the accounts through the coinbase transaction of the blocks the pool finds.

  \<^bold>\<open>Its parts, and the theories that model them.\<close>

  \<^item> \<open>Prelude\<close>: machine integers as words, the faults of C++ (\<open>fault\<close>, \<open>res\<close>), checked access to vectors.
    \<open>Std_Map\<close>: \<open>std::map\<close> as a sorted association list, behind the interface \<open>ordered_map\<close>.
    \<open>Double\<close>: IEEE doubles as rationals with rounding, for the credit and difficulty computations.
  \<^item> \<open>Utils\<close> (\<open>utils.hpp\<close>), \<open>Uint1024\<close> (\<open>hash/uint1024.h\<close>), \<open>LLP_Block\<close> (\<open>LLP/block.h\<close>): byte
    conversions, big integers as word lists, the block header and the bytes that are hashed.
  \<^item> \<open>Packet\<close> (\<open>packet.hpp\<close>) and \<open>Daemon_Packet\<close> (\<open>daemon_packet.hpp\<close>, \<open>.cpp\<close>): the two wire protocols.
  \<^item> \<open>Coinbase\<close> (\<open>coinbase.hpp\<close>), \<open>LLD_Database\<close> and \<open>LLD_Record\<close> (\<open>LLD/\<close>): the coinbase transaction, the
    stores of accounts and blocks and their files, behind the interfaces \<open>capped_ledger\<close>, \<open>record_store\<close> and
    \<open>lld_record\<close>. \<open>Data_Registry\<close> (\<open>data_registry.hpp\<close>, \<open>.cpp\<close>): the state all connections share.
    \<open>Config\<close> (\<open>config.hpp\<close>, \<open>.cpp\<close>): the settings.
  \<^item> \<open>LLP_Ddos\<close> (\<open>LLP/ddos.hpp\<close>, \<open>LLP/timer.hpp\<close>) and \<open>Banned_Users\<close> (\<open>banned_users.hpp\<close>): the flood filter
    and the ban lists (\<open>ban_list\<close>).
  \<^item> \<open>Prime\<close>, \<open>Prime_Clusters\<close> (\<open>prime.hpp\<close>): the sieve, the Fermat test and the search for prime clusters.
  \<^item> \<open>Payout_Manager\<close>, \<open>Payout_Rounds\<close> (\<open>payout_manager.cpp\<close>): paying a round, refunding an orphan.
  \<^item> \<open>Base58\<close>, \<open>Base58_Roundtrip\<close> (\<open>base58.h\<close>): addresses and their check.
  \<^item> \<open>Pool_State\<close>: the objects of the running server and their links. \<open>Daemon_Pools\<close>: the list of miners
    of the wallet connection and the interface \<open>block_desk\<close> of \<open>request_block\<close> and \<open>submit_block\<close>.
    \<open>Pool_Connection\<close> (\<open>pool_connection.cpp\<close>): the connection of a miner, one function for each packet.
    \<open>Daemon_Connection\<close> (\<open>daemon_connection.cpp\<close>): the connection of the wallet, its timers and answers.
    \<open>Server\<close> (\<open>server.cpp\<close>): start, events, and the transition relation \<open>step\<close> of the running server.
  \<^item> \<open>Registry_Growth\<close>, \<open>Server_Steps\<close>, \<open>Handler_Steps\<close>: every handler is a sequence of small changes.
    \<open>Server_Invariants\<close>, \<open>Server_Runs\<close>: invariants of the small changes, the block timer, and a concrete server
    for the examples. \<open>Server_Sessions\<close>: the specification of the miner sessions, one function \<open>session_next\<close> of the
    event, and the proof that every step of the server is its step.
  \<^item> \<open>Keccak_F\<close> (\<open>hash/Keccak-compact64.cpp\<close>), \<open>Keccak_Sponge\<close>, \<open>Keccak_Hash\<close>, \<open>Keccak_Duplex\<close>
    (\<open>hash/KeccakSponge.cpp\<close>, \<open>KeccakHash.cpp\<close>, \<open>KeccakDuplex.cpp\<close>): the permutation, the sponge, the hash
    interface and the duplex object. \<open>Keccak_F_Spec\<close> holds the permutation of FIPS 202, \<open>Keccak_Absorb\<close> and
    \<open>Keccak_Squeeze\<close> the proof that the lanes of the code work byte by byte, \<open>Keccak_Spec\<close> the sponge of FIPS 202.
  \<^item> \<open>Skein_Block\<close> (\<open>hash/skein_block.cpp\<close>), \<open>Skein\<close> (\<open>hash/skein.cpp\<close>, \<open>skein.h\<close>, \<open>skein_iv.h\<close>): the block
    functions and the hash; \<open>Skein_Schedule\<close> compares the loop of the 1024 bit block with its unrolled form,
    \<open>Skein_IV\<close> computes the chaining values, \<open>Skein_Spec\<close> is the iteration of blocks over a whole message, with the
    interface \<open>block_function\<close>. \<open>Hash_Templates\<close> (\<open>hash/templates.h\<close>): \<open>SK64\<close> to \<open>SK1024\<close>, Keccak over Skein.
    \<open>Hash_Runs\<close> and \<open>Hash_Properties\<close> state what they compute; \<open>Hash_Platform\<close> runs the server with them.
    \<open>Uint_Text\<close> (\<open>hash/uint1024.h\<close>): hexadecimal text and conversions between the sizes.
  \<^item> \<open>Network_Types\<close> (\<open>network/types.hpp\<close>), \<open>Endpoint\<close>, \<open>Endpoint_Laws\<close> (\<open>network/endpoint.hpp\<close>): result codes, and
    addresses with a port. \<open>Tcp_Connection\<close> (\<open>network/tcp/connection_impl.hpp\<close>) and \<open>Tcp_Socket\<close>
    (\<open>socket_impl.hpp\<close>, \<open>protocol_description.hpp\<close>): connections and the listening socket, with one event for
    every completion of asio and every call of the user. \<open>Tcp_Calls\<close>: the contract of the handler of a connection
    as an automaton, and the invariant that keeps it. \<open>System_Executor\<close>
    (\<open>network/asio/impl/system_context.ipp\<close>, \<open>detail/impl/scheduler.ipp\<close>): the threads that take posted transmissions
    from a first-in first-out queue, and the orders in which these can leave. \<open>Network_Component\<close> (\<open>network/create_component.cpp\<close>,
    \<open>socket_factory.hpp\<close>): the factory of sockets. \<open>Network_Properties\<close>: what holds of them.
  \<^item> \<open>Connection_User\<close>: the other side of that contract, the interface \<open>connection_user\<close> with the laws of a user
    of many connections. \<open>Server_Links\<close> interprets it on the handlers of the server. \<open>Networked_Server\<close>: the
    composition of the server with its socket and connections (\<open>Server::run\<close>), whose events are the completions
    of asio, the posted transmissions and the timers. \<open>Networked_Properties\<close>: what holds of it.
  \<^item> \<open>Chrono_Timer\<close> (\<open>chrono/timer.hpp\<close>, on the waitable timer of \<open>network/asio/detail/\<close>): timers with their waits,
    ready handlers and calls, and the simpler timer the server's model uses as their abstraction
    (\<open>Timer_Properties\<close>).
  \<^item> \<open>Statistics_Database\<close> (\<open>database/\<close>): the statistics database over SQLite. \<open>Stats_Collector\<close>
    (\<open>stats_collector.cpp\<close>): the collector, most of which is empty.

  \<^bold>\<open>How the code is modelled.\<close> An operation is a function with the name it has in the source (a class name is
  added where a library name or another class would clash); a member that is assigned is a field of a record
  that is passed and returned. A null pointer, an access outside a vector, a failed assertion, a throw, or an
  undefined operation is the value \<open>Inl\<close> of a \<open>fault\<close>; every early return is a branch. A loop that may not
  end is a \<open>partial_function\<close> or has a termination proof. Shared and weak pointers to miner connections are
  numbers; an operation under its mutex, and a handler, is one step, and the steps interleave in any order
  that the network and the timers allow (\<open>enabled\<close>). The clock is read once for each event.

  \<^bold>\<open>What is an argument.\<close> The value of the undefined shift of \<open>bytes2uint64\<close> (\<open>shl32\<close>),
  GMP (\<open>gmp\<close>, with its documented behaviour in \<open>gmp_ok\<close> and \<open>gmp_traps\<close>), \<open>std::pow\<close>, \<open>std::sort\<close>
  (\<open>std_sort_ok\<close>), the order in which an unordered set is iterated, the JSON library, SQLite
  (\<open>creates_once\<close>), the answers of asio to each request, the parsing and printing of IP
  addresses, the local time as text, and the values of members that are not initialised. The theories of blocks,
  addresses and the server take \<open>SK256\<close> and \<open>SK1024\<close> as arguments too, and ask for the size of their results
  (\<open>hash_ok\<close>); \<open>Hash_Platform\<close> discharges this for the functions of the source. Each hypothesis on them has a concrete instance in a witness.

  \<^bold>\<open>What the theorems show.\<close> Money: a round is paid account by account (\<open>update_balances_accounts\<close>), conserves
  the reward after the fee, is undone by a refund up to the rest of the block finder, and a block is refunded
  once; the coinbase stays within its reward (\<open>Payout_Rounds\<close>, \<open>Store_Properties\<close>, \<open>Guard_Properties\<close>). Shares:
  the sieve is the sieve of primes, the cluster search ends after at most 1160 candidates, and its result fits
  32 bits (\<open>Prime_Properties\<close>). Files and frames are read back (\<open>Store_Properties\<close>, \<open>Wire_Properties\<close>), and so are
  addresses (\<open>Address_Properties\<close>). The running server, from its start and for every sequence of events: its
  state keeps its form, members have accounts, sessions change at each event exactly as specified, block requests
  reach the wallet (\<open>Server_Properties\<close>). Hashes: Keccak is the sponge and the duplex construction over the permutation of
  FIPS 202 however the message is cut into parts, Skein is the iteration of its block function, and every template
  returns (\<open>Hash_Properties\<close>, \<open>Keccak_Duplex\<close>). Hexadecimal text and endpoints are read back (\<open>Uint_Text\<close>,
  \<open>Network_Properties\<close>), and the calls a connection makes to its handler keep their contract. On the network the
  server sees only events of its model, each connection is held, open and awaited exactly while the server has
  it, and no frame is lost or sent twice (\<open>network_drives_server\<close>); every start of a timer is called once
  (\<open>timer_keeps_promises\<close>), and the server starts its timers only while they are idle (\<open>timers_start_idle\<close>).
  Theorems that state a defect of the code: no share is ever accepted because
  the tables of the share check are never initialised; a closed miner connection and a lost wallet connection
  make the server dereference a null pointer; the coinbase is set again after every \<open>COINBASE_SET\<close>; miners
  behind one address share one entry; a ban file is not loaded; the default fee takes the whole reward; a
  message of about 4 GB makes the sponge loop for ever or leave its state; one failed accept makes the server deaf;
  a receipt is taken for one packet, whatever TCP put into it; a frame of a connection can be overtaken by later
  ones; an account of more than \<open>2 ^ 32\<close> loses its high half at a restart; the statistics database is never
  initialised, and using or closing it reads pointers that were never set.

  \<^bold>\<open>Bounds.\<close> No definition uses fuel. The bound 1160 of the cluster search is proved for the sieve of the code
  from the residues modulo 3, 5, 7 and 11. Sizes that the code casts to \<open>int\<close> are below \<open>2 ^ 31\<close> where a
  theorem says so. The sponge is the one of the standard for parts shorter than \<open>2 ^ 32 - 200\<close> bytes, below which
  its 32 bit counter cannot wrap; the sizes of Skein messages are natural numbers.

  \<^bold>\<open>Not modelled.\<close> Log lines and printing; threads inside an operation, signals and the destructor of the
  server; partial sends of \<open>async_send\<close> and the heap that orders many timers; the tree mode and the debug output
  of Skein, and the big endian branches of the hash functions; the operations of the statistics database whose
  bodies are empty; the factory of \<open>chrono/\<close>, which only constructs timers; the operators of the classes derived from \<open>base_uint\<close>,
  which forward to it; vendored code (JSON, SQLite, spdlog, MPIR, and asio beyond the addresses,
  the timer and the queue of the system executor).
\<close>

end
